(* ===== verification/Prelude.thy ===== *)
theory Prelude
  imports Main "HOL-Library.Word" "HOL-Library.Monad_Syntax"
begin

text \<open>
  Shared vocabulary of the development: the fixed-width integers of the C++ sources as words,
  byte strings as lists of 8-bit words, the \<^emph>\<open>big-endian\<close> layout of a word, a memory region that is
  overwritten in place, and two interfaces every component uses: a deterministic machine that keeps
  an invariant, and a self-delimiting wire codec.

  Conventions. \<open>std::size_t\<close> values that count bytes or elements of a live container are \<open>nat\<close>;
  wherever the source computes with a value an attacker chooses, the wrap at \<open>2 ^ 64\<close> is written
  out. Serial numbers and wire fields keep their width. A read or write outside a buffer, undefined
  in C++, is the value \<open>None\<close> of an \<open>option\<close>, and the components prove that it never happens.
\<close>

unbundle bit_operations_syntax

type_synonym u8 = "8 word"
type_synonym u16 = "16 word"
type_synonym u32 = "32 word"
type_synonym u64 = "64 word"
type_synonym bytes = "u8 list"

named_theorems wire_layout \<open>what each encoder of the wire library writes\<close>

named_theorems safe_intro \<open>operations that stay inside their buffers\<close>

text \<open>The largest value of \<open>std::size_t\<close> on the 64-bit targets.\<close>

definition size_max :: nat where
  "size_max = 2 ^ 64 - 1"

text \<open>Bitwise reasoning that leaves numerals alone.\<close>

lemmas word_bits = bit_or_iff bit_and_iff bit_xor_iff bit_not_iff bit_unsigned_iff bit_mask_iff
  bit_take_bit_iff bit_drop_bit_eq bit_push_bit_iff

subsection \<open>Big-endian layout\<close>

fun be_bytes :: "nat \<Rightarrow> 'a::len word \<Rightarrow> bytes" where
  "be_bytes 0 w = []"
| "be_bytes (Suc n) w = ucast (drop_bit (8 * n) w) # be_bytes n w"

fun be_word_acc :: "'a::len word \<Rightarrow> bytes \<Rightarrow> 'a word" where
  "be_word_acc acc [] = acc"
| "be_word_acc acc (b # bs) = be_word_acc (push_bit 8 acc OR ucast b) bs"

definition be_word :: "bytes \<Rightarrow> 'a::len word" where
  "be_word bs = be_word_acc 0 bs"

lemma length_be_bytes [simp]: "length (be_bytes n w) = n"
  by (induction n) auto

lemma be_bytes_eq_Nil [simp]: "be_bytes n w = [] \<longleftrightarrow> n = 0"
  by (cases n) auto

lemma be_word_acc_be_bytes:
  "be_word_acc acc (be_bytes n w) = push_bit (8 * n) acc OR take_bit (8 * n) w"
proof (induction n arbitrary: acc)
  case 0
  then show ?case by simp
next
  case (Suc n)
  have "push_bit (8 * n) (push_bit 8 acc OR ucast (ucast (drop_bit (8 * n) w) :: u8)) OR take_bit (8 * n) w
     = push_bit (8 + 8 * n) acc OR take_bit (8 + 8 * n) w"
    by (rule bit_word_eqI) (auto simp: bit_simps algebra_simps)
  with Suc show ?case by simp
qed

lemma be_word_be_bytes [simp]:
  "LENGTH('a::len) \<le> 8 * n \<Longrightarrow> be_word (be_bytes n (w :: 'a word)) = w"
  by (simp add: be_word_def be_word_acc_be_bytes take_bit_word_eq_self)

lemma be_word_acc_or:
  "be_word_acc (acc :: 'a::len word) bs = push_bit (8 * length bs) acc OR be_word_acc 0 bs"
proof (induction bs arbitrary: acc)
  case Nil
  then show ?case by simp
next
  case (Cons b bs)
  have "be_word_acc acc (b # bs)
      = push_bit (8 * length bs) (push_bit 8 acc OR ucast b) OR be_word_acc 0 bs"
    using Cons [of "push_bit 8 acc OR ucast b"] by simp
  moreover have "(be_word_acc 0 (b # bs) :: 'a word)
      = push_bit (8 * length bs) (ucast b) OR be_word_acc 0 bs"
    using Cons [of "ucast b :: 'a word"] by simp
  ultimately show ?case
    by (simp add: push_bit_or or.assoc algebra_simps)
qed

lemma be_word_Cons:
  "(be_word (b # bs) :: 'a::len word) = push_bit (8 * length bs) (ucast b) OR be_word bs"
  using be_word_acc_or [of "ucast b :: 'a word" bs] by (simp add: be_word_def)

lemma take_bit_be_word: "take_bit (8 * length bs) (be_word bs :: 'a::len word) = be_word bs"
proof (induction bs)
  case Nil
  then show ?case by (simp add: be_word_def)
next
  case (Cons b bs)
  have "take_bit (8 * length (b # bs)) (be_word (b # bs) :: 'a word)
      = push_bit (8 * length bs) (ucast b) OR take_bit (8 * length bs) (be_word bs)"
    by (rule bit_word_eqI)
      (subst be_word_Cons, subst (1 2) Cons.IH [symmetric],
        auto simp: bit_simps dest: bit_imp_le_length)
  then show ?case by (simp add: be_word_Cons Cons.IH)
qed

lemma be_bytes_high_or: "be_bytes n (push_bit (8 * n) acc OR w) = be_bytes n w"
proof -
  have "i \<le> n \<Longrightarrow> be_bytes i (push_bit (8 * n) acc OR w) = be_bytes i w" for i
  proof (induction i)
    case 0
    then show ?case by simp
  next
    case (Suc i)
    have "(ucast (drop_bit (8 * i) (push_bit (8 * n) acc OR w)) :: u8) = ucast (drop_bit (8 * i) w)"
      using Suc.prems by (intro bit_word_eqI) (auto simp: bit_simps)
    with Suc show ?case by simp
  qed
  then show ?thesis by simp
qed

lemma be_bytes_be_word:
  "8 * length bs \<le> LENGTH('a::len) \<Longrightarrow> be_bytes (length bs) (be_word bs :: 'a word) = bs"
proof (induction bs)
  case Nil
  then show ?case by simp
next
  case (Cons b bs)
  have "(ucast (drop_bit (8 * length bs) (be_word (b # bs) :: 'a word)) :: u8) = b"
    using Cons.prems
    by (subst be_word_Cons, subst take_bit_be_word [symmetric])
      (intro bit_word_eqI; auto simp: bit_simps dest: bit_imp_le_length)
  with Cons show ?case by (simp add: be_word_Cons be_bytes_high_or)
qed

lemma be_bytes_be_word_length:
  "length bs = n \<Longrightarrow> 8 * n \<le> LENGTH('a::len) \<Longrightarrow> be_bytes n (be_word bs :: 'a word) = bs"
  using be_bytes_be_word [of bs, where 'a = 'a] by simp

lemma be_bytes_inject:
  "LENGTH('a::len) \<le> 8 * n \<Longrightarrow> be_bytes n (v :: 'a word) = be_bytes n w \<longleftrightarrow> v = w"
  by (metis be_word_be_bytes)

subsection \<open>Lists\<close>

lemma take_append_exact [simp]: "length xs = n \<Longrightarrow> take n (xs @ ys) = xs"
  by simp

lemma drop_append_exact [simp]: "length xs = n \<Longrightarrow> drop n (xs @ ys) = ys"
  by simp

lemma drop_append_le: "n \<le> length xs \<Longrightarrow> drop n (xs @ ys) = drop n xs @ ys"
  by simp

lemma take_append_le: "n \<le> length xs \<Longrightarrow> take n (xs @ ys) = take n xs"
  by simp

lemma sum_list_map_replace:
  fixes f :: "'a \<Rightarrow> nat"
  assumes "i < length xs"
  shows "sum_list (map f (xs[i := x])) + f (xs ! i) = sum_list (map f xs) + f x"
  using assms
proof (induction xs arbitrary: i)
  case Nil
  then show ?case by simp
next
  case (Cons y ys)
  then show ?case by (cases i) (auto simp: algebra_simps)
qed

subsection \<open>A region overwritten in place\<close>

text \<open>
  \<open>overwrite off bs mem\<close> is \<open>std::memcpy(mem + off, bs, size(bs))\<close>; \<open>None\<close> when the destination
  does not lie inside the region.
\<close>

definition overwrite :: "nat \<Rightarrow> 'a list \<Rightarrow> 'a list \<Rightarrow> 'a list option" where
  "overwrite off bs mem =
     (if off + length bs \<le> length mem
      then Some (take off mem @ bs @ drop (off + length bs) mem) else None)"

lemma overwrite_length: "overwrite off bs mem = Some mem' \<Longrightarrow> length mem' = length mem"
  by (auto simp: overwrite_def split: if_splits)

lemma overwrite_prefix:
  "length pre = off \<Longrightarrow> off + length bs \<le> length pre + length post \<Longrightarrow>
   overwrite off bs (pre @ post) = Some (pre @ bs @ drop (length bs) post)"
  by (simp add: overwrite_def)

lemma take_4_nth: "4 \<le> length xs \<Longrightarrow> take 4 xs = [xs ! 0, xs ! 1, xs ! 2, xs ! 3]"
  by (auto simp: eval_nat_numeral Suc_le_length_iff)

text \<open>\<open>std::vector<std::byte>::resize\<close>: the prefix is kept, new elements are zero.\<close>

definition vec_resize :: "nat \<Rightarrow> bytes \<Rightarrow> bytes" where
  "vec_resize n v = take n v @ replicate (n - length v) 0"

lemma length_vec_resize [simp]: "length (vec_resize n v) = n"
  by (simp add: vec_resize_def)

subsection \<open>Computations without a fault\<close>

definition safely :: "('a \<Rightarrow> bool) \<Rightarrow> 'a option \<Rightarrow> bool" where
  "safely P m \<longleftrightarrow> (\<exists>x. m = Some x \<and> P x)"

lemma safely_Some [simp]: "safely P (Some x) \<longleftrightarrow> P x"
  by (simp add: safely_def)

lemma safely_bind [safe_intro]: "safely (\<lambda>x. safely Q (f x)) m \<Longrightarrow> safely Q (Option.bind m f)"
  by (auto simp: safely_def)

lemma safely_ex: "safely (\<lambda>_. True) m \<longleftrightarrow> (\<exists>x. m = Some x)"
  by (simp add: safely_def)

lemma safely_mono: "safely P m \<Longrightarrow> (\<And>x. P x \<Longrightarrow> Q x) \<Longrightarrow> safely Q m"
  by (auto simp: safely_def)

subsection \<open>Machines that keep an invariant\<close>

text \<open>
  Most components are deterministic machines: a state, an event alphabet and a step that answers
  with outputs. A component that keeps its invariant in every step keeps it along every run.
\<close>

fun run :: "('s \<Rightarrow> 'e \<Rightarrow> 's \<times> 'o list) \<Rightarrow> 's \<Rightarrow> 'e list \<Rightarrow> 's \<times> 'o list" where
  "run step s [] = (s, [])"
| "run step s (e # es) =
     (let (s', out) = step s e; (s'', out') = run step s' es in (s'', out @ out'))"

lemma run_append:
  "run step s (es @ fs) =
     (let (s', out) = run step s es; (s'', out') = run step s' fs in (s'', out @ out'))"
  by (induction es arbitrary: s) (auto split: prod.splits)

locale machine =
  fixes step :: "'s \<Rightarrow> 'e \<Rightarrow> 's \<times> 'o list"
    and inv :: "'s \<Rightarrow> bool"
  assumes inv_step: "inv s \<Longrightarrow> inv (fst (step s e))"
begin

lemma inv_run: "inv s \<Longrightarrow> inv (fst (run step s es))"
proof (induction es arbitrary: s)
  case Nil
  then show ?case by simp
next
  case (Cons e es)
  then show ?case
    using inv_step [OF Cons.prems, of e] by (auto split: prod.splits dest: Cons.IH)
qed

lemma step_out_run:
  assumes "inv s"
    and "\<And>s e x. inv s \<Longrightarrow> x \<in> set (snd (step s e)) \<Longrightarrow> P x"
    and "x \<in> set (snd (run step s es))"
  shows "P x"
  using assms(1,3)
proof (induction es arbitrary: s)
  case Nil
  then show ?case by simp
next
  case (Cons e es)
  obtain s' out where st: "step s e = (s', out)" by fastforce
  obtain s'' out' where rn: "run step s' es = (s'', out')" by fastforce
  have "inv s'" using inv_step [OF Cons.prems(1), of e] st by simp
  moreover have "x \<in> set out \<or> x \<in> set out'" using Cons.prems(2) st rn by simp
  ultimately show ?case
    using assms(2) [OF Cons.prems(1), of x e] Cons.IH [of s'] st rn by auto
qed

end

text \<open>The same for machines whose steps may fault: a step that never faults from the invariant.\<close>

fun run_safe :: "('s \<Rightarrow> 'e \<Rightarrow> ('s \<times> 'o list) option) \<Rightarrow> 's \<Rightarrow> 'e list \<Rightarrow> ('s \<times> 'o list) option" where
  "run_safe step s [] = Some (s, [])"
| "run_safe step s (e # es) = do {
     (s', out) \<leftarrow> step s e;
     (s'', out') \<leftarrow> run_safe step s' es;
     Some (s'', out @ out')
   }"

locale safe_machine =
  fixes step :: "'s \<Rightarrow> 'e \<Rightarrow> ('s \<times> 'o list) option"
    and inv :: "'s \<Rightarrow> bool"
  assumes safe_step: "inv s \<Longrightarrow> safely (\<lambda>(s', _). inv s') (step s e)"
begin

lemma safe_run_history:
  assumes "inv s" and "J s h" and "list_all P es"
    and keeps: "\<And>s e s' out h. inv s \<Longrightarrow> J s h \<Longrightarrow> P e \<Longrightarrow> step s e = Some (s', out) \<Longrightarrow> J s' (h @ out)"
  shows "\<exists>s' out. run_safe step s es = Some (s', out) \<and> inv s' \<and> J s' (h @ out)"
  using assms(1-3)
proof (induction es arbitrary: s h)
  case (Cons e es)
  obtain s' out where st: "step s e = Some (s', out)" "inv s'"
    using safe_step [OF Cons.prems(1), of e] by (auto simp: safely_def)
  obtain s'' out' where "run_safe step s' es = Some (s'', out')" "inv s''" "J s'' ((h @ out) @ out')"
    using Cons.IH [OF st(2) keeps [OF Cons.prems(1,2) _ st(1)]] Cons.prems(3) by auto
  with st show ?case by simp
qed simp

lemma safe_run: "inv s \<Longrightarrow> \<exists>s' out. run_safe step s es = Some (s', out) \<and> inv s'"
  using safe_run_history [of s "\<lambda>_ _. True" "[]" "\<lambda>_. True" es] by (auto simp: list_all_iff)

end

subsection \<open>Self-delimiting codecs\<close>

text \<open>
  The contract of a wire message: \<open>enc\<close> is the layout the encoder writes, \<open>wf\<close> the values it can
  write faithfully, \<open>dec\<close> the decoder over untrusted input, which takes the message off the front
  of its input and reports what is left. The client facts are injectivity, rejection of every
  truncation and the decoding of a back-to-back stream.
\<close>

locale wire_codec =
  fixes enc :: "'a \<Rightarrow> bytes"
    and dec :: "bytes \<Rightarrow> ('a \<times> bytes) option"
    and wf :: "'a \<Rightarrow> bool"
  assumes dec_enc: "wf x \<Longrightarrow> dec (enc x @ rest) = Some (x, rest)"
    and dec_truncated: "wf x \<Longrightarrow> n < length (enc x) \<Longrightarrow> dec (take n (enc x)) = None"
begin

lemma enc_inject: "wf x \<Longrightarrow> wf y \<Longrightarrow> enc x = enc y \<Longrightarrow> x = y"
  by (metis dec_enc option.inject prod.inject)

lemma enc_prefix_free:
  assumes "wf x" "wf y" "enc x @ r = enc y @ r'"
  shows "x = y \<and> r = r'"
  by (metis assms dec_enc option.inject prod.inject)

fun dec_stream :: "nat \<Rightarrow> bytes \<Rightarrow> ('a list \<times> bytes) option" where
  "dec_stream 0 bs = Some ([], bs)"
| "dec_stream (Suc n) bs =
     (case dec bs of None \<Rightarrow> None
      | Some (x, rest) \<Rightarrow> map_option (apfst ((#) x)) (dec_stream n rest))"

lemma dec_stream_enc:
  "list_all wf xs \<Longrightarrow> dec_stream (length xs) (concat (map enc xs) @ rest) = Some (xs, rest)"
  by (induction xs) (auto simp: dec_enc)

end

end
