(* ===== verification/Byte_Order.thy ===== *)
theory Byte_Order
  imports Prelude
begin

text \<open>
  \<open>plexus-wire/byte_order.h\<close>: the byte swap and the unaligned big-endian loads and stores every
  codec is built on. A store is \<open>std::memcpy\<close> of the host representation, a load is the inverse;
  the host order is the parameter \<open>little\<close> (\<open>std::endian::native == std::endian::little\<close>).
  A pointer is the byte list it points into together with an offset, and a load or a store that
  leaves the list is \<open>None\<close>. The lemmas show that both host orders give the same wire bytes, so
  that the components above need not mention the host.
\<close>

section \<open>The byte swap\<close>

definition byteswap16 :: "u16 \<Rightarrow> u16" where
  "byteswap16 value = drop_bit 8 value OR push_bit 8 value"

definition byteswap32 :: "u32 \<Rightarrow> u32" where
  "byteswap32 value =
     drop_bit 24 value OR (drop_bit 8 value AND 0x0000FF00)
     OR (push_bit 8 value AND 0x00FF0000) OR push_bit 24 value"

definition byteswap64 :: "u64 \<Rightarrow> u64" where
  "byteswap64 value =
     drop_bit 56 value OR (drop_bit 40 value AND 0x000000000000FF00)
     OR (drop_bit 24 value AND 0x0000000000FF0000) OR (drop_bit 8 value AND 0x00000000FF000000)
     OR (push_bit 8 value AND 0x000000FF00000000) OR (push_bit 24 value AND 0x0000FF0000000000)
     OR (push_bit 40 value AND 0x00FF000000000000) OR push_bit 56 value"

lemma swap_masks:
  "(0x0000FF00 :: u32) = push_bit 8 (mask 8)"
  "(0x00FF0000 :: u32) = push_bit 16 (mask 8)"
  "(0x000000000000FF00 :: u64) = push_bit 8 (mask 8)"
  "(0x0000000000FF0000 :: u64) = push_bit 16 (mask 8)"
  "(0x00000000FF000000 :: u64) = push_bit 24 (mask 8)"
  "(0x000000FF00000000 :: u64) = push_bit 32 (mask 8)"
  "(0x0000FF0000000000 :: u64) = push_bit 40 (mask 8)"
  "(0x00FF000000000000 :: u64) = push_bit 48 (mask 8)"
  by (simp_all add: mask_eq_exp_minus_1 push_bit_eq_mult)

lemma be_bytes_2: "be_bytes 2 w = [ucast (drop_bit 8 w), ucast w]"
  by (simp add: eval_nat_numeral)

lemma be_bytes_4:
  "be_bytes 4 w = [ucast (drop_bit 24 w), ucast (drop_bit 16 w), ucast (drop_bit 8 w), ucast w]"
  by (simp add: eval_nat_numeral)

lemma be_bytes_8:
  "be_bytes 8 w = [ucast (drop_bit 56 w), ucast (drop_bit 48 w), ucast (drop_bit 40 w),
     ucast (drop_bit 32 w), ucast (drop_bit 24 w), ucast (drop_bit 16 w), ucast (drop_bit 8 w), ucast w]"
  by (simp add: eval_nat_numeral)

lemma be_bytes_byteswap16: "rev (be_bytes 2 (byteswap16 v)) = be_bytes 2 v"
  unfolding be_bytes_2 byteswap16_def
  by (simp, intro conjI; rule bit_word_eqI; auto simp: bit_simps)

lemma be_bytes_byteswap32: "rev (be_bytes 4 (byteswap32 v)) = be_bytes 4 v"
  unfolding be_bytes_4 byteswap32_def swap_masks
  by (simp, intro conjI; rule bit_word_eqI; auto simp: bit_simps)

lemma be_bytes_byteswap64: "rev (be_bytes 8 (byteswap64 v)) = be_bytes 8 v"
  unfolding be_bytes_8 byteswap64_def swap_masks
  by (simp, intro conjI; rule bit_word_eqI; auto simp: bit_simps)

section \<open>Host stores and loads\<close>

definition host_store :: "bool \<Rightarrow> nat \<Rightarrow> 'a::len word \<Rightarrow> bytes" where
  "host_store little n v = (if little then rev (be_bytes n v) else be_bytes n v)"

definition host_load :: "bool \<Rightarrow> bytes \<Rightarrow> 'a::len word" where
  "host_load little bs = be_word (if little then rev bs else bs)"

definition wire_store16 :: "bool \<Rightarrow> u16 \<Rightarrow> bytes" where
  "wire_store16 little v = host_store little 2 (if little then byteswap16 v else v)"

definition wire_store32 :: "bool \<Rightarrow> u32 \<Rightarrow> bytes" where
  "wire_store32 little v = host_store little 4 (if little then byteswap32 v else v)"

definition wire_store64 :: "bool \<Rightarrow> u64 \<Rightarrow> bytes" where
  "wire_store64 little v = host_store little 8 (if little then byteswap64 v else v)"

definition wire_load16 :: "bool \<Rightarrow> bytes \<Rightarrow> u16" where
  "wire_load16 little bs =
     (let v = host_load little bs in if little then byteswap16 v else v)"

definition wire_load32 :: "bool \<Rightarrow> bytes \<Rightarrow> u32" where
  "wire_load32 little bs =
     (let v = host_load little bs in if little then byteswap32 v else v)"

definition wire_load64 :: "bool \<Rightarrow> bytes \<Rightarrow> u64" where
  "wire_load64 little bs =
     (let v = host_load little bs in if little then byteswap64 v else v)"

lemma wire_store_be:
  "wire_store16 little v16 = be_bytes 2 v16"
  "wire_store32 little v32 = be_bytes 4 v32"
  "wire_store64 little v64 = be_bytes 8 v64"
  by (simp_all add: wire_store16_def wire_store32_def wire_store64_def host_store_def
      be_bytes_byteswap16 be_bytes_byteswap32 be_bytes_byteswap64)

lemma swap_load:
  assumes "\<And>v :: 'a::len word. rev (be_bytes n (swp v)) = be_bytes n v"
    and "8 * n = LENGTH('a)" and "length bs = n"
  shows "swp (be_word (rev bs)) = (be_word bs :: 'a word)"
proof -
  have "be_bytes n (swp (be_word (rev bs) :: 'a word)) = rev (be_bytes n (be_word (rev bs) :: 'a word))"
    using assms(1) by (metis rev_rev_ident)
  also have "\<dots> = bs"
    using assms(2,3) by (simp add: be_bytes_be_word_length)
  finally show ?thesis
    using assms(2) by (metis be_word_be_bytes order_refl)
qed

lemma wire_load_be:
  "length bs = 2 \<Longrightarrow> wire_load16 little bs = be_word bs"
  "length bs = 4 \<Longrightarrow> wire_load32 little bs = be_word bs"
  "length bs = 8 \<Longrightarrow> wire_load64 little bs = be_word bs"
  by (simp_all add: wire_load16_def wire_load32_def wire_load64_def host_load_def
      swap_load [of 2, OF be_bytes_byteswap16] swap_load [of 4, OF be_bytes_byteswap32]
      swap_load [of 8, OF be_bytes_byteswap64])

section \<open>The loads and stores the codecs call\<close>

text \<open>The host of the development's evaluations is little-endian, the order of every CI target.\<close>

definition load_at :: "nat \<Rightarrow> bytes \<Rightarrow> nat \<Rightarrow> bytes option" where
  "load_at n mem off = (if off + n \<le> length mem then Some (take n (drop off mem)) else None)"

definition write_u8 :: "nat \<Rightarrow> u8 \<Rightarrow> bytes \<Rightarrow> bytes option" where
  "write_u8 off val mem = overwrite off [val] mem"

definition read_u8 :: "bytes \<Rightarrow> nat \<Rightarrow> u8 option" where
  "read_u8 mem off = map_option hd (load_at 1 mem off)"

definition write_u16 :: "nat \<Rightarrow> u16 \<Rightarrow> bytes \<Rightarrow> bytes option" where
  "write_u16 off val mem = overwrite off (wire_store16 True val) mem"

definition read_u16 :: "bytes \<Rightarrow> nat \<Rightarrow> u16 option" where
  "read_u16 mem off = map_option (wire_load16 True) (load_at 2 mem off)"

definition write_u32 :: "nat \<Rightarrow> u32 \<Rightarrow> bytes \<Rightarrow> bytes option" where
  "write_u32 off val mem = overwrite off (wire_store32 True val) mem"

definition read_u32 :: "bytes \<Rightarrow> nat \<Rightarrow> u32 option" where
  "read_u32 mem off = map_option (wire_load32 True) (load_at 4 mem off)"

definition write_u64 :: "nat \<Rightarrow> u64 \<Rightarrow> bytes \<Rightarrow> bytes option" where
  "write_u64 off val mem = overwrite off (wire_store64 True val) mem"

definition read_u64 :: "bytes \<Rightarrow> nat \<Rightarrow> u64 option" where
  "read_u64 mem off = map_option (wire_load64 True) (load_at 8 mem off)"

lemma write_be:
  "write_u8 off v8 mem = overwrite off [v8] mem"
  "write_u16 off v16 mem = overwrite off (be_bytes 2 v16) mem"
  "write_u32 off v32 mem = overwrite off (be_bytes 4 v32) mem"
  "write_u64 off v64 mem = overwrite off (be_bytes 8 v64) mem"
  by (simp_all add: write_u8_def write_u16_def write_u32_def write_u64_def wire_store_be)

lemma read_be:
  "off + 1 \<le> length mem \<Longrightarrow> read_u8 mem off = Some (mem ! off)"
  "off + 2 \<le> length mem \<Longrightarrow> read_u16 mem off = Some (be_word (take 2 (drop off mem)))"
  "off + 4 \<le> length mem \<Longrightarrow> read_u32 mem off = Some (be_word (take 4 (drop off mem)))"
  "off + 8 \<le> length mem \<Longrightarrow> read_u64 mem off = Some (be_word (take 8 (drop off mem)))"
  by (simp_all add: read_u8_def read_u16_def read_u32_def read_u64_def load_at_def wire_load_be hd_drop_conv_nth)

lemma read_out_of_bounds:
  "length mem < off + 1 \<Longrightarrow> read_u8 mem off = None"
  "length mem < off + 2 \<Longrightarrow> read_u16 mem off = None"
  "length mem < off + 4 \<Longrightarrow> read_u32 mem off = None"
  "length mem < off + 8 \<Longrightarrow> read_u64 mem off = None"
  by (simp_all add: read_u8_def read_u16_def read_u32_def read_u64_def load_at_def)

text \<open>
  The wire representation is big-endian on every host: a field stored by a host of either byte
  order and loaded by a host of either byte order is the field that was stored, and the two hosts
  produce the same bytes.
\<close>

lemma wire_host_independent:
  "wire_store16 h v16 = wire_store16 h' v16 \<and> wire_load16 h' (wire_store16 h v16) = v16
   \<and> wire_store32 h v32 = wire_store32 h' v32 \<and> wire_load32 h' (wire_store32 h v32) = v32
   \<and> wire_store64 h v64 = wire_store64 h' v64 \<and> wire_load64 h' (wire_store64 h v64) = v64"
  by (simp add: wire_store_be wire_load_be)

end
