(* ===== verification/Varint.thy ===== *)
theory Varint
  imports Byte_Order
begin

text \<open>
  \<open>plexus-wire/varint.h\<close>: the LEB128 codec of an unsigned 64-bit counter. The decoder reads
  untrusted bytes from an in/out offset \<open>consumed\<close>; the model returns the value together with the new
  offset, and \<open>None\<close> where the source returns \<open>nullopt\<close> and leaves the offset alone.
\<close>

definition k_max_varint_bytes :: nat where
  "k_max_varint_bytes = 10"

text \<open>One byte of the decoder: whether the loop ends, the accumulated value, the overflow flag.\<close>

definition varint_step :: "u8 \<Rightarrow> nat \<Rightarrow> u64 \<Rightarrow> bool \<times> u64 \<times> bool" where
  "varint_step byte i value =
     (let payload = (ucast (byte AND 0x7F) :: u64) in
      if i = k_max_varint_bytes - 1 \<and> payload > 0x01 then (True, value, True)
      else (byte AND 0x80 = 0, value OR push_bit (7 * i) payload, False))"

function read_varint_loop :: "bytes \<Rightarrow> nat \<Rightarrow> nat \<Rightarrow> u64 \<Rightarrow> (u64 \<times> nat) option" where
  "read_varint_loop data offset i value =
     (if i < k_max_varint_bytes then
        (if offset \<ge> length data then None
         else
           (let (stop, value', overflow) = varint_step (data ! offset) i value in
            if stop then (if overflow then None else Some (value', offset + 1))
            else read_varint_loop data (offset + 1) (i + 1) value'))
      else None)"
  by pat_completeness auto
termination
  by (relation "measure (\<lambda>(data, offset, i, value). k_max_varint_bytes - i)") auto

declare read_varint_loop.simps [simp del]

definition read_varint :: "bytes \<Rightarrow> nat \<Rightarrow> (u64 \<times> nat) option" where
  "read_varint data consumed =
     (if consumed > length data then None else read_varint_loop data consumed 0 0)"

function varint_size_loop :: "u64 \<Rightarrow> nat \<Rightarrow> nat" where
  "varint_size_loop value bytes =
     (let value' = drop_bit 7 value in
      if value' \<noteq> 0 then varint_size_loop value' (bytes + 1) else bytes)"
  by pat_completeness auto

lemma unat_drop_bit_7: "unat (drop_bit 7 v) = unat (v :: u64) div 128"
  by (simp add: drop_bit_eq_div unat_div)

lemma drop_bit_7_less: "drop_bit 7 v \<noteq> 0 \<Longrightarrow> unat (drop_bit 7 v) < unat (v :: u64)"
proof -
  assume nz: "drop_bit 7 v \<noteq> 0"
  from nz have "unat v \<noteq> 0"
    by (metis drop_bit_of_0 unat_eq_zero)
  then show ?thesis by (simp add: unat_drop_bit_7)
qed

termination varint_size_loop
  by (relation "measure (\<lambda>(value, bytes). unat value)") (auto simp: drop_bit_7_less)

declare varint_size_loop.simps [simp del]

definition varint_size :: "u64 \<Rightarrow> nat" where
  "varint_size value = varint_size_loop value 1"

function varint_bytes :: "u64 \<Rightarrow> bytes" where
  "varint_bytes value =
     (let byte = (ucast (value AND 0x7F) :: u8); value' = drop_bit 7 value in
      if value' \<noteq> 0 then (byte OR 0x80) # varint_bytes value' else [byte])"
  by pat_completeness auto
termination
  by (relation "measure unat") (auto simp: drop_bit_7_less)

declare varint_bytes.simps [simp del]

definition write_varint :: "bytes \<Rightarrow> u64 \<Rightarrow> bytes" where
  "write_varint out value = out @ varint_bytes value"

section \<open>Length of an encoding\<close>

lemma varint_size_loop_add: "varint_size_loop v (b + c) = varint_size_loop v b + c"
proof (induction v b rule: varint_size_loop.induct)
  case (1 v b)
  then show ?case
    by (subst (1 2) varint_size_loop.simps) (auto simp: Let_def)
qed

lemma varint_size_rec:
  "varint_size v = (if drop_bit 7 v \<noteq> 0 then varint_size (drop_bit 7 v) + 1 else 1)"
  unfolding varint_size_def
  using varint_size_loop_add [of "drop_bit 7 v" 1 1]
  by (subst varint_size_loop.simps) (simp add: Let_def)

lemma length_varint_bytes: "length (varint_bytes v) = varint_size v"
proof (induction v rule: varint_bytes.induct)
  case (1 v)
  then show ?case
    by (subst varint_bytes.simps, subst varint_size_rec) (auto simp: Let_def)
qed

lemma varint_size_bits: "0 < n \<Longrightarrow> unat v < 2 ^ (7 * n) \<Longrightarrow> varint_size v \<le> n"
proof (induction n arbitrary: v)
  case 0
  then show ?case by simp
next
  case (Suc n)
  show ?case
  proof (cases "drop_bit 7 v = 0")
    case True
    then show ?thesis by (subst varint_size_rec) simp
  next
    case False
    have d: "unat (drop_bit 7 v) = unat v div 128"
      by (rule unat_drop_bit_7)
    have "unat v < 2 ^ (7 * n) * 128"
      using Suc.prems by (simp add: power_add mult.commute)
    then have lt: "unat (drop_bit 7 v) < 2 ^ (7 * n)"
      by (simp add: d less_mult_imp_div_less)
    have "n \<noteq> 0"
    proof
      assume "n = 0"
      with lt have "unat (drop_bit 7 v) = 0" by simp
      with False show False by (simp add: unat_eq_zero)
    qed
    with Suc.IH lt have "varint_size (drop_bit 7 v) \<le> n" by simp
    with False show ?thesis by (subst varint_size_rec) simp
  qed
qed

lemma varint_size_le: "varint_size v \<le> k_max_varint_bytes"
proof -
  have "unat v < 2 ^ 64" using unsigned_less [of v] by simp
  also have "\<dots> \<le> 2 ^ (7 * 10 :: nat)" by simp
  finally show ?thesis
    unfolding k_max_varint_bytes_def by (intro varint_size_bits) auto
qed

lemma varint_size_pos [simp]: "0 < varint_size v"
  by (subst varint_size_rec) simp

section \<open>Reading back what was written\<close>

text \<open>
  After \<open>i\<close> bytes the loop has the low \<open>7 * i\<close> bits of the value, and the writer still has to
  write the value shifted by as much.
\<close>

lemma take_bit_step:
  "take_bit (7 * i) w OR push_bit (7 * i) (drop_bit (7 * i) w AND 0x7F) = take_bit (7 * i + 7) (w :: u64)"
proof -
  have m: "(0x7F :: u64) = mask 7" by (simp add: mask_eq_exp_minus_1)
  show ?thesis unfolding m by (rule bit_word_eqI) (auto simp: bit_simps)
qed

lemma bit_0x80: "bit (0x80 :: int) n \<longleftrightarrow> n = 7"
  using bit_exp_iff [of 7 n, where 'a = int] by auto

lemma varint_masks: "(0x7F :: u64) = mask 7" "(0x7F :: u8) = mask 7"
  by (simp_all add: mask_eq_exp_minus_1)

lemma varint_payload:
  "(ucast ((ucast (v AND 0x7F) :: u8) AND 0x7F) :: u64) = v AND 0x7F"
  "(ucast (((ucast (v AND 0x7F) :: u8) OR 0x80) AND 0x7F) :: u64) = v AND 0x7F"
  unfolding varint_masks by (rule bit_word_eqI; auto simp: word_bits bit_0x80)+

lemma varint_continuation:
  "((ucast (v AND (0x7F :: u64)) :: u8) AND 0x80) = 0"
  "((ucast (v AND (0x7F :: u64)) :: u8) OR 0x80) AND 0x80 \<noteq> 0"
proof -
  show "((ucast (v AND (0x7F :: u64)) :: u8) AND 0x80) = 0"
    unfolding varint_masks by (rule bit_word_eqI) (auto simp: word_bits bit_0x80)
  have "bit (((ucast (v AND (0x7F :: u64)) :: u8) OR 0x80) AND 0x80) 7"
    by (simp add: word_bits bit_0x80)
  then show "((ucast (v AND (0x7F :: u64)) :: u8) OR 0x80) AND 0x80 \<noteq> 0"
    by (metis bit_0_eq bot_apply bot_bool_def)
qed

lemma varint_last_payload: "drop_bit 63 (w :: u64) AND 0x7F \<le> 1"
proof -
  have "unat (drop_bit 63 w) = unat w div 2 ^ 63"
    by (subst unat_drop_bit_eq) (rule drop_bit_eq_div)
  moreover have "unat w < 2 ^ 64" using unsigned_less [of w] by simp
  ultimately have "unat (drop_bit 63 w) \<le> 1" by simp
  then have "drop_bit 63 w \<le> 1" by (simp add: word_le_nat_alt)
  then show ?thesis using word_and_le2 order_trans by blast
qed

lemma varint_step_written:
  assumes "i < k_max_varint_bytes"
  shows "varint_step (ucast (drop_bit (7 * i) w AND 0x7F)) i (take_bit (7 * i) w)
           = (True, take_bit (7 * i + 7) w, False)"
    and "drop_bit (7 * i + 7) w \<noteq> 0 \<Longrightarrow>
         varint_step (ucast (drop_bit (7 * i) w AND 0x7F) OR 0x80) i (take_bit (7 * i) w)
           = (False, take_bit (7 * i + 7) w, False)"
proof -
  have last: "\<not> (i = k_max_varint_bytes - 1 \<and> drop_bit (7 * i) w AND 0x7F > 1)"
    using varint_last_payload [of w] by (auto simp: k_max_varint_bytes_def not_less)
  then show "varint_step (ucast (drop_bit (7 * i) w AND 0x7F)) i (take_bit (7 * i) w)
           = (True, take_bit (7 * i + 7) w, False)"
    unfolding varint_step_def Let_def varint_payload
    by (simp only: if_False varint_continuation take_bit_step simp_thms)
  show "varint_step (ucast (drop_bit (7 * i) w AND 0x7F) OR 0x80) i (take_bit (7 * i) w)
           = (False, take_bit (7 * i + 7) w, False)"
    using last unfolding varint_step_def Let_def varint_payload
    by (simp only: if_False varint_continuation take_bit_step simp_thms)
qed

lemma read_varint_loop_written:
  assumes "length pre = k" and "k + varint_size (drop_bit (7 * i) w) = k + m"
    and "i + m \<le> k_max_varint_bytes"
  shows "read_varint_loop (pre @ varint_bytes (drop_bit (7 * i) w) @ rest) k i (take_bit (7 * i) w)
           = Some (w, k + m)"
  using assms
proof (induction m arbitrary: i k pre)
  case 0
  then show ?case using varint_size_pos [of "drop_bit (7 * i) w"] by simp
next
  case (Suc m)
  let ?v = "drop_bit (7 * i) w"
  have i: "i < k_max_varint_bytes" using Suc.prems by simp
  have dd: "drop_bit 7 ?v = drop_bit (7 * i + 7) w" by (simp add: drop_bit_drop_bit add.commute)
  show ?case
  proof (cases "drop_bit (7 * i + 7) w = 0")
    case True
    have tb: "take_bit (7 * i + 7) w = w"
      using True by (metis bits_ident push_bit_of_0 add_0)
    have vb: "varint_bytes ?v = [ucast (?v AND 0x7F)]"
      using True dd by (subst varint_bytes.simps) (simp add: Let_def)
    have "m = 0" using Suc.prems(2) True dd by (subst (asm) varint_size_rec) simp
    with i Suc.prems(1) show ?thesis
      by (subst read_varint_loop.simps)
        (simp add: vb varint_step_written(1) [OF i] tb nth_append)
  next
    case False
    have vb: "varint_bytes ?v = (ucast (?v AND 0x7F) OR 0x80) # varint_bytes (drop_bit (7 * Suc i) w)"
      using False dd by (subst varint_bytes.simps) (simp add: Let_def add.commute)
    have sz: "varint_size (drop_bit (7 * Suc i) w) = m"
      using Suc.prems(2) False dd by (subst (asm) varint_size_rec) (simp add: add.commute)
    have "read_varint_loop ((pre @ [ucast (?v AND 0x7F) OR 0x80]) @ varint_bytes (drop_bit (7 * Suc i) w) @ rest)
            (Suc k) (Suc i) (take_bit (7 * Suc i) w) = Some (w, Suc k + m)"
      using Suc.prems sz by (intro Suc.IH) auto
    with i Suc.prems(1) show ?thesis
      by (subst read_varint_loop.simps)
        (simp add: vb varint_step_written(2) [OF i False] nth_append add.commute)
  qed
qed

lemma read_varint_append:
  "read_varint (pre @ varint_bytes v @ rest) (length pre) = Some (v, length pre + varint_size v)"
  using read_varint_loop_written [of pre "length pre" 0 v "varint_size v" rest] varint_size_le [of v]
  by (simp add: read_varint_def)

lemma read_varint_loop_bounds:
  "read_varint_loop data offset i acc = Some (v, offset') \<Longrightarrow>
   offset < offset' \<and> offset' \<le> length data \<and> offset' + i \<le> offset + k_max_varint_bytes"
proof (induction data offset i acc rule: read_varint_loop.induct)
  case (1 data offset i acc)
  show ?case
    using "1.prems"
    by (subst (asm) read_varint_loop.simps)
      (fastforce dest: "1.IH" split: if_splits prod.splits)
qed

lemma read_varint_bounds:
  "read_varint data consumed = Some (v, consumed') \<Longrightarrow>
   consumed < consumed' \<and> consumed' \<le> length data \<and> consumed' \<le> consumed + k_max_varint_bytes"
  using read_varint_loop_bounds [of data consumed 0 0 v consumed']
  by (auto simp: read_varint_def split: if_splits)

lemma read_varint_loop_truncated:
  assumes "length pre = k" and "n < varint_size v"
  shows "read_varint_loop (pre @ take n (varint_bytes v)) k i acc = None"
  using assms
proof (induction n arbitrary: pre k v i acc)
  case 0
  then show ?case by (subst read_varint_loop.simps) simp
next
  case (Suc n)
  have nz: "drop_bit 7 v \<noteq> 0" and n: "n < varint_size (drop_bit 7 v)"
    using Suc.prems(2) by (auto simp: varint_size_rec [of v] split: if_splits)
  let ?b = "ucast (v AND 0x7F) OR 0x80 :: u8"
  have vb: "varint_bytes v = ?b # varint_bytes (drop_bit 7 v)"
    using nz by (subst varint_bytes.simps) (simp add: Let_def)
  have "read_varint_loop ((pre @ [?b]) @ take n (varint_bytes (drop_bit 7 v))) (Suc k) (Suc i) acc' = None" for acc'
    using Suc.prems n by (intro Suc.IH) auto
  moreover have "fst (varint_step ?b i acc) \<longrightarrow> snd (snd (varint_step ?b i acc))"
    using varint_continuation(2) [of v] by (simp add: varint_step_def Let_def)
  ultimately show ?case
    using Suc.prems(1) by (subst read_varint_loop.simps) (auto simp: vb nth_append split: prod.splits)
qed

text \<open>
  The varint codec: the size computed ahead of a write is the number of bytes written and is
  between 1 and 10; the decoder reads back exactly the value written, from any offset and with any
  bytes behind it, and stops right behind it; it rejects every proper prefix of an encoding.
\<close>

lemma varint_roundtrip:
  "length (write_varint out v) = length out + varint_size v
   \<and> 1 \<le> varint_size v \<and> varint_size v \<le> k_max_varint_bytes
   \<and> read_varint (write_varint out v @ rest) (length out) = Some (v, length out + varint_size v)
   \<and> (\<forall>n < varint_size v.
        read_varint (take (length out + n) (write_varint out v)) (length out) = None)"
  using varint_size_pos [of v] read_varint_append [of out v rest]
  by (auto simp: write_varint_def length_varint_bytes varint_size_le read_varint_def Suc_leI
      read_varint_loop_truncated simp del: varint_size_pos)

lemma varint_roundtrip_witness:
  "varint_bytes 300 = [0xAC, 0x02] \<and> read_varint (write_varint [7] 300 @ [9]) 1 = Some (300, 3)"
proof -
  have "varint_bytes 300 = [0xAC, 0x02]"
    by (subst varint_bytes.simps, subst varint_bytes.simps) (simp add: Let_def drop_bit_eq_div)
  moreover have "varint_size 300 = 2"
    by (simp add: length_varint_bytes [symmetric] calculation)
  ultimately show ?thesis
    using varint_roundtrip [of "[7]" 300 "[9]"] by simp
qed

end
