(* ===== verification/Cursor.thy ===== *)
theory Cursor
  imports Varint
begin

text \<open>
  \<open>plexus-wire/length_prefixed.h\<close>, \<open>reader.h\<close> and \<open>writer.h\<close>: the bounds gate for a length-prefixed
  region and the two sequential cursors every codec is written with. The outer \<open>option\<close> of an
  operation is memory safety (\<open>None\<close> is an access outside the buffer), an inner one is the value the
  C++ function returns (\<open>None\<close> is \<open>std::nullopt\<close>).
\<close>

section \<open>The length-prefix gate\<close>

text \<open>\<open>w\<close> is \<open>sizeof(UIntT)\<close>; the template is instantiated with 1, 2, 4 and 8.\<close>

definition read_length_value :: "nat \<Rightarrow> bytes \<Rightarrow> nat \<Rightarrow> nat option" where
  "read_length_value w mem at_off =
     (if w = 1 then map_option unat (read_u8 mem at_off)
      else if w = 2 then map_option unat (read_u16 mem at_off)
      else if w = 4 then map_option unat (read_u32 mem at_off)
      else if w = 8 then map_option unat (read_u64 mem at_off)
      else None)"

definition read_length_prefixed :: "nat \<Rightarrow> bytes \<Rightarrow> nat \<Rightarrow> nat \<Rightarrow> (bytes \<times> nat) option option" where
  "read_length_prefixed w data consumed element_size =
     (if consumed > length data then Some None
      else let remaining_after_consumed = length data - consumed in
      if remaining_after_consumed < w then Some None
      else do {
        len \<leftarrow> read_length_value w data consumed;
        if element_size \<noteq> 0 \<and> len > size_max div element_size then Some None
        else let payload_bytes = (len * element_size) mod 2 ^ 64;
                 after_prefix = remaining_after_consumed - w in
        if payload_bytes > after_prefix then Some None
        else let payload_offset = consumed + w in
        do {
          payload \<leftarrow> load_at payload_bytes data payload_offset;
          Some (Some (payload, payload_offset + payload_bytes))
        }
      })"

section \<open>The reader\<close>

record reader =
  rd_data :: bytes
  rd_offset :: nat
  rd_ok :: bool

definition reader_of :: "bytes \<Rightarrow> reader" where
  "reader_of data = \<lparr>rd_data = data, rd_offset = 0, rd_ok = True\<rparr>"

definition reader_remaining :: "reader \<Rightarrow> nat" where
  "reader_remaining r = length (rd_data r) - rd_offset r"

definition reader_take :: "nat \<Rightarrow> reader \<Rightarrow> bool \<times> reader" where
  "reader_take width r =
     (if \<not> rd_ok r \<or> reader_remaining r < width then (False, r\<lparr>rd_ok := False\<rparr>)
      else (True, r\<lparr>rd_offset := rd_offset r + width\<rparr>))"

definition reader_u8 :: "reader \<Rightarrow> (u8 \<times> reader) option" where
  "reader_u8 r = (case reader_take 1 r of
       (False, r') \<Rightarrow> Some (0, r')
     | (True, r') \<Rightarrow> map_option (\<lambda>v. (v, r')) (read_u8 (rd_data r') (rd_offset r' - 1)))"

definition reader_u16 :: "reader \<Rightarrow> (u16 \<times> reader) option" where
  "reader_u16 r = (case reader_take 2 r of
       (False, r') \<Rightarrow> Some (0, r')
     | (True, r') \<Rightarrow> map_option (\<lambda>v. (v, r')) (read_u16 (rd_data r') (rd_offset r' - 2)))"

definition reader_u32 :: "reader \<Rightarrow> (u32 \<times> reader) option" where
  "reader_u32 r = (case reader_take 4 r of
       (False, r') \<Rightarrow> Some (0, r')
     | (True, r') \<Rightarrow> map_option (\<lambda>v. (v, r')) (read_u32 (rd_data r') (rd_offset r' - 4)))"

definition reader_u64 :: "reader \<Rightarrow> (u64 \<times> reader) option" where
  "reader_u64 r = (case reader_take 8 r of
       (False, r') \<Rightarrow> Some (0, r')
     | (True, r') \<Rightarrow> map_option (\<lambda>v. (v, r')) (read_u64 (rd_data r') (rd_offset r' - 8)))"

definition reader_bytes :: "nat \<Rightarrow> reader \<Rightarrow> (bytes \<times> reader) option" where
  "reader_bytes n r = (case reader_take n r of
       (False, r') \<Rightarrow> Some ([], r')
     | (True, r') \<Rightarrow> map_option (\<lambda>v. (v, r')) (load_at n (rd_data r') (rd_offset r' - n)))"

text \<open>\<open>copy_to\<close> leaves the destination, given as its prior content, alone after an underrun.\<close>

definition reader_copy_to :: "bytes \<Rightarrow> nat \<Rightarrow> reader \<Rightarrow> (bytes \<times> reader) option" where
  "reader_copy_to dst n r = do {
     (view, r') \<leftarrow> reader_bytes n r;
     if rd_ok r' \<and> n \<noteq> 0 then do { dst' \<leftarrow> overwrite 0 view dst; Some (dst', r') }
     else Some (dst, r')
   }"

definition reader_varint :: "reader \<Rightarrow> u64 option \<times> reader" where
  "reader_varint r =
     (if \<not> rd_ok r then (None, r)
      else case read_varint (rd_data r) (rd_offset r) of
          None \<Rightarrow> (None, r\<lparr>rd_ok := False\<rparr>)
        | Some (v, offset) \<Rightarrow> (Some v, r\<lparr>rd_offset := offset\<rparr>))"

definition reader_length_prefixed :: "nat \<Rightarrow> nat \<Rightarrow> reader \<Rightarrow> (bytes \<times> reader) option" where
  "reader_length_prefixed w element_size r =
     (if \<not> rd_ok r then Some ([], r)
      else do {
        payload \<leftarrow> read_length_prefixed w (rd_data r) (rd_offset r) element_size;
        case payload of
          None \<Rightarrow> Some ([], r\<lparr>rd_ok := False\<rparr>)
        | Some (p, offset) \<Rightarrow> Some (p, r\<lparr>rd_offset := offset\<rparr>)
      })"

definition reader_rest :: "reader \<Rightarrow> bytes option" where
  "reader_rest r =
     (if rd_offset r \<le> length (rd_data r) then Some (drop (rd_offset r) (rd_data r)) else None)"

section \<open>The writer\<close>

record writer =
  wr_region :: bytes
  wr_offset :: nat

definition writer_of :: "bytes \<Rightarrow> writer" where
  "writer_of region = \<lparr>wr_region = region, wr_offset = 0\<rparr>"

definition writer_u8 :: "u8 \<Rightarrow> writer \<Rightarrow> writer option" where
  "writer_u8 v w = do {
     region \<leftarrow> write_u8 (wr_offset w) v (wr_region w);
     Some \<lparr>wr_region = region, wr_offset = wr_offset w + 1\<rparr> }"

definition writer_u16 :: "u16 \<Rightarrow> writer \<Rightarrow> writer option" where
  "writer_u16 v w = do {
     region \<leftarrow> write_u16 (wr_offset w) v (wr_region w);
     Some \<lparr>wr_region = region, wr_offset = wr_offset w + 2\<rparr> }"

definition writer_u32 :: "u32 \<Rightarrow> writer \<Rightarrow> writer option" where
  "writer_u32 v w = do {
     region \<leftarrow> write_u32 (wr_offset w) v (wr_region w);
     Some \<lparr>wr_region = region, wr_offset = wr_offset w + 4\<rparr> }"

definition writer_u64 :: "u64 \<Rightarrow> writer \<Rightarrow> writer option" where
  "writer_u64 v w = do {
     region \<leftarrow> write_u64 (wr_offset w) v (wr_region w);
     Some \<lparr>wr_region = region, wr_offset = wr_offset w + 8\<rparr> }"

definition writer_bytes :: "bytes \<Rightarrow> writer \<Rightarrow> writer option" where
  "writer_bytes blob w =
     (if blob \<noteq> []
      then do {
        region \<leftarrow> overwrite (wr_offset w) blob (wr_region w);
        Some \<lparr>wr_region = region, wr_offset = wr_offset w + length blob\<rparr> }
      else Some (w\<lparr>wr_offset := wr_offset w + length blob\<rparr>))"

function writer_varint :: "u64 \<Rightarrow> writer \<Rightarrow> writer option" where
  "writer_varint value w =
     (let byte = (ucast (value AND 0x7F) :: u8);
          value' = drop_bit 7 value;
          byte' = (if value' \<noteq> 0 then byte OR 0x80 else byte) in
      do {
        region \<leftarrow> overwrite (wr_offset w) [byte'] (wr_region w);
        let w' = \<lparr>wr_region = region, wr_offset = wr_offset w + 1\<rparr> in
        if value' \<noteq> 0 then writer_varint value' w' else Some w'
      })"
  by pat_completeness auto
termination
  by (relation "measure (\<lambda>(v, w). unat v)") (auto simp: drop_bit_7_less)

declare writer_varint.simps [simp del]

section \<open>Memory safety of the gate and of the reader\<close>

definition prefix_width :: "nat \<Rightarrow> bool" where
  "prefix_width w \<longleftrightarrow> w \<in> {1, 2, 4, 8}"

lemma unat_be_word1: "length mem > off \<Longrightarrow> unat (be_word (take (Suc 0) (drop off mem)) :: u8) = unat (mem ! off)"
  by (simp add: take_Suc hd_drop_conv_nth be_word_def)

text \<open>The declared length, read as an unsigned number of \<open>w\<close> bytes.\<close>

definition prefix_value :: "nat \<Rightarrow> bytes \<Rightarrow> nat" where
  "prefix_value w bs = unat (be_word (take w bs) :: u64)"

lemma unat_be_word_widen:
  assumes "8 * length bs \<le> LENGTH('a::len)" and "LENGTH('a) \<le> LENGTH('b::len)"
  shows "unat (be_word bs :: 'a word) = unat (be_word bs :: 'b word)"
proof -
  have "(be_word bs :: 'b word) = ucast (be_word bs :: 'a word)"
    using assms
  proof (induction bs)
    case Nil
    then show ?case by (simp add: be_word_def)
  next
    case (Cons b bs)
    have "(ucast (push_bit (8 * length bs) (ucast b) OR be_word bs :: 'a word) :: 'b word)
        = push_bit (8 * length bs) (ucast b) OR ucast (be_word bs :: 'a word)"
      using Cons.prems by (intro bit_word_eqI) (auto simp: bit_simps dest: bit_imp_le_length)
    with Cons show ?case by (simp add: be_word_Cons)
  qed
  moreover have "unat (be_word bs :: 'a word) < 2 ^ LENGTH('b)"
    using unsigned_less [of "be_word bs :: 'a word"] assms(2)
    by (meson less_le_trans one_le_numeral power_increasing)
  ultimately show ?thesis
    by (simp add: unsigned_ucast_eq take_bit_nat_eq_self)
qed

lemma read_length_value_eq:
  assumes "prefix_width w" and "at_off + w \<le> length mem"
  shows "read_length_value w mem at_off = Some (prefix_value w (drop at_off mem))"
proof -
  from assms(1) consider "w = 1" | "w = 2" | "w = 4" | "w = 8"
    by (auto simp: prefix_width_def)
  then show ?thesis
  proof cases
    case 1
    with assms(2) show ?thesis
      using unat_be_word_widen [of "take (Suc 0) (drop at_off mem)", where 'a = 8 and 'b = 64]
      by (simp add: read_length_value_def read_be prefix_value_def unat_be_word1 Suc_le_eq)
  next
    case 2
    with assms(2) show ?thesis
      using unat_be_word_widen [of "take 2 (drop at_off mem)", where 'a = 16 and 'b = 64]
      by (simp add: read_length_value_def read_be prefix_value_def)
  next
    case 3
    with assms(2) show ?thesis
      using unat_be_word_widen [of "take 4 (drop at_off mem)", where 'a = 32 and 'b = 64]
      by (simp add: read_length_value_def read_be prefix_value_def)
  next
    case 4
    with assms(2) show ?thesis
      by (simp add: read_length_value_def read_be prefix_value_def)
  qed
qed

text \<open>What the gate lets through, as one arithmetic condition without wrap-around.\<close>

definition length_prefix_spec :: "nat \<Rightarrow> bytes \<Rightarrow> nat \<Rightarrow> nat \<Rightarrow> (bytes \<times> nat) option" where
  "length_prefix_spec w data consumed element_size =
     (let n = prefix_value w (drop consumed data) * element_size in
      if consumed + w \<le> length data \<and> consumed + w + n \<le> length data
      then Some (take n (drop (consumed + w) data), consumed + w + n) else None)"

lemma read_length_prefixed_spec:
  assumes "prefix_width w" and "length data \<le> size_max"
  shows "read_length_prefixed w data consumed element_size
           = Some (length_prefix_spec w data consumed element_size)"
proof (cases "consumed + w \<le> length data")
  case False
  then show ?thesis
    by (auto simp: read_length_prefixed_def length_prefix_spec_def Let_def)
next
  case True
  let ?len = "prefix_value w (drop consumed data)"
  have len: "read_length_value w data consumed = Some ?len"
    using assms(1) True by (rule read_length_value_eq)
  show ?thesis
  proof (cases "element_size \<noteq> 0 \<and> ?len > size_max div element_size")
    case overflow: True
    then have "size_max < ?len * element_size"
      by (metis div_less_iff_less_mult gr0I)
    with True overflow assms(2) show ?thesis
      by (auto simp: read_length_prefixed_def length_prefix_spec_def Let_def len)
  next
    case False
    then have "?len * element_size \<le> size_max"
      by (metis div_le_mono le_zero_eq less_eq_div_iff_mult_less_eq mult_0_right not_le zero_less_iff_neq_zero
          zero_le)
    then have "(?len * element_size) mod 2 ^ 64 = ?len * element_size"
      by (simp add: size_max_def)
    with True False show ?thesis
      by (auto simp: read_length_prefixed_def length_prefix_spec_def Let_def len load_at_def)
  qed
qed

text \<open>
  A reader keeps its offset inside its span; under that invariant no operation leaves the span, and
  an operation either yields the bytes at the cursor and advances, or latches the failure.
\<close>

definition reader_wf :: "reader \<Rightarrow> bool" where
  "reader_wf r \<longleftrightarrow> rd_offset r \<le> length (rd_data r)"

definition rd_get :: "nat \<Rightarrow> (bytes \<Rightarrow> 'a) \<Rightarrow> 'a \<Rightarrow> reader \<Rightarrow> 'a \<times> reader" where
  "rd_get n f z r =
     (if rd_ok r \<and> rd_offset r + n \<le> length (rd_data r)
      then (f (take n (drop (rd_offset r) (rd_data r))), r\<lparr>rd_offset := rd_offset r + n\<rparr>)
      else (z, r\<lparr>rd_ok := False\<rparr>))"

lemma reader_take_wf:
  "reader_wf r \<Longrightarrow> reader_take n r =
     (if rd_ok r \<and> rd_offset r + n \<le> length (rd_data r)
      then (True, r\<lparr>rd_offset := rd_offset r + n\<rparr>) else (False, r\<lparr>rd_ok := False\<rparr>))"
  by (auto simp: reader_take_def reader_wf_def reader_remaining_def)

lemma reader_get:
  assumes "reader_wf r"
  shows "reader_u8 r = Some (rd_get 1 hd 0 r)"
    and "reader_u16 r = Some (rd_get 2 be_word 0 r)"
    and "reader_u32 r = Some (rd_get 4 be_word 0 r)"
    and "reader_u64 r = Some (rd_get 8 be_word 0 r)"
    and "reader_bytes n r = Some (rd_get n (\<lambda>bs. bs) [] r)"
  using assms
  by (simp_all add: reader_u8_def reader_u16_def reader_u32_def reader_u64_def reader_bytes_def
      reader_take_wf read_be rd_get_def load_at_def hd_drop_conv_nth)

lemma rd_get_wf [simp]: "reader_wf r \<Longrightarrow> reader_wf (snd (rd_get n f z r))"
  by (simp add: rd_get_def reader_wf_def)

lemma rd_get_data [simp]: "rd_data (snd (rd_get n f z r)) = rd_data r"
  by (simp add: rd_get_def)

lemma reader_of_wf [simp]: "reader_wf (reader_of d)" "rd_data (reader_of d) = d"
  by (simp_all add: reader_of_def reader_wf_def)

lemma reader_rest_wf: "reader_wf r \<Longrightarrow> reader_rest r = Some (drop (rd_offset r) (rd_data r))"
  by (simp add: reader_rest_def reader_wf_def)

lemma reader_copy_to_wf:
  assumes "reader_wf r" and "length dst = n"
  shows "reader_copy_to dst n r = Some (rd_get n (\<lambda>bs. bs) dst r)"
  using assms
  by (auto simp: reader_copy_to_def reader_get rd_get_def overwrite_def)

lemma reader_varint_wf:
  "reader_wf r \<Longrightarrow> reader_wf (snd (reader_varint r)) \<and> rd_data (snd (reader_varint r)) = rd_data r"
  by (auto simp: reader_varint_def reader_wf_def dest: read_varint_bounds split: option.splits)

lemma length_prefix_spec_bounds:
  "length_prefix_spec w data consumed e = Some (p, c) \<Longrightarrow> c \<le> length data \<and> consumed \<le> c"
  by (auto simp: length_prefix_spec_def Let_def split: if_splits)

lemma reader_length_prefixed_wf:
  assumes "reader_wf r" and "prefix_width w" and "length (rd_data r) \<le> size_max"
  shows "\<exists>p r'. reader_length_prefixed w e r = Some (p, r') \<and> reader_wf r' \<and> rd_data r' = rd_data r"
proof (cases "rd_ok r")
  case False
  with assms show ?thesis by (simp add: reader_length_prefixed_def)
next
  case True
  show ?thesis
  proof (cases "length_prefix_spec w (rd_data r) (rd_offset r) e")
    case None
    with assms True show ?thesis
      by (simp add: reader_length_prefixed_def read_length_prefixed_spec reader_wf_def)
  next
    case (Some a)
    with assms True length_prefix_spec_bounds [of w "rd_data r" "rd_offset r" e] show ?thesis
      by (cases a) (simp add: reader_length_prefixed_def read_length_prefixed_spec reader_wf_def)
  qed
qed

text \<open>The same as introduction rules, for decoders over untrusted bytes.\<close>

lemma reader_safe [safe_intro]:
  assumes "reader_wf r"
  shows "(\<And>v r'. reader_wf r' \<Longrightarrow> rd_data r' = rd_data r \<Longrightarrow> P8 (v, r')) \<Longrightarrow> safely P8 (reader_u8 r)"
    and "(\<And>v r'. reader_wf r' \<Longrightarrow> rd_data r' = rd_data r \<Longrightarrow> P16 (v, r')) \<Longrightarrow> safely P16 (reader_u16 r)"
    and "(\<And>v r'. reader_wf r' \<Longrightarrow> rd_data r' = rd_data r \<Longrightarrow> P32 (v, r')) \<Longrightarrow> safely P32 (reader_u32 r)"
    and "(\<And>v r'. reader_wf r' \<Longrightarrow> rd_data r' = rd_data r \<Longrightarrow> P64 (v, r')) \<Longrightarrow> safely P64 (reader_u64 r)"
    and "(\<And>v r'. reader_wf r' \<Longrightarrow> rd_data r' = rd_data r \<Longrightarrow> PB (v, r')) \<Longrightarrow> safely PB (reader_bytes n r)"
    and "length dst = n \<Longrightarrow> (\<And>v r'. reader_wf r' \<Longrightarrow> rd_data r' = rd_data r \<Longrightarrow> PC (v, r'))
         \<Longrightarrow> safely PC (reader_copy_to dst n r)"
  using assms
  by (simp_all add: reader_get reader_copy_to_wf) (metis rd_get_wf rd_get_data surjective_pairing)+

lemma reader_safe_rest [safe_intro]: "reader_wf r \<Longrightarrow> (\<And>v. P v) \<Longrightarrow> safely P (reader_rest r)"
  by (simp add: reader_rest_wf)

lemma reader_safe_length_prefixed [safe_intro]:
  "reader_wf r \<Longrightarrow> prefix_width w \<Longrightarrow> length (rd_data r) \<le> size_max
   \<Longrightarrow> (\<And>v r'. reader_wf r' \<Longrightarrow> rd_data r' = rd_data r \<Longrightarrow> P (v, r'))
   \<Longrightarrow> safely P (reader_length_prefixed w e r)"
  using reader_length_prefixed_wf [of r w e] by fastforce

section \<open>Reading known bytes, writing into known room\<close>

text \<open>
  \<open>reader_at pre post\<close> stands between what it has read and what is still to come; \<open>writer_at\<close>
  between what is written and the room that is left.
\<close>

definition reader_at :: "bytes \<Rightarrow> bytes \<Rightarrow> reader" where
  "reader_at pre post = \<lparr>rd_data = pre @ post, rd_offset = length pre, rd_ok = True\<rparr>"

lemma reader_of_at: "reader_of d = reader_at [] d"
  by (simp add: reader_of_def reader_at_def)

lemma reader_at_wf [simp]: "reader_wf (reader_at pre post)" "rd_ok (reader_at pre post)"
  by (simp_all add: reader_at_def reader_wf_def)

lemma reader_at_read:
  "reader_u8 (reader_at pre (b # post)) = Some (b, reader_at (pre @ [b]) post)"
  "reader_u16 (reader_at pre (be_bytes 2 v16 @ post)) = Some (v16, reader_at (pre @ be_bytes 2 v16) post)"
  "reader_u32 (reader_at pre (be_bytes 4 v32 @ post)) = Some (v32, reader_at (pre @ be_bytes 4 v32) post)"
  "reader_u64 (reader_at pre (be_bytes 8 v64 @ post)) = Some (v64, reader_at (pre @ be_bytes 8 v64) post)"
  by (simp_all add: reader_get) (simp_all add: reader_at_def rd_get_def)

lemma reader_at_read_end:
  "reader_u16 (reader_at pre (be_bytes 2 v16)) = Some (v16, reader_at (pre @ be_bytes 2 v16) [])"
  "reader_u32 (reader_at pre (be_bytes 4 v32)) = Some (v32, reader_at (pre @ be_bytes 4 v32) [])"
  "reader_u64 (reader_at pre (be_bytes 8 v64)) = Some (v64, reader_at (pre @ be_bytes 8 v64) [])"
  using reader_at_read(2) [of pre v16 "[]"] reader_at_read(3) [of pre v32 "[]"]
    reader_at_read(4) [of pre v64 "[]"]
  by simp_all

lemma reader_at_bytes:
  "length bs = n \<Longrightarrow> reader_bytes n (reader_at pre (bs @ post)) = Some (bs, reader_at (pre @ bs) post)"
  by (simp add: reader_get) (simp add: reader_at_def rd_get_def)

lemma reader_at_copy_to:
  "length bs = n \<Longrightarrow> length dst = n \<Longrightarrow>
   reader_copy_to dst n (reader_at pre (bs @ post)) = Some (bs, reader_at (pre @ bs) post)"
  by (simp add: reader_copy_to_wf) (simp add: reader_at_def rd_get_def)

lemma reader_at_rest [simp]: "reader_rest (reader_at pre post) = Some post"
  by (simp add: reader_rest_def reader_at_def)

lemma reader_at_varint:
  "reader_varint (reader_at pre (varint_bytes v @ post)) = (Some v, reader_at (pre @ varint_bytes v) post)"
  by (simp add: reader_varint_def reader_at_def read_varint_append length_varint_bytes)

lemma prefix_value_be_bytes:
  "prefix_width w \<Longrightarrow> n < 2 ^ (8 * w) \<Longrightarrow> prefix_value w (be_bytes w (of_nat n :: u64) @ post) = n"
proof -
  assume w: "prefix_width w" and n: "n < 2 ^ (8 * w)"
  have le: "8 * w \<le> 64" using w by (auto simp: prefix_width_def)
  have "be_word (be_bytes w (of_nat n :: u64)) = take_bit (8 * w) (of_nat n :: u64)"
    by (simp add: be_word_def be_word_acc_be_bytes)
  moreover have "unat (take_bit (8 * w) (of_nat n :: u64)) = n"
  proof -
    have "(2::nat) ^ (8 * w) \<le> 2 ^ 64" using le by (intro power_increasing) auto
    then have n64: "n < 2 ^ 64" using n by linarith
    have "unat (take_bit (8 * w) (of_nat n :: u64)) = take_bit (8 * w) (unat (of_nat n :: u64))"
      by (rule unsigned_take_bit_eq)
    also have "\<dots> = n" using n n64 by (simp add: unat_of_nat take_bit_nat_eq_self)
    finally show ?thesis .
  qed
  ultimately show ?thesis by (simp add: prefix_value_def)
qed

definition writer_at :: "bytes \<Rightarrow> bytes \<Rightarrow> writer" where
  "writer_at written room = \<lparr>wr_region = written @ room, wr_offset = length written\<rparr>"

lemma writer_of_at: "writer_of region = writer_at [] region"
  by (simp add: writer_of_def writer_at_def)

lemma writer_at_write:
  "1 \<le> length room \<Longrightarrow> writer_u8 v8 (writer_at d room) = Some (writer_at (d @ [v8]) (drop 1 room))"
  "2 \<le> length room \<Longrightarrow> writer_u16 v16 (writer_at d room) = Some (writer_at (d @ be_bytes 2 v16) (drop 2 room))"
  "4 \<le> length room \<Longrightarrow> writer_u32 v32 (writer_at d room) = Some (writer_at (d @ be_bytes 4 v32) (drop 4 room))"
  "8 \<le> length room \<Longrightarrow> writer_u64 v64 (writer_at d room) = Some (writer_at (d @ be_bytes 8 v64) (drop 8 room))"
  by (simp_all add: writer_u8_def writer_u16_def writer_u32_def writer_u64_def writer_at_def
      write_be overwrite_prefix)

lemma writer_at_bytes:
  "length bs \<le> length room \<Longrightarrow>
   writer_bytes bs (writer_at d room) = Some (writer_at (d @ bs) (drop (length bs) room))"
  by (auto simp: writer_bytes_def writer_at_def overwrite_prefix)

lemma writer_at_varint:
  "varint_size v \<le> length room \<Longrightarrow>
   writer_varint v (writer_at d room) = Some (writer_at (d @ varint_bytes v) (drop (varint_size v) room))"
proof (induction v "writer_at d room" arbitrary: d room rule: writer_varint.induct)
  case (1 v)
  show ?case
  proof (cases "drop_bit 7 v = 0")
    case True
    then have "varint_bytes v = [ucast (v AND 0x7F)]"
      by (subst varint_bytes.simps) (simp add: Let_def)
    moreover from True have "varint_size v = 1"
      by (subst varint_size_rec) simp
    ultimately show ?thesis
      using True 1(2) by (subst writer_varint.simps) (simp add: Let_def writer_at_def overwrite_prefix)
  next
    case False
    let ?b = "ucast (v AND 0x7F) OR 0x80 :: u8"
    have vb: "varint_bytes v = ?b # varint_bytes (drop_bit 7 v)"
      using False by (subst varint_bytes.simps) (simp add: Let_def)
    have vs: "varint_size v = varint_size (drop_bit 7 v) + 1"
      using False by (subst varint_size_rec) simp
    have ow: "overwrite (length d) [?b] (d @ room) = Some ((d @ [?b]) @ drop 1 room)"
      using 1(2) vs by (simp add: overwrite_prefix)
    have "writer_varint (drop_bit 7 v) (writer_at (d @ [?b]) (drop 1 room))
        = Some (writer_at ((d @ [?b]) @ varint_bytes (drop_bit 7 v)) (drop (varint_size (drop_bit 7 v)) (drop 1 room)))"
      using False 1(2) vs ow
      by (intro 1(1) [of _ _ _ "(d @ [?b]) @ drop 1 room"]) (auto simp: writer_at_def)
    then show ?thesis
      using False vs ow by (subst writer_varint.simps) (simp add: Let_def vb writer_at_def drop_drop)
  qed
qed

lemma writer_at_region [simp]: "wr_region (writer_at d room) = d @ room"
  by (simp add: writer_at_def)

lemma writer_at_offset [simp]: "wr_offset (writer_at d room) = length d"
  by (simp add: writer_at_def)

lemma prefix_value_written:
  "prefix_value 1 (b # post) = unat b"
  "prefix_value 2 (be_bytes 2 (v16 :: u16) @ post) = unat v16"
  using unat_be_word_widen [of "[b]", where 'a = 8 and 'b = 64]
    unat_be_word_widen [of "be_bytes 2 v16", where 'a = 16 and 'b = 64]
  by (simp_all add: prefix_value_def) (simp add: be_word_def)

lemma prefix_width_simps [simp]: "prefix_width 1" "prefix_width (Suc 0)" "prefix_width 2" "prefix_width 4" "prefix_width 8"
  by (simp_all add: prefix_width_def)

lemma length_prefix_spec_written:
  "length bs = unat b \<Longrightarrow>
   length_prefix_spec 1 (pre @ b # bs @ post) (length pre) 1 = Some (bs, length pre + 1 + length bs)"
  "length bs = unat (v16 :: u16) \<Longrightarrow>
   length_prefix_spec 2 (pre @ be_bytes 2 v16 @ bs @ post) (length pre) 1
     = Some (bs, length pre + 2 + length bs)"
  using prefix_value_written(1) [of b "bs @ post"]
  by (simp_all add: length_prefix_spec_def Let_def prefix_value_written)

lemma reader_at_length_prefixed:
  assumes "length pre + 1 + length bs + length post \<le> size_max" and "length bs = unat b"
  shows "reader_length_prefixed 1 1 (reader_at pre (b # bs @ post))
           = Some (bs, reader_at (pre @ b # bs) post)"
proof -
  have "length_prefix_spec (Suc 0) (pre @ b # bs @ post) (length pre) (Suc 0)
      = Some (bs, length pre + 1 + length bs)"
    using length_prefix_spec_written(1) [OF assms(2), of pre post] by simp
  with assms show ?thesis
    by (simp add: reader_length_prefixed_def reader_at_def read_length_prefixed_spec)
qed

text \<open>
  Codecs that advance a raw pointer instead of a writer: \<open>mem_at\<close> is a buffer whose front is
  filled, and a store right behind that front extends it.
\<close>

definition mem_at :: "bytes \<Rightarrow> bytes \<Rightarrow> bytes" where
  "mem_at written room = written @ room"

lemma mem_at_first:
  "1 \<le> length mem \<Longrightarrow> write_u8 0 v8 mem = Some (mem_at [v8] (drop 1 mem))"
  "8 \<le> length mem \<Longrightarrow> write_u64 0 v64 mem = Some (mem_at (be_bytes 8 v64) (drop 8 mem))"
  by (simp_all add: mem_at_def write_be overwrite_def)

lemma mem_at_write:
  "off = length d \<Longrightarrow> 1 \<le> length room \<Longrightarrow> write_u8 off v8 (mem_at d room) = Some (mem_at (d @ [v8]) (drop 1 room))"
  "off = length d \<Longrightarrow> 2 \<le> length room \<Longrightarrow> write_u16 off v16 (mem_at d room) = Some (mem_at (d @ be_bytes 2 v16) (drop 2 room))"
  "off = length d \<Longrightarrow> 4 \<le> length room \<Longrightarrow> write_u32 off v32 (mem_at d room) = Some (mem_at (d @ be_bytes 4 v32) (drop 4 room))"
  "off = length d \<Longrightarrow> 8 \<le> length room \<Longrightarrow> write_u64 off v64 (mem_at d room) = Some (mem_at (d @ be_bytes 8 v64) (drop 8 room))"
  "off = length d \<Longrightarrow> length bs \<le> length room \<Longrightarrow> overwrite off bs (mem_at d room) = Some (mem_at (d @ bs) (drop (length bs) room))"
  by (simp_all add: mem_at_def write_be overwrite_prefix)

lemma read_safe [safe_intro]:
  "off < length mem \<Longrightarrow> (\<And>v. P8 v) \<Longrightarrow> safely P8 (read_u8 mem off)"
  "off + 2 \<le> length mem \<Longrightarrow> (\<And>v. P16 v) \<Longrightarrow> safely P16 (read_u16 mem off)"
  "off + 4 \<le> length mem \<Longrightarrow> (\<And>v. P32 v) \<Longrightarrow> safely P32 (read_u32 mem off)"
  "off + 8 \<le> length mem \<Longrightarrow> (\<And>v. P64 v) \<Longrightarrow> safely P64 (read_u64 mem off)"
  by (simp_all add: read_be)

lemma read_length_prefixed_safe [safe_intro]:
  assumes "prefix_width w" and "length data \<le> size_max"
    and "\<And>r. (\<And>p c. r = Some (p, c) \<Longrightarrow> consumed \<le> c \<and> c \<le> length data) \<Longrightarrow> P r"
  shows "safely P (read_length_prefixed w data consumed e)"
  using assms length_prefix_spec_bounds [of w data consumed e] by (simp add: read_length_prefixed_spec)

lemmas reader_eval = reader_of_at reader_at_read reader_at_read_end reader_at_bytes reader_at_copy_to
  reader_at_varint reader_at_length_prefixed

lemmas writer_eval = writer_of_at writer_at_write writer_at_bytes writer_at_varint

text \<open>
  The length-prefix gate over untrusted bytes, for each prefix width and element size: it never
  reads outside the buffer, and it yields a region exactly when the declared length, multiplied in
  unbounded arithmetic, fits behind the prefix; the region is then those bytes and the offset moves
  right behind it. The multiplication guard therefore never lets a wrapped size through.
\<close>

lemma length_prefix_gate:
  assumes "prefix_width w" and "length data \<le> size_max"
  shows "\<exists>r. read_length_prefixed w data consumed element_size = Some r
     \<and> (\<forall>p c. r = Some (p, c) \<longleftrightarrow>
          (let n = prefix_value w (drop consumed data) * element_size in
           consumed + w + n \<le> length data \<and> p = take n (drop (consumed + w) data)
           \<and> c = consumed + w + n))"
  using read_length_prefixed_spec [OF assms, of consumed element_size]
  by (auto simp: length_prefix_spec_def Let_def)

lemma length_prefix_gate_witness:
  "read_length_prefixed 2 [9, 0, 3, 1, 2, 3, 4] 1 1 = Some (Some ([1, 2, 3], 6))
   \<and> read_length_prefixed 2 [9, 0, 3, 1, 2, 3, 4] 1 4 = Some None
   \<and> read_length_prefixed 8 [255, 255, 255, 255, 255, 255, 255, 255, 7] 0 16 = Some None"
proof -
  have v: "prefix_value 2 [0, 3, 1, 2, 3, 4] = 3" "prefix_value 8 [255, 255, 255, 255, 255, 255, 255, 255, 7] = size_max"
    by (simp_all add: prefix_value_def be_word_def size_max_def)
  have "\<exists>r. read_length_prefixed 2 [9, 0, 3, 1, 2, 3, 4] 1 1 = Some r \<and> r = Some ([1, 2, 3], 6)"
    using length_prefix_gate [of 2 "[9, 0, 3, 1, 2, 3, 4]" 1 1] by (auto simp: v size_max_def Let_def)
  moreover have "\<exists>r. read_length_prefixed 2 [9, 0, 3, 1, 2, 3, 4] 1 4 = Some r \<and> r = None"
    using length_prefix_gate [of 2 "[9, 0, 3, 1, 2, 3, 4]" 1 4]
    by (auto simp: v size_max_def Let_def) (metis option.exhaust surj_pair)
  moreover have "\<exists>r. read_length_prefixed 8 [255, 255, 255, 255, 255, 255, 255, 255, 7] 0 16 = Some r \<and> r = None"
    using length_prefix_gate [of 8 "[255, 255, 255, 255, 255, 255, 255, 255, 7]" 0 16]
    by (auto simp: v size_max_def Let_def) (metis option.exhaust surj_pair)
  ultimately show ?thesis by simp
qed

end
