(* ===== verification/Frame.thy ===== *)
theory Frame
  imports Cursor
begin

text \<open>
  \<open>plexus-wire/frame.h\<close> and \<open>frame_codec.h\<close>: the 28-byte frame header and the framing of a payload.
  \<open>msg_type\<close> and \<open>endpoint_source_type\<close> are enumerations over a fixed \<open>uint8_t\<close> that the decoders
  fill with an unchecked cast, so every byte is a value of the type and the enumerators are named
  constants.
\<close>

definition header_size :: nat where
  "header_size = 28"

definition k_max_reassembler_payload_bytes :: nat where
  "k_max_reassembler_payload_bytes = 16 * 1024 * 1024"

definition magic_byte_0 :: u8 where
  "magic_byte_0 = 0x56"

definition magic_byte_1 :: u8 where
  "magic_byte_1 = 0x50"

type_synonym msg_type = u8

definition msg_unidirectional :: msg_type where "msg_unidirectional = 0x01"
definition msg_bidirectional :: msg_type where "msg_bidirectional = 0x02"
definition msg_handshake_req :: msg_type where "msg_handshake_req = 0x03"
definition msg_handshake_resp :: msg_type where "msg_handshake_resp = 0x04"
definition msg_subscribe :: msg_type where "msg_subscribe = 0x05"
definition msg_unsubscribe :: msg_type where "msg_unsubscribe = 0x06"
definition msg_fetch_latched :: msg_type where "msg_fetch_latched = 0x07"
definition msg_fetch_metadata :: msg_type where "msg_fetch_metadata = 0x08"
definition msg_rpc_request :: msg_type where "msg_rpc_request = 0x09"
definition msg_rpc_response :: msg_type where "msg_rpc_response = 0x0A"
definition msg_subscribe_response :: msg_type where "msg_subscribe_response = 0x0B"
definition msg_heartbeat :: msg_type where "msg_heartbeat = 0x0C"

type_synonym endpoint_source_type = u8

definition k_flag_source_identity :: u8 where
  "k_flag_source_identity = 0x01"

record frame_header =
  fh_type :: msg_type
  fh_flags :: u8
  fh_session_id :: u64
  fh_timestamp_ns :: u64
  fh_payload_len :: u64

definition encode_header :: "frame_header \<Rightarrow> bytes option" where
  "encode_header hdr = do {
     w \<leftarrow> writer_u8 magic_byte_0 (writer_of (replicate header_size 0));
     w \<leftarrow> writer_u8 magic_byte_1 w;
     w \<leftarrow> writer_u8 (fh_type hdr) w;
     w \<leftarrow> writer_u8 (fh_flags hdr) w;
     w \<leftarrow> writer_u64 (fh_session_id hdr) w;
     w \<leftarrow> writer_u64 (fh_timestamp_ns hdr) w;
     w \<leftarrow> writer_u64 (fh_payload_len hdr) w;
     Some (wr_region w)
   }"

definition decode_header :: "bytes \<Rightarrow> frame_header option option" where
  "decode_header data =
     (if length data < header_size then Some None
      else if data ! 0 \<noteq> magic_byte_0 \<or> data ! 1 \<noteq> magic_byte_1 then Some None
      else do {
        (_, r) \<leftarrow> reader_u8 (reader_of data);
        (_, r) \<leftarrow> reader_u8 r;
        (t, r) \<leftarrow> reader_u8 r;
        (f, r) \<leftarrow> reader_u8 r;
        (sid, r) \<leftarrow> reader_u64 r;
        (ts, r) \<leftarrow> reader_u64 r;
        (len, r) \<leftarrow> reader_u64 r;
        Some (Some \<lparr>fh_type = t, fh_flags = f, fh_session_id = sid, fh_timestamp_ns = ts, fh_payload_len = len\<rparr>)
      })"

definition encode_frame :: "frame_header \<Rightarrow> bytes \<Rightarrow> bytes option" where
  "encode_frame hdr payload = do {
     header_bytes \<leftarrow> encode_header (hdr\<lparr>fh_payload_len := of_nat (length payload)\<rparr>);
     Some (header_bytes @ payload)
   }"

definition encode_frame_into :: "bytes \<Rightarrow> frame_header \<Rightarrow> bytes \<Rightarrow> bytes option" where
  "encode_frame_into out hdr payload = do {
     header_bytes \<leftarrow> encode_header (hdr\<lparr>fh_payload_len := of_nat (length payload)\<rparr>);
     out \<leftarrow> overwrite 0 header_bytes (vec_resize (header_size + length payload) out);
     if payload \<noteq> [] then overwrite header_size payload out else Some out
   }"

section \<open>The layout and its inverse\<close>

definition header_layout :: "frame_header \<Rightarrow> bytes" where
  "header_layout hdr =
     [magic_byte_0, magic_byte_1, fh_type hdr, fh_flags hdr] @ be_bytes 8 (fh_session_id hdr)
     @ be_bytes 8 (fh_timestamp_ns hdr) @ be_bytes 8 (fh_payload_len hdr)"

definition header_view :: "bytes \<Rightarrow> frame_header option" where
  "header_view data =
     (if length data < header_size \<or> data ! 0 \<noteq> magic_byte_0 \<or> data ! 1 \<noteq> magic_byte_1 then None
      else Some \<lparr>fh_type = data ! 2, fh_flags = data ! 3,
        fh_session_id = be_word (take 8 (drop 4 data)),
        fh_timestamp_ns = be_word (take 8 (drop 12 data)),
        fh_payload_len = be_word (take 8 (drop 20 data))\<rparr>)"

lemma length_header_layout [simp]: "length (header_layout hdr) = header_size"
  by (simp add: header_layout_def header_size_def)

lemma encode_header_layout [wire_layout]: "encode_header hdr = Some (header_layout hdr)"
  by (simp add: encode_header_def header_layout_def header_size_def writer_of_at writer_at_write)

lemma decode_header_view [simp]: "decode_header data = Some (header_view data)"
proof (cases "length data < header_size \<or> data ! 0 \<noteq> magic_byte_0 \<or> data ! 1 \<noteq> magic_byte_1")
  case True
  then show ?thesis by (auto simp: decode_header_def header_view_def)
next
  case False
  then have len: "28 \<le> length data" by (simp add: header_size_def)
  have "reader_wf \<lparr>rd_data = data, rd_offset = n, rd_ok = True\<rparr>" if "n \<le> 28" for n
    using len that by (simp add: reader_wf_def)
  with False len show ?thesis
    by (simp add: decode_header_def header_view_def reader_of_def reader_get rd_get_def hd_drop_conv_nth)
      (simp add: eval_nat_numeral)
qed

lemma header_view_layout [simp]: "header_view (header_layout hdr @ rest) = Some hdr"
  by (simp add: header_view_def header_layout_def header_size_def nth_append)

lemma header_view_short: "length data < header_size \<Longrightarrow> header_view data = None"
  by (simp add: header_view_def)

interpretation header_codec: wire_codec header_layout
  "\<lambda>bs. map_option (\<lambda>h. (h, drop header_size bs)) (header_view bs)" "\<lambda>_. True"
  by unfold_locales (auto simp: header_view_short)

text \<open>A valid header is re-encoded to the bytes it was decoded from.\<close>

lemma header_layout_view:
  assumes "header_view data = Some hdr"
  shows "header_layout hdr = take header_size data"
proof -
  have len: "28 \<le> length data" and m: "data ! 0 = magic_byte_0" "data ! 1 = magic_byte_1"
    and h: "hdr = \<lparr>fh_type = data ! 2, fh_flags = data ! 3,
        fh_session_id = be_word (take 8 (drop 4 data)),
        fh_timestamp_ns = be_word (take 8 (drop 12 data)),
        fh_payload_len = be_word (take 8 (drop 20 data))\<rparr>"
    using assms by (auto simp: header_view_def header_size_def split: if_splits)
  have b: "be_bytes 8 (be_word (take 8 (drop n data)) :: u64) = take 8 (drop n data)" if "n \<le> 20" for n
    using len that by (intro be_bytes_be_word_length) auto
  have "take 28 data = take 4 data @ take 8 (drop 4 data) @ take 8 (drop 12 data) @ take 8 (drop 20 data)"
    using take_add [of 4 24 data] take_add [of 8 16 "drop 4 data"] take_add [of 8 8 "drop 12 data"]
    by simp
  moreover have "take 4 data = [data ! 0, data ! 1, data ! 2, data ! 3]"
    using len by (simp add: take_4_nth)
  ultimately show ?thesis
    using m by (simp add: header_layout_def h b header_size_def)
qed

definition frame_layout :: "frame_header \<Rightarrow> bytes \<Rightarrow> bytes" where
  "frame_layout hdr payload = header_layout (hdr\<lparr>fh_payload_len := of_nat (length payload)\<rparr>) @ payload"

lemma encode_frame_layout [wire_layout]: "encode_frame hdr payload = Some (frame_layout hdr payload)"
  by (simp add: encode_frame_def encode_header_layout frame_layout_def)

lemma encode_frame_into_layout [wire_layout]:
  "encode_frame_into out hdr payload = Some (frame_layout hdr payload)"
  by (auto simp: encode_frame_into_def encode_header_layout frame_layout_def overwrite_def)

text \<open>
  C1. Framing: both encoders write inside their buffer, whatever the reused buffer held before, and
  produce the same frame; its header decodes to the caller's header with the payload length filled
  in, and behind the header stands the payload. A header that decodes is re-encoded byte for byte.
\<close>

theorem frame_codec_correct:
  "encode_frame hdr payload = encode_frame_into out hdr payload
   \<and> (\<exists>frame. encode_frame hdr payload = Some frame
        \<and> length frame = header_size + length payload
        \<and> decode_header (frame @ rest) = Some (Some (hdr\<lparr>fh_payload_len := of_nat (length payload)\<rparr>))
        \<and> drop header_size frame = payload)
   \<and> (\<forall>data h. decode_header data = Some (Some h) \<longrightarrow> encode_header h = Some (take header_size data))"
  by (auto simp: wire_layout frame_layout_def header_layout_view)

theorem frame_codec_correct_witness:
  "decode_header ([0x56, 0x50, 0x0C, 0] @ replicate 23 0 @ [2, 7, 7])
     = Some (Some \<lparr>fh_type = msg_heartbeat, fh_flags = 0, fh_session_id = 0, fh_timestamp_ns = 0,
                   fh_payload_len = 2\<rparr>)
   \<and> encode_header \<lparr>fh_type = msg_heartbeat, fh_flags = 0, fh_session_id = 0, fh_timestamp_ns = 0,
                   fh_payload_len = 2\<rparr> = Some ([0x56, 0x50, 0x0C, 0] @ replicate 23 0 @ [2])"
proof -
  have "decode_header ([0x56, 0x50, 0x0C, 0] @ replicate 23 0 @ [2, 7, 7])
     = Some (Some \<lparr>fh_type = msg_heartbeat, fh_flags = 0, fh_session_id = 0, fh_timestamp_ns = 0,
                   fh_payload_len = 2\<rparr>)"
    by code_simp
  with frame_codec_correct show ?thesis
    by (fastforce simp: header_size_def)
qed

end
