(* ===== verification/Data_Frame.thy ===== *)
theory Data_Frame
  imports Frame
begin

text \<open>
  \<open>plexus-wire/data_frame.h\<close>, \<open>detail/data_frame_codec.h\<close>, \<open>rpc_status.h\<close> and \<open>rpc_frame.h\<close>: the
  publish/subscribe and request/response payloads that travel behind a frame header.
\<close>

definition unidirectional_header_size :: nat where
  "unidirectional_header_size = 17"

definition bidirectional_header_size :: nat where
  "bidirectional_header_size = 41"

record unidirectional_header =
  uh_source :: endpoint_source_type
  uh_sequence :: u64
  uh_topic_hash :: u64

record bidirectional_header =
  bh_source :: endpoint_source_type
  bh_sequence :: u64
  bh_topic_hash :: u64
  bh_type_hash_1 :: u64
  bh_type_hash_2 :: u64
  bh_correlation_id :: u64

record unidirectional_decode_result =
  ud_header :: unidirectional_header
  ud_endpoint_counter :: "u64 option"
  ud_data :: bytes

record bidirectional_decode_result =
  bd_header :: bidirectional_header
  bd_data :: bytes

section \<open>Unidirectional payloads\<close>

definition encode_unidirectional_into :: "bytes \<Rightarrow> unidirectional_header \<Rightarrow> bytes \<Rightarrow> u64 option \<Rightarrow> bytes option" where
  "encode_unidirectional_into out hdr data endpoint_counter = do {
     w \<leftarrow> writer_u8 (uh_source hdr) (writer_of (vec_resize unidirectional_header_size out));
     w \<leftarrow> writer_u64 (uh_sequence hdr) w;
     w \<leftarrow> writer_u64 (uh_topic_hash hdr) w;
     let out = wr_region w;
         out = (case endpoint_counter of None \<Rightarrow> out | Some c \<Rightarrow> write_varint out c)
     in Some (out @ data)
   }"

definition encode_unidirectional :: "unidirectional_header \<Rightarrow> bytes \<Rightarrow> u64 option \<Rightarrow> bytes option" where
  "encode_unidirectional hdr data endpoint_counter = encode_unidirectional_into [] hdr data endpoint_counter"

definition encode_unidirectional_frame_into ::
  "bytes \<Rightarrow> frame_header \<Rightarrow> unidirectional_header \<Rightarrow> bytes \<Rightarrow> u64 option \<Rightarrow> bytes option" where
  "encode_unidirectional_frame_into out fhdr uhdr payload endpoint_counter =
     (let counter_len = (case endpoint_counter of None \<Rightarrow> 0 | Some c \<Rightarrow> varint_size c);
          payload_len = unidirectional_header_size + counter_len + length payload in
      do {
        header_bytes \<leftarrow> encode_header (fhdr\<lparr>fh_payload_len := of_nat payload_len\<rparr>);
        w \<leftarrow> writer_bytes header_bytes (writer_of (vec_resize (header_size + payload_len) out));
        w \<leftarrow> writer_u8 (uh_source uhdr) w;
        w \<leftarrow> writer_u64 (uh_sequence uhdr) w;
        w \<leftarrow> writer_u64 (uh_topic_hash uhdr) w;
        w \<leftarrow> (case endpoint_counter of None \<Rightarrow> Some w | Some c \<Rightarrow> writer_varint c w);
        w \<leftarrow> writer_bytes payload w;
        Some (wr_region w)
      })"

definition decode_unidirectional :: "bytes \<Rightarrow> bool \<Rightarrow> unidirectional_decode_result option option" where
  "decode_unidirectional payload has_source_identity =
     (if length payload < unidirectional_header_size then Some None
      else do {
        (source, r) \<leftarrow> reader_u8 (reader_of payload);
        (sequence, r) \<leftarrow> reader_u64 r;
        (topic_hash, r) \<leftarrow> reader_u64 r;
        let hdr = \<lparr>uh_source = source, uh_sequence = sequence, uh_topic_hash = topic_hash\<rparr> in
        if \<not> has_source_identity
        then do { data \<leftarrow> reader_rest r;
                  Some (Some \<lparr>ud_header = hdr, ud_endpoint_counter = None, ud_data = data\<rparr>) }
        else case reader_varint r of
            (None, r) \<Rightarrow> Some None
          | (Some counter, r) \<Rightarrow> do { data \<leftarrow> reader_rest r;
              Some (Some \<lparr>ud_header = hdr, ud_endpoint_counter = Some counter, ud_data = data\<rparr>) }
      })"

section \<open>Bidirectional payloads\<close>

definition write_bidirectional_header :: "bidirectional_header \<Rightarrow> writer \<Rightarrow> writer option" where
  "write_bidirectional_header hdr w = do {
     w \<leftarrow> writer_u8 (bh_source hdr) w;
     w \<leftarrow> writer_u64 (bh_sequence hdr) w;
     w \<leftarrow> writer_u64 (bh_topic_hash hdr) w;
     w \<leftarrow> writer_u64 (bh_type_hash_1 hdr) w;
     w \<leftarrow> writer_u64 (bh_type_hash_2 hdr) w;
     writer_u64 (bh_correlation_id hdr) w
   }"

definition encode_bidirectional_into :: "bytes \<Rightarrow> bidirectional_header \<Rightarrow> bytes \<Rightarrow> bytes option" where
  "encode_bidirectional_into out hdr data = do {
     w \<leftarrow> write_bidirectional_header hdr (writer_of (vec_resize (bidirectional_header_size + length data) out));
     w \<leftarrow> writer_bytes data w;
     Some (wr_region w)
   }"

definition encode_bidirectional :: "bidirectional_header \<Rightarrow> bytes \<Rightarrow> bytes option" where
  "encode_bidirectional hdr data = encode_bidirectional_into [] hdr data"

definition decode_bidirectional :: "bytes \<Rightarrow> bidirectional_decode_result option option" where
  "decode_bidirectional payload =
     (if length payload < bidirectional_header_size then Some None
      else do {
        (source, r) \<leftarrow> reader_u8 (reader_of payload);
        (sequence, r) \<leftarrow> reader_u64 r;
        (topic_hash, r) \<leftarrow> reader_u64 r;
        (type_hash_1, r) \<leftarrow> reader_u64 r;
        (type_hash_2, r) \<leftarrow> reader_u64 r;
        (correlation_id, r) \<leftarrow> reader_u64 r;
        data \<leftarrow> reader_rest r;
        Some (Some \<lparr>bd_header = \<lparr>bh_source = source, bh_sequence = sequence, bh_topic_hash = topic_hash,
                                 bh_type_hash_1 = type_hash_1, bh_type_hash_2 = type_hash_2,
                                 bh_correlation_id = correlation_id\<rparr>, bd_data = data\<rparr>)
      })"

section \<open>Requests and responses\<close>

datatype rpc_status = rpc_success | rpc_error | rpc_timeout | rpc_cancelled | rpc_no_handler
  | rpc_deserialize_failed | rpc_topic_not_found | rpc_peer_disconnected | rpc_response_orphan

fun rpc_status_byte :: "rpc_status \<Rightarrow> u8" where
  "rpc_status_byte rpc_success = 0"
| "rpc_status_byte rpc_error = 1"
| "rpc_status_byte rpc_timeout = 2"
| "rpc_status_byte rpc_cancelled = 3"
| "rpc_status_byte rpc_no_handler = 4"
| "rpc_status_byte rpc_deserialize_failed = 5"
| "rpc_status_byte rpc_topic_not_found = 8"
| "rpc_status_byte rpc_peer_disconnected = 18"
| "rpc_status_byte rpc_response_orphan = 20"

text \<open>The cast of a byte to the enumeration, defined on the nine enumerators.\<close>

definition rpc_status_of_byte :: "u8 \<Rightarrow> rpc_status option" where
  "rpc_status_of_byte byte =
     (if byte = 0 then Some rpc_success else if byte = 1 then Some rpc_error
      else if byte = 2 then Some rpc_timeout else if byte = 3 then Some rpc_cancelled
      else if byte = 4 then Some rpc_no_handler else if byte = 5 then Some rpc_deserialize_failed
      else if byte = 8 then Some rpc_topic_not_found else if byte = 18 then Some rpc_peer_disconnected
      else if byte = 20 then Some rpc_response_orphan else None)"

definition is_defined_rpc_status :: "u8 \<Rightarrow> bool" where
  "is_defined_rpc_status byte \<longleftrightarrow> rpc_status_of_byte byte \<noteq> None"

record rpc_request_decode_result =
  rq_header :: bidirectional_header
  rq_param_data :: bytes

record rpc_response_decode_result =
  rs_header :: bidirectional_header
  rs_status :: rpc_status
  rs_return_data :: bytes

definition encode_rpc_request :: "bidirectional_header \<Rightarrow> bytes \<Rightarrow> bytes option" where
  "encode_rpc_request hdr param_data = encode_bidirectional hdr param_data"

definition decode_rpc_request :: "bytes \<Rightarrow> rpc_request_decode_result option option" where
  "decode_rpc_request payload = do {
     decoded \<leftarrow> decode_bidirectional payload;
     Some (map_option (\<lambda>d. \<lparr>rq_header = bd_header d, rq_param_data = bd_data d\<rparr>) decoded)
   }"

definition encode_rpc_response :: "bidirectional_header \<Rightarrow> rpc_status \<Rightarrow> bytes \<Rightarrow> bytes option" where
  "encode_rpc_response hdr status return_data = do {
     combined \<leftarrow> overwrite 0 [rpc_status_byte status] (replicate (1 + length return_data) 0);
     combined \<leftarrow> (if return_data \<noteq> [] then overwrite 1 return_data combined else Some combined);
     encode_bidirectional hdr combined
   }"

definition decode_rpc_response :: "bytes \<Rightarrow> rpc_response_decode_result option option" where
  "decode_rpc_response payload = do {
     decoded \<leftarrow> decode_bidirectional payload;
     case decoded of
       None \<Rightarrow> Some None
     | Some d \<Rightarrow>
         if bd_data d = [] then Some None
         else let status_byte = hd (bd_data d) in
           case (if is_defined_rpc_status status_byte then rpc_status_of_byte status_byte else None) of
             None \<Rightarrow> Some None
           | Some status \<Rightarrow> Some (Some \<lparr>rs_header = bd_header d, rs_status = status,
                                       rs_return_data = tl (bd_data d)\<rparr>)
   }"

definition encode_rpc_request_into :: "bytes \<Rightarrow> bidirectional_header \<Rightarrow> bytes \<Rightarrow> bytes option" where
  "encode_rpc_request_into out hdr param_data = encode_bidirectional_into out hdr param_data"

definition encode_rpc_response_into :: "bytes \<Rightarrow> bidirectional_header \<Rightarrow> rpc_status \<Rightarrow> bytes \<Rightarrow> bytes option" where
  "encode_rpc_response_into out hdr status return_data = do {
     w \<leftarrow> write_bidirectional_header hdr
            (writer_of (vec_resize (bidirectional_header_size + 1 + length return_data) out));
     w \<leftarrow> writer_u8 (rpc_status_byte status) w;
     w \<leftarrow> writer_bytes return_data w;
     Some (wr_region w)
   }"

section \<open>Layouts\<close>

definition unidirectional_layout :: "unidirectional_header \<Rightarrow> u64 option \<Rightarrow> bytes" where
  "unidirectional_layout hdr counter =
     uh_source hdr # be_bytes 8 (uh_sequence hdr) @ be_bytes 8 (uh_topic_hash hdr)
     @ (case counter of None \<Rightarrow> [] | Some c \<Rightarrow> varint_bytes c)"

definition bidirectional_layout :: "bidirectional_header \<Rightarrow> bytes" where
  "bidirectional_layout hdr =
     bh_source hdr # be_bytes 8 (bh_sequence hdr) @ be_bytes 8 (bh_topic_hash hdr)
     @ be_bytes 8 (bh_type_hash_1 hdr) @ be_bytes 8 (bh_type_hash_2 hdr) @ be_bytes 8 (bh_correlation_id hdr)"

lemma encode_unidirectional_into_layout [wire_layout]:
  "encode_unidirectional_into out hdr data counter = Some (unidirectional_layout hdr counter @ data)"
  by (simp add: encode_unidirectional_into_def unidirectional_layout_def unidirectional_header_size_def
      writer_eval write_varint_def split: option.splits)

lemma encode_unidirectional_frame_into_layout [wire_layout]:
  "encode_unidirectional_frame_into out fhdr uhdr payload counter
     = Some (frame_layout fhdr (unidirectional_layout uhdr counter @ payload))"
  by (cases counter)
    (simp_all add: encode_unidirectional_frame_into_def unidirectional_layout_def frame_layout_def Let_def
      encode_header_layout unidirectional_header_size_def writer_eval length_varint_bytes add.assoc)

lemma write_bidirectional_header_at:
  "41 \<le> length room \<Longrightarrow> write_bidirectional_header hdr (writer_at d room)
     = Some (writer_at (d @ bidirectional_layout hdr) (drop 41 room))"
  by (simp add: write_bidirectional_header_def bidirectional_layout_def writer_eval drop_drop)

lemma length_bidirectional_layout [simp]: "length (bidirectional_layout hdr) = 41"
  by (simp add: bidirectional_layout_def)

lemma encode_bidirectional_into_layout [wire_layout]:
  "encode_bidirectional_into out hdr data = Some (bidirectional_layout hdr @ data)"
  by (simp add: encode_bidirectional_into_def bidirectional_header_size_def writer_eval
      write_bidirectional_header_at)

lemma encode_rpc_response_layout [wire_layout]:
  "encode_rpc_response hdr status rd = Some (bidirectional_layout hdr @ rpc_status_byte status # rd)"
  by (simp add: encode_rpc_response_def encode_bidirectional_def encode_bidirectional_into_layout overwrite_def)

lemma encode_rpc_response_into_layout [wire_layout]:
  "encode_rpc_response_into out hdr status rd = Some (bidirectional_layout hdr @ rpc_status_byte status # rd)"
  by (simp add: encode_rpc_response_into_def bidirectional_header_size_def writer_eval
      write_bidirectional_header_at)

lemmas data_frame_defs = encode_unidirectional_def encode_bidirectional_def encode_rpc_request_def
  encode_rpc_request_into_def

section \<open>Decoding what was encoded\<close>

lemma decode_unidirectional_layout:
  "decode_unidirectional (unidirectional_layout hdr counter @ data) (counter \<noteq> None)
     = Some (Some \<lparr>ud_header = hdr, ud_endpoint_counter = counter, ud_data = data\<rparr>)"
  by (cases counter)
    (simp_all add: decode_unidirectional_def unidirectional_layout_def unidirectional_header_size_def reader_eval)

lemma decode_bidirectional_layout:
  "decode_bidirectional (bidirectional_layout hdr @ data) = Some (Some \<lparr>bd_header = hdr, bd_data = data\<rparr>)"
  by (simp add: decode_bidirectional_def bidirectional_layout_def bidirectional_header_size_def reader_eval)

lemma rpc_status_roundtrip [simp]: "rpc_status_of_byte (rpc_status_byte s) = Some s"
  by (cases s) (simp_all add: rpc_status_of_byte_def)

lemma rpc_status_of_byte_inverse: "rpc_status_of_byte b = Some s \<Longrightarrow> rpc_status_byte s = b"
  by (auto simp: rpc_status_of_byte_def split: if_splits)

lemma decode_unidirectional_total: "safely (\<lambda>_. True) (decode_unidirectional payload gid)"
  by (auto simp: decode_unidirectional_def Let_def intro!: safe_intro split: prod.splits option.splits)
    (metis reader_varint_wf snd_conv)

lemma decode_bidirectional_total: "safely (\<lambda>_. True) (decode_bidirectional payload)"
  by (auto simp: decode_bidirectional_def intro!: safe_intro)

lemma decode_rpc_response_total: "safely (\<lambda>_. True) (decode_rpc_response payload)"
  using decode_bidirectional_total [of payload]
  by (auto simp: decode_rpc_response_def safely_ex Let_def split: option.splits)

lemma decode_bidirectional_data:
  assumes "41 \<le> length payload"
  shows "\<exists>h. decode_bidirectional payload = Some (Some \<lparr>bd_header = h, bd_data = drop 41 payload\<rparr>)"
proof -
  have "reader_wf \<lparr>rd_data = payload, rd_offset = n, rd_ok = True\<rparr>" if "n \<le> 41" for n
    using assms that by (simp add: reader_wf_def)
  with assms show ?thesis
    by (simp add: decode_bidirectional_def bidirectional_header_size_def reader_of_def reader_get rd_get_def
        reader_rest_def)
qed

text \<open>
  The one-pass publish encoder writes, into a reused buffer with any earlier content, exactly the
  frame that encoding the payload and then framing it would give, never leaves the buffer, and the
  receiver decodes the publisher's header, endpoint counter and data from it.
\<close>

lemma unidirectional_one_pass:
  "\<exists>inner frame. encode_unidirectional uhdr payload counter = Some inner
     \<and> encode_frame fhdr inner = Some frame
     \<and> encode_unidirectional_frame_into out fhdr uhdr payload counter = Some frame
     \<and> decode_unidirectional (drop header_size frame) (counter \<noteq> None)
         = Some (Some \<lparr>ud_header = uhdr, ud_endpoint_counter = counter, ud_data = payload\<rparr>)"
  by (simp add: data_frame_defs wire_layout frame_layout_def decode_unidirectional_layout del: not_None_eq)

text \<open>
  RPC responses: the two encoders agree and the decoder returns the header, status and result
  they were given; on arbitrary bytes the decoder stays inside the payload and accepts it exactly
  when it reaches past the header to a status byte that is one of the nine defined ones.
\<close>

lemma rpc_response_codec:
  "(\<exists>frame. encode_rpc_response hdr status rd = Some frame
      \<and> encode_rpc_response_into out hdr status rd = Some frame
      \<and> decode_rpc_response frame
          = Some (Some \<lparr>rs_header = hdr, rs_status = status, rs_return_data = rd\<rparr>))
   \<and> (\<exists>r. decode_rpc_response payload = Some r
        \<and> (r \<noteq> None \<longleftrightarrow> bidirectional_header_size < length payload
                     \<and> is_defined_rpc_status (payload ! bidirectional_header_size)))"
proof -
  have "\<exists>r. decode_rpc_response payload = Some r
        \<and> (r \<noteq> None \<longleftrightarrow> 41 < length payload \<and> is_defined_rpc_status (payload ! 41))"
  proof (cases "length payload < 41")
    case True
    then show ?thesis
      by (simp add: decode_rpc_response_def decode_bidirectional_def bidirectional_header_size_def)
  next
    case False
    then obtain h where "decode_bidirectional payload = Some (Some \<lparr>bd_header = h, bd_data = drop 41 payload\<rparr>)"
      using decode_bidirectional_data by fastforce
    with False show ?thesis
      by (auto simp: decode_rpc_response_def Let_def is_defined_rpc_status_def hd_drop_conv_nth
          split: option.splits)
  qed
  then show ?thesis
    by (simp add: wire_layout decode_rpc_response_def decode_bidirectional_layout is_defined_rpc_status_def
        bidirectional_header_size_def)
qed

end
