(* ===== verification/Handshake_Codec.thy ===== *)
theory Handshake_Codec
  imports Frame
begin

text \<open>
  \<open>plexus-wire/handshake.h\<close> and \<open>detail/handshake_codec.h\<close>: the fixed-size handshake messages. The
  C++ templates over the message type read and write the 87 bytes the two messages share; here the
  response record extends the request record and the prefix routines are polymorphic in the extension.
  A \<open>std::array<std::byte, n>\<close> is a byte list whose length the well-formedness predicate fixes.
\<close>

definition k_protocol_version :: u8 where
  "k_protocol_version = 7"

datatype handshake_status = hs_accepted | hs_version_incompatible | hs_identity_conflict
  | hs_rejected_unknown | hs_unauthorized

fun handshake_status_byte :: "handshake_status \<Rightarrow> u8" where
  "handshake_status_byte hs_accepted = 0x01"
| "handshake_status_byte hs_version_incompatible = 0x02"
| "handshake_status_byte hs_identity_conflict = 0x03"
| "handshake_status_byte hs_rejected_unknown = 0x04"
| "handshake_status_byte hs_unauthorized = 0x05"

definition handshake_status_of_byte :: "u8 \<Rightarrow> handshake_status option" where
  "handshake_status_of_byte byte =
     (if byte = 1 then Some hs_accepted else if byte = 2 then Some hs_version_incompatible
      else if byte = 3 then Some hs_identity_conflict else if byte = 4 then Some hs_rejected_unknown
      else if byte = 5 then Some hs_unauthorized else None)"

definition k_handshake_key_id_len :: nat where
  "k_handshake_key_id_len = 8"

definition k_handshake_proof_len :: nat where
  "k_handshake_proof_len = 32"

definition handshake_request_size :: nat where
  "handshake_request_size = 87"

definition handshake_response_size :: nat where
  "handshake_response_size = 88"

record handshake_request =
  hs_id :: bytes
  hs_version_major :: u8
  hs_version_minor :: u8
  hs_compatible_version_major :: u8
  hs_compatible_version_minor :: u8
  hs_protocol_version :: u8
  hs_fingerprint :: u64
  hs_key_id :: bytes
  hs_own_nonce :: bytes
  hs_cipher_offer :: u8
  hs_chosen_cipher :: u8
  hs_proof :: bytes

record handshake_response = handshake_request +
  hs_status :: handshake_status

definition handshake_wf :: "'a handshake_request_scheme \<Rightarrow> bool" where
  "handshake_wf m \<longleftrightarrow> length (hs_id m) = 16 \<and> length (hs_key_id m) = k_handshake_key_id_len
     \<and> length (hs_own_nonce m) = 16 \<and> length (hs_proof m) = k_handshake_proof_len"

definition is_defined_handshake_status :: "u8 \<Rightarrow> bool" where
  "is_defined_handshake_status byte \<longleftrightarrow> handshake_status_of_byte byte \<noteq> None"

definition write_handshake_prefix :: "'a handshake_request_scheme \<Rightarrow> writer \<Rightarrow> writer option" where
  "write_handshake_prefix m w = do {
     w \<leftarrow> writer_bytes (hs_id m) w;
     w \<leftarrow> writer_u8 (hs_version_major m) w;
     w \<leftarrow> writer_u8 (hs_version_minor m) w;
     w \<leftarrow> writer_u8 (hs_compatible_version_major m) w;
     w \<leftarrow> writer_u8 (hs_compatible_version_minor m) w;
     w \<leftarrow> writer_u8 (hs_protocol_version m) w;
     w \<leftarrow> writer_u64 (hs_fingerprint m) w;
     w \<leftarrow> writer_bytes (hs_key_id m) w;
     w \<leftarrow> writer_bytes (hs_own_nonce m) w;
     w \<leftarrow> writer_u8 (hs_cipher_offer m) w;
     w \<leftarrow> writer_u8 (hs_chosen_cipher m) w;
     writer_bytes (hs_proof m) w
   }"

definition read_handshake_prefix ::
  "reader \<Rightarrow> 'a handshake_request_scheme \<Rightarrow> ('a handshake_request_scheme \<times> reader) option" where
  "read_handshake_prefix r m = do {
     (ident, r) \<leftarrow> reader_copy_to (hs_id m) 16 r;
     (vmaj, r) \<leftarrow> reader_u8 r;
     (vmin, r) \<leftarrow> reader_u8 r;
     (cmaj, r) \<leftarrow> reader_u8 r;
     (cmin, r) \<leftarrow> reader_u8 r;
     (proto, r) \<leftarrow> reader_u8 r;
     (fp, r) \<leftarrow> reader_u64 r;
     (key, r) \<leftarrow> reader_copy_to (hs_key_id m) k_handshake_key_id_len r;
     (nonce, r) \<leftarrow> reader_copy_to (hs_own_nonce m) 16 r;
     (offer, r) \<leftarrow> reader_u8 r;
     (chosen, r) \<leftarrow> reader_u8 r;
     (prf, r) \<leftarrow> reader_copy_to (hs_proof m) k_handshake_proof_len r;
     Some (m\<lparr>hs_id := ident, hs_version_major := vmaj, hs_version_minor := vmin,
             hs_compatible_version_major := cmaj, hs_compatible_version_minor := cmin,
             hs_protocol_version := proto, hs_fingerprint := fp, hs_key_id := key,
             hs_own_nonce := nonce, hs_cipher_offer := offer, hs_chosen_cipher := chosen,
             hs_proof := prf\<rparr>, r)
   }"

definition encode_handshake_request_into :: "bytes \<Rightarrow> handshake_request \<Rightarrow> bytes option" where
  "encode_handshake_request_into out req = do {
     w \<leftarrow> write_handshake_prefix req (writer_of (vec_resize handshake_request_size out));
     Some (wr_region w)
   }"

definition encode_handshake_response_into :: "bytes \<Rightarrow> handshake_response \<Rightarrow> bytes option" where
  "encode_handshake_response_into out resp = do {
     w \<leftarrow> write_handshake_prefix resp (writer_of (vec_resize handshake_response_size out));
     w \<leftarrow> writer_u8 (handshake_status_byte (hs_status resp)) w;
     Some (wr_region w)
   }"

definition encode_handshake_request :: "handshake_request \<Rightarrow> bytes option" where
  "encode_handshake_request req = encode_handshake_request_into [] req"

definition encode_handshake_response :: "handshake_response \<Rightarrow> bytes option" where
  "encode_handshake_response resp = encode_handshake_response_into [] resp"

text \<open>The value-initialised messages; the zero status byte is overwritten before it is observed.\<close>

definition zero_handshake_request :: handshake_request where
  "zero_handshake_request =
     \<lparr>hs_id = replicate 16 0, hs_version_major = 0, hs_version_minor = 0, hs_compatible_version_major = 0,
      hs_compatible_version_minor = 0, hs_protocol_version = 0, hs_fingerprint = 0,
      hs_key_id = replicate k_handshake_key_id_len 0, hs_own_nonce = replicate 16 0, hs_cipher_offer = 0,
      hs_chosen_cipher = 0, hs_proof = replicate k_handshake_proof_len 0\<rparr>"

definition decode_handshake_request :: "bytes \<Rightarrow> handshake_request option option" where
  "decode_handshake_request payload =
     (if length payload < handshake_request_size then Some None
      else do {
        (req, r) \<leftarrow> read_handshake_prefix (reader_of payload) zero_handshake_request;
        Some (Some req)
      })"

definition decode_handshake_response :: "bytes \<Rightarrow> handshake_response option option" where
  "decode_handshake_response payload =
     (if length payload < handshake_response_size then Some None
      else do {
        (resp, r) \<leftarrow> read_handshake_prefix (reader_of payload) zero_handshake_request;
        (status_byte, r) \<leftarrow> reader_u8 r;
        case (if is_defined_handshake_status status_byte then handshake_status_of_byte status_byte else None) of
          None \<Rightarrow> Some None
        | Some status \<Rightarrow> Some (Some (handshake_request.extend resp (handshake_response.fields status)))
      })"

section \<open>Layout and decoding\<close>

definition handshake_layout :: "'a handshake_request_scheme \<Rightarrow> bytes" where
  "handshake_layout m =
     hs_id m @ [hs_version_major m, hs_version_minor m, hs_compatible_version_major m,
       hs_compatible_version_minor m, hs_protocol_version m] @ be_bytes 8 (hs_fingerprint m)
     @ hs_key_id m @ hs_own_nonce m @ [hs_cipher_offer m, hs_chosen_cipher m] @ hs_proof m"

lemmas handshake_sizes = handshake_request_size_def handshake_response_size_def
  k_handshake_key_id_len_def k_handshake_proof_len_def

lemma length_handshake_layout: "handshake_wf m \<Longrightarrow> length (handshake_layout m) = 87"
  by (simp add: handshake_layout_def handshake_wf_def handshake_sizes)

lemma write_handshake_prefix_at:
  assumes "handshake_wf m" and "87 \<le> length room"
  shows "write_handshake_prefix m (writer_at d room) = Some (writer_at (d @ handshake_layout m) (drop 87 room))"
  using assms
  by (simp add: write_handshake_prefix_def handshake_layout_def handshake_wf_def handshake_sizes writer_eval)

lemma read_handshake_prefix_at:
  assumes "handshake_wf m" and "handshake_wf z"
  shows "read_handshake_prefix (reader_at pre (handshake_layout m @ rest)) z
     = Some (handshake_request.extend (handshake_request.truncate m) (handshake_request.more z),
             reader_at (pre @ handshake_layout m) rest)"
  using assms
  by (cases m, cases z)
    (simp add: read_handshake_prefix_def handshake_layout_def handshake_wf_def handshake_sizes reader_eval
      handshake_request.defs)

lemma zero_handshake_wf [simp]: "handshake_wf zero_handshake_request"
  by (simp add: handshake_wf_def zero_handshake_request_def)

lemma encode_handshake_into_layout [wire_layout]:
  "handshake_wf req \<Longrightarrow> encode_handshake_request_into out req = Some (handshake_layout req)"
  "handshake_wf resp \<Longrightarrow> encode_handshake_response_into out resp
     = Some (handshake_layout resp @ [handshake_status_byte (hs_status resp)])"
  by (simp_all add: encode_handshake_request_into_def encode_handshake_response_into_def handshake_sizes
      writer_of_at write_handshake_prefix_at writer_at_write)

lemma handshake_status_roundtrip [simp]: "handshake_status_of_byte (handshake_status_byte s) = Some s"
  by (cases s) (simp_all add: handshake_status_of_byte_def)

lemma decode_handshake_request_layout:
  "handshake_wf req \<Longrightarrow> decode_handshake_request (handshake_layout req @ rest) = Some (Some req)"
  using read_handshake_prefix_at [of req zero_handshake_request "[]" rest]
  by (cases req) (simp add: decode_handshake_request_def length_handshake_layout handshake_sizes reader_of_at
      handshake_request.defs)

lemma decode_handshake_response_layout:
  "handshake_wf resp \<Longrightarrow>
   decode_handshake_response (handshake_layout resp @ handshake_status_byte (hs_status resp) # rest)
     = Some (Some resp)"
  using read_handshake_prefix_at [of resp zero_handshake_request "[]" "handshake_status_byte (hs_status resp) # rest"]
  by (cases resp) (simp add: decode_handshake_response_def length_handshake_layout handshake_sizes reader_eval
      handshake_request.defs handshake_response.defs is_defined_handshake_status_def)

lemma read_handshake_prefix_safe [safe_intro]:
  assumes "reader_wf r" and "handshake_wf z" and "\<And>m r'. reader_wf r' \<Longrightarrow> P (m, r')"
  shows "safely P (read_handshake_prefix r z)"
  using assms
  by (auto simp: read_handshake_prefix_def handshake_wf_def intro!: safe_intro)

lemma decode_handshake_total:
  "safely (\<lambda>_. True) (decode_handshake_request payload)"
  "safely (\<lambda>_. True) (decode_handshake_response payload)"
  by (auto simp: decode_handshake_request_def decode_handshake_response_def intro!: safe_intro
      split: option.splits)

text \<open>Every 87 bytes are the layout of a request, so the decoders refuse only by length and status.\<close>

lemma handshake_layout_surj:
  assumes "length p = 87"
  shows "\<exists>m :: handshake_request. handshake_wf m \<and> handshake_layout m = p"
proof -
  let ?at = "\<lambda>i n. take n (drop i p)"
  let ?m = "\<lparr>hs_id = ?at 0 16, hs_version_major = p ! 16, hs_version_minor = p ! 17, hs_compatible_version_major = p ! 18,
      hs_compatible_version_minor = p ! 19, hs_protocol_version = p ! 20, hs_fingerprint = be_word (?at 21 8),
      hs_key_id = ?at 29 8, hs_own_nonce = ?at 37 16, hs_cipher_offer = p ! 53,
      hs_chosen_cipher = p ! 54, hs_proof = ?at 55 32\<rparr>"
  have fp: "be_bytes 8 (be_word (?at 21 8) :: u64) = ?at 21 8" using assms by (intro be_bytes_be_word_length) auto
  have cut: "p ! i # drop (Suc i) p = drop i p" if "i < 87" for i using that assms by (simp add: Cons_nth_drop_Suc)
  have app: "?at i n @ drop (i + n) p = drop i p" for i n by (metis append_take_drop_id drop_drop add.commute)
  have "handshake_layout ?m = p"
    using assms app [of 32 55] app [of 16 37] app [of 8 29] app [of 8 21] app [of 16 0] cut [of 53] cut [of 54]
      cut [of 16] cut [of 17] cut [of 18] cut [of 19] cut [of 20]
    by (simp add: handshake_layout_def fp)
  moreover have "handshake_wf ?m" using assms by (simp add: handshake_wf_def handshake_sizes)
  ultimately show ?thesis by blast
qed

lemma decode_handshake_refuses:
  "decode_handshake_request payload = Some None \<longleftrightarrow> length payload < handshake_request_size"
  "decode_handshake_response payload = Some None \<longleftrightarrow>
     length payload < handshake_response_size \<or> handshake_status_of_byte (payload ! handshake_request_size) = None"
proof -
  have split: "\<exists>m rest. handshake_wf m \<and> payload = handshake_layout (m :: handshake_request) @ rest" if "87 \<le> length payload"
    using handshake_layout_surj [of "take 87 payload"] that by (metis append_take_drop_id length_take min_absorb2)
  show "decode_handshake_request payload = Some None \<longleftrightarrow> length payload < handshake_request_size"
  proof (cases "length payload < handshake_request_size")
    case False
    then obtain m and rest where m: "handshake_wf (m :: handshake_request)" "payload = handshake_layout m @ rest"
      using split by (auto simp: handshake_sizes)
    with decode_handshake_request_layout [OF m(1), of rest] False show ?thesis by simp
  qed (simp add: decode_handshake_request_def)
  show "decode_handshake_response payload = Some None \<longleftrightarrow>
     length payload < handshake_response_size \<or> handshake_status_of_byte (payload ! handshake_request_size) = None"
  proof (cases "length payload < handshake_response_size")
    case False
    then obtain m b rest where m: "handshake_wf m" "payload = handshake_layout (m :: handshake_request) @ b # rest"
    proof -
      obtain m and rest where m: "handshake_wf (m :: handshake_request)" "payload = handshake_layout m @ rest"
        using split False by (auto simp: handshake_sizes)
      then have "rest \<noteq> []" using False by (auto simp: handshake_sizes length_handshake_layout)
      with m show thesis by (metis list.exhaust that)
    qed
    with read_handshake_prefix_at [OF m(1) zero_handshake_wf, of "[]" "b # rest"] show ?thesis
      by (simp add: decode_handshake_response_def length_handshake_layout handshake_sizes reader_eval nth_append
          is_defined_handshake_status_def split: option.splits)
  qed (simp add: decode_handshake_response_def)
qed

lemma decode_handshake_request_short:
  "length bs < handshake_request_size \<Longrightarrow> decode_handshake_request bs = Some None"
  by (simp add: decode_handshake_request_def)

interpretation handshake_request_codec: wire_codec handshake_layout
  "\<lambda>bs. case decode_handshake_request bs of Some (Some m) \<Rightarrow> Some (m, drop handshake_request_size bs) | _ \<Rightarrow> None"
  handshake_wf
  by unfold_locales
    (simp_all add: decode_handshake_request_layout decode_handshake_request_short length_handshake_layout
      handshake_request_size_def)

text \<open>
  C2. Handshake messages: each encoder fills its fixed-size buffer exactly and the decoder returns
  the message; on arbitrary bytes both decoders stay inside the payload and refuse exactly
  a payload that is too short and, in a response, an undefined status. No byte string is the encoding of two different requests.
\<close>

theorem handshake_codec_correct:
  assumes "handshake_wf req" and "handshake_wf resp" and "handshake_wf req'"
  shows "(\<exists>bs. encode_handshake_request_into out req = Some bs \<and> length bs = handshake_request_size
           \<and> decode_handshake_request (bs @ rest) = Some (Some req))
     \<and> (\<exists>bs. encode_handshake_response_into out resp = Some bs \<and> length bs = handshake_response_size
           \<and> decode_handshake_response (bs @ rest) = Some (Some resp))
     \<and> (\<exists>a b. decode_handshake_request payload = Some a \<and> decode_handshake_response payload = Some b)
     \<and> (decode_handshake_request payload = Some None \<longleftrightarrow> length payload < handshake_request_size)
     \<and> (decode_handshake_response payload = Some None \<longleftrightarrow>
          length payload < handshake_response_size \<or> handshake_status_of_byte (payload ! handshake_request_size) = None)
     \<and> (encode_handshake_request req = encode_handshake_request req' \<longleftrightarrow> req = req')"
  unfolding decode_handshake_refuses
  using assms decode_handshake_total [of payload] handshake_request_codec.enc_inject [of req req']
  by (auto simp: wire_layout encode_handshake_request_def decode_handshake_request_layout
      decode_handshake_response_layout length_handshake_layout handshake_sizes safely_ex)

theorem handshake_codec_correct_witness:
  "\<exists>bs. encode_handshake_request_into [9] (zero_handshake_request\<lparr>hs_protocol_version := 7\<rparr>) = Some bs
     \<and> length bs = 87
     \<and> decode_handshake_request (bs @ [1]) = Some (Some (zero_handshake_request\<lparr>hs_protocol_version := 7\<rparr>))"
proof -
  have wf: "handshake_wf (zero_handshake_request\<lparr>hs_protocol_version := 7\<rparr>)"
    by (simp add: handshake_wf_def zero_handshake_request_def)
  have wfr: "handshake_wf (handshake_request.extend zero_handshake_request (handshake_response.fields hs_accepted))"
    by (simp add: handshake_wf_def zero_handshake_request_def handshake_request.defs handshake_response.defs)
  show ?thesis
    using handshake_codec_correct [OF wf wfr wf, of "[9]" "[1]"] by (simp add: handshake_sizes)
qed

end
