(* ===== verification/Subscribe_Codec.thy ===== *)
theory Subscribe_Codec
  imports Frame
begin

text \<open>
  \<open>plexus-wire/subscribe.h\<close>, \<open>detail/subscribe_codec.h\<close>, \<open>fetch_latched.h\<close> and \<open>heartbeat.h\<close>: the
  session control messages. They are written through raw pointers; strings are their bytes.
\<close>

type_synonym subscribe_status = u8

definition ss_subscribed :: subscribe_status where "ss_subscribed = 0x01"
definition ss_created :: subscribe_status where "ss_created = 0x02"
definition ss_type_mismatch :: subscribe_status where "ss_type_mismatch = 0x03"
definition ss_already_subscribed :: subscribe_status where "ss_already_subscribed = 0x04"
definition ss_incompatible_qos :: subscribe_status where "ss_incompatible_qos = 0x05"
definition ss_source_identity_incompatible :: subscribe_status where "ss_source_identity_incompatible = 0x06"
definition ss_subscribed_degraded :: subscribe_status where "ss_subscribed_degraded = 0x07"
definition ss_type_undeclared :: subscribe_status where "ss_type_undeclared = 0x08"

type_synonym unsubscribe_status = u8

record subscribe_qos_region =
  sq_durability :: u8
  sq_delivery_mode :: u8
  sq_replay_depth :: u32
  sq_requested_flags :: u8
  sq_requested_deadline_ns :: u64
  sq_requested_lease_ns :: u64
  sq_requested_priority :: u8
  sq_requested_max_message_bytes :: u32

definition default_qos_region :: subscribe_qos_region where
  "default_qos_region = \<lparr>sq_durability = 0, sq_delivery_mode = 0, sq_replay_depth = 0, sq_requested_flags = 0,
     sq_requested_deadline_ns = 0, sq_requested_lease_ns = 0, sq_requested_priority = 0,
     sq_requested_max_message_bytes = 0\<rparr>"

record subscribe_request =
  sr_fqn :: bytes
  sr_type_name :: bytes
  sr_topic_hash :: u64
  sr_type_hash :: u64
  sr_source :: endpoint_source_type
  sr_has_qos :: bool
  sr_qos :: subscribe_qos_region

record subscribe_response =
  sp_topic_hash :: u64
  sp_status :: subscribe_status
  sp_has_degraded :: bool
  sp_degraded_flags :: u8

record unsubscribe_response =
  up_topic_hash :: u64
  up_status :: unsubscribe_status

definition subscribe_response_size :: nat where "subscribe_response_size = 9"
definition subscribe_request_fixed_prefix :: nat where "subscribe_request_fixed_prefix = 17"
definition subscribe_request_min_size :: nat where "subscribe_request_min_size = 21"
definition unsubscribe_request_size :: nat where "unsubscribe_request_size = 8"
definition unsubscribe_response_size :: nat where "unsubscribe_response_size = 9"
definition k_max_fqn :: nat where "k_max_fqn = 1024"
definition k_max_type_name :: nat where "k_max_type_name = 512"
definition k_qos_region_size :: nat where "k_qos_region_size = 30"
definition k_max_qos_region :: nat where "k_max_qos_region = 64"

lemmas subscribe_sizes = subscribe_response_size_def subscribe_request_fixed_prefix_def
  subscribe_request_min_size_def unsubscribe_request_size_def unsubscribe_response_size_def
  k_max_fqn_def k_max_type_name_def k_qos_region_size_def k_max_qos_region_def

text \<open>A write through pointer \<open>p\<close> is a store at that offset of the buffer.\<close>

definition write_qos_region :: "nat \<Rightarrow> subscribe_qos_region \<Rightarrow> bytes \<Rightarrow> bytes option" where
  "write_qos_region p qos buf = do {
     buf \<leftarrow> write_u8 (p + 0) (sq_durability qos) buf;
     buf \<leftarrow> write_u8 (p + 1) (sq_delivery_mode qos) buf;
     buf \<leftarrow> write_u32 (p + 2) (sq_replay_depth qos) buf;
     buf \<leftarrow> write_u8 (p + 6) (sq_requested_flags qos) buf;
     buf \<leftarrow> write_u64 (p + 7) (sq_requested_deadline_ns qos) buf;
     buf \<leftarrow> write_u64 (p + 15) (sq_requested_lease_ns qos) buf;
     buf \<leftarrow> write_u8 (p + 23) (sq_requested_priority qos) buf;
     buf \<leftarrow> write_u32 (p + 24) (sq_requested_max_message_bytes qos) buf;
     buf \<leftarrow> write_u8 (p + 28) 0 buf;
     write_u8 (p + 28 + 1) 0 buf
   }"

definition write_subscribe_head :: "nat \<Rightarrow> subscribe_request \<Rightarrow> bytes \<Rightarrow> (nat \<times> bytes) option" where
  "write_subscribe_head p req buf = do {
     buf \<leftarrow> write_u64 p (sr_topic_hash req) buf;
     let p = p + 8 in do {
     buf \<leftarrow> write_u64 p (sr_type_hash req) buf;
     let p = p + 8 in do {
     buf \<leftarrow> write_u8 p (sr_source req) buf;
     let p = p + 1 in do {
     buf \<leftarrow> write_u16 p (of_nat (length (sr_fqn req))) buf;
     let p = p + 2 in do {
     buf \<leftarrow> (if sr_fqn req \<noteq> [] then overwrite p (sr_fqn req) buf else Some buf);
     let p = p + length (sr_fqn req) in do {
     buf \<leftarrow> write_u16 p (of_nat (length (sr_type_name req))) buf;
     let p = p + 2 in do {
     buf \<leftarrow> (if sr_type_name req \<noteq> [] then overwrite p (sr_type_name req) buf else Some buf);
     Some (p + length (sr_type_name req), buf)
   }}}}}}}"

definition read_subscribe_qos :: "bytes \<Rightarrow> nat \<Rightarrow> subscribe_request \<Rightarrow> subscribe_request option option" where
  "read_subscribe_qos payload consumed req = do {
     region \<leftarrow> read_length_prefixed 2 payload consumed 1;
     case region of
       None \<Rightarrow> Some None
     | Some (q, _) \<Rightarrow>
         if length q \<noteq> k_qos_region_size \<or> length q > k_max_qos_region then Some None
         else do {
           durability \<leftarrow> read_u8 q 0;
           delivery_mode \<leftarrow> read_u8 q 1;
           replay_depth \<leftarrow> read_u32 q 2;
           flags \<leftarrow> read_u8 q 6;
           deadline \<leftarrow> read_u64 q 7;
           lease \<leftarrow> read_u64 q 15;
           priority \<leftarrow> read_u8 q 23;
           max_message \<leftarrow> read_u32 q 24;
           Some (Some (req\<lparr>sr_has_qos := True, sr_qos :=
             \<lparr>sq_durability = durability, sq_delivery_mode = delivery_mode, sq_replay_depth = replay_depth,
              sq_requested_flags = flags, sq_requested_deadline_ns = deadline, sq_requested_lease_ns = lease,
              sq_requested_priority = priority, sq_requested_max_message_bytes = max_message\<rparr>\<rparr>))
         }
   }"

definition encode_subscribe_request :: "subscribe_request \<Rightarrow> bytes option" where
  "encode_subscribe_request req =
     (let total = subscribe_request_fixed_prefix + 2 + length (sr_fqn req) + 2 + length (sr_type_name req);
          total = (if sr_has_qos req then total + (2 + k_qos_region_size) else total) in
      do {
        (p, buf) \<leftarrow> write_subscribe_head 0 req (replicate total 0);
        if sr_has_qos req
        then do {
          buf \<leftarrow> write_u16 p (of_nat k_qos_region_size) buf;
          write_qos_region (p + 2) (sr_qos req) buf
        }
        else Some buf
      })"

definition decode_subscribe_request :: "bytes \<Rightarrow> subscribe_request option option" where
  "decode_subscribe_request payload =
     (if length payload < subscribe_request_min_size then Some None
      else do {
        topic_hash \<leftarrow> read_u64 payload 0;
        type_hash \<leftarrow> read_u64 payload 8;
        source \<leftarrow> read_u8 payload 16;
        fqn_span \<leftarrow> read_length_prefixed 2 payload subscribe_request_fixed_prefix 1;
        case fqn_span of
          None \<Rightarrow> Some None
        | Some (fqn, consumed) \<Rightarrow>
            if length fqn > k_max_fqn then Some None
            else do {
              type_name_span \<leftarrow> read_length_prefixed 2 payload consumed 1;
              case type_name_span of
                None \<Rightarrow> Some None
              | Some (type_name, consumed) \<Rightarrow>
                  if length type_name > k_max_type_name then Some None
                  else let req = \<lparr>sr_fqn = fqn, sr_type_name = type_name, sr_topic_hash = topic_hash,
                                  sr_type_hash = type_hash, sr_source = source, sr_has_qos = False,
                                  sr_qos = default_qos_region\<rparr> in
                    if consumed < length payload then read_subscribe_qos payload consumed req
                    else Some (Some req)
            }
      })"

definition encode_subscribe_response :: "subscribe_response \<Rightarrow> bytes option" where
  "encode_subscribe_response resp = do {
     buf \<leftarrow> write_u64 0 (sp_topic_hash resp)
       (replicate (if sp_has_degraded resp then subscribe_response_size + 1 else subscribe_response_size) 0);
     buf \<leftarrow> write_u8 8 (sp_status resp) buf;
     if sp_has_degraded resp then write_u8 9 (sp_degraded_flags resp) buf else Some buf
   }"

definition decode_subscribe_response :: "bytes \<Rightarrow> subscribe_response option option" where
  "decode_subscribe_response payload =
     (if length payload < subscribe_response_size then Some None
      else do {
        topic_hash \<leftarrow> read_u64 payload 0;
        status \<leftarrow> read_u8 payload 8;
        let resp = \<lparr>sp_topic_hash = topic_hash, sp_status = status, sp_has_degraded = False,
                    sp_degraded_flags = 0\<rparr> in
        if length payload > subscribe_response_size
        then do { flags \<leftarrow> read_u8 payload 9;
                  Some (Some (resp\<lparr>sp_has_degraded := True, sp_degraded_flags := flags\<rparr>)) }
        else Some (Some resp)
      })"

definition encode_unsubscribe_request :: "u64 \<Rightarrow> bytes option" where
  "encode_unsubscribe_request topic_hash = write_u64 0 topic_hash (replicate unsubscribe_request_size 0)"

definition decode_unsubscribe_request :: "bytes \<Rightarrow> u64 option option" where
  "decode_unsubscribe_request payload =
     (if length payload < unsubscribe_request_size then Some None
      else map_option Some (read_u64 payload 0))"

definition encode_unsubscribe_response :: "unsubscribe_response \<Rightarrow> bytes option" where
  "encode_unsubscribe_response resp = do {
     buf \<leftarrow> write_u64 0 (up_topic_hash resp) (replicate unsubscribe_response_size 0);
     write_u8 8 (up_status resp) buf
   }"

definition decode_unsubscribe_response :: "bytes \<Rightarrow> unsubscribe_response option option" where
  "decode_unsubscribe_response payload =
     (if length payload < unsubscribe_response_size then Some None
      else do {
        topic_hash \<leftarrow> read_u64 payload 0;
        status \<leftarrow> read_u8 payload 8;
        Some (Some \<lparr>up_topic_hash = topic_hash, up_status = status\<rparr>)
      })"

section \<open>Latched-history pull and heartbeat\<close>

record fetch_latched_request =
  fl_topic_hash :: u64
  fl_max_samples :: u32

definition fetch_latched_request_size :: nat where "fetch_latched_request_size = 12"

definition encode_fetch_latched_request :: "fetch_latched_request \<Rightarrow> bytes option" where
  "encode_fetch_latched_request req = do {
     buf \<leftarrow> write_u64 0 (fl_topic_hash req) (replicate fetch_latched_request_size 0);
     write_u32 8 (fl_max_samples req) buf
   }"

definition decode_fetch_latched_request :: "bytes \<Rightarrow> fetch_latched_request option option" where
  "decode_fetch_latched_request payload =
     (if length payload < fetch_latched_request_size then Some None
      else do {
        topic_hash \<leftarrow> read_u64 payload 0;
        max_samples \<leftarrow> read_u32 payload 8;
        Some (Some \<lparr>fl_topic_hash = topic_hash, fl_max_samples = max_samples\<rparr>)
      })"

record heartbeat =
  hb_version :: u8
  hb_reserved :: u8

definition heartbeat_payload_size :: nat where "heartbeat_payload_size = 2"

definition encode_heartbeat_into :: "bytes \<Rightarrow> heartbeat \<Rightarrow> bytes option" where
  "encode_heartbeat_into out hb = do {
     out \<leftarrow> write_u8 0 (hb_version hb) (vec_resize heartbeat_payload_size out);
     write_u8 1 (hb_reserved hb) out
   }"

definition encode_heartbeat :: "heartbeat \<Rightarrow> bytes option" where
  "encode_heartbeat hb = encode_heartbeat_into [] hb"

definition decode_heartbeat :: "bytes \<Rightarrow> heartbeat option option" where
  "decode_heartbeat payload =
     (if length payload < heartbeat_payload_size then Some None
      else do {
        version \<leftarrow> read_u8 payload 0;
        reserved \<leftarrow> read_u8 payload 1;
        Some (Some \<lparr>hb_version = version, hb_reserved = reserved\<rparr>)
      })"

section \<open>Layouts\<close>

definition qos_layout :: "subscribe_qos_region \<Rightarrow> bytes" where
  "qos_layout qos = [sq_durability qos, sq_delivery_mode qos] @ be_bytes 4 (sq_replay_depth qos)
     @ [sq_requested_flags qos] @ be_bytes 8 (sq_requested_deadline_ns qos)
     @ be_bytes 8 (sq_requested_lease_ns qos) @ [sq_requested_priority qos]
     @ be_bytes 4 (sq_requested_max_message_bytes qos) @ [0, 0]"

definition subscribe_head_layout :: "subscribe_request \<Rightarrow> bytes" where
  "subscribe_head_layout req = be_bytes 8 (sr_topic_hash req) @ be_bytes 8 (sr_type_hash req)
     @ [sr_source req] @ be_bytes 2 (of_nat (length (sr_fqn req)) :: u16) @ sr_fqn req
     @ be_bytes 2 (of_nat (length (sr_type_name req)) :: u16) @ sr_type_name req"

definition subscribe_layout :: "subscribe_request \<Rightarrow> bytes" where
  "subscribe_layout req = subscribe_head_layout req
     @ (if sr_has_qos req then be_bytes 2 (30 :: u16) @ qos_layout (sr_qos req) else [])"

lemma length_qos_layout [simp]: "length (qos_layout qos) = 30"
  by (simp add: qos_layout_def)

lemma length_subscribe_head_layout [simp]:
  "length (subscribe_head_layout req) = 21 + length (sr_fqn req) + length (sr_type_name req)"
  by (simp add: subscribe_head_layout_def)

lemma write_qos_region_at:
  "p = length d \<Longrightarrow> 30 \<le> length room \<Longrightarrow>
   write_qos_region p qos (mem_at d room) = Some (mem_at (d @ qos_layout qos) (drop 30 room))"
  by (simp add: write_qos_region_def qos_layout_def mem_at_write)

lemma write_subscribe_head_at:
  "p = length d \<Longrightarrow> length (subscribe_head_layout req) \<le> length room \<Longrightarrow>
   write_subscribe_head p req (mem_at d room)
     = Some (p + length (subscribe_head_layout req),
             mem_at (d @ subscribe_head_layout req) (drop (length (subscribe_head_layout req)) room))"
  by (cases "sr_fqn req = []"; cases "sr_type_name req = []")
    (simp_all add: write_subscribe_head_def subscribe_head_layout_def mem_at_write Let_def ac_simps)

lemma write_subscribe_head_first:
  "length (subscribe_head_layout req) \<le> length buf \<Longrightarrow>
   write_subscribe_head 0 req buf
     = Some (length (subscribe_head_layout req),
             mem_at (subscribe_head_layout req) (drop (length (subscribe_head_layout req)) buf))"
  using write_subscribe_head_at [of 0 "[]" req buf] by (simp add: mem_at_def)

lemma encode_subscribe_request_layout [wire_layout]:
  "encode_subscribe_request req = Some (subscribe_layout req)"
  by (simp add: encode_subscribe_request_def Let_def subscribe_sizes
      write_subscribe_head_first write_qos_region_at mem_at_write)
    (simp add: subscribe_layout_def mem_at_def)

lemma control_layout [wire_layout]:
  "encode_subscribe_response resp = Some (be_bytes 8 (sp_topic_hash resp) @ sp_status resp
     # (if sp_has_degraded resp then [sp_degraded_flags resp] else []))"
  "encode_unsubscribe_request h = Some (be_bytes 8 h)"
  "encode_unsubscribe_response uresp = Some (be_bytes 8 (up_topic_hash uresp) @ [up_status uresp])"
  "encode_fetch_latched_request freq = Some (be_bytes 8 (fl_topic_hash freq) @ be_bytes 4 (fl_max_samples freq))"
  "encode_heartbeat_into out hb = Some [hb_version hb, hb_reserved hb]"
  by (simp_all add: encode_subscribe_response_def encode_unsubscribe_request_def
      encode_unsubscribe_response_def encode_fetch_latched_request_def encode_heartbeat_into_def
      subscribe_sizes fetch_latched_request_size_def heartbeat_payload_size_def mem_at_first mem_at_write)
    (simp_all add: mem_at_def)

section \<open>Decoding\<close>

definition subscribe_wf :: "subscribe_request \<Rightarrow> bool" where
  "subscribe_wf req \<longleftrightarrow> length (sr_fqn req) \<le> k_max_fqn \<and> length (sr_type_name req) \<le> k_max_type_name
     \<and> (sr_has_qos req \<or> sr_qos req = default_qos_region)"

lemma unat_of_nat_16: "n < 65536 \<Longrightarrow> unat (of_nat n :: u16) = n"
  by (simp add: unat_of_nat)

lemma read_subscribe_qos_layout:
  assumes "length pre \<le> 2000"
  shows "read_subscribe_qos (pre @ be_bytes 2 (30 :: u16) @ qos_layout qos) (length pre) req
     = Some (Some (req\<lparr>sr_has_qos := True, sr_qos := qos\<rparr>))"
proof -
  have "length_prefix_spec 2 (pre @ be_bytes 2 (30 :: u16) @ qos_layout qos) (length pre) (Suc 0)
      = Some (qos_layout qos, length pre + 2 + 30)"
    using length_prefix_spec_written(2) [of "qos_layout qos" 30 pre "[]"] by simp
  with assms show ?thesis
    by (simp add: read_subscribe_qos_def read_length_prefixed_spec size_max_def subscribe_sizes read_be)
      (simp add: qos_layout_def nth_append nth_Cons')
qed

lemma decode_subscribe_request_layout:
  assumes "subscribe_wf req"
  shows "decode_subscribe_request (subscribe_layout req) = Some (Some req)"
proof -
  let ?fqn = "sr_fqn req" and ?ty = "sr_type_name req"
  let ?pre = "be_bytes 8 (sr_topic_hash req) @ be_bytes 8 (sr_type_hash req) @ [sr_source req]"
  let ?fp = "be_bytes 2 (of_nat (length ?fqn) :: u16)" and ?tp = "be_bytes 2 (of_nat (length ?ty) :: u16)"
  let ?tail = "if sr_has_qos req then be_bytes 2 (30 :: u16) @ qos_layout (sr_qos req) else []"
  have len: "length ?fqn \<le> 1024" "length ?ty \<le> 512"
    using assms by (simp_all add: subscribe_wf_def subscribe_sizes)
  have bs: "subscribe_layout req = ?pre @ ?fp @ ?fqn @ ?tp @ ?ty @ ?tail"
    by (simp add: subscribe_layout_def subscribe_head_layout_def)
  have size: "length (subscribe_layout req) \<le> size_max"
    using len by (simp add: subscribe_layout_def size_max_def)
  have fqn: "length_prefix_spec 2 (subscribe_layout req) 17 (Suc 0) = Some (?fqn, 19 + length ?fqn)"
    using length_prefix_spec_written(2) [of ?fqn "of_nat (length ?fqn)" ?pre "?tp @ ?ty @ ?tail"] len
    by (simp add: bs unat_of_nat_16)
  have ty: "length_prefix_spec 2 (subscribe_layout req) (19 + length ?fqn) (Suc 0)
      = Some (?ty, 21 + length ?fqn + length ?ty)"
    using length_prefix_spec_written(2) [of ?ty "of_nat (length ?ty)" "?pre @ ?fp @ ?fqn" ?tail] len
    by (simp add: bs unat_of_nat_16)
  have head: "be_word (take 8 (subscribe_layout req)) = sr_topic_hash req"
    "be_word (take 8 (drop 8 (subscribe_layout req))) = sr_type_hash req"
    "subscribe_layout req ! 16 = sr_source req" "21 \<le> length (subscribe_layout req)"
    by (simp_all add: bs nth_append)
  have qos: "read_subscribe_qos (subscribe_layout req) (21 + length ?fqn + length ?ty) r
      = Some (Some (r\<lparr>sr_has_qos := True, sr_qos := sr_qos req\<rparr>))" if "sr_has_qos req" for r
    using read_subscribe_qos_layout [of "subscribe_head_layout req" "sr_qos req" r] len that
    by (simp add: subscribe_layout_def)
  show ?thesis
  proof (cases "sr_has_qos req")
    case True
    then show ?thesis
      using head len qos [OF True]
      by (simp add: decode_subscribe_request_def subscribe_sizes read_be read_length_prefixed_spec size fqn ty
          Let_def) (simp add: subscribe_layout_def)
  next
    case False
    then show ?thesis
      using head len assms
      by (simp add: decode_subscribe_request_def subscribe_sizes read_be read_length_prefixed_spec size fqn ty
          Let_def subscribe_wf_def) (simp add: subscribe_layout_def)
  qed
qed

lemma decode_control_layout:
  "decode_subscribe_response (be_bytes 8 h @ st # fl) = Some (Some (case fl of
      [] \<Rightarrow> \<lparr>sp_topic_hash = h, sp_status = st, sp_has_degraded = False, sp_degraded_flags = 0\<rparr>
    | f # _ \<Rightarrow> \<lparr>sp_topic_hash = h, sp_status = st, sp_has_degraded = True, sp_degraded_flags = f\<rparr>))"
  "decode_unsubscribe_request (be_bytes 8 h @ rest) = Some (Some h)"
  "decode_unsubscribe_response (be_bytes 8 h @ ust # rest) = Some (Some \<lparr>up_topic_hash = h, up_status = ust\<rparr>)"
  "decode_fetch_latched_request (be_bytes 8 h @ be_bytes 4 n @ rest) = Some (Some \<lparr>fl_topic_hash = h, fl_max_samples = n\<rparr>)"
  "decode_heartbeat (v # x # rest) = Some (Some \<lparr>hb_version = v, hb_reserved = x\<rparr>)"
  by (auto simp: decode_subscribe_response_def decode_unsubscribe_request_def
      decode_unsubscribe_response_def decode_fetch_latched_request_def decode_heartbeat_def
      subscribe_sizes fetch_latched_request_size_def heartbeat_payload_size_def read_be nth_append
      split: list.splits)

lemma decode_subscribe_request_safe:
  "length payload \<le> size_max \<Longrightarrow>
   safely (\<lambda>r. \<forall>req. r = Some req \<longrightarrow> length (sr_fqn req) \<le> k_max_fqn \<and> length (sr_type_name req) \<le> k_max_type_name)
     (decode_subscribe_request payload)"
  by (auto simp: decode_subscribe_request_def read_subscribe_qos_def subscribe_sizes Let_def
      intro!: safe_intro split: option.splits prod.splits)

text \<open>
  Subscribe requests: a request whose names respect the caps survives encoding and decoding,
  with and without the QoS region; on arbitrary bytes the decoder stays inside the payload, and what
  it accepts respects the caps on the two attacker-sized names.
\<close>

lemma subscribe_request_codec:
  assumes "subscribe_wf req" and "length payload \<le> size_max"
  shows "(\<exists>bs. encode_subscribe_request req = Some bs \<and> decode_subscribe_request bs = Some (Some req))
     \<and> (\<exists>r. decode_subscribe_request payload = Some r
          \<and> (\<forall>req'. r = Some req' \<longrightarrow> length (sr_fqn req') \<le> k_max_fqn
                \<and> length (sr_type_name req') \<le> k_max_type_name))"
  using decode_subscribe_request_layout [OF assms(1)] decode_subscribe_request_safe [OF assms(2)]
  by (auto simp: wire_layout safely_def)

lemma subscribe_request_codec_witness:
  "\<exists>bs. encode_subscribe_request
      \<lparr>sr_fqn = [116, 47, 97], sr_type_name = [], sr_topic_hash = 7, sr_type_hash = 0, sr_source = 1,
       sr_has_qos = True, sr_qos = default_qos_region\<lparr>sq_replay_depth := 5\<rparr>\<rparr> = Some bs
    \<and> decode_subscribe_request bs = Some (Some
      \<lparr>sr_fqn = [116, 47, 97], sr_type_name = [], sr_topic_hash = 7, sr_type_hash = 0, sr_source = 1,
       sr_has_qos = True, sr_qos = default_qos_region\<lparr>sq_replay_depth := 5\<rparr>\<rparr>)"
  using subscribe_request_codec [of "\<lparr>sr_fqn = [116, 47, 97], sr_type_name = [], sr_topic_hash = 7,
      sr_type_hash = 0, sr_source = 1, sr_has_qos = True, sr_qos = default_qos_region\<lparr>sq_replay_depth := 5\<rparr>\<rparr>" "[]"]
  by (simp add: subscribe_wf_def subscribe_sizes)

end
