(* ===== verification/Announcement.thy ===== *)
theory Announcement
  imports Cursor
begin

text \<open>
  \<open>plexus-wire/announcement.h\<close>: the discovery announcement, decoded straight off untrusted multicast
  datagrams.
\<close>

definition k_contact_card_schema_version :: u32 where
  "k_contact_card_schema_version = 1"

record announcement =
  an_version :: u8
  an_flags :: u8
  an_universe :: u32
  an_node_id :: bytes
  an_ttl_secs :: u64
  an_listens :: "(bytes \<times> u16) list"

definition k_announcement_goodbye_flag :: u8 where
  "k_announcement_goodbye_flag = 0x01"

definition k_announcement_magic :: u32 where
  "k_announcement_magic = 0x504C5830"

definition announcement_fixed_max :: nat where
  "announcement_fixed_max = 4 + 1 + 1 + 4 + 16 + 10 + 1"

definition announcement_encoded_size :: "announcement \<Rightarrow> nat" where
  "announcement_encoded_size ann =
     fold (\<lambda>(transport, port) total. total + (1 + length transport + 2)) (an_listens ann) announcement_fixed_max"

fun decode_listens_loop :: "nat \<Rightarrow> reader \<Rightarrow> (bytes \<times> u16) list \<Rightarrow> ((bytes \<times> u16) list \<times> reader) option" where
  "decode_listens_loop 0 r listens = Some (listens, r)"
| "decode_listens_loop (Suc n) r listens = do {
     (transport, r) \<leftarrow> reader_length_prefixed 1 1 r;
     (port, r) \<leftarrow> reader_u16 r;
     if \<not> rd_ok r then Some (listens, r)
     else decode_listens_loop n r (listens @ [(transport, port)])
   }"

definition decode_listens :: "reader \<Rightarrow> announcement \<Rightarrow> (announcement \<times> reader) option" where
  "decode_listens r ann = do {
     (n_listens, r) \<leftarrow> reader_u8 r;
     (listens, r) \<leftarrow> decode_listens_loop (unat n_listens) r (an_listens ann);
     Some (ann\<lparr>an_listens := listens\<rparr>, r)
   }"

fun encode_listens :: "(bytes \<times> u16) list \<Rightarrow> writer \<Rightarrow> writer option" where
  "encode_listens [] w = Some w"
| "encode_listens ((transport, port) # listens) w = do {
     w \<leftarrow> writer_u8 (of_nat (length transport)) w;
     w \<leftarrow> writer_bytes transport w;
     w \<leftarrow> writer_u16 port w;
     encode_listens listens w
   }"

definition encode_announcement_into :: "bytes \<Rightarrow> announcement \<Rightarrow> bytes option" where
  "encode_announcement_into out ann = do {
     w \<leftarrow> writer_u32 k_announcement_magic (writer_of (vec_resize (announcement_encoded_size ann) out));
     w \<leftarrow> writer_u8 (an_version ann) w;
     w \<leftarrow> writer_u8 (an_flags ann) w;
     w \<leftarrow> writer_u32 (an_universe ann) w;
     w \<leftarrow> writer_bytes (an_node_id ann) w;
     w \<leftarrow> writer_varint (an_ttl_secs ann) w;
     w \<leftarrow> writer_u8 (of_nat (length (an_listens ann))) w;
     w \<leftarrow> encode_listens (an_listens ann) w;
     Some (vec_resize (wr_offset w) (wr_region w))
   }"

definition encode_announcement :: "announcement \<Rightarrow> bytes option" where
  "encode_announcement ann = encode_announcement_into [] ann"

definition default_announcement :: announcement where
  "default_announcement = \<lparr>an_version = ucast k_contact_card_schema_version, an_flags = 0, an_universe = 0,
     an_node_id = replicate 16 0, an_ttl_secs = 0, an_listens = []\<rparr>"

definition decode_announcement :: "bytes \<Rightarrow> announcement option option" where
  "decode_announcement payload = do {
     (magic, r) \<leftarrow> reader_u32 (reader_of payload);
     if magic \<noteq> k_announcement_magic then Some None
     else do {
       (version, r) \<leftarrow> reader_u8 r;
       if version \<noteq> ucast k_contact_card_schema_version then Some None
       else do {
         (flags, r) \<leftarrow> reader_u8 r;
         (universe, r) \<leftarrow> reader_u32 r;
         (node_id, r) \<leftarrow> reader_copy_to (an_node_id default_announcement) 16 r;
         let (ttl, r) = reader_varint r in do {
           (ann, r) \<leftarrow> decode_listens r (default_announcement\<lparr>an_version := version, an_flags := flags,
              an_universe := universe, an_node_id := node_id\<rparr>);
           case ttl of
             None \<Rightarrow> Some None
           | Some t \<Rightarrow> if \<not> rd_ok r then Some None else Some (Some (ann\<lparr>an_ttl_secs := t\<rparr>))
         }
       }
     }
   }"

section \<open>Layout\<close>

definition listens_layout :: "(bytes \<times> u16) list \<Rightarrow> bytes" where
  "listens_layout ls = concat (map (\<lambda>(t, p). of_nat (length t) # t @ be_bytes 2 p) ls)"

definition announcement_layout :: "announcement \<Rightarrow> bytes" where
  "announcement_layout ann = be_bytes 4 k_announcement_magic @ [an_version ann, an_flags ann]
     @ be_bytes 4 (an_universe ann) @ an_node_id ann @ varint_bytes (an_ttl_secs ann)
     @ of_nat (length (an_listens ann)) # listens_layout (an_listens ann)"

definition announcement_wf :: "announcement \<Rightarrow> bool" where
  "announcement_wf ann \<longleftrightarrow> an_version ann = ucast k_contact_card_schema_version \<and> length (an_node_id ann) = 16
     \<and> length (an_listens ann) < 256 \<and> (\<forall>(t, p) \<in> set (an_listens ann). length t < 256)"

lemma listens_layout_simps [simp]:
  "listens_layout [] = []"
  "listens_layout ((t, p) # ls) = of_nat (length t) # t @ be_bytes 2 p @ listens_layout ls"
  by (simp_all add: listens_layout_def)

lemma announcement_encoded_size_eq:
  "announcement_encoded_size ann = announcement_fixed_max + length (listens_layout (an_listens ann))"
proof -
  have "fold (\<lambda>(t, p) n. n + (1 + length t + 2)) (ls :: (bytes \<times> u16) list) k = k + length (listens_layout ls)" for ls k
    by (induction ls arbitrary: k) auto
  then show ?thesis by (simp add: announcement_encoded_size_def)
qed

lemma writer_at_trim: "vec_resize (wr_offset (writer_at d room)) (wr_region (writer_at d room)) = d"
  by (simp add: vec_resize_def)

lemma encode_listens_at:
  "length (listens_layout ls) \<le> length room \<Longrightarrow>
   encode_listens ls (writer_at d room)
     = Some (writer_at (d @ listens_layout ls) (drop (length (listens_layout ls)) room))"
  by (induction ls arbitrary: d room) (auto simp: writer_eval drop_drop ac_simps)

lemma encode_announcement_into_layout [wire_layout]:
  assumes "length (an_node_id ann) = 16"
  shows "encode_announcement_into out ann = Some (announcement_layout ann)"
proof -
  have "varint_size (an_ttl_secs ann) \<le> 10"
    using varint_size_le [of "an_ttl_secs ann"] by (simp add: k_max_varint_bytes_def)
  with assms show ?thesis
    by (simp add: encode_announcement_into_def announcement_encoded_size_eq announcement_fixed_max_def
        writer_eval encode_listens_at writer_at_trim del: writer_at_region writer_at_offset)
      (simp add: announcement_layout_def)
qed

lemma decode_listens_loop_at:
  assumes "length pre + length (listens_layout ls) + length rest \<le> size_max"
    and "\<forall>(t, p) \<in> set ls. length t < 256"
  shows "decode_listens_loop (length ls) (reader_at pre (listens_layout ls @ rest)) acc
     = Some (acc @ ls, reader_at (pre @ listens_layout ls) rest)"
  using assms
proof (induction ls arbitrary: pre acc)
  case Nil
  then show ?case by simp
next
  case (Cons l ls)
  obtain t p where l: "l = (t, p)" by fastforce
  have "length t = unat (of_nat (length t) :: u8)"
    using Cons.prems(2) l by (simp add: unat_of_nat)
  then have "reader_length_prefixed (Suc 0) (Suc 0) (reader_at pre (listens_layout (l # ls) @ rest))
      = Some (t, reader_at (pre @ of_nat (length t) # t) (be_bytes 2 p @ listens_layout ls @ rest))"
    using reader_at_length_prefixed [of pre t "be_bytes 2 p @ listens_layout ls @ rest" "of_nat (length t)"]
      Cons.prems(1) l by simp
  then show ?case
    using Cons.IH [of "pre @ of_nat (length t) # t @ be_bytes 2 p" "acc @ [(t, p)]"] Cons.prems l
    by (simp add: reader_at_read)
qed

lemma decode_announcement_layout:
  assumes "announcement_wf ann" and "length (announcement_layout ann) + length rest \<le> size_max"
  shows "decode_announcement (announcement_layout ann @ rest) = Some (Some ann)"
proof -
  have n: "unat (of_nat (length (an_listens ann)) :: u8) = length (an_listens ann)"
    using assms(1) by (simp add: announcement_wf_def unat_of_nat)
  have "\<forall>(t, p) \<in> set (an_listens ann). length t < 256" "length (an_node_id ann) = 16"
    using assms(1) by (auto simp: announcement_wf_def)
  with assms n show ?thesis
    by (cases ann)
      (simp add: decode_announcement_def announcement_layout_def decode_listens_def default_announcement_def
        reader_eval decode_listens_loop_at announcement_wf_def)
qed

lemma decode_listens_loop_safe [safe_intro]:
  "reader_wf r \<Longrightarrow> length (rd_data r) \<le> size_max \<Longrightarrow> length acc + n < 256 \<Longrightarrow>
   (\<And>v r'. length v < 256 \<Longrightarrow> P (v, r')) \<Longrightarrow> safely P (decode_listens_loop n r acc)"
  by (induction n arbitrary: r acc) (auto intro!: safe_intro)

lemma decode_announcement_safe:
  assumes "length payload \<le> size_max"
  shows "safely (\<lambda>r. \<forall>ann. r = Some ann \<longrightarrow>
      an_version ann = ucast k_contact_card_schema_version \<and> length (an_listens ann) < 256)
    (decode_announcement payload)"
proof -
  have byte: "unat (n :: u8) < 256" for n using unsigned_less [of n] by simp
  have vi: "reader_wf r' \<and> rd_data r' = rd_data r" if "reader_varint r = (v, r')" "reader_wf r" for r r' v
    using reader_varint_wf [OF that(2)] that(1) by simp
  show ?thesis
    using assms
    by (auto simp: decode_announcement_def decode_listens_def default_announcement_def byte Let_def
        intro!: safe_intro dest!: vi split: option.splits prod.splits)
qed

text \<open>
  Announcements: the encoder, whose buffer is sized by an upper bound and trimmed to what was
  written, never leaves it, and a card with at most 255 transports of at most 255 bytes each is
  decoded to itself, also with trailing bytes; on an arbitrary datagram the decoder stays inside it
  and accepts only the known schema version.
\<close>

lemma announcement_codec:
  assumes "announcement_wf ann" and "length (announcement_layout ann) + length rest \<le> size_max"
    and "length payload \<le> size_max"
  shows "(\<exists>bs. encode_announcement_into out ann = Some bs
           \<and> decode_announcement (bs @ rest) = Some (Some ann))
     \<and> (\<exists>r. decode_announcement payload = Some r
          \<and> (\<forall>a. r = Some a \<longrightarrow> an_version a = ucast k_contact_card_schema_version))"
  using decode_announcement_layout [OF assms(1,2)] decode_announcement_safe [OF assms(3)] assms(1)
  by (auto simp: wire_layout safely_def announcement_wf_def)

lemma announcement_codec_witness:
  "\<exists>bs. encode_announcement_into [] (default_announcement\<lparr>an_ttl_secs := 300, an_listens := [([116, 99, 112], 7447)]\<rparr>)
        = Some bs
     \<and> decode_announcement (bs @ [1, 2])
        = Some (Some (default_announcement\<lparr>an_ttl_secs := 300, an_listens := [([116, 99, 112], 7447)]\<rparr>))"
proof -
  let ?ann = "default_announcement\<lparr>an_ttl_secs := 300, an_listens := [([116, 99, 112], 7447)]\<rparr>"
  have "announcement_wf ?ann" by (simp add: announcement_wf_def default_announcement_def)
  moreover have "length (announcement_layout ?ann) + length [1, 2 :: u8] \<le> size_max"
    using varint_size_le [of 300]
    by (simp add: announcement_layout_def default_announcement_def size_max_def length_varint_bytes
        k_max_varint_bytes_def)
  ultimately show ?thesis
    using announcement_codec [of ?ann "[1, 2]" "[]" "[]"] by simp
qed

end
