(* ===== verification/Checksum.thy ===== *)
theory Checksum
  imports Prelude
begin

text \<open>
  \<open>plexus-wire/crc32c.h\<close> and \<open>topic_hash.h\<close>: the table-driven CRC-32C and the FNV-1a topic hash. The
  table is the array the C++ builds at compile time. The reference is the bit-serial division.
\<close>

definition k_crc32c_poly_reflected :: u32 where
  "k_crc32c_poly_reflected = 0x82F63B78"

definition crc_round :: "u32 \<Rightarrow> u32" where
  "crc_round c = (if c AND 1 \<noteq> 0 then k_crc32c_poly_reflected XOR drop_bit 1 c else drop_bit 1 c)"

definition build_crc32c_table :: "u32 list" where
  "build_crc32c_table = map (\<lambda>n. (crc_round ^^ 8) (of_nat n)) [0..<256]"

definition crc32c_step :: "u8 \<Rightarrow> u32 \<Rightarrow> u32" where
  "crc32c_step b crc =
     (let index = (ucast (crc XOR ucast b) :: u8) in build_crc32c_table ! unat index XOR drop_bit 8 crc)"

definition crc32c :: "bytes \<Rightarrow> u32 \<Rightarrow> u32" where
  "crc32c data seed = NOT (fold crc32c_step data (NOT seed))"

definition fqn_topic_hash :: "bytes \<Rightarrow> u64" where
  "fqn_topic_hash fqn = fold (\<lambda>c h. (h XOR ucast c) * 1099511628211) fqn 1469598103934665603"

section \<open>The table against the bit-serial register\<close>

lemma and_1_bit: "c AND 1 \<noteq> 0 \<longleftrightarrow> bit (c :: u32) 0"
  by (simp add: and_one_eq odd_iff_mod_2_eq_one bit_0)

lemma xor_cancel: "(a :: u32) XOR x = b XOR x \<longleftrightarrow> a = b" "x XOR a = x XOR b \<longleftrightarrow> a = b"
  by (auto simp: bit_eq_iff bit_xor_iff)

lemma crc_round_xor: "crc_round (a XOR b) = crc_round a XOR crc_round b"
proof -
  have "drop_bit (Suc 0) (a XOR b) = drop_bit (Suc 0) a XOR drop_bit (Suc 0) b" by (simp add: drop_bit_xor)
  then show ?thesis
    by (simp add: crc_round_def and_1_bit bit_xor_iff xor.assoc xor.left_commute)
qed

lemma crc_rounds_xor: "(crc_round ^^ n) (a XOR b) = (crc_round ^^ n) a XOR (crc_round ^^ n) b"
  by (induction n) (simp_all add: crc_round_xor)

lemma crc_rounds_low_zero:
  "take_bit n a = 0 \<Longrightarrow> (crc_round ^^ n) a = drop_bit n a"
proof (induction n arbitrary: a)
  case 0
  then show ?case by simp
next
  case (Suc n)
  have "\<not> bit a k" if "k \<le> n" for k
    using Suc.prems that by (metis bit_0_eq bit_take_bit_iff bot_apply bot_bool_def less_Suc_eq_le)
  then have "crc_round a = drop_bit 1 a" and "take_bit n (drop_bit 1 a) = 0"
    by (simp_all add: crc_round_def and_1_bit) (auto intro!: bit_word_eqI simp: bit_take_bit_iff bit_drop_bit_eq)
  with Suc.IH [of "drop_bit 1 a"] show ?case
    by (simp add: funpow_Suc_right del: funpow.simps)
qed

lemma crc_split: "a = push_bit 8 (drop_bit 8 a) XOR take_bit 8 (a :: u32)"
  by (rule bit_word_eqI) (auto simp: word_bits dest: bit_imp_le_length)

lemma crc32c_table_nth: "i < 256 \<Longrightarrow> build_crc32c_table ! i = (crc_round ^^ 8) (of_nat i)"
  using nth_map_upt [of i 256 0 "\<lambda>n. (crc_round ^^ 8) (of_nat n)"]
  unfolding build_crc32c_table_def by (simp only: diff_zero add_0)

lemma crc32c_step_rounds: "crc32c_step b crc = (crc_round ^^ 8) (crc XOR ucast b)"
proof -
  let ?x = "crc XOR ucast b"
  have idx: "unat (ucast ?x :: u8) < 256" using unsigned_less [of "ucast ?x :: u8"] by simp
  have low: "(of_nat (unat (ucast ?x :: u8)) :: u32) = take_bit 8 ?x"
    by simp (rule bit_word_eqI, auto simp: word_bits)
  have hi: "drop_bit 8 crc = drop_bit 8 ?x"
    by (rule bit_word_eqI) (auto simp: word_bits dest: bit_imp_le_length)
  have "(crc_round ^^ 8) ?x = (crc_round ^^ 8) (push_bit 8 (drop_bit 8 ?x)) XOR (crc_round ^^ 8) (take_bit 8 ?x)"
    by (subst crc_split) (simp add: crc_rounds_xor)
  also have "(crc_round ^^ 8) (push_bit 8 (drop_bit 8 ?x)) = drop_bit 8 ?x"
  proof -
    have "take_bit 8 (push_bit 8 (drop_bit 8 ?x)) = 0"
      by (rule bit_word_eqI) (auto simp: word_bits)
    moreover have "drop_bit 8 (push_bit 8 (drop_bit 8 ?x)) = drop_bit 8 ?x"
      by (rule bit_word_eqI) (auto simp: word_bits dest: bit_imp_le_length)
    ultimately show ?thesis using crc_rounds_low_zero [of 8 "push_bit 8 (drop_bit 8 ?x)"] by simp
  qed
  finally show ?thesis
    unfolding crc32c_step_def Let_def crc32c_table_nth [OF idx] low hi by (simp only: xor.commute)
qed

lemma crc_round_inject: "crc_round a = crc_round b \<longleftrightarrow> a = b"
proof
  assume eq: "crc_round a = crc_round b"
  have top: "bit (crc_round c) 31 \<longleftrightarrow> bit c 0" for c
  proof -
    have "bit k_crc32c_poly_reflected 31" by (simp add: k_crc32c_poly_reflected_def)
    then show ?thesis
      by (auto simp: crc_round_def and_1_bit bit_xor_iff bit_drop_bit_eq dest: bit_imp_le_length)
  qed
  have b0: "bit a 0 \<longleftrightarrow> bit b 0" using top [of a] top [of b] eq by simp
  have "drop_bit 1 a = drop_bit 1 b"
    using eq b0 by (auto simp: crc_round_def and_1_bit xor_cancel split: if_splits)
  then have "bit a (Suc n) \<longleftrightarrow> bit b (Suc n)" for n
    by (metis bit_drop_bit_eq comp_apply plus_1_eq_Suc)
  with b0 show "a = b" by (metis bit_word_eqI not0_implies_Suc)
qed simp

lemma crc_rounds_inject: "(crc_round ^^ n) a = (crc_round ^^ n) b \<longleftrightarrow> a = b"
  by (induction n) (simp_all add: crc_round_inject)

lemma crc32c_steps_inject: "fold crc32c_step s a = fold crc32c_step s b \<longleftrightarrow> a = b"
  by (induction s arbitrary: a b) (auto simp: crc32c_step_rounds crc_rounds_inject xor_cancel)

text \<open>Up to four bytes enter the register as one little-endian word.\<close>

fun le_word :: "bytes \<Rightarrow> u32" where
  "le_word [] = 0"
| "le_word (b # bs) = ucast b XOR push_bit 8 (le_word bs)"

lemma le_word_bits: "bit (le_word bs) n \<Longrightarrow> n < 8 * length bs"
proof (induction bs arbitrary: n)
  case Nil
  then show ?case by simp
next
  case (Cons b bs)
  then consider "bit (ucast b :: u32) n" | "8 \<le> n" "bit (le_word bs) (n - 8)"
    by (auto simp: bit_xor_iff bit_push_bit_iff)
  then show ?case
  proof cases
    case 1
    then have "n < 8" by (auto simp: bit_unsigned_iff dest: bit_imp_le_length)
    then show ?thesis by simp
  next
    case 2
    then show ?thesis using Cons.IH [of "n - 8"] by simp
  qed
qed

lemma le_word_parts:
  assumes "length bs \<le> 3"
  shows "take_bit 8 (le_word (b # bs)) = ucast b" and "drop_bit 8 (le_word (b # bs)) = le_word bs"
    and "(crc_round ^^ 8) (push_bit 8 (le_word bs)) = le_word bs"
proof -
  have small: "n < 24" if "bit (le_word bs) n" for n using le_word_bits [OF that] assms by simp
  show "take_bit 8 (le_word (b # bs)) = ucast b"
    by (rule bit_word_eqI) (auto simp: word_bits dest: bit_imp_le_length)
  show dr: "drop_bit 8 (le_word (b # bs)) = le_word bs"
    by (rule bit_word_eqI) (auto simp: word_bits dest: bit_imp_le_length small)
  have "drop_bit 8 (push_bit 8 (le_word bs)) = le_word bs" and "take_bit 8 (push_bit 8 (le_word bs)) = 0"
    by (rule bit_word_eqI, auto simp: word_bits dest: small)+
  then show "(crc_round ^^ 8) (push_bit 8 (le_word bs)) = le_word bs"
    by (simp add: crc_rounds_low_zero)
qed

lemma ucast_u8_inject: "(ucast x :: u32) = ucast y \<longleftrightarrow> x = (y :: u8)"
proof -
  have "(ucast (ucast z :: u32) :: u8) = z" for z :: u8
    by (rule bit_word_eqI) (auto simp: bit_unsigned_iff)
  then show ?thesis by metis
qed

lemma le_word_inject:
  "length xs = length ys \<Longrightarrow> length ys \<le> 4 \<Longrightarrow> le_word xs = le_word ys \<longleftrightarrow> xs = ys"
proof (induction xs ys rule: list_induct2)
  case Nil
  then show ?case by simp
next
  case (Cons x xs y ys)
  then have "length xs \<le> 3" "length ys \<le> 3" by simp_all
  with Cons show ?case
    using le_word_parts(1,2) [of xs x] le_word_parts(1,2) [of ys y]
    by (metis length_Cons Suc_leD list.inject ucast_u8_inject)
qed

lemma crc32c_steps_word:
  "length bs \<le> 4 \<Longrightarrow> fold crc32c_step bs crc = (crc_round ^^ (8 * length bs)) (crc XOR le_word bs)"
proof (induction bs arbitrary: crc)
  case Nil
  then show ?case by simp
next
  case (Cons b bs)
  have "fold crc32c_step (b # bs) crc = (crc_round ^^ (8 * length bs)) (crc32c_step b crc XOR le_word bs)"
    using Cons by simp
  moreover have "crc32c_step b crc XOR le_word bs = (crc_round ^^ 8) (crc XOR le_word (b # bs))"
    using le_word_parts(3) [of bs] Cons.prems crc_rounds_xor [of 8 "crc XOR ucast b" "push_bit 8 (le_word bs)"]
    by (simp add: crc32c_step_rounds xor.assoc)
  moreover have "8 * length (b # bs) = 8 * length bs + 8" by simp
  ultimately show ?case by (simp only: funpow_add comp_apply)
qed

lemma crc32c_burst:
  assumes "length x = length y" and "length y \<le> 4"
  shows "crc32c (p @ x @ s) seed = crc32c (p @ y @ s) seed \<longleftrightarrow> x = y"
  using assms
  by (simp add: crc32c_def crc32c_steps_inject crc32c_steps_word crc_rounds_inject xor_cancel le_word_inject)

text \<open>
  C5. CRC-32C: the table-driven routine is the bit-serial register of the Castagnoli polynomial;
  checksumming in pieces from the running value gives the checksum of the whole; and a change
  confined to any four consecutive bytes changes the checksum.
\<close>

theorem crc32c_correct:
  "crc32c data seed = NOT (fold (\<lambda>b crc. (crc_round ^^ 8) (crc XOR ucast b)) data (NOT seed))
   \<and> crc32c (a @ b) seed = crc32c b (crc32c a seed)
   \<and> (length x = length y \<and> length y \<le> 4 \<and> x \<noteq> y
        \<longrightarrow> crc32c (p @ x @ s) seed \<noteq> crc32c (p @ y @ s) seed)"
proof -
  have "crc32c_step = (\<lambda>b crc. (crc_round ^^ 8) (crc XOR ucast b))"
    by (simp add: fun_eq_iff crc32c_step_rounds)
  then show ?thesis using crc32c_burst [of x y p s seed] by (auto simp: crc32c_def)
qed

theorem crc32c_correct_witness:
  "crc32c ([1] @ [2, 3] @ [4]) 0 \<noteq> crc32c ([1] @ [3, 2] @ [4]) 0"
  using crc32c_correct [of "[]" 0 "[]" "[]" "[2, 3]" "[3, 2]" "[1]" "[4]"] by simp

end
