(* ===== verification/Frame_Reassembler.thy ===== *)
theory Frame_Reassembler
  imports Frame
begin

text \<open>
  \<open>plexus-wire/frame_reassembler.h\<close> and \<open>close_cause.h\<close>: turning an arbitrarily chunked byte stream
  back into frames. The buffer with its consumed prefix, the two-state scanner and the compaction
  are modelled as written; the specification is a one-shot parser of the whole stream.
\<close>

datatype feed_error = fe_none | fe_invalid_magic | fe_payload_too_large | fe_buffer_overflow | fe_no_progress

datatype close_cause = cc_invalid_magic | cc_payload_too_large | cc_buffer_overflow | cc_no_progress_timeout
  | cc_crc_mismatch

fun to_close_cause :: "feed_error \<Rightarrow> close_cause" where
  "to_close_cause fe_payload_too_large = cc_payload_too_large"
| "to_close_cause fe_buffer_overflow = cc_buffer_overflow"
| "to_close_cause _ = cc_invalid_magic"

record complete_frame =
  cf_header :: frame_header
  cf_payload :: bytes

datatype reassembler_state = reading_header | reading_payload

record frame_reassembler =
  fr_state :: reassembler_state
  fr_max_payload_size :: nat
  fr_buffered_bytes_cap :: nat
  fr_consumed :: nat
  fr_pending_header :: frame_header
  fr_buffer :: bytes

definition zero_header :: frame_header where
  "zero_header = \<lparr>fh_type = 0, fh_flags = 0, fh_session_id = 0, fh_timestamp_ns = 0, fh_payload_len = 0\<rparr>"

definition frame_reassembler_init :: "nat \<Rightarrow> nat \<Rightarrow> frame_reassembler" where
  "frame_reassembler_init max_payload_size buffered_bytes_cap =
     \<lparr>fr_state = reading_header, fr_max_payload_size = max_payload_size,
      fr_buffered_bytes_cap = buffered_bytes_cap, fr_consumed = 0, fr_pending_header = zero_header,
      fr_buffer = []\<rparr>"

definition reassembler_reset :: "frame_reassembler \<Rightarrow> frame_reassembler" where
  "reassembler_reset s = s\<lparr>fr_buffer := [], fr_consumed := 0, fr_state := reading_header,
     fr_pending_header := zero_header\<rparr>"

definition live_bytes :: "frame_reassembler \<Rightarrow> nat" where
  "live_bytes s = length (fr_buffer s) - fr_consumed s"

definition compact :: "frame_reassembler \<Rightarrow> frame_reassembler" where
  "compact s =
     (if fr_consumed s \<noteq> 0 \<and> fr_consumed s \<ge> length (fr_buffer s) - fr_consumed s
      then s\<lparr>fr_buffer := drop (fr_consumed s) (fr_buffer s), fr_consumed := 0\<rparr> else s)"

definition buffered_bytes :: "frame_reassembler \<Rightarrow> nat" where
  "buffered_bytes s = live_bytes s"

definition frame_in_progress :: "frame_reassembler \<Rightarrow> bool" where
  "frame_in_progress s \<longleftrightarrow> fr_state s = reading_payload \<or> live_bytes s \<noteq> 0"

definition pending_payload_len :: "frame_reassembler \<Rightarrow> nat option" where
  "pending_payload_len s =
     (if fr_state s = reading_payload then Some (unat (fh_payload_len (fr_pending_header s))) else None)"

text \<open>One turn of the scanning loop: it breaks, fails, or goes on.\<close>

datatype 'a flow = Break | Fail feed_error | Next 'a

definition header_phase :: "frame_reassembler \<Rightarrow> frame_reassembler flow option" where
  "header_phase s =
     (if fr_consumed s > length (fr_buffer s) then None
      else let remaining = drop (fr_consumed s) (fr_buffer s) in
      if fr_state s = reading_header
      then
        if length remaining < header_size then Some Break
        else do {
          hdr \<leftarrow> decode_header remaining;
          case hdr of
            None \<Rightarrow> Some (Fail fe_invalid_magic)
          | Some h \<Rightarrow> Some (Next (s\<lparr>fr_pending_header := h, fr_consumed := fr_consumed s + header_size,
                                   fr_state := reading_payload\<rparr>))
        }
      else Some (Next s))"

definition payload_phase :: "frame_reassembler \<Rightarrow> (frame_reassembler \<times> complete_frame) flow option" where
  "payload_phase s =
     (let hdr = fr_pending_header s; n = unat (fh_payload_len hdr) in
      if n > fr_max_payload_size s then Some (Fail fe_payload_too_large)
      else if fr_consumed s > length (fr_buffer s) then None
      else let remaining = drop (fr_consumed s) (fr_buffer s) in
      if length remaining < n then Some Break
      else let payload_span = take n remaining in
      do {
        header_bytes \<leftarrow> encode_header hdr;
        w \<leftarrow> writer_bytes header_bytes (writer_of (replicate (header_size + n) 0));
        framed \<leftarrow> (if payload_span \<noteq> [] then overwrite header_size payload_span (wr_region w)
                   else Some (wr_region w));
        Some (Next (s\<lparr>fr_consumed := fr_consumed s + n, fr_state := reading_header\<rparr>,
                    \<lparr>cf_header = hdr, cf_payload = framed\<rparr>))
      })"

lemma header_phase_next:
  "header_phase s = Some (Next s') \<Longrightarrow> fr_consumed s \<le> length (fr_buffer s) \<and> fr_buffer s' = fr_buffer s
     \<and> (if fr_state s = reading_header
        then fr_consumed s' = fr_consumed s + header_size \<and> fr_consumed s' \<le> length (fr_buffer s) else s' = s)"
  by (auto simp: header_phase_def Let_def split: if_splits option.splits)

lemma payload_phase_next:
  "payload_phase s = Some (Next (s', f)) \<Longrightarrow> fr_consumed s \<le> fr_consumed s' \<and> fr_consumed s' \<le> length (fr_buffer s)
     \<and> fr_buffer s' = fr_buffer s \<and> fr_state s' = reading_header"
  by (auto simp: payload_phase_def Let_def bind_eq_Some_conv split: if_splits)

function feed_loop :: "frame_reassembler \<Rightarrow> complete_frame list \<Rightarrow> (frame_reassembler \<times> complete_frame list \<times> feed_error) option" where
  "feed_loop s frames =
     (case header_phase s of
        None \<Rightarrow> None
      | Some Break \<Rightarrow> Some (s, frames, fe_none)
      | Some (Fail e) \<Rightarrow> Some (reassembler_reset s, frames, e)
      | Some (Next s1) \<Rightarrow>
          (case payload_phase s1 of
             None \<Rightarrow> None
           | Some Break \<Rightarrow> Some (s1, frames, fe_none)
           | Some (Fail e) \<Rightarrow> Some (reassembler_reset s1, frames, e)
           | Some (Next (s2, f)) \<Rightarrow> feed_loop s2 (frames @ [f])))"
  by pat_completeness auto
termination
proof (relation "measure (\<lambda>(s, _). 2 * (length (fr_buffer s) - fr_consumed s) + (if fr_state s = reading_header then 0 else 1))",
    goal_cases)
  case 1
  then show ?case by simp
next
  case (2 s frames x s1 y z s2 f)
  then have h: "header_phase s = Some (Next s1)" and p: "payload_phase s1 = Some (Next (s2, f))" by simp_all
  from header_phase_next [OF h] payload_phase_next [OF p] show ?case
    by (cases "fr_state s") (auto simp: header_size_def)
qed

declare feed_loop.simps [simp del]

definition feed :: "frame_reassembler \<Rightarrow> bytes \<Rightarrow> (frame_reassembler \<times> complete_frame list \<times> feed_error) option" where
  "feed s data =
     (let s = compact s; s = s\<lparr>fr_buffer := fr_buffer s @ data\<rparr> in
      if live_bytes s > fr_buffered_bytes_cap s then Some (reassembler_reset s, [], fe_buffer_overflow)
      else feed_loop s [])"

section \<open>The stream specification\<close>

text \<open>
  The frames at the front of a byte string, what is left undecided behind them, and the error that
  stops the parser.
\<close>

function parse_stream :: "nat \<Rightarrow> bytes \<Rightarrow> complete_frame list \<times> bytes \<times> feed_error" where
  "parse_stream max_payload bs =
     (if length bs < header_size then ([], bs, fe_none)
      else case header_view bs of
          None \<Rightarrow> ([], [], fe_invalid_magic)
        | Some h \<Rightarrow>
            let n = unat (fh_payload_len h) in
            if n > max_payload then ([], [], fe_payload_too_large)
            else if length bs < header_size + n then ([], bs, fe_none)
            else let (frames, rest, e) = parse_stream max_payload (drop (header_size + n) bs) in
              (\<lparr>cf_header = h, cf_payload = take (header_size + n) bs\<rparr> # frames, rest, e))"
  by pat_completeness auto
termination
  by (relation "measure (\<lambda>(_, bs). length bs)") (auto simp: header_size_def)

declare parse_stream.simps [simp del]

text \<open>The bytes of the stream that belong to the frame in progress.\<close>

definition unread :: "frame_reassembler \<Rightarrow> bytes" where
  "unread s = (if fr_state s = reading_header then [] else header_layout (fr_pending_header s))
     @ drop (fr_consumed s) (fr_buffer s)"

definition fr_wf :: "frame_reassembler \<Rightarrow> bool" where
  "fr_wf s \<longleftrightarrow> fr_consumed s \<le> length (fr_buffer s)"

lemma fr_wf_init [simp]: "fr_wf (frame_reassembler_init m c)" "unread (frame_reassembler_init m c) = []"
  by (simp_all add: fr_wf_def frame_reassembler_init_def unread_def)

lemma init_fields [simp]:
  "fr_max_payload_size (frame_reassembler_init m c) = m"
  "fr_buffered_bytes_cap (frame_reassembler_init m c) = c"
  "live_bytes (frame_reassembler_init m c) = 0"
  by (simp_all add: frame_reassembler_init_def live_bytes_def)

lemma fr_wf_reset [simp]: "fr_wf (reassembler_reset s)" "unread (reassembler_reset s) = []"
  by (simp_all add: fr_wf_def reassembler_reset_def unread_def)

lemma reset_caps [simp]:
  "fr_max_payload_size (reassembler_reset s) = fr_max_payload_size s"
  "fr_buffered_bytes_cap (reassembler_reset s) = fr_buffered_bytes_cap s"
  by (simp_all add: reassembler_reset_def)

lemma compact_unread [simp]: "fr_wf s \<Longrightarrow> unread (compact s) = unread s" "fr_wf s \<Longrightarrow> fr_wf (compact s)"
  "fr_max_payload_size (compact s) = fr_max_payload_size s"
  "fr_buffered_bytes_cap (compact s) = fr_buffered_bytes_cap s"
  "live_bytes (compact s) = live_bytes s"
  "fr_state (compact s) = fr_state s" "fr_pending_header (compact s) = fr_pending_header s"
  by (simp_all add: compact_def unread_def fr_wf_def live_bytes_def)

text \<open>The header phase completes the 28 bytes the specification looks at.\<close>

lemma header_phase_spec:
  assumes "fr_wf s"
  shows "header_phase s =
    (if fr_state s = reading_header
     then if length (unread s) < header_size then Some Break
       else case header_view (unread s) of
           None \<Rightarrow> Some (Fail fe_invalid_magic)
         | Some h \<Rightarrow> Some (Next (s\<lparr>fr_pending_header := h, fr_consumed := fr_consumed s + header_size,
                                  fr_state := reading_payload\<rparr>))
     else Some (Next s))"
  using assms by (auto simp: header_phase_def fr_wf_def unread_def Let_def split: option.splits)

lemma payload_phase_spec:
  assumes "fr_wf s" and "fr_state s = reading_payload"
  shows "payload_phase s =
    (let h = fr_pending_header s; n = unat (fh_payload_len h) in
     if n > fr_max_payload_size s then Some (Fail fe_payload_too_large)
     else if length (unread s) < header_size + n then Some Break
     else Some (Next (s\<lparr>fr_consumed := fr_consumed s + n, fr_state := reading_header\<rparr>,
                      \<lparr>cf_header = h, cf_payload = take (header_size + n) (unread s)\<rparr>)))"
  using assms
  by (auto simp: payload_phase_def fr_wf_def unread_def Let_def encode_header_layout writer_eval
      overwrite_def)

lemma header_phase_advance:
  assumes "fr_wf s" and "header_phase s = Some (Next s1)"
  shows "fr_wf s1 \<and> fr_state s1 = reading_payload \<and> unread s1 = unread s
     \<and> header_view (unread s) = Some (fr_pending_header s1) \<and> header_size \<le> length (unread s)
     \<and> reassembler_reset s1 = reassembler_reset s \<and> fr_max_payload_size s1 = fr_max_payload_size s
     \<and> fr_buffered_bytes_cap s1 = fr_buffered_bytes_cap s"
proof (cases "fr_state s")
  case reading_header
  then obtain h where h: "header_view (unread s) = Some h" "header_size \<le> length (unread s)"
    "s1 = s\<lparr>fr_pending_header := h, fr_consumed := fr_consumed s + header_size, fr_state := reading_payload\<rparr>"
    using assms by (auto simp: header_phase_spec split: if_splits option.splits)
  have "header_layout h = take header_size (unread s)" using header_layout_view [OF h(1)] .
  then have "unread s1 = unread s"
    using h reading_header append_take_drop_id [of header_size "drop (fr_consumed s) (fr_buffer s)"]
    by (simp add: unread_def add.commute)
  with h reading_header assms(1) show ?thesis
    by (auto simp: fr_wf_def unread_def reassembler_reset_def)
next
  case reading_payload
  then have "s1 = s" using assms by (simp add: header_phase_spec)
  with reading_payload assms(1) show ?thesis by (simp add: unread_def)
qed

lemma payload_phase_advance:
  assumes "fr_wf s1" and "fr_state s1 = reading_payload" and "payload_phase s1 = Some (Next (s2, f))"
  shows "fr_wf s2 \<and> unread s2 = drop (header_size + unat (fh_payload_len (fr_pending_header s1))) (unread s1)
     \<and> reassembler_reset s2 = reassembler_reset s1 \<and> fr_max_payload_size s2 = fr_max_payload_size s1
     \<and> fr_buffered_bytes_cap s2 = fr_buffered_bytes_cap s1"
  using assms
  by (auto simp: payload_phase_spec Let_def fr_wf_def unread_def reassembler_reset_def add.commute split: if_splits)

text \<open>The scanning loop computes the stream specification.\<close>

lemma feed_loop_spec:
  assumes "fr_wf s" and "parse_stream (fr_max_payload_size s) (unread s) = (fs, rest, e)"
  shows "\<exists>s'. feed_loop s frames = Some (s', frames @ fs, e) \<and> fr_wf s'
     \<and> fr_max_payload_size s' = fr_max_payload_size s \<and> fr_buffered_bytes_cap s' = fr_buffered_bytes_cap s
     \<and> (if e = fe_none then unread s' = rest else s' = reassembler_reset s)"
  using assms
proof (induction s frames arbitrary: fs rest e rule: feed_loop.induct)
  case (1 s frames)
  note IH = 1(1) and wf = 1(2) and ps = 1(3)
  show ?case
  proof (cases "\<exists>s1. header_phase s = Some (Next s1)")
    case False
    then show ?thesis
      using wf ps
      by (subst feed_loop.simps, subst (asm) parse_stream.simps)
        (auto simp: header_phase_spec split: if_splits option.splits)
  next
    case True
    then obtain s1 where h: "header_phase s = Some (Next s1)" by blast
    note adv = header_phase_advance [OF wf h]
    show ?thesis
    proof (cases "\<exists>s2 f. payload_phase s1 = Some (Next (s2, f))")
      case False
      then show ?thesis
        using adv ps h
        by (subst feed_loop.simps, subst (asm) parse_stream.simps)
          (auto simp: payload_phase_spec Let_def split: if_splits)
    next
      case True
      then obtain s2 f where p: "payload_phase s1 = Some (Next (s2, f))" by blast
      have adv2: "fr_wf s2" "unread s2 = drop (header_size + unat (fh_payload_len (fr_pending_header s1))) (unread s)"
        "reassembler_reset s2 = reassembler_reset s" "fr_max_payload_size s2 = fr_max_payload_size s"
        "fr_buffered_bytes_cap s2 = fr_buffered_bytes_cap s"
        using payload_phase_advance [OF _ _ p] adv by auto
      obtain fs2 rest2 e2 where ps2: "parse_stream (fr_max_payload_size s2) (unread s2) = (fs2, rest2, e2)"
        by (metis prod_cases3)
      have "fs = f # fs2" "rest = rest2" "e = e2"
        using ps p adv adv2 ps2
        by (auto simp: parse_stream.simps [of "fr_max_payload_size s" "unread s"] payload_phase_spec Let_def
            split: if_splits)
      then show ?thesis
        using IH [OF h refl p refl refl adv2(1) ps2] h p adv2
        by (subst feed_loop.simps) (cases "e2 = fe_none"; auto)
    qed
  qed
qed

lemma feed_spec:
  assumes "fr_wf s" and "parse_stream (fr_max_payload_size s) (unread s @ data) = (fs, rest, e)"
    and "live_bytes s + length data \<le> fr_buffered_bytes_cap s"
  shows "\<exists>s'. feed s data = Some (s', fs, e) \<and> fr_wf s'
     \<and> fr_max_payload_size s' = fr_max_payload_size s \<and> fr_buffered_bytes_cap s' = fr_buffered_bytes_cap s
     \<and> (if e = fe_none then unread s' = rest else unread s' = [])"
proof -
  let ?s = "(compact s)\<lparr>fr_buffer := fr_buffer (compact s) @ data\<rparr>"
  have wf: "fr_wf ?s" using compact_unread(2) [OF assms(1)] by (simp add: fr_wf_def)
  have "fr_consumed (compact s) \<le> length (fr_buffer (compact s))"
    using compact_unread(2) [OF assms(1)] by (simp add: fr_wf_def)
  then have un: "unread ?s = unread s @ data" and live: "live_bytes ?s = live_bytes s + length data"
    using compact_unread(1,5) [of s] assms(1) by (simp_all add: unread_def live_bytes_def)
  have "parse_stream (fr_max_payload_size ?s) (unread ?s) = (fs, rest, e)"
    using assms(2) un by simp
  from feed_loop_spec [OF wf this, of "[]"] obtain s' where
    "feed_loop ?s [] = Some (s', fs, e)" "fr_wf s'" "fr_max_payload_size s' = fr_max_payload_size ?s"
    "fr_buffered_bytes_cap s' = fr_buffered_bytes_cap ?s"
    "if e = fe_none then unread s' = rest else s' = reassembler_reset ?s" by auto
  then show ?thesis
    using assms(3) live by (auto simp: feed_def Let_def split: if_splits)
qed

lemma feed_overflow:
  assumes "fr_wf s" and "live_bytes s + length data > fr_buffered_bytes_cap s"
  shows "feed s data = Some (reassembler_reset s, [], fe_buffer_overflow)"
proof -
  have "fr_consumed (compact s) \<le> length (fr_buffer (compact s))"
    using compact_unread(2) [OF assms(1)] by (simp add: fr_wf_def)
  then have "live_bytes ((compact s)\<lparr>fr_buffer := fr_buffer (compact s) @ data\<rparr>) = live_bytes s + length data"
    using compact_unread(5) [of s] by (simp add: live_bytes_def)
  then show ?thesis
    using assms(2) by (simp add: feed_def Let_def reassembler_reset_def compact_def)
qed

section \<open>Independence of the chunking\<close>

lemma parse_stream_Nil: "parse_stream m a = ([], rest, fe_none) \<Longrightarrow> rest = a"
  by (subst (asm) parse_stream.simps) (auto simp: Let_def split: if_splits option.splits prod.splits)

lemma parse_stream_Cons:
  assumes "parse_stream m a = (f # fs, rest, e)"
  obtains h where "header_size \<le> length a" "header_view a = Some h" "unat (fh_payload_len h) \<le> m"
    "header_size + unat (fh_payload_len h) \<le> length a"
    "f = \<lparr>cf_header = h, cf_payload = take (header_size + unat (fh_payload_len h)) a\<rparr>"
    "parse_stream m (drop (header_size + unat (fh_payload_len h)) a) = (fs, rest, e)"
  using assms
  by (subst (asm) parse_stream.simps) (auto simp: Let_def split: if_splits option.splits prod.splits)

lemma parse_stream_append:
  assumes "parse_stream m a = (fs, rest, fe_none)" and "parse_stream m (rest @ b) = (fs2, rest2, e2)"
  shows "parse_stream m (a @ b) = (fs @ fs2, rest2, e2)"
  using assms
proof (induction m a arbitrary: fs rule: parse_stream.induct)
  case (1 m a)
  note IH = 1(1) and pa = 1(2) and pb = 1(3)
  show ?case
  proof (cases "fs")
    case Nil
    then have "rest = a" using pa parse_stream_Nil by simp
    with pb Nil show ?thesis by simp
  next
    case (Cons f fs')
    obtain h where h: "header_size \<le> length a" "header_view a = Some h" "unat (fh_payload_len h) \<le> m"
        "header_size + unat (fh_payload_len h) \<le> length a"
      and f: "f = \<lparr>cf_header = h, cf_payload = take (header_size + unat (fh_payload_len h)) a\<rparr>"
      and rec: "parse_stream m (drop (header_size + unat (fh_payload_len h)) a) = (fs', rest, fe_none)"
      using pa [unfolded Cons] by (rule parse_stream_Cons)
    have hv: "header_view (a @ b) = Some h"
      using header_view_layout [of h "drop header_size a @ b"] header_layout_view [OF h(2)]
        append_take_drop_id [of header_size a] by (metis append_assoc)
    have "parse_stream m (drop (header_size + unat (fh_payload_len h)) a @ b) = (fs' @ fs2, rest2, e2)"
      using h rec pb by (intro IH) auto
    then show ?thesis
      using h hv f Cons by (subst parse_stream.simps) (simp add: Let_def)
  qed
qed

fun feed_all :: "frame_reassembler \<Rightarrow> bytes list \<Rightarrow> (frame_reassembler \<times> complete_frame list \<times> feed_error) option" where
  "feed_all s [] = Some (s, [], fe_none)"
| "feed_all s (c # cs) =
     (case feed s c of
        None \<Rightarrow> None
      | Some (s1, fs, e) \<Rightarrow>
          if e \<noteq> fe_none then Some (s1, fs, e)
          else map_option (\<lambda>(s2, fs2, e2). (s2, fs @ fs2, e2)) (feed_all s1 cs))"

lemma parse_stream_error:
  assumes "parse_stream m a = (fs, rest, e)" and "e \<noteq> fe_none"
  shows "parse_stream m (a @ b) = (fs, rest, e)"
  using assms
proof (induction m a arbitrary: fs rule: parse_stream.induct)
  case (1 m a)
  note IH = 1(1) and pa = 1(2) and e = 1(3)
  from pa e have len: "header_size \<le> length a"
    by (subst (asm) parse_stream.simps) (auto split: if_splits)
  show ?case
  proof (cases "header_view a")
    case None
    with len have "header_view (a @ b) = None"
      by (auto simp: header_view_def nth_append header_size_def split: if_splits)
    with None pa len show ?thesis
      by (auto simp: parse_stream.simps [of m a] parse_stream.simps [of m "a @ b"])
  next
    case (Some h)
    have hv: "header_view (a @ b) = Some h"
      using header_view_layout [of h "drop header_size a @ b"] header_layout_view [OF Some]
        append_take_drop_id [of header_size a] by (metis append_assoc)
    show ?thesis
    proof (cases "unat (fh_payload_len h) \<le> m")
      case False
      with Some hv pa len show ?thesis
        by (auto simp: parse_stream.simps [of m a] parse_stream.simps [of m "a @ b"])
    next
      case True
      then have n: "header_size + unat (fh_payload_len h) \<le> length a"
        using pa e len Some by (subst (asm) parse_stream.simps) (auto simp: Let_def split: if_splits)
      obtain fs' r' e' where rec: "parse_stream m (drop (header_size + unat (fh_payload_len h)) a) = (fs', r', e')"
        by (metis prod_cases3)
      then have eq: "fs = \<lparr>cf_header = h, cf_payload = take (header_size + unat (fh_payload_len h)) a\<rparr> # fs'"
          "rest = r'" "e = e'"
        using pa len Some True n by (auto simp: parse_stream.simps [of m a] Let_def)
      have "parse_stream m (drop (header_size + unat (fh_payload_len h)) a @ b) = (fs', rest, e)"
        using len Some True n rec eq e by (intro IH) auto
      then show ?thesis
        using hv len True n eq by (simp add: parse_stream.simps [of m "a @ b"] Let_def)
    qed
  qed
qed

lemma parse_stream_rest:
  "parse_stream m bs = (fs, rest, fe_none) \<Longrightarrow> length rest < header_size + m + 1 \<and> parse_stream m rest = ([], rest, fe_none)"
proof (induction m bs arbitrary: fs rule: parse_stream.induct)
  case (1 m bs)
  note IH = 1(1) and ps = 1(2)
  show ?case
  proof (cases fs)
    case Nil
    with ps have "rest = bs" using parse_stream_Nil by simp
    with ps Nil show ?thesis
      by (auto simp: parse_stream.simps [of m bs] Let_def split: if_splits option.splits prod.splits)
  next
    case (Cons f fs')
    obtain h where "header_size \<le> length bs" "header_view bs = Some h" "unat (fh_payload_len h) \<le> m"
      "header_size + unat (fh_payload_len h) \<le> length bs"
      "parse_stream m (drop (header_size + unat (fh_payload_len h)) bs) = (fs', rest, fe_none)"
      using ps [unfolded Cons] by (rule parse_stream_Cons)
    then show ?thesis using IH [of h "unat (fh_payload_len h)" fs'] by simp
  qed
qed

lemma live_le_unread: "live_bytes s \<le> length (unread s)"
  by (simp add: live_bytes_def unread_def)

lemma feed_all_spec:
  assumes "fr_wf s" and "parse_stream (fr_max_payload_size s) (unread s) = ([], unread s, fe_none)"
    and "parse_stream (fr_max_payload_size s) (unread s @ concat cs) = (fs, rest, e)"
    and "\<forall>c \<in> set cs. header_size + fr_max_payload_size s + length c \<le> fr_buffered_bytes_cap s"
  shows "\<exists>s'. feed_all s cs = Some (s', fs, e) \<and> fr_wf s' \<and> (e = fe_none \<longrightarrow> unread s' = rest)"
  using assms
proof (induction cs arbitrary: s fs)
  case Nil
  then show ?case by simp
next
  case (Cons c cs)
  let ?m = "fr_max_payload_size s"
  have "length (unread s) < header_size + ?m + 1"
    using parse_stream_rest [OF Cons.prems(2)] by simp
  then have cap: "live_bytes s + length c \<le> fr_buffered_bytes_cap s"
    using live_le_unread [of s] Cons.prems(4) by fastforce
  obtain fs1 r1 e1 where p1: "parse_stream ?m (unread s @ c) = (fs1, r1, e1)" by (metis prod_cases3)
  obtain s1 where f1: "feed s c = Some (s1, fs1, e1)" "fr_wf s1" "fr_max_payload_size s1 = ?m"
    "fr_buffered_bytes_cap s1 = fr_buffered_bytes_cap s" "if e1 = fe_none then unread s1 = r1 else unread s1 = []"
    using feed_spec [OF Cons.prems(1) p1 cap] by blast
  show ?case
  proof (cases "e1 = fe_none")
    case False
    then have "fs = fs1" "rest = r1" "e = e1"
      using parse_stream_error [OF p1 False, of "concat cs"] Cons.prems(3) by simp_all
    with f1 False show ?thesis by simp
  next
    case True
    obtain fs2 r2 e2 where p2: "parse_stream ?m (r1 @ concat cs) = (fs2, r2, e2)" by (metis prod_cases3)
    have eq: "fs = fs1 @ fs2" "rest = r2" "e = e2"
      using parse_stream_append [OF p1 [unfolded True] p2] Cons.prems(3) by simp_all
    have "\<exists>s'. feed_all s1 cs = Some (s', fs2, e2) \<and> fr_wf s' \<and> (e2 = fe_none \<longrightarrow> unread s' = rest)"
      using Cons.IH [OF f1(2), of fs2] f1 True p2 eq Cons.prems(4) parse_stream_rest [OF p1 [unfolded True]]
      by simp
    with f1 True eq show ?thesis by auto
  qed
qed

lemma length_frame_layout [simp]: "length (frame_layout h p) = header_size + length p"
  by (simp add: frame_layout_def)

lemma header_view_frame_layout:
  "header_view (frame_layout h p @ rest) = Some (h\<lparr>fh_payload_len := of_nat (length p)\<rparr>)"
  by (simp add: frame_layout_def)

lemma parse_stream_frames:
  assumes "\<forall>(h, p) \<in> set ms. length p \<le> m" and "m < 2 ^ 64"
  shows "parse_stream m (concat (map (\<lambda>(h, p). frame_layout h p) ms))
    = (map (\<lambda>(h, p). \<lparr>cf_header = h\<lparr>fh_payload_len := of_nat (length p)\<rparr>, cf_payload = frame_layout h p\<rparr>) ms, [], fe_none)"
  using assms(1)
proof (induction ms)
  case Nil
  then show ?case by (simp add: parse_stream.simps header_size_def)
next
  case (Cons hp ms)
  obtain h p where hp: "hp = (h, p)" by fastforce
  have "unat (of_nat (length p) :: u64) = length p"
    using Cons.prems hp assms(2) by (simp add: unat_of_nat)
  with Cons hp show ?case
    by (subst parse_stream.simps) (simp add: Let_def header_view_frame_layout)
qed

section \<open>Memory\<close>

text \<open>
  A settled reassembler holds no complete frame: what is buffered is a proper part of one frame.
  Compaction keeps the buffer below twice the cap.
\<close>

definition fr_settled :: "frame_reassembler \<Rightarrow> bool" where
  "fr_settled s \<longleftrightarrow> fr_wf s \<and> parse_stream (fr_max_payload_size s) (unread s) = ([], unread s, fe_none)"

lemma parse_stream_empty [simp]: "parse_stream m [] = ([], [], fe_none)"
  by (simp add: parse_stream.simps header_size_def)

lemma fr_settled_init [simp]: "fr_settled (frame_reassembler_init m c)"
  by (simp add: fr_settled_def)

lemma feed_settled:
  assumes "fr_settled s"
  shows "\<exists>s' fs e. feed s data = Some (s', fs, e) \<and> fr_settled s'
     \<and> fr_max_payload_size s' = fr_max_payload_size s \<and> fr_buffered_bytes_cap s' = fr_buffered_bytes_cap s
     \<and> (e \<noteq> fe_none \<longrightarrow> unread s' = [])"
proof (cases "live_bytes s + length data \<le> fr_buffered_bytes_cap s")
  case False
  with assms show ?thesis
    by (simp add: fr_settled_def feed_overflow)
next
  case True
  obtain fs rest e where p: "parse_stream (fr_max_payload_size s) (unread s @ data) = (fs, rest, e)"
    by (metis prod_cases3)
  obtain s' where s': "feed s data = Some (s', fs, e)" "fr_wf s'" "fr_max_payload_size s' = fr_max_payload_size s"
    "fr_buffered_bytes_cap s' = fr_buffered_bytes_cap s" "if e = fe_none then unread s' = rest else unread s' = []"
    using feed_spec [OF _ p True] assms by (auto simp: fr_settled_def)
  then have "fr_settled s'"
    using parse_stream_rest [of "fr_max_payload_size s" "unread s @ data" fs rest] p
    by (cases "e = fe_none") (simp_all add: fr_settled_def)
  with s' show ?thesis by auto
qed

lemma settled_pending:
  assumes "fr_settled s" and "fr_state s = reading_payload"
  shows "unat (fh_payload_len (fr_pending_header s)) \<le> fr_max_payload_size s"
proof -
  have "header_view (unread s) = Some (fr_pending_header s)" "header_size \<le> length (unread s)"
    using assms(2) by (simp_all add: unread_def)
  then show ?thesis
    using assms(1) by (auto simp: fr_settled_def parse_stream.simps [of _ "unread s"] Let_def split: if_splits)
qed

lemma settled_live: "fr_settled s \<Longrightarrow> live_bytes s \<le> header_size + fr_max_payload_size s"
  using live_le_unread [of s] parse_stream_rest [of "fr_max_payload_size s" "unread s" "[]" "unread s"]
  by (simp add: fr_settled_def)

lemma feed_loop_buffer:
  "feed_loop s fs = Some (s', fs', e) \<Longrightarrow> length (fr_buffer s') \<le> length (fr_buffer s)"
proof (induction s fs rule: feed_loop.induct)
  case (1 s fs)
  show ?case
  proof (cases "\<exists>s1 s2 f. header_phase s = Some (Next s1) \<and> payload_phase s1 = Some (Next (s2, f))")
    case True
    then obtain s1 s2 f where h: "header_phase s = Some (Next s1)" and p: "payload_phase s1 = Some (Next (s2, f))"
      by blast
    then have "feed_loop s2 (fs @ [f]) = Some (s', fs', e)"
      using 1(2) by (subst (asm) feed_loop.simps) simp
    from 1(1) [OF h refl p refl refl this] header_phase_next [OF h] payload_phase_next [OF p] show ?thesis by simp
  next
    case False
    with 1(2) show ?thesis
      by (subst (asm) feed_loop.simps)
        (auto simp: reassembler_reset_def dest!: header_phase_next split: option.splits flow.splits)
  qed
qed

lemma feed_buffer:
  assumes "fr_wf s" and "live_bytes s \<le> n" and "feed s data = Some (s', fs, e)"
  shows "length (fr_buffer s') \<le> n + fr_buffered_bytes_cap s"
proof (cases "live_bytes s + length data \<le> fr_buffered_bytes_cap s")
  case False
  with assms show ?thesis by (simp add: feed_overflow) (auto simp: reassembler_reset_def)
next
  case True
  have c: "length (fr_buffer (compact s)) \<le> live_bytes s + live_bytes s"
    using assms(1) by (auto simp: compact_def live_bytes_def fr_wf_def)
  have "length (fr_buffer s') \<le> length (fr_buffer (compact s)) + length data"
    using assms(3) feed_loop_buffer [of "(compact s)\<lparr>fr_buffer := fr_buffer (compact s) @ data\<rparr>" "[]" s' fs e]
    by (auto simp: feed_def Let_def reassembler_reset_def split: if_splits)
  with c True assms(2) show ?thesis by linarith
qed

definition reassembler_step :: "frame_reassembler \<Rightarrow> bytes \<Rightarrow> frame_reassembler \<times> (complete_frame list \<times> feed_error) list" where
  "reassembler_step s data = (case feed s data of None \<Rightarrow> (s, []) | Some (s', fs, e) \<Rightarrow> (s', [(fs, e)]))"

definition reassembler_inv :: "nat \<Rightarrow> nat \<Rightarrow> frame_reassembler \<Rightarrow> bool" where
  "reassembler_inv m c s \<longleftrightarrow> fr_settled s \<and> fr_max_payload_size s = m \<and> fr_buffered_bytes_cap s = c
     \<and> length (fr_buffer s) \<le> header_size + m + c"

lemma reassembler_inv_step: "reassembler_inv m c s \<Longrightarrow> reassembler_inv m c (fst (reassembler_step s data))"
  using feed_settled [of s data] settled_live [of s] feed_buffer [of s "header_size + m" data]
  by (auto simp: reassembler_inv_def reassembler_step_def fr_settled_def)

interpretation reassembler: machine reassembler_step "reassembler_inv m c"
  by unfold_locales (rule reassembler_inv_step)

text \<open>
  C3. The stream reassembler is independent of the chunking: frames encoded back to back and cut
  into arbitrary pieces come out as exactly those frames, in order, header and framed payload
  intact, with no error and nothing left over, provided the buffer cap leaves room for one piece
  next to the largest frame.
\<close>

theorem reassembler_any_chunking:
  assumes "\<forall>(h, p) \<in> set ms. length p \<le> m" and "m < 2 ^ 64"
    and "map (\<lambda>(h, p). encode_frame h p) ms = map Some encoded" and "concat chunks = concat encoded"
    and "\<forall>c \<in> set chunks. header_size + m + length c \<le> cap"
  shows "\<exists>s'. feed_all (frame_reassembler_init m cap) chunks
     = Some (s', map2 (\<lambda>(h, p) e. \<lparr>cf_header = h\<lparr>fh_payload_len := of_nat (length p)\<rparr>, cf_payload = e\<rparr>) ms encoded,
             fe_none) \<and> unread s' = []"
proof -
  have enc: "encoded = map (\<lambda>(h, p). frame_layout h p) ms"
    using assms(3) by (induction ms arbitrary: encoded) (auto simp: encode_frame_layout map_eq_Cons_conv)
  have "map2 (\<lambda>(h, p) e. \<lparr>cf_header = h\<lparr>fh_payload_len := of_nat (length p)\<rparr>, cf_payload = e\<rparr>) ms encoded
      = map (\<lambda>(h, p). \<lparr>cf_header = h\<lparr>fh_payload_len := of_nat (length p)\<rparr>, cf_payload = frame_layout h p\<rparr>) ms"
    unfolding enc by (induction ms) auto
  with feed_all_spec [of "frame_reassembler_init m cap" chunks] parse_stream_frames [OF assms(1,2)] assms(4,5) enc
  show ?thesis by (auto simp: frame_reassembler_init_def unread_def fr_wf_def)
qed

theorem reassembler_any_chunking_witness:
  "\<exists>s'. feed_all (frame_reassembler_init 4 64) [[0x56, 0x50, 1], [0] @ replicate 23 0, [2, 7, 8]]
     = Some (s', [\<lparr>cf_header = zero_header\<lparr>fh_type := 1, fh_payload_len := 2\<rparr>,
                  cf_payload = [0x56, 0x50, 1, 0] @ replicate 23 0 @ [2, 7, 8]\<rparr>], fe_none) \<and> unread s' = []"
proof -
  have e: "encode_frame (zero_header\<lparr>fh_type := 1\<rparr>) [7, 8] = Some ([0x56, 0x50, 1, 0] @ replicate 23 0 @ [2, 7, 8])"
    by code_simp
  show ?thesis
    using reassembler_any_chunking [of "[(zero_header\<lparr>fh_type := 1\<rparr>, [7, 8])]" 4
        "[[0x56, 0x50, 1, 0] @ replicate 23 0 @ [2, 7, 8]]" "[[0x56, 0x50, 1], [0] @ replicate 23 0, [2, 7, 8]]" 64] e
    by (simp add: header_size_def)
qed

text \<open>
  C4. Whatever a peer sends, in whatever pieces, the reassembler never reads or writes outside its
  buffer, always answers, and its buffer stays below the cap plus one maximal frame.
\<close>

theorem reassembler_memory_bound:
  assumes "run reassembler_step (frame_reassembler_init m cap) chunks = (s, outs)"
  shows "length (fr_buffer s) \<le> header_size + m + cap \<and> fr_consumed s \<le> length (fr_buffer s)
     \<and> (\<exists>s' fs e. feed s data = Some (s', fs, e))"
proof -
  have "reassembler_inv m cap (frame_reassembler_init m cap)"
    by (simp add: reassembler_inv_def) (simp add: frame_reassembler_init_def)
  from reassembler.inv_run [OF this, of chunks] assms have "reassembler_inv m cap s" by simp
  then show ?thesis
    using feed_settled [of s data] by (auto simp: reassembler_inv_def fr_settled_def fr_wf_def)
qed

theorem reassembler_memory_bound_witness:
  "length (fr_buffer (fst (run reassembler_step (frame_reassembler_init 4 64) [[0x56, 0x50, 1]]))) \<le> 96"
  using reassembler_memory_bound [of 4 64 "[[0x56, 0x50, 1]]", OF surjective_pairing] by (simp add: header_size_def)

text \<open>
  The overflow gate runs before the scanner, so with the default-shaped cap (one maximal
  payload and one header) a legal stream can be refused: a piece that completes a maximal frame and
  carries all of a small next frame overflows, while the same bytes in smaller pieces are accepted.
\<close>

lemma reassembler_default_cap_refuses_legal_stream:
  assumes "length p1 = m" and "0 < m" and "m < 2 ^ 63"
  shows "\<exists>a b. frame_layout h1 p1 @ frame_layout h2 [x] = a @ b
     \<and> (\<exists>s1. feed (frame_reassembler_init m (m + header_size)) a = Some (s1, [], fe_none)
           \<and> (\<exists>s2. feed s1 b = Some (s2, [], fe_buffer_overflow)))"
proof -
  let ?s = "frame_reassembler_init m (m + header_size)" and ?h = "h1\<lparr>fh_payload_len := of_nat m\<rparr>"
  let ?a = "header_layout ?h @ butlast p1" and ?b = "last p1 # frame_layout h2 [x]"
  have cut: "frame_layout h1 p1 @ frame_layout h2 [x] = ?a @ ?b"
    using assms by (simp add: frame_layout_def) (metis append.assoc append_Cons append_butlast_last_id append_Nil length_0_conv less_numeral_extra(3))
  have n: "unat (of_nat m :: u64) = m" using assms(3) by (simp add: unat_of_nat)
  have p: "parse_stream m ?a = ([], ?a, fe_none)"
    using assms n by (simp add: parse_stream.simps [of m ?a] Let_def)
  have cap: "live_bytes ?s + length ?a \<le> fr_buffered_bytes_cap ?s" using assms by simp
  obtain s1 where s1: "feed ?s ?a = Some (s1, [], fe_none)" "fr_wf s1" "unread s1 = ?a"
      "fr_buffered_bytes_cap s1 = m + header_size"
    using feed_spec [of ?s ?a "[]" ?a fe_none, OF _ _ cap] p by auto
  have "length ?a \<le> live_bytes s1 + header_size"
    using arg_cong [OF s1(3), of length] by (auto simp: unread_def live_bytes_def split: if_splits)
  then have "live_bytes s1 + length ?b > fr_buffered_bytes_cap s1"
    using assms s1(4) by simp
  from feed_overflow [OF s1(2) this] s1(1) cut show ?thesis by blast
qed

lemma reassembler_default_cap_refuses_legal_stream_witness:
  "\<exists>a b. frame_layout zero_header [1, 2] @ frame_layout zero_header [3] = a @ b
     \<and> (\<exists>s1. feed (frame_reassembler_init 2 (2 + header_size)) a = Some (s1, [], fe_none)
           \<and> (\<exists>s2. feed s1 b = Some (s2, [], fe_buffer_overflow)))"
  using reassembler_default_cap_refuses_legal_stream [of "[1, 2]" 2 zero_header zero_header 3] by simp

end
