(* ===== verification/Crc_Serial.thy ===== *)
theory Crc_Serial
  imports Checksum Frame_Reassembler
begin

text \<open>
  \<open>plexus-stream/crc_serial.h\<close>: the self-resynchronising CRC decorator of the serial transport. The
  two callbacks are output events, in the order the code raises them.
\<close>

definition crc_trailer_size :: nat where
  "crc_trailer_size = 4"

definition crc_trailer :: "bytes \<Rightarrow> bytes \<Rightarrow> bytes" where
  "crc_trailer header payload =
     (let crc = crc32c payload (crc32c header 0) in
      [ucast (crc AND 0xFF), ucast (drop_bit 8 crc AND 0xFF), ucast (drop_bit 16 crc AND 0xFF),
       ucast (drop_bit 24 crc AND 0xFF)])"

definition read_trailer_le :: "bytes \<Rightarrow> u32" where
  "read_trailer_le t = ucast (t ! 0) OR push_bit 8 (ucast (t ! 1)) OR push_bit 16 (ucast (t ! 2))
     OR push_bit 24 (ucast (t ! 3))"

datatype crc_event = On_match bytes | On_drop close_cause

record crc_serial_inbound =
  cs_max_payload :: nat
  cs_pos :: nat
  cs_buf :: bytes

definition crc_serial_init :: "nat \<Rightarrow> crc_serial_inbound" where
  "crc_serial_init max_payload = \<lparr>cs_max_payload = max_payload, cs_pos = 0, cs_buf = []\<rparr>"

datatype crc_step = crc_consumed | crc_dropped | crc_need_more

definition crc_resync :: "crc_serial_inbound \<Rightarrow> crc_step \<times> crc_serial_inbound \<times> crc_event list" where
  "crc_resync s = (crc_dropped, s\<lparr>cs_pos := cs_pos s + 1\<rparr>, [On_drop cc_crc_mismatch])"

definition crc_verify ::
  "bytes \<Rightarrow> nat \<Rightarrow> nat \<Rightarrow> crc_serial_inbound \<Rightarrow> (crc_step \<times> crc_serial_inbound \<times> crc_event list) option" where
  "crc_verify at_span payload_len frame_len s = do {
     header \<leftarrow> load_at header_size at_span 0;
     payload \<leftarrow> load_at payload_len at_span header_size;
     trailer \<leftarrow> load_at crc_trailer_size at_span frame_len;
     if read_trailer_le trailer \<noteq> crc32c payload (crc32c header 0) then Some (crc_resync s)
     else do {
       frame \<leftarrow> load_at frame_len at_span 0;
       Some (crc_consumed, s\<lparr>cs_pos := cs_pos s + (frame_len + crc_trailer_size)\<rparr>, [On_match frame])
     }
   }"

definition try_one_frame :: "crc_serial_inbound \<Rightarrow> (crc_step \<times> crc_serial_inbound \<times> crc_event list) option" where
  "try_one_frame s =
     (if cs_pos s > length (cs_buf s) then None
      else let at_span = drop (cs_pos s) (cs_buf s) in
      if length at_span < header_size then Some (crc_need_more, s, [])
      else do {
        hdr \<leftarrow> decode_header at_span;
        case hdr of
          None \<Rightarrow> Some (crc_resync s)
        | Some h \<Rightarrow>
            if unat (fh_payload_len h) > cs_max_payload s then Some (crc_resync s)
            else let frame_len = header_size + unat (fh_payload_len h) in
              if length at_span < frame_len + crc_trailer_size then Some (crc_need_more, s, [])
              else crc_verify at_span (unat (fh_payload_len h)) frame_len s
      })"

function align_loop :: "nat \<Rightarrow> bytes \<Rightarrow> bool \<times> nat" where
  "align_loop pos buf =
     (if pos + 1 < length buf
      then if buf ! pos = magic_byte_0 \<and> buf ! (pos + 1) = magic_byte_1 then (True, pos)
        else align_loop (pos + 1) buf
      else if pos < length buf \<and> buf ! pos \<noteq> magic_byte_0 then (False, pos + 1) else (False, pos))"
  by pat_completeness auto
termination
  by (relation "measure (\<lambda>(pos, buf). length buf - pos)") auto

declare align_loop.simps [simp del]

definition align_to_magic :: "crc_serial_inbound \<Rightarrow> bool \<times> crc_serial_inbound" where
  "align_to_magic s = (let (found, pos) = align_loop (cs_pos s) (cs_buf s) in (found, s\<lparr>cs_pos := pos\<rparr>))"

lemma align_loop_found: "align_loop pos buf = (True, pos') \<Longrightarrow> pos \<le> pos' \<and> pos' + 1 < length buf"
  by (induction pos buf rule: align_loop.induct)
    (subst (asm) (2) align_loop.simps, auto split: if_splits)

lemma align_to_magic_found:
  "align_to_magic s = (True, s1) \<Longrightarrow> cs_buf s1 = cs_buf s \<and> cs_pos s \<le> cs_pos s1 \<and> cs_pos s1 + 1 < length (cs_buf s)"
  using align_loop_found [of "cs_pos s" "cs_buf s"] by (auto simp: align_to_magic_def split: prod.splits)

lemma try_one_frame_advance:
  "try_one_frame s = Some (st, s', evs) \<Longrightarrow> st \<noteq> crc_need_more \<Longrightarrow> cs_buf s' = cs_buf s \<and> cs_pos s < cs_pos s'"
  by (auto simp: try_one_frame_def crc_verify_def crc_resync_def Let_def bind_eq_Some_conv crc_trailer_size_def
      split: if_splits option.splits)

function drain :: "crc_serial_inbound \<Rightarrow> (crc_serial_inbound \<times> crc_event list) option" where
  "drain s =
     (case align_to_magic s of
        (False, s1) \<Rightarrow> Some (s1, [])
      | (True, s1) \<Rightarrow>
          (case try_one_frame s1 of
             None \<Rightarrow> None
           | Some (st, s2, evs) \<Rightarrow>
               if st = crc_need_more then Some (s2, evs)
               else map_option (apsnd (append evs)) (drain s2)))"
  by pat_completeness auto
termination
  by (relation "measure (\<lambda>s. length (cs_buf s) - cs_pos s)")
    (auto dest!: align_to_magic_found [OF sym] try_one_frame_advance)

declare drain.simps [simp del]

definition crc_compact :: "crc_serial_inbound \<Rightarrow> crc_serial_inbound" where
  "crc_compact s =
     (if cs_pos s = 0 then s else s\<lparr>cs_buf := drop (cs_pos s) (cs_buf s), cs_pos := 0\<rparr>)"

definition crc_feed :: "crc_serial_inbound \<Rightarrow> bytes \<Rightarrow> (crc_serial_inbound \<times> crc_event list) option" where
  "crc_feed s data = do {
     (s, evs) \<leftarrow> drain (s\<lparr>cs_buf := cs_buf s @ data\<rparr>);
     Some (crc_compact s, evs)
   }"

section \<open>The scanner specification\<close>

fun align_spec :: "bytes \<Rightarrow> bytes" where
  "align_spec [] = []"
| "align_spec [a] = (if a \<noteq> magic_byte_0 then [] else [a])"
| "align_spec (a # b # bs) = (if a = magic_byte_0 \<and> b = magic_byte_1 then a # b # bs else align_spec (b # bs))"

lemma length_align_spec: "length (align_spec bs) \<le> length bs"
  by (induction bs rule: align_spec.induct) auto

lemma align_spec_shorter: "align_spec bs \<noteq> [] \<Longrightarrow> 0 < k \<Longrightarrow> length (align_spec bs) - k < length bs"
  using length_align_spec [of bs] by (cases "align_spec bs") auto

text \<open>What stands at an anchor: not yet decidable, a bad candidate, or a verified frame of some length.\<close>

definition crc_matches :: "bytes \<Rightarrow> nat \<Rightarrow> bool" where
  "crc_matches at_span n \<longleftrightarrow>
     read_trailer_le (take 4 (drop (header_size + n) at_span))
       = crc32c (take n (drop header_size at_span)) (crc32c (take header_size at_span) 0)"

datatype candidate = Undecided | Bad | Good nat

definition classify :: "nat \<Rightarrow> bytes \<Rightarrow> candidate" where
  "classify m at_span =
     (if length at_span < header_size then Undecided
      else case header_view at_span of
          None \<Rightarrow> Bad
        | Some h \<Rightarrow> let n = unat (fh_payload_len h) in
            if n > m then Bad
            else if length at_span < header_size + n + 4 then Undecided
            else if crc_matches at_span n then Good n else Bad)"

function scan :: "nat \<Rightarrow> bytes \<Rightarrow> crc_event list \<times> bytes" where
  "scan m bs =
     (let at_span = align_spec bs in
      if at_span = [] then ([], at_span)
      else case classify m at_span of
          Undecided \<Rightarrow> ([], at_span)
        | Bad \<Rightarrow> apfst (append [On_drop cc_crc_mismatch]) (scan m (tl at_span))
        | Good n \<Rightarrow> apfst (append [On_match (take (header_size + n) at_span)]) (scan m (drop (header_size + n + 4) at_span)))"
  by pat_completeness auto
termination
  by (relation "measure (\<lambda>(_, bs). length bs)")
    (auto simp: align_spec_shorter header_size_def)

declare scan.simps [simp del]

section \<open>The decorator computes the scanner\<close>

lemma align_loop_spec:
  assumes "pos \<le> length buf"
  shows "\<exists>pos'. align_loop pos buf = (2 \<le> length (align_spec (drop pos buf)), pos') \<and> pos' \<le> length buf
     \<and> drop pos' buf = align_spec (drop pos buf)"
  using assms
proof (induction pos buf rule: align_loop.induct)
  case (1 pos buf)
  note IH = 1(1) and le = 1(2)
  consider "pos = length buf" | "pos + 1 = length buf" | "pos + 1 < length buf" using le by linarith
  then show ?case
  proof cases
    case 1
    then show ?thesis by (subst align_loop.simps) simp
  next
    case 2
    then have "drop pos buf = [buf ! pos]"
      by (metis Cons_nth_drop_Suc Suc_eq_plus1 drop_eq_Nil2 dual_order.refl lessI)
    with 2 show ?thesis by (subst align_loop.simps) auto
  next
    case 3
    then have d: "drop pos buf = buf ! pos # buf ! (pos + 1) # drop (pos + 2) buf"
      and d1: "drop (pos + 1) buf = buf ! (pos + 1) # drop (pos + 2) buf"
      by (simp_all add: Cons_nth_drop_Suc)
    show ?thesis
    proof (cases "buf ! pos = magic_byte_0 \<and> buf ! (pos + 1) = magic_byte_1")
      case True
      with 3 d show ?thesis by (subst align_loop.simps) simp
    next
      case False
      with 3 d d1 IH show ?thesis by (subst align_loop.simps) auto
    qed
  qed
qed

lemma try_one_frame_spec:
  assumes "cs_pos s \<le> length (cs_buf s)"
  shows "try_one_frame s = Some (let at_span = drop (cs_pos s) (cs_buf s) in
     case classify (cs_max_payload s) at_span of
       Undecided \<Rightarrow> (crc_need_more, s, [])
     | Bad \<Rightarrow> crc_resync s
     | Good n \<Rightarrow> (crc_consumed, s\<lparr>cs_pos := cs_pos s + (header_size + n + 4)\<rparr>,
                   [On_match (take (header_size + n) at_span)]))"
  using assms
  by (auto simp: try_one_frame_def classify_def crc_verify_def crc_matches_def load_at_def Let_def
      crc_trailer_size_def split: option.splits)

lemma classify_good: "classify m bs = Good n \<Longrightarrow> header_size + n + 4 \<le> length bs \<and> n \<le> m"
  by (auto simp: classify_def Let_def split: if_splits option.splits)

lemma classify_short: "length bs < 2 \<Longrightarrow> classify m bs = Undecided"
  by (simp add: classify_def header_size_def)

lemma drain_spec:
  assumes "cs_pos s \<le> length (cs_buf s)"
  shows "\<exists>s'. drain s = Some (s', fst (scan (cs_max_payload s) (drop (cs_pos s) (cs_buf s))))
     \<and> cs_pos s' \<le> length (cs_buf s') \<and> cs_max_payload s' = cs_max_payload s
     \<and> drop (cs_pos s') (cs_buf s') = snd (scan (cs_max_payload s) (drop (cs_pos s) (cs_buf s)))"
  using assms
proof (induction s rule: drain.induct)
  case (1 s)
  note IH = 1(1) and le = 1(2)
  let ?m = "cs_max_payload s" and ?bs = "drop (cs_pos s) (cs_buf s)"
  obtain pos where al: "align_loop (cs_pos s) (cs_buf s) = (2 \<le> length (align_spec ?bs), pos)"
    "pos \<le> length (cs_buf s)" "drop pos (cs_buf s) = align_spec ?bs"
    using align_loop_spec [OF le] by blast
  let ?s1 = "s\<lparr>cs_pos := pos\<rparr>"
  have at_m: "align_to_magic s = (2 \<le> length (align_spec ?bs), ?s1)"
    using al by (simp add: align_to_magic_def)
  show ?case
  proof (cases "2 \<le> length (align_spec ?bs)")
    case False
    then have "scan ?m ?bs = ([], align_spec ?bs)" "drain s = Some (?s1, [])"
      using at_m by (simp_all add: scan.simps [of ?m ?bs] drain.simps [of s] classify_short Let_def)
    with al show ?thesis by simp
  next
    case True
    then have ne: "align_spec ?bs \<noteq> []" by auto
    have t: "try_one_frame ?s1 = Some (case classify ?m (align_spec ?bs) of
       Undecided \<Rightarrow> (crc_need_more, ?s1, [])
     | Bad \<Rightarrow> crc_resync ?s1
     | Good n \<Rightarrow> (crc_consumed, ?s1\<lparr>cs_pos := pos + (header_size + n + 4)\<rparr>,
                   [On_match (take (header_size + n) (align_spec ?bs))]))"
      using try_one_frame_spec [of ?s1] al by (simp add: Let_def split: candidate.split)
    have go: "?thesis" if "try_one_frame ?s1 = Some (st, s\<lparr>cs_pos := pos + k\<rparr>, evs)" "st \<noteq> crc_need_more"
      "k \<le> length (align_spec ?bs)" "scan ?m ?bs = apfst (append evs) (scan ?m (drop k (align_spec ?bs)))" for st k evs
    proof -
      let ?s2 = "s\<lparr>cs_pos := pos + k\<rparr>"
      have s2: "pos + k \<le> length (cs_buf s)" "drop (pos + k) (cs_buf s) = drop k (align_spec ?bs)"
        using al(2) that(3) arg_cong [OF al(3), of length] by (simp, metis al(3) drop_drop add.commute)
      have "drain s = map_option (apsnd (append evs)) (drain ?s2)"
        using that(1,2) at_m True by (simp add: drain.simps [of s])
      with IH [OF at_m [symmetric], of "(st, ?s2, evs)" st "(?s2, evs)" ?s2 evs] that s2 True show ?thesis
        by (auto simp: fst_apfst snd_apfst)
    qed
    show ?thesis
    proof (cases "classify ?m (align_spec ?bs)")
      case Undecided
      then have "scan ?m ?bs = ([], align_spec ?bs)" "drain s = Some (?s1, [])"
        using at_m t True ne by (simp_all add: scan.simps [of ?m ?bs] drain.simps [of s] Let_def)
      with al show ?thesis by simp
    next
      case Bad
      then show ?thesis
        using t True ne by (intro go [of crc_dropped 1 "[On_drop cc_crc_mismatch]"])
          (simp_all add: crc_resync_def scan.simps [of ?m ?bs] Let_def drop_Suc)
    next
      case (Good n)
      then show ?thesis
        using t True ne classify_good [OF Good]
        by (intro go [of crc_consumed "header_size + n + 4" "[On_match (take (header_size + n) (align_spec ?bs))]"])
          (simp_all add: scan.simps [of ?m ?bs] Let_def)
    qed
  qed
qed

lemma crc_feed_spec:
  assumes "cs_pos s = 0"
  shows "\<exists>s'. crc_feed s data = Some (s', fst (scan (cs_max_payload s) (cs_buf s @ data)))
     \<and> cs_pos s' = 0 \<and> cs_max_payload s' = cs_max_payload s
     \<and> cs_buf s' = snd (scan (cs_max_payload s) (cs_buf s @ data))"
  using drain_spec [of "s\<lparr>cs_buf := cs_buf s @ data\<rparr>"] assms
  by (auto simp: crc_feed_def crc_compact_def)

section \<open>Scanning in pieces\<close>

lemma align_spec_append: "align_spec (align_spec a @ b) = align_spec (a @ b)"
  by (induction a rule: align_spec.induct) (auto split: if_splits, (cases b; simp)+)

lemma align_spec_forms:
  "align_spec a = [] \<or> align_spec a = [magic_byte_0] \<or> (\<exists>rest. align_spec a = magic_byte_0 # magic_byte_1 # rest)"
  by (induction a rule: align_spec.induct) auto

lemma align_spec_aligned: "2 \<le> length (align_spec a) \<Longrightarrow> align_spec (a @ b) = align_spec a @ b"
  using align_spec_forms [of a] by (subst align_spec_append [symmetric]) auto

lemma header_view_append: "header_size \<le> length a \<Longrightarrow> header_view (a @ b) = header_view a"
  by (auto simp: header_view_def nth_append header_size_def)

lemma classify_append: "classify m a \<noteq> Undecided \<Longrightarrow> classify m (a @ b) = classify m a"
  by (auto simp: classify_def header_view_append crc_matches_def Let_def split: if_splits option.splits)

lemma classify_decided: "classify m a \<noteq> Undecided \<Longrightarrow> header_size \<le> length a"
  by (rule ccontr) (simp add: classify_def)

lemma apfst_ident [simp]: "apfst (\<lambda>a. a) p = p"
  by (cases p) simp

lemma scan_append:
  "scan m (a @ b) = apfst (append (fst (scan m a))) (scan m (snd (scan m a) @ b))"
proof (induction m a rule: scan.induct)
  case (1 m a)
  let ?at = "align_spec a"
  show ?case
  proof (cases "?at = [] \<or> classify m ?at = Undecided")
    case True
    then have "scan m a = ([], ?at)" by (auto simp: scan.simps [of m a] Let_def)
    moreover have "scan m (a @ b) = scan m (?at @ b)"
      by (simp add: scan.simps [of m "a @ b"] scan.simps [of m "?at @ b"] align_spec_append)
    ultimately show ?thesis by simp
  next
    case False
    then have al: "align_spec (a @ b) = ?at @ b" and cl: "classify m (?at @ b) = classify m ?at" and ne: "?at \<noteq> []"
      using classify_decided [of m ?at] by (auto simp: align_spec_aligned classify_append header_size_def)
    show ?thesis
    proof (cases "classify m ?at")
      case Undecided
      with False show ?thesis by simp
    next
      case Bad
      with False 1(1) [OF refl] show ?thesis
        by (simp add: scan.simps [of m a] scan.simps [of m "a @ b"] Let_def al cl) (simp add: apfst_compose)
    next
      case (Good n)
      then have "header_size + n + 4 \<le> length ?at" by (simp add: classify_good)
      with Good False 1(2) [OF refl] show ?thesis
        by (simp add: scan.simps [of m a] scan.simps [of m "a @ b"] Let_def al cl) (simp add: apfst_compose)
    qed
  qed
qed

lemma classify_undecided_short: "classify m a = Undecided \<Longrightarrow> length a < header_size + m + 4"
  by (auto simp: classify_def Let_def split: if_splits option.splits)

lemma scan_rest_short: "length (snd (scan m a)) < header_size + m + 4"
proof (induction m a rule: scan.induct)
  case (1 m a)
  then show ?case
    by (subst scan.simps) (auto simp: Let_def dest: classify_undecided_short split: candidate.split)
qed

lemma align_spec_suffix: "\<exists>pre. a = pre @ align_spec a"
proof (induction a rule: align_spec.induct)
  case (3 a b bs)
  then show ?case by (metis align_spec.simps(3) append_Cons append_Nil)
qed auto

definition verified :: "nat \<Rightarrow> bytes \<Rightarrow> bytes \<Rightarrow> bool" where
  "verified m f t \<longleftrightarrow> (\<exists>h. header_view f = Some h \<and> length f = header_size + unat (fh_payload_len h)
     \<and> unat (fh_payload_len h) \<le> m) \<and> length t = crc_trailer_size
     \<and> read_trailer_le t = crc32c (drop header_size f) (crc32c (take header_size f) 0)"

lemma classify_verified:
  assumes "classify m a = Good n"
  shows "verified m (take (header_size + n) a) (take 4 (drop (header_size + n) a))"
proof -
  obtain h where h: "header_view a = Some h" "n = unat (fh_payload_len h)" "n \<le> m" "header_size + n + 4 \<le> length a"
    "crc_matches a n"
    using assms by (auto simp: classify_def Let_def split: if_splits option.splits)
  have "header_view (take (header_size + n) a) = Some h"
    using h header_view_append [of "take (header_size + n) a" "drop (header_size + n) a"] by simp
  with h show ?thesis
    by (auto simp: verified_def crc_matches_def crc_trailer_size_def min_def drop_take)
qed

lemma scan_sound:
  "On_match f \<in> set (fst (scan m a)) \<Longrightarrow> \<exists>pre t post. a = pre @ f @ t @ post \<and> verified m f t"
proof (induction m a rule: scan.induct)
  case (1 m a)
  note IH = 1(1,2) and mem = 1(3)
  let ?at = "align_spec a"
  obtain pre0 where pre0: "a = pre0 @ ?at" using align_spec_suffix by blast
  have ne: "?at \<noteq> []" "classify m ?at \<noteq> Undecided"
    using mem by (auto simp: scan.simps [of m a] Let_def split: if_splits)
  show ?case
  proof (cases "classify m ?at")
    case Undecided
    with ne show ?thesis by simp
  next
    case Bad
    then obtain pre t post where "tl ?at = pre @ f @ t @ post" "verified m f t"
      using mem ne IH(1) [OF refl ne(1) Bad] by (auto simp: scan.simps [of m a] Let_def)
    then show ?thesis using pre0 ne(1) by (metis append_Cons append_assoc list.collapse)
  next
    case (Good n)
    let ?f = "take (header_size + n) ?at" and ?t = "take 4 (drop (header_size + n) ?at)"
    have split: "?at = ?f @ ?t @ drop (header_size + n + 4) ?at"
      by (metis append_take_drop_id drop_drop add.commute)
    from mem ne Good consider "f = ?f" | "On_match f \<in> set (fst (scan m (drop (header_size + n + 4) ?at)))"
      by (auto simp: scan.simps [of m a] Let_def)
    then show ?thesis
    proof cases
      case 1
      with split pre0 classify_verified [OF Good] show ?thesis by metis
    next
      case 2
      then obtain pre t post where "drop (header_size + n + 4) ?at = pre @ f @ t @ post" "verified m f t"
        using IH(2) [OF refl ne(1) Good] by auto
      with split pre0 show ?thesis by (metis append_assoc)
    qed
  qed
qed

lemma le_bytes_word:
  fixes c :: u32
  shows "ucast (ucast (c AND mask 8) :: u8) OR push_bit 8 (ucast (ucast (drop_bit 8 c AND mask 8) :: u8))
     OR push_bit 16 (ucast (ucast (drop_bit 16 c AND mask 8) :: u8))
     OR push_bit 24 (ucast (ucast (drop_bit 24 c AND mask 8) :: u8)) = c" (is "?l = c")
proof (rule bit_word_eqI)
  fix n assume "n < LENGTH(32)"
  then consider "n < 8" | "8 \<le> n" "n < 16" | "16 \<le> n" "n < 24" | "24 \<le> n" "n < 32" by fastforce
  then show "bit ?l n \<longleftrightarrow> bit c n"
    by cases (auto simp: word_bits)
qed

lemma read_crc_trailer: "read_trailer_le (crc_trailer h p) = crc32c p (crc32c h 0)"
proof -
  have ff: "(0xFF :: u32) = mask 8" by (simp add: mask_eq_exp_minus_1)
  show ?thesis
    unfolding read_trailer_le_def crc_trailer_def Let_def ff using le_bytes_word by (simp add: or.assoc)
qed

text \<open>A frame as it stands on the serial line.\<close>

definition serial_frame :: "frame_header \<Rightarrow> bytes \<Rightarrow> bytes" where
  "serial_frame h p = frame_layout h p @ crc_trailer (take header_size (frame_layout h p)) p"

lemma length_crc_trailer [simp]: "length (crc_trailer h p) = 4"
  by (simp add: crc_trailer_def Let_def)

lemma scan_serial_frame:
  assumes "length p \<le> m" and "m < 2 ^ 64"
  shows "scan m (serial_frame h p @ rest) = apfst ((#) (On_match (frame_layout h p))) (scan m rest)"
proof -
  let ?h = "h\<lparr>fh_payload_len := of_nat (length p)\<rparr>" and ?bs = "serial_frame h p @ rest"
  have n: "unat (of_nat (length p) :: u64) = length p" using assms by (simp add: unat_of_nat)
  have al: "align_spec ?bs = ?bs"
    by (simp add: serial_frame_def frame_layout_def header_layout_def)
  have "header_view ?bs = Some ?h" by (simp add: serial_frame_def header_view_frame_layout)
  moreover have "crc_matches ?bs (length p)"
    by (simp add: crc_matches_def serial_frame_def frame_layout_def read_crc_trailer)
  ultimately have "classify m ?bs = Good (length p)"
    using assms n by (simp add: classify_def serial_frame_def)
  moreover have "take (header_size + length p) ?bs = frame_layout h p"
    "drop (header_size + length p + 4) ?bs = rest"
    by (simp_all add: serial_frame_def)
  moreover have "?bs \<noteq> []" by (simp add: serial_frame_def frame_layout_def header_layout_def)
  ultimately show ?thesis
    unfolding scan.simps [of m ?bs] Let_def al by (cases "scan m rest") simp
qed

lemma scan_empty [simp]: "scan m [] = ([], [])"
  by (simp add: scan.simps)

lemma scan_serial_frames:
  assumes "\<forall>(h, p) \<in> set ms. length p \<le> m" and "m < 2 ^ 64"
  shows "scan m (concat (map (\<lambda>(h, p). serial_frame h p) ms)) = (map (\<lambda>(h, p). On_match (frame_layout h p)) ms, [])"
  using assms(1)
proof (induction ms)
  case (Cons hp ms)
  then show ?case
    using assms(2) by (cases hp) (simp add: scan_serial_frame)
qed simp

fun crc_feed_all :: "crc_serial_inbound \<Rightarrow> bytes list \<Rightarrow> (crc_serial_inbound \<times> crc_event list) option" where
  "crc_feed_all s [] = Some (s, [])"
| "crc_feed_all s (c # cs) = do {
     (s1, evs) \<leftarrow> crc_feed s c;
     (s2, evs2) \<leftarrow> crc_feed_all s1 cs;
     Some (s2, evs @ evs2)
   }"

definition crc_settled :: "nat \<Rightarrow> crc_serial_inbound \<Rightarrow> bool" where
  "crc_settled m s \<longleftrightarrow> cs_pos s = 0 \<and> cs_max_payload s = m \<and> scan m (cs_buf s) = ([], cs_buf s)
     \<and> length (cs_buf s) < header_size + m + crc_trailer_size"

lemma scan_settled: "scan m (snd (scan m a)) = ([], snd (scan m a))"
proof -
  obtain e r where er: "scan m a = (e, r)" by fastforce
  obtain e2 r2 where er2: "scan m r = (e2, r2)" by fastforce
  show ?thesis using scan_append [of m a "[]"] er er2 by simp
qed

lemma crc_settled_init [simp]: "crc_settled m (crc_serial_init m)"
  by (simp add: crc_settled_def crc_serial_init_def header_size_def)

lemma crc_feed_settled:
  assumes "crc_settled m s"
  shows "\<exists>s'. crc_feed s data = Some (s', fst (scan m (cs_buf s @ data))) \<and> crc_settled m s'
     \<and> cs_buf s' = snd (scan m (cs_buf s @ data))"
  using crc_feed_spec [of s data] assms scan_settled scan_rest_short [of m]
  by (auto simp: crc_settled_def crc_trailer_size_def)

lemma crc_feed_all_spec:
  assumes "crc_settled m s"
  shows "\<exists>s'. crc_feed_all s cs = Some (s', fst (scan m (cs_buf s @ concat cs))) \<and> crc_settled m s'
     \<and> cs_buf s' = snd (scan m (cs_buf s @ concat cs))"
  using assms
proof (induction cs arbitrary: s)
  case Nil
  then show ?case by (simp add: crc_settled_def)
next
  case (Cons c cs)
  obtain s1 where s1: "crc_feed s c = Some (s1, fst (scan m (cs_buf s @ c)))" "crc_settled m s1"
      "cs_buf s1 = snd (scan m (cs_buf s @ c))"
    using crc_feed_settled [OF Cons.prems, of c] by blast
  obtain s2 where "crc_feed_all s1 cs = Some (s2, fst (scan m (cs_buf s1 @ concat cs)))" "crc_settled m s2"
      "cs_buf s2 = snd (scan m (cs_buf s1 @ concat cs))"
    using Cons.IH [OF s1(2)] by blast
  with s1 show ?case using scan_append [of m "cs_buf s @ c" "concat cs"] by simp
qed

definition crc_machine_step :: "crc_serial_inbound \<Rightarrow> bytes \<Rightarrow> crc_serial_inbound \<times> crc_event list" where
  "crc_machine_step s data = (case crc_feed s data of None \<Rightarrow> (s, []) | Some r \<Rightarrow> r)"

lemma crc_settled_step: "crc_settled m s \<Longrightarrow> crc_settled m (fst (crc_machine_step s data))"
  using crc_feed_settled [of m s data] by (auto simp: crc_machine_step_def)

interpretation crc_serial: machine crc_machine_step "crc_settled m"
  by unfold_locales (rule crc_settled_step)

text \<open>
  The serial decorator loses nothing on a clean line: frames sent with their trailers come out
  exactly, in order, without a drop, however the line cuts them into reads.
\<close>

lemma crc_serial_any_chunking:
  assumes "\<forall>(h, p) \<in> set ms. length p \<le> m" and "m < 2 ^ 64"
    and "concat chunks = concat (map (\<lambda>(h, p). serial_frame h p) ms)"
  shows "\<exists>s. crc_feed_all (crc_serial_init m) chunks = Some (s, map (\<lambda>(h, p). On_match (frame_layout h p)) ms)
     \<and> cs_buf s = []"
  using crc_feed_all_spec [OF crc_settled_init, of m chunks] scan_serial_frames [OF assms(1,2)] assms(3)
  by (auto simp: crc_serial_init_def)

lemma crc_serial_any_chunking_witness:
  "\<exists>s. crc_feed_all (crc_serial_init 16)
      [take 3 (serial_frame zero_header [1, 2]), drop 3 (serial_frame zero_header [1, 2]) @ serial_frame zero_header []]
     = Some (s, [On_match (frame_layout zero_header [1, 2]), On_match (frame_layout zero_header [])]) \<and> cs_buf s = []"
proof -
  have "concat [take 3 (serial_frame zero_header [1, 2]),
        drop 3 (serial_frame zero_header [1, 2]) @ serial_frame zero_header []]
      = concat (map (\<lambda>(h, p). serial_frame h p) [(zero_header, [1, 2]), (zero_header, [])])"
    by (simp add: append_take_drop_id flip: append_assoc)
  from crc_serial_any_chunking [OF _ _ this, of 16] show ?thesis by simp
qed



end
