(* ===== verification/Stream_Inbound.thy ===== *)
theory Stream_Inbound
  imports Frame_Reassembler
begin

text \<open>
  \<open>plexus-stream/stream_inbound.h\<close>: the framing-hardening layer with its no-progress timer. Durations
  are nanoseconds as integers. The asio timer is the wait that is currently scheduled, with the
  generation it captured; a completion is an operation that may arrive at any time with any earlier
  generation, since an expired wait cannot be recalled. Callbacks are output events.
\<close>

record stream_inbound_config =
  si_no_progress_floor :: int
  si_min_throughput :: nat
  si_max_payload_size :: nat
  si_buffered_bytes_cap :: nat

definition default_stream_inbound_config :: stream_inbound_config where
  "default_stream_inbound_config =
     \<lparr>si_no_progress_floor = 30 * 1000000000, si_min_throughput = 64 * 1024,
      si_max_payload_size = k_max_reassembler_payload_bytes,
      si_buffered_bytes_cap = k_max_reassembler_payload_bytes + header_size\<rparr>"

definition with_message_limits :: "stream_inbound_config \<Rightarrow> nat \<Rightarrow> nat \<Rightarrow> stream_inbound_config" where
  "with_message_limits cfg max_payload_size reassembly_budget =
     cfg\<lparr>si_max_payload_size := max_payload_size,
         si_buffered_bytes_cap := max reassembly_budget (max_payload_size + header_size)\<rparr>"

datatype inbound_event = On_frame complete_frame | On_protocol_close close_cause

record stream_inbound =
  si_reassembler :: frame_reassembler
  si_cfg :: stream_inbound_config
  si_timer_generation :: u64
  si_armed_deadline :: int
  si_wait :: "(u64 \<times> int) option"

definition stream_inbound_init :: "stream_inbound_config \<Rightarrow> stream_inbound" where
  "stream_inbound_init cfg =
     \<lparr>si_reassembler = frame_reassembler_init (si_max_payload_size cfg) (si_buffered_bytes_cap cfg),
      si_cfg = cfg, si_timer_generation = 0, si_armed_deadline = 0, si_wait = None\<rparr>"

text \<open>The signed 64-bit product must not overflow; \<open>None\<close> is the undefined case.\<close>

definition payload_deadline :: "stream_inbound \<Rightarrow> nat \<Rightarrow> int option" where
  "payload_deadline s n =
     (if si_min_throughput (si_cfg s) = 0 then Some 0
      else if int n * 1000000000 < 2 ^ 63
      then Some (int n * 1000000000 div int (si_min_throughput (si_cfg s))) else None)"

definition deadline_for_current_frame :: "stream_inbound \<Rightarrow> int option" where
  "deadline_for_current_frame s =
     (case pending_payload_len (si_reassembler s) of
        None \<Rightarrow> Some (si_no_progress_floor (si_cfg s))
      | Some n \<Rightarrow> do { d \<leftarrow> payload_deadline s n; Some (max (si_no_progress_floor (si_cfg s)) d) })"

text \<open>\<open>expires_after\<close> replaces the scheduled wait; it takes whole milliseconds.\<close>

definition arm_deadline :: "int \<Rightarrow> stream_inbound \<Rightarrow> stream_inbound" where
  "arm_deadline d s =
     s\<lparr>si_timer_generation := si_timer_generation s + 1,
       si_wait := Some (si_timer_generation s + 1, d div 1000000),
       si_armed_deadline := d\<rparr>"

definition cancel_timer :: "stream_inbound \<Rightarrow> stream_inbound" where
  "cancel_timer s = s\<lparr>si_timer_generation := si_timer_generation s + 1, si_wait := None\<rparr>"

definition reframe_timer :: "bool \<Rightarrow> bool \<Rightarrow> stream_inbound \<Rightarrow> stream_inbound option" where
  "reframe_timer was_in_progress completed s =
     (if \<not> frame_in_progress (si_reassembler s) then Some ((cancel_timer s)\<lparr>si_armed_deadline := 0\<rparr>)
      else do {
        want \<leftarrow> deadline_for_current_frame s;
        if \<not> was_in_progress \<or> completed \<or> want \<noteq> si_armed_deadline s then Some (arm_deadline want s) else Some s
      })"

definition inbound_feed :: "stream_inbound \<Rightarrow> bytes \<Rightarrow> (stream_inbound \<times> inbound_event list) option" where
  "inbound_feed s data =
     (let was_in_progress = frame_in_progress (si_reassembler s) in
      do {
        (r, frames, err) \<leftarrow> feed (si_reassembler s) data;
        let s = s\<lparr>si_reassembler := r\<rparr>; out = map On_frame frames in
        if err \<noteq> fe_none then Some (cancel_timer s, out @ [On_protocol_close (to_close_cause err)])
        else do {
          s \<leftarrow> reframe_timer was_in_progress (frames \<noteq> []) s;
          Some (s, out)
        }
      })"

definition inbound_shutdown :: "stream_inbound \<Rightarrow> stream_inbound" where
  "inbound_shutdown s = cancel_timer s"

text \<open>The completion handler of the wait that captured \<open>gen\<close>; \<open>ec\<close> tells whether it was cancelled.\<close>

definition timer_completion :: "u64 \<Rightarrow> bool \<Rightarrow> stream_inbound \<Rightarrow> inbound_event list" where
  "timer_completion gen ec s =
     (if ec then []
      else if gen \<noteq> si_timer_generation s \<or> \<not> frame_in_progress (si_reassembler s) then []
      else [On_protocol_close cc_no_progress_timeout])"

section \<open>The deadline invariant\<close>

definition throughput_ok :: "stream_inbound_config \<Rightarrow> bool" where
  "throughput_ok cfg \<longleftrightarrow> int (si_max_payload_size cfg) * 1000000000 < 2 ^ 63"

text \<open>The deadline the frame in progress must meet.\<close>

definition frame_deadline :: "stream_inbound \<Rightarrow> int" where
  "frame_deadline s = (case pending_payload_len (si_reassembler s) of
       None \<Rightarrow> si_no_progress_floor (si_cfg s)
     | Some n \<Rightarrow> max (si_no_progress_floor (si_cfg s))
         (if si_min_throughput (si_cfg s) = 0 then 0 else int n * 1000000000 div int (si_min_throughput (si_cfg s))))"

definition inbound_inv :: "stream_inbound \<Rightarrow> bool" where
  "inbound_inv s \<longleftrightarrow> fr_settled (si_reassembler s)
     \<and> fr_max_payload_size (si_reassembler s) = si_max_payload_size (si_cfg s)
     \<and> fr_buffered_bytes_cap (si_reassembler s) = si_buffered_bytes_cap (si_cfg s)
     \<and> throughput_ok (si_cfg s)
     \<and> (if frame_in_progress (si_reassembler s)
        then si_armed_deadline s = frame_deadline s
          \<and> si_wait s = Some (si_timer_generation s, frame_deadline s div 1000000)
        else si_wait s = None)"

lemma inbound_inv_init [simp]: "throughput_ok cfg \<Longrightarrow> inbound_inv (stream_inbound_init cfg)"
  by (simp add: inbound_inv_def stream_inbound_init_def frame_in_progress_def)
    (simp add: frame_reassembler_init_def)

lemma deadline_for_current_frame_eq:
  assumes "fr_settled (si_reassembler s)" and "throughput_ok (si_cfg s)"
    and "fr_max_payload_size (si_reassembler s) = si_max_payload_size (si_cfg s)"
  shows "deadline_for_current_frame s = Some (frame_deadline s)"
proof (cases "pending_payload_len (si_reassembler s)")
  case None
  then show ?thesis by (simp add: deadline_for_current_frame_def frame_deadline_def)
next
  case (Some n)
  then have "n \<le> si_max_payload_size (si_cfg s)"
    using settled_pending [OF assms(1)] assms(3) by (simp add: pending_payload_len_def split: if_splits)
  then have "int n * 1000000000 < 2 ^ 63"
    using assms(2) by (simp add: throughput_ok_def)
  with Some show ?thesis
    by (simp add: deadline_for_current_frame_def frame_deadline_def payload_deadline_def)
qed

lemma unread_empty_idle:
  assumes "fr_wf r" and "unread r = []"
  shows "\<not> frame_in_progress r"
  using assms by (auto simp: unread_def frame_in_progress_def live_bytes_def fr_wf_def header_layout_def split: if_splits)

lemma reframe_timer_inv:
  assumes "fr_settled (si_reassembler s)" and "throughput_ok (si_cfg s)"
    and "fr_max_payload_size (si_reassembler s) = si_max_payload_size (si_cfg s)"
    and "fr_buffered_bytes_cap (si_reassembler s) = si_buffered_bytes_cap (si_cfg s)"
    and "was \<Longrightarrow> si_wait s = Some (si_timer_generation s, si_armed_deadline s div 1000000)"
  shows "\<exists>s'. reframe_timer was completed s = Some s' \<and> inbound_inv s' \<and> si_cfg s' = si_cfg s
     \<and> si_reassembler s' = si_reassembler s"
proof (cases "frame_in_progress (si_reassembler s)")
  case False
  with assms show ?thesis
    by (simp add: reframe_timer_def inbound_inv_def cancel_timer_def)
next
  case True
  have d: "frame_deadline (arm_deadline x s) = frame_deadline s" for x
    by (simp add: frame_deadline_def arm_deadline_def split: option.split)
  from True assms deadline_for_current_frame_eq [OF assms(1-3)] show ?thesis
    by (auto simp: reframe_timer_def inbound_inv_def d) (auto simp: arm_deadline_def)
qed

lemma inbound_feed_inv:
  assumes "inbound_inv s"
  shows "\<exists>s' out. inbound_feed s data = Some (s', out) \<and> inbound_inv s' \<and> si_cfg s' = si_cfg s"
proof -
  let ?r = "si_reassembler s"
  obtain r frames e where f: "feed ?r data = Some (r, frames, e)" "fr_settled r"
    "fr_max_payload_size r = fr_max_payload_size ?r" "fr_buffered_bytes_cap r = fr_buffered_bytes_cap ?r"
    "e \<noteq> fe_none \<longrightarrow> unread r = []"
    using feed_settled [of ?r data] assms by (auto simp: inbound_inv_def)
  show ?thesis
  proof (cases "e = fe_none")
    case False
    then have "\<not> frame_in_progress r" using f unread_empty_idle by (auto simp: fr_settled_def)
    with False f assms show ?thesis
      by (simp add: inbound_feed_def Let_def inbound_inv_def cancel_timer_def)
  next
    case True
    have "si_wait s = Some (si_timer_generation s, si_armed_deadline s div 1000000)" if "frame_in_progress ?r"
      using assms that by (simp add: inbound_inv_def)
    then have "\<exists>s'. reframe_timer (frame_in_progress ?r) (frames \<noteq> []) (s\<lparr>si_reassembler := r\<rparr>) = Some s'
        \<and> inbound_inv s' \<and> si_cfg s' = si_cfg (s\<lparr>si_reassembler := r\<rparr>)
        \<and> si_reassembler s' = si_reassembler (s\<lparr>si_reassembler := r\<rparr>)"
      using f assms by (intro reframe_timer_inv) (simp_all add: inbound_inv_def)
    then obtain s' where "reframe_timer (frame_in_progress ?r) (frames \<noteq> []) (s\<lparr>si_reassembler := r\<rparr>) = Some s'"
        "inbound_inv s'" "si_cfg s' = si_cfg s" by auto
    with True f(1) show ?thesis by (simp add: inbound_feed_def Let_def)
  qed
qed

definition inbound_step :: "stream_inbound \<Rightarrow> bytes \<Rightarrow> stream_inbound \<times> inbound_event list" where
  "inbound_step s data = (case inbound_feed s data of None \<Rightarrow> (s, []) | Some r \<Rightarrow> r)"

lemma inbound_inv_step: "inbound_inv s \<Longrightarrow> inbound_inv (fst (inbound_step s data))"
  using inbound_feed_inv [of s data] by (auto simp: inbound_step_def)

interpretation inbound: machine inbound_step inbound_inv
  by unfold_locales (rule inbound_inv_step)

text \<open>
  C7. No-progress protection: after any sequence of reads the layer has not faulted, and a frame
  is in progress exactly when a wait is scheduled; that wait carries the current generation and the
  deadline of the frame in progress, and its expiry closes the channel, while a completion of any
  earlier generation, or one that finds no frame in progress, does nothing.
\<close>

theorem inbound_no_progress:
  assumes "throughput_ok cfg" and "run inbound_step (stream_inbound_init cfg) reads = (s, outs)"
  shows "(\<exists>s' out. inbound_feed s data = Some (s', out))
     \<and> (frame_in_progress (si_reassembler s) \<longleftrightarrow> si_wait s \<noteq> None)
     \<and> (frame_in_progress (si_reassembler s) \<longrightarrow>
          si_wait s = Some (si_timer_generation s, frame_deadline s div 1000000)
          \<and> frame_deadline s \<ge> si_no_progress_floor (si_cfg s)
          \<and> timer_completion (si_timer_generation s) False s = [On_protocol_close cc_no_progress_timeout])
     \<and> (gen \<noteq> si_timer_generation s \<longrightarrow> timer_completion gen ec s = [])"
proof -
  have inv: "inbound_inv s"
    using inbound.inv_run [of "stream_inbound_init cfg" reads] assms by simp
  then show ?thesis
    using inbound_feed_inv [OF inv, of data]
    by (auto simp: inbound_inv_def timer_completion_def frame_deadline_def split: if_splits option.splits)
qed

theorem inbound_no_progress_witness:
  "si_wait (fst (run inbound_step (stream_inbound_init
       \<lparr>si_no_progress_floor = 3000000, si_min_throughput = 4, si_max_payload_size = 8, si_buffered_bytes_cap = 64\<rparr>)
       [[0x56]])) = Some (1, 3)"
proof -
  let ?cfg = "\<lparr>si_no_progress_floor = 3000000, si_min_throughput = 4, si_max_payload_size = 8,
    si_buffered_bytes_cap = 64\<rparr>"
  let ?run = "run inbound_step (stream_inbound_init ?cfg) [[0x56]]"
  have "throughput_ok ?cfg" by (simp add: throughput_ok_def)
  note ok = inbound_no_progress [OF this, of "[[0x56]]" "fst ?run" "snd ?run" "[]" 0 False]
  have "frame_in_progress (si_reassembler (fst ?run)) \<and> si_timer_generation (fst ?run) = 1
      \<and> frame_deadline (fst ?run) = 3000000" by code_simp
  with ok show ?thesis by simp
qed

end
