(* ===== verification/Serial_Number.thy ===== *)
theory Serial_Number
  imports Prelude
begin

text \<open>
  RFC 1982 arithmetic on the 16-bit sequence numbers of the datagram transport: the wire carries the
  residue of an unbounded index, and as long as two indices are less than half the space apart the
  wrapped difference tells which is newer and by how much.
\<close>

definition half_space :: u16 where
  "half_space = 32768"

text \<open>Two indices the wire can tell apart: the first is at most \<open>2 ^ 15\<close> behind, less than that ahead.\<close>

definition serial_near :: "nat \<Rightarrow> nat \<Rightarrow> bool" where
  "serial_near k e \<longleftrightarrow> k < e + 32768 \<and> e \<le> k + 32768"

lemma unat_diff_u16:
  fixes k e :: nat
  assumes "e \<le> k" and "k - e < 65536"
  shows "unat (of_nat k - of_nat e :: u16) = k - e"
proof -
  have "(of_nat k - of_nat e :: u16) = of_nat (k - e)" using assms(1) by (simp add: of_nat_diff)
  with assms(2) show ?thesis by (simp add: unat_of_nat)
qed

lemma unat_diff_u16_neg:
  fixes k e :: nat
  assumes "k < e" and "e - k < 65536"
  shows "unat (of_nat k - of_nat e :: u16) = 65536 - (e - k)"
proof -
  have "(of_nat k - of_nat e :: u16) = - of_nat (e - k)" using assms(1) by (simp add: of_nat_diff)
  also have "\<dots> = of_nat (65536 - (e - k))"
  proof -
    have "(of_nat (65536 - (e - k)) :: u16) = of_nat 65536 - of_nat (e - k)"
      using assms(2) by (simp add: of_nat_diff)
    then show ?thesis by simp
  qed
  finally have eq: "(of_nat k - of_nat e :: u16) = of_nat (65536 - (e - k))" .
  show ?thesis unfolding eq using assms by (simp only: unat_of_nat) simp
qed

lemma serial_distance:
  "serial_near k e \<Longrightarrow> unat (of_nat k - of_nat e :: u16) = (if e \<le> k then k - e else 65536 - (e - k))"
  by (auto simp: serial_near_def unat_diff_u16 unat_diff_u16_neg)

lemma serial_ahead:
  assumes "serial_near k e"
  shows "(of_nat k - of_nat e :: u16) < half_space \<longleftrightarrow> e \<le> k"
  using serial_distance [OF assms] assms
  by (auto simp: word_less_nat_alt half_space_def serial_near_def)

lemma serial_zero:
  assumes "serial_near k e"
  shows "(of_nat k - of_nat e :: u16) = 0 \<longleftrightarrow> k = e"
  using serial_distance [OF assms] assms by (auto simp: unat_eq_0 [symmetric] serial_near_def)

end
