(* ===== verification/Dedup_Window.thy ===== *)
theory Dedup_Window
  imports Serial_Number
begin

text \<open>
  \<open>plexus-wire/udp_dedup_window.h\<close>: the sliding bitmap that drops duplicate datagrams. The ideal
  window works on unbounded indices and remembers every index it has admitted.
\<close>

datatype dedup_outcome = dw_fresh | dw_duplicate | dw_too_old

record udp_dedup_window =
  dw_depth :: nat
  dw_high_water :: u16
  dw_bitmap :: u64

definition depth_max :: nat where "depth_max = 32"

definition udp_dedup_window_init :: "nat \<Rightarrow> udp_dedup_window" where
  "udp_dedup_window_init depth = \<lparr>dw_depth = min (max depth 1) depth_max, dw_high_water = 0, dw_bitmap = 0\<rparr>"

definition dw_advance_to :: "u16 \<Rightarrow> u16 \<Rightarrow> udp_dedup_window \<Rightarrow> udp_dedup_window \<times> dedup_outcome" where
  "dw_advance_to seq adv s =
     (let bm = (if adv \<ge> 64 then 0 else push_bit (unat adv) (dw_bitmap s)) in
      (s\<lparr>dw_bitmap := bm OR 1, dw_high_water := seq\<rparr>, dw_fresh))"

definition dw_admit :: "udp_dedup_window \<Rightarrow> u16 \<Rightarrow> udp_dedup_window \<times> dedup_outcome" where
  "dw_admit s seq =
     (let adv = seq - dw_high_water s in
      if adv \<noteq> 0 \<and> adv < half_space then dw_advance_to seq adv s
      else let delta = unat (dw_high_water s - seq) in
      if delta \<ge> dw_depth s then (s, dw_too_old)
      else let mask = (push_bit delta 1 :: u64) in
      if dw_bitmap s AND mask \<noteq> 0 then (s, dw_duplicate)
      else (s\<lparr>dw_bitmap := dw_bitmap s OR mask\<rparr>, dw_fresh))"

definition dw_reset :: "udp_dedup_window \<Rightarrow> udp_dedup_window" where
  "dw_reset s = s\<lparr>dw_high_water := 0, dw_bitmap := 0\<rparr>"

section \<open>The ideal window\<close>

record ideal_window =
  iw_high :: nat
  iw_seen :: "nat set"

definition iw_admit :: "nat \<Rightarrow> ideal_window \<Rightarrow> nat \<Rightarrow> ideal_window \<times> dedup_outcome" where
  "iw_admit depth w k =
     (if k > iw_high w then (\<lparr>iw_high = k, iw_seen = insert k (iw_seen w)\<rparr>, dw_fresh)
      else if iw_high w - k \<ge> depth then (w, dw_too_old)
      else if k \<in> iw_seen w then (w, dw_duplicate)
      else (w\<lparr>iw_seen := insert k (iw_seen w)\<rparr>, dw_fresh))"

definition dw_rel :: "udp_dedup_window \<Rightarrow> ideal_window \<Rightarrow> bool" where
  "dw_rel s w \<longleftrightarrow> dw_high_water s = of_nat (iw_high w) \<and> dw_depth s \<le> depth_max
     \<and> iw_seen w \<subseteq> {..iw_high w}
     \<and> (\<forall>d < dw_depth s. d \<le> iw_high w \<longrightarrow> (bit (dw_bitmap s) d \<longleftrightarrow> iw_high w - d \<in> iw_seen w))"

lemma dw_rel_init: "dw_rel (udp_dedup_window_init depth) \<lparr>iw_high = 0, iw_seen = {}\<rparr>"
  by (simp add: dw_rel_def udp_dedup_window_init_def)

lemma dw_advance_to_simps [simp]:
  "snd (dw_advance_to seq adv s) = dw_fresh" "dw_depth (fst (dw_advance_to seq adv s)) = dw_depth s"
  by (simp_all add: dw_advance_to_def Let_def)

lemma dw_admit_newer:
  assumes "dw_rel s w" and "serial_near k (iw_high w)" and "iw_high w < k"
  shows "dw_admit s (of_nat k) = dw_advance_to (of_nat k) (of_nat k - of_nat (iw_high w)) s
     \<and> dw_rel (fst (dw_admit s (of_nat k))) \<lparr>iw_high = k, iw_seen = insert k (iw_seen w)\<rparr>"
proof -
  let ?adv = "of_nat k - of_nat (iw_high w) :: u16"
  have adv: "unat ?adv = k - iw_high w" using serial_distance [OF assms(2)] assms(3) by simp
  have "?adv \<noteq> 0" "?adv < half_space"
    using serial_zero [OF assms(2)] serial_ahead [OF assms(2)] assms(3) by auto
  then have eq: "dw_admit s (of_nat k) = dw_advance_to (of_nat k) ?adv s"
    using assms(1) by (simp add: dw_admit_def Let_def dw_rel_def)
  have bits: "bit (dw_bitmap (fst (dw_advance_to (of_nat k) ?adv s))) d \<longleftrightarrow>
      d = 0 \<or> (k - iw_high w \<le> d \<and> bit (dw_bitmap s) (d - (k - iw_high w)))" if "d < 32" for d
  proof (cases "64 \<le> ?adv")
    case True
    then have "64 \<le> k - iw_high w" using adv by (simp add: word_le_nat_alt)
    with True that show ?thesis by (auto simp: dw_advance_to_def Let_def bit_or_iff bit_1_iff)
  next
    case False
    with that adv show ?thesis
      by (auto simp: dw_advance_to_def Let_def bit_or_iff bit_1_iff bit_push_bit_iff)
  qed
  have "dw_rel (fst (dw_advance_to (of_nat k) ?adv s)) \<lparr>iw_high = k, iw_seen = insert k (iw_seen w)\<rparr>"
    unfolding dw_rel_def
  proof (intro conjI allI impI)
    fix d assume d: "d < dw_depth (fst (dw_advance_to (of_nat k) ?adv s))"
      and "d \<le> iw_high \<lparr>iw_high = k, iw_seen = insert k (iw_seen w)\<rparr>"
    then have "d < dw_depth s" "d < 32" "d \<le> k"
      using assms(1) by (simp_all add: dw_advance_to_def Let_def dw_rel_def depth_max_def)
    moreover have "k - d \<notin> iw_seen w" if "d < k - iw_high w"
      using that assms(1) by (auto simp: dw_rel_def)
    moreover have "k - d = iw_high w - (d - (k - iw_high w))" if "k - iw_high w \<le> d"
      using that assms(3) \<open>d \<le> k\<close> by simp
    ultimately show "bit (dw_bitmap (fst (dw_advance_to (of_nat k) ?adv s))) d \<longleftrightarrow>
        iw_high \<lparr>iw_high = k, iw_seen = insert k (iw_seen w)\<rparr> - d \<in> iw_seen \<lparr>iw_high = k, iw_seen = insert k (iw_seen w)\<rparr>"
      using bits assms(1,3) by (cases "d < k - iw_high w") (auto simp: dw_rel_def)
  qed (use assms in \<open>auto simp: dw_rel_def dw_advance_to_def Let_def\<close>)
  with eq show ?thesis by simp
qed

lemma dw_admit_older:
  assumes "dw_rel s w" and "serial_near k (iw_high w)" and "k \<le> iw_high w"
  shows "dw_admit s (of_nat k) =
     (if iw_high w - k \<ge> dw_depth s then (s, dw_too_old)
      else if k \<in> iw_seen w then (s, dw_duplicate)
      else (s\<lparr>dw_bitmap := dw_bitmap s OR push_bit (iw_high w - k) 1\<rparr>, dw_fresh))"
proof -
  have "\<not> ((of_nat k - of_nat (iw_high w) :: u16) \<noteq> 0 \<and> (of_nat k - of_nat (iw_high w) :: u16) < half_space)"
    using serial_zero [OF assms(2)] serial_ahead [OF assms(2)] assms(3) by auto
  moreover have "unat (of_nat (iw_high w) - of_nat k :: u16) = iw_high w - k"
    using assms(2,3) by (intro unat_diff_u16) (auto simp: serial_near_def)
  moreover have "iw_high w - (iw_high w - k) = k" using assms(3) by simp
  ultimately show ?thesis
    using assms(1)
    by (auto simp: dw_admit_def Let_def dw_rel_def and_exp_eq_0_iff_not_bit push_bit_eq_mult)
qed

lemma dw_admit_refines:
  assumes "dw_rel s w" and "serial_near k (iw_high w)"
  shows "snd (dw_admit s (of_nat k)) = snd (iw_admit (dw_depth s) w k)
     \<and> dw_rel (fst (dw_admit s (of_nat k))) (fst (iw_admit (dw_depth s) w k))
     \<and> dw_depth (fst (dw_admit s (of_nat k))) = dw_depth s"
proof (cases "iw_high w < k")
  case True
  with dw_admit_newer [OF assms True] show ?thesis by (auto simp: iw_admit_def)
next
  case False
  then have le: "k \<le> iw_high w" by simp
  have "dw_rel (s\<lparr>dw_bitmap := dw_bitmap s OR push_bit (iw_high w - k) 1\<rparr>) (w\<lparr>iw_seen := insert k (iw_seen w)\<rparr>)"
    if "iw_high w - k < dw_depth s"
    using that assms(1) le
    by (auto simp: dw_rel_def bit_or_iff bit_exp_iff depth_max_def)
  with dw_admit_older [OF assms le] le assms(1) show ?thesis by (auto simp: iw_admit_def)
qed

fun dw_run :: "udp_dedup_window \<Rightarrow> u16 list \<Rightarrow> dedup_outcome list" where
  "dw_run s [] = []"
| "dw_run s (q # qs) = snd (dw_admit s q) # dw_run (fst (dw_admit s q)) qs"

fun iw_run :: "nat \<Rightarrow> ideal_window \<Rightarrow> nat list \<Rightarrow> dedup_outcome list" where
  "iw_run depth w [] = []"
| "iw_run depth w (k # ks) = snd (iw_admit depth w k) # iw_run depth (fst (iw_admit depth w k)) ks"

text \<open>Every arriving index is within half the sequence space of the newest one seen before.\<close>

fun serial_paced :: "nat \<Rightarrow> nat list \<Rightarrow> bool" where
  "serial_paced h [] \<longleftrightarrow> True"
| "serial_paced h (k # ks) \<longleftrightarrow> serial_near k h \<and> serial_paced (max h k) ks"

lemma iw_high_admit: "iw_high (fst (iw_admit depth w k)) = max (iw_high w) k"
  by (auto simp: iw_admit_def)

lemma dw_run_refines:
  "dw_rel s w \<Longrightarrow> serial_paced (iw_high w) ks \<Longrightarrow> dw_run s (map of_nat ks) = iw_run (dw_depth s) w ks"
proof (induction ks arbitrary: s w)
  case (Cons k ks)
  then have r: "snd (dw_admit s (of_nat k)) = snd (iw_admit (dw_depth s) w k)"
    "dw_rel (fst (dw_admit s (of_nat k))) (fst (iw_admit (dw_depth s) w k))"
    "dw_depth (fst (dw_admit s (of_nat k))) = dw_depth s"
    using dw_admit_refines [of s w k] by simp_all
  with Cons show ?case by (simp add: iw_high_admit)
qed simp

lemma iw_seen_not_fresh:
  assumes "iw_seen w \<subseteq> {..iw_high w}" and "k \<in> iw_seen w"
  shows "\<forall>i < length ks. iw_run depth w ks ! i = dw_fresh \<longrightarrow> ks ! i \<noteq> k"
  using assms
proof (induction ks arbitrary: w)
  case (Cons j ks)
  have "iw_seen (fst (iw_admit depth w j)) \<subseteq> {..iw_high (fst (iw_admit depth w j))}"
    "k \<in> iw_seen (fst (iw_admit depth w j))"
    using Cons.prems by (auto simp: iw_admit_def)
  from Cons.IH [OF this] Cons.prems show ?case
    by (auto simp: iw_admit_def nth_Cons split: nat.splits if_splits)
qed simp

lemma iw_run_once:
  assumes "iw_seen w \<subseteq> {..iw_high w}" and "i < j" and "j < length ks" and "ks ! i = ks ! j"
    and "iw_run depth w ks ! i = dw_fresh"
  shows "iw_run depth w ks ! j \<noteq> dw_fresh"
  using assms
proof (induction ks arbitrary: w i j)
  case (Cons k ks)
  let ?w = "fst (iw_admit depth w k)"
  have w: "iw_seen ?w \<subseteq> {..iw_high ?w}" using Cons.prems(1) by (auto simp: iw_admit_def)
  show ?case
  proof (cases i)
    case 0
    with Cons.prems have "k \<in> iw_seen ?w" by (auto simp: iw_admit_def split: if_splits)
    with iw_seen_not_fresh [OF w this, of ks depth] Cons.prems 0 show ?thesis
      by (cases j) auto
  next
    case (Suc i')
    with Cons.IH [OF w, of i' "j - 1"] Cons.prems show ?thesis by (cases j) auto
  qed
qed simp

text \<open>
  C8. Deduplication on the wrapping 16-bit sequence: as long as arrivals stay within half the
  space of the newest one, the bitmap window decides exactly like a window over unbounded indices
  that remembers everything, so no index is admitted twice, and one newer than the newest, or not
  yet seen inside the window, is never refused, across any number of wraps.
\<close>

theorem dedup_window_exact:
  assumes "serial_paced 0 ks"
  shows "dw_run (udp_dedup_window_init depth) (map of_nat ks)
           = iw_run (min (max depth 1) depth_max) \<lparr>iw_high = 0, iw_seen = {}\<rparr> ks
     \<and> (i < j \<and> j < length ks \<and> ks ! i = ks ! j
          \<and> dw_run (udp_dedup_window_init depth) (map of_nat ks) ! i = dw_fresh
        \<longrightarrow> dw_run (udp_dedup_window_init depth) (map of_nat ks) ! j \<noteq> dw_fresh)"
  using dw_run_refines [OF dw_rel_init, of ks depth] assms
    iw_run_once [of "\<lparr>iw_high = 0, iw_seen = {}\<rparr>" i j ks]
  by (auto simp: udp_dedup_window_init_def)

theorem dedup_window_exact_witness:
  "dw_run (udp_dedup_window_init 32) (map of_nat [1, 2, 30000, 60000, 65537, 65537])
     = [dw_fresh, dw_fresh, dw_fresh, dw_fresh, dw_fresh, dw_duplicate]"
  using dedup_window_exact [of "[1, 2, 30000, 60000, 65537, 65537]" 32 4 5]
  by (simp add: serial_near_def iw_admit_def depth_max_def)

end
