(* ===== verification/Reorder_Buffer.thy ===== *)
theory Reorder_Buffer
  imports Serial_Number
begin

text \<open>
  \<open>plexus-datagram/detail/udp_reorder_buffer.h\<close>: the receive side of the reliable datagram channel. The
  delivery callback is the list of (sequence, fragmented, bytes) triples in call order. The outer
  \<open>option\<close> is an index outside the slot array.
\<close>

datatype reorder_outcome = ro_delivered | ro_buffered | ro_duplicate | ro_out_of_window

record reorder_slot =
  sl_bytes :: bytes
  sl_present :: bool
  sl_fragmented :: bool

record udp_reorder_buffer =
  rb_window :: nat
  rb_slots :: "reorder_slot list"
  rb_base :: nat
  rb_expected :: u16

type_synonym delivery = "u16 \<times> bool \<times> bytes"

definition default_window :: nat where "default_window = 512"

definition empty_slot :: reorder_slot where
  "empty_slot = \<lparr>sl_bytes = [], sl_present = False, sl_fragmented = False\<rparr>"

definition udp_reorder_buffer_init :: "nat \<Rightarrow> u16 \<Rightarrow> udp_reorder_buffer" where
  "udp_reorder_buffer_init window initial_seq =
     (let w = (if window = 0 then default_window else window) in
      \<lparr>rb_window = w, rb_slots = replicate w empty_slot, rb_base = 0, rb_expected = initial_seq\<rparr>)"

text \<open>Each turn of the release loop clears a present slot, so the loop ends.\<close>

definition present_count :: "reorder_slot list \<Rightarrow> nat" where
  "present_count slots = length (filter sl_present slots)"

lemma present_count_clear:
  assumes "i < length slots" and "sl_present (slots ! i)"
  shows "present_count (slots[i := (slots ! i)\<lparr>sl_present := False\<rparr>]) < present_count slots"
proof -
  have "present_count slots = present_count (take i slots @ slots ! i # drop (Suc i) slots)"
    using assms(1) by (metis id_take_nth_drop)
  with assms show ?thesis by (simp add: upd_conv_take_nth_drop present_count_def)
qed

function drain_contiguous :: "udp_reorder_buffer \<Rightarrow> (udp_reorder_buffer \<times> delivery list) option" where
  "drain_contiguous s =
     (if rb_base s \<ge> length (rb_slots s) then None
      else let slot = rb_slots s ! rb_base s in
      if sl_present slot
      then map_option (apsnd (Cons (rb_expected s, sl_fragmented slot, sl_bytes slot)))
        (drain_contiguous (s\<lparr>rb_slots := (rb_slots s)[rb_base s := slot\<lparr>sl_present := False\<rparr>],
                             rb_expected := rb_expected s + 1,
                             rb_base := (rb_base s + 1) mod rb_window s\<rparr>))
      else Some (s, []))"
  by pat_completeness auto
termination
  by (relation "measure (\<lambda>s. present_count (rb_slots s))") (auto simp: present_count_clear)

declare drain_contiguous.simps [simp del]

definition reorder_feed ::
  "udp_reorder_buffer \<Rightarrow> u16 \<Rightarrow> bool \<Rightarrow> bytes \<Rightarrow> (udp_reorder_buffer \<times> delivery list \<times> reorder_outcome) option" where
  "reorder_feed s seq fragmented data =
     (let adv = seq - rb_expected s in
      if adv \<ge> half_space then Some (s, [], ro_duplicate)
      else if unat adv \<ge> rb_window s then Some (s, [], ro_out_of_window)
      else let i = (rb_base s + unat adv) mod rb_window s in
      if i \<ge> length (rb_slots s) then None
      else if sl_present (rb_slots s ! i)
      then Some (s, [], if adv \<noteq> 0 then ro_buffered else ro_duplicate)
      else let s = s\<lparr>rb_slots := (rb_slots s)[i := \<lparr>sl_bytes = data, sl_present = True, sl_fragmented = fragmented\<rparr>]\<rparr> in
      if adv \<noteq> 0 then Some (s, [], ro_buffered)
      else do {
        (s, out) \<leftarrow> drain_contiguous s;
        Some (s, out, ro_delivered)
      })"

definition cumulative :: "udp_reorder_buffer \<Rightarrow> u16" where
  "cumulative s = rb_expected s - 1"

definition buffered_at :: "udp_reorder_buffer \<Rightarrow> nat \<Rightarrow> bool option" where
  "buffered_at s hole =
     (if hole \<ge> rb_window s then Some False
      else let i = (rb_base s + hole) mod rb_window s in
        if i \<ge> length (rb_slots s) then None else Some (sl_present (rb_slots s ! i)))"

section \<open>The stream of accepted datagrams\<close>

text \<open>
  \<open>pay k\<close> is what the sender published under its \<open>k\<close>-th index. The buffer represents a set \<open>A\<close> of
  accepted indices: all below \<open>e\<close>, the next one to release, and those held in the window ahead of it.
\<close>

definition ring_slot :: "udp_reorder_buffer \<Rightarrow> nat \<Rightarrow> reorder_slot" where
  "ring_slot s i = rb_slots s ! ((rb_base s + i) mod rb_window s)"

definition rb_rel :: "(nat \<Rightarrow> bool \<times> bytes) \<Rightarrow> nat \<Rightarrow> nat set \<Rightarrow> udp_reorder_buffer \<Rightarrow> bool" where
  "rb_rel pay e A s \<longleftrightarrow> 0 < rb_window s \<and> length (rb_slots s) = rb_window s \<and> rb_base s < rb_window s
     \<and> rb_expected s = of_nat e \<and> {..<e} \<subseteq> A \<and> A \<subseteq> {..<e + rb_window s}
     \<and> (\<forall>i < rb_window s. sl_present (ring_slot s i) \<longleftrightarrow> e + i \<in> A)
     \<and> (\<forall>i < rb_window s. e + i \<in> A \<longrightarrow> (sl_fragmented (ring_slot s i), sl_bytes (ring_slot s i)) = pay (e + i))"

lemma ring_index_inject:
  fixes b i j w :: nat
  assumes "b < w" and "i < w" and "j < w"
  shows "(b + i) mod w = (b + j) mod w \<longleftrightarrow> i = j"
proof -
  have "(b + x) mod w = (if b + x < w then b + x else b + x - w)" if "x < w" for x
    using that assms(1) by (simp add: le_mod_geq)
  with assms show ?thesis by (auto split: if_splits)
qed

lemma ring_slot_update:
  assumes "length (rb_slots s) = rb_window s" and "rb_base s < rb_window s" and "i < rb_window s" and "j < rb_window s"
  shows "ring_slot (s\<lparr>rb_slots := (rb_slots s)[(rb_base s + i) mod rb_window s := x]\<rparr>) j
     = (if j = i then x else ring_slot s j)"
  using assms ring_index_inject [of "rb_base s" "rb_window s" i j]
  by (auto simp: ring_slot_def nth_list_update)

lemma ring_slot_advance:
  assumes "rb_base s < rb_window s" and "i + 1 < rb_window s"
  shows "ring_slot (s\<lparr>rb_base := (rb_base s + 1) mod rb_window s\<rparr>) i = ring_slot s (i + 1)"
  by (simp add: ring_slot_def mod_add_left_eq mod_add_right_eq add.assoc)

text \<open>Releasing the front slot moves the edge by one.\<close>

definition rb_pop :: "udp_reorder_buffer \<Rightarrow> udp_reorder_buffer" where
  "rb_pop s = s\<lparr>rb_slots := (rb_slots s)[rb_base s := (rb_slots s ! rb_base s)\<lparr>sl_present := False\<rparr>],
     rb_expected := rb_expected s + 1, rb_base := (rb_base s + 1) mod rb_window s\<rparr>"

lemma ring_slot_pop:
  assumes "length (rb_slots s) = rb_window s" and "rb_base s < rb_window s" and "i < rb_window s"
  shows "ring_slot (rb_pop s) i
     = (if i + 1 = rb_window s then (ring_slot s 0)\<lparr>sl_present := False\<rparr> else ring_slot s (i + 1))"
proof -
  have idx: "((rb_base s + 1) mod rb_window s + i) mod rb_window s = (rb_base s + (i + 1)) mod rb_window s"
    by (simp add: mod_add_left_eq add.assoc)
  show ?thesis
  proof (cases "i + 1 = rb_window s")
    case True
    then have "(rb_base s + (i + 1)) mod rb_window s = rb_base s" using assms(2) by simp
    with True assms idx show ?thesis by (simp add: ring_slot_def rb_pop_def)
  next
    case False
    then have "(rb_base s + (i + 1)) mod rb_window s \<noteq> rb_base s"
      using assms ring_index_inject [of "rb_base s" "rb_window s" "i + 1" 0] by simp
    with False assms idx show ?thesis by (simp add: ring_slot_def rb_pop_def)
  qed
qed

lemma rb_rel_pop:
  assumes "rb_rel pay e A s" and "e \<in> A"
  shows "rb_rel pay (e + 1) A (rb_pop s)"
proof -
  have w: "length (rb_slots s) = rb_window s" "rb_base s < rb_window s" using assms(1) by (simp_all add: rb_rel_def)
  have far: "e + rb_window s \<notin> A" using assms(1) by (auto simp: rb_rel_def)
  have slot: "(sl_present (ring_slot (rb_pop s) i) \<longleftrightarrow> e + 1 + i \<in> A) \<and> (e + 1 + i \<in> A \<longrightarrow>
      (sl_fragmented (ring_slot (rb_pop s) i), sl_bytes (ring_slot (rb_pop s) i)) = pay (e + 1 + i))"
    if i: "i < rb_window s" for i
  proof (cases "i + 1 = rb_window s")
    case True
    then have "e + 1 + i \<notin> A" using far by (metis add.assoc add.commute)
    with True show ?thesis unfolding ring_slot_pop [OF w i] by simp
  next
    case False
    then have lt: "i + 1 < rb_window s" and eq: "e + 1 + i = e + (i + 1)" using i by simp_all
    have "sl_present (ring_slot s (i + 1)) \<longleftrightarrow> e + (i + 1) \<in> A"
      "e + (i + 1) \<in> A \<longrightarrow> (sl_fragmented (ring_slot s (i + 1)), sl_bytes (ring_slot s (i + 1))) = pay (e + (i + 1))"
      using assms(1) lt unfolding rb_rel_def by blast+
    with False show ?thesis unfolding ring_slot_pop [OF w i] eq by simp
  qed
  have "{..<e + 1} \<subseteq> A" using assms by (auto simp: rb_rel_def less_Suc_eq)
  moreover have "A \<subseteq> {..<e + 1 + rb_window s}" using assms(1) by (auto simp: rb_rel_def)
  moreover have "rb_window (rb_pop s) = rb_window s" "length (rb_slots (rb_pop s)) = rb_window s"
    "rb_base (rb_pop s) < rb_window s" "rb_expected (rb_pop s) = of_nat (e + 1)"
    using assms(1) by (simp_all add: rb_pop_def rb_rel_def)
  ultimately show ?thesis
    using assms(1) slot unfolding rb_rel_def by simp
qed

lemma drain_contiguous_spec:
  assumes "rb_rel pay e A s"
  shows "\<exists>e' s'. drain_contiguous s = Some (s', map (\<lambda>k. (of_nat k, fst (pay k), snd (pay k))) [e..<e'])
     \<and> e \<le> e' \<and> rb_rel pay e' A s' \<and> e' \<notin> A \<and> rb_window s' = rb_window s"
  using assms
proof (induction s arbitrary: e rule: drain_contiguous.induct)
  case (1 s)
  note IH = 1(1) and rel = 1(2)
  have b: "rb_base s < length (rb_slots s)" using rel by (simp add: rb_rel_def)
  have front: "ring_slot s 0 = rb_slots s ! rb_base s" using rel by (simp add: ring_slot_def rb_rel_def)
  have pres: "sl_present (rb_slots s ! rb_base s) \<longleftrightarrow> e \<in> A"
    using rel front unfolding rb_rel_def by (metis add.right_neutral)
  show ?case
  proof (cases "e \<in> A")
    case False
    with pres b rel show ?thesis by (subst drain_contiguous.simps) (auto simp: Let_def intro!: exI [of _ e])
  next
    case True
    have pay: "(sl_fragmented (rb_slots s ! rb_base s), sl_bytes (rb_slots s ! rb_base s)) = pay e"
      using rel True front unfolding rb_rel_def by (metis add.right_neutral)
    have "drain_contiguous s = map_option (apsnd (Cons (of_nat e, fst (pay e), snd (pay e)))) (drain_contiguous (rb_pop s))"
      using b pres True rel pay [symmetric]
      by (subst drain_contiguous.simps) (simp add: Let_def rb_pop_def rb_rel_def)
    moreover obtain e' s' where "drain_contiguous (rb_pop s)
          = Some (s', map (\<lambda>k. (of_nat k, fst (pay k), snd (pay k))) [e + 1..<e'])"
        "e + 1 \<le> e'" "rb_rel pay e' A s'" "e' \<notin> A" "rb_window s' = rb_window (rb_pop s)"
      using IH [of _ "e + 1"] b pres True rb_rel_pop [OF rel True] unfolding rb_pop_def by force
    ultimately show ?thesis
      by (intro exI [of _ e'] exI [of _ s']) (simp add: upt_conv_Cons rb_pop_def)
  qed
qed

lemma reorder_feed_spec:
  assumes "rb_rel pay e A s" and "e \<notin> A" and "rb_window s \<le> 32768" and "serial_near k e"
  shows "\<exists>e' s' oc. reorder_feed s (of_nat k) (fst (pay k)) (snd (pay k))
       = Some (s', map (\<lambda>k. (of_nat k, fst (pay k), snd (pay k))) [e..<e'], oc)
     \<and> e \<le> e' \<and> (let A' = (if k < e + rb_window s then insert k A else A) in rb_rel pay e' A' s' \<and> e' \<notin> A')
     \<and> rb_window s' = rb_window s"
proof -
  let ?w = "rb_window s" and ?adv = "of_nat k - of_nat e :: u16"
  have ex: "rb_expected s = of_nat e" and w: "length (rb_slots s) = ?w" "rb_base s < ?w" "0 < ?w" "{..<e} \<subseteq> A"
    using assms(1) by (simp_all add: rb_rel_def)
  consider "k < e" | "e + ?w \<le> k" | "e \<le> k" "k < e + ?w" by linarith
  then show ?thesis
  proof cases
    case 1
    then have "half_space \<le> ?adv" using serial_ahead [OF assms(4)] by (simp add: not_less)
    moreover have "insert k A = A" using 1 w(4) by auto
    ultimately show ?thesis
      using assms 1 ex by (intro exI [of _ e] exI [of _ s]) (auto simp: reorder_feed_def Let_def)
  next
    case 2
    then have "?adv < half_space" "?w \<le> unat ?adv"
      using serial_ahead [OF assms(4)] serial_distance [OF assms(4)] by auto
    with 2 assms ex show ?thesis
      by (intro exI [of _ e] exI [of _ s]) (auto simp: reorder_feed_def Let_def)
  next
    case 3
    let ?i = "k - e" and ?slot = "\<lparr>sl_bytes = snd (pay k), sl_present = True, sl_fragmented = fst (pay k)\<rparr>"
    let ?idx = "(rb_base s + ?i) mod ?w" and ?s1 = "s\<lparr>rb_slots := (rb_slots s)[(rb_base s + ?i) mod ?w := ?slot]\<rparr>"
    have adv: "?adv < half_space" "unat ?adv = ?i" "?adv = 0 \<longleftrightarrow> k = e" "?i < ?w" "e + ?i = k"
      using serial_ahead [OF assms(4)] serial_distance [OF assms(4)] serial_zero [OF assms(4)] 3 by auto
    have idx: "?idx < length (rb_slots s)" using w by simp
    have pres: "sl_present (rb_slots s ! ?idx) \<longleftrightarrow> k \<in> A"
      using assms(1) adv(4,5) unfolding rb_rel_def ring_slot_def by metis
    show ?thesis
    proof (cases "k \<in> A")
      case True
      then have "insert k A = A" "k \<noteq> e" using assms(2) by auto
      with True assms 3 adv ex idx pres show ?thesis
        by (intro exI [of _ e] exI [of _ s]) (simp add: reorder_feed_def Let_def)
    next
      case False
      have rel: "rb_rel pay e (insert k A) ?s1"
      proof -
        have "ring_slot ?s1 j = (if j = ?i then ?slot else ring_slot s j)" if "j < ?w" for j
          using ring_slot_update [OF w(1,2) adv(4) that] .
        moreover have "e + j \<in> insert k A \<longleftrightarrow> j = ?i \<or> e + j \<in> A" for j using adv(5) by auto
        moreover have "insert k A \<subseteq> {..<e + ?w}" using assms(1) 3 by (auto simp: rb_rel_def)
        ultimately show ?thesis using assms(1) adv(5) 3(1) unfolding rb_rel_def by auto
      qed
      show ?thesis
      proof (cases "k = e")
        case ke: False
        with False assms(2) 3 adv ex idx pres rel show ?thesis
          by (intro exI [of _ e] exI [of _ ?s1]) (simp add: reorder_feed_def Let_def)
      next
        case ke: True
        obtain e' s' where "drain_contiguous ?s1 = Some (s', map (\<lambda>k. (of_nat k, fst (pay k), snd (pay k))) [e..<e'])"
          "e \<le> e'" "rb_rel pay e' (insert k A) s'" "e' \<notin> insert k A" "rb_window s' = rb_window ?s1"
          using drain_contiguous_spec [OF rel] by blast
        with ke False 3 adv ex idx pres show ?thesis
          by (intro exI [of _ e'] exI [of _ s']) (simp add: reorder_feed_def Let_def)
      qed
    qed
  qed
qed

text \<open>
  A history of arrivals, by index. The edge \<open>e\<close> moves by the number of releases. \<open>paced\<close> says that
  the sender keeps its window (nothing beyond the edge plus the window is sent) and that no
  datagram is more than half the sequence space old.
\<close>

fun reorder_run :: "(nat \<Rightarrow> bool \<times> bytes) \<Rightarrow> udp_reorder_buffer \<Rightarrow> nat list \<Rightarrow> (udp_reorder_buffer \<times> delivery list) option" where
  "reorder_run pay s [] = Some (s, [])"
| "reorder_run pay s (k # ks) = do {
     (s, out, _) \<leftarrow> reorder_feed s (of_nat k) (fst (pay k)) (snd (pay k));
     (s, out') \<leftarrow> reorder_run pay s ks;
     Some (s, out @ out')
   }"

fun reorder_paced :: "(nat \<Rightarrow> bool \<times> bytes) \<Rightarrow> udp_reorder_buffer \<Rightarrow> nat \<Rightarrow> nat list \<Rightarrow> bool" where
  "reorder_paced pay s e [] \<longleftrightarrow> True"
| "reorder_paced pay s e (k # ks) \<longleftrightarrow> k < e + rb_window s \<and> e \<le> k + 32768
     \<and> (case reorder_feed s (of_nat k) (fst (pay k)) (snd (pay k)) of
          None \<Rightarrow> False
        | Some (s', out, _) \<Rightarrow> reorder_paced pay s' (e + length out) ks)"

lemma reorder_run_spec:
  assumes "rb_rel pay e A s" and "e \<notin> A" and "rb_window s \<le> 32768" and "reorder_paced pay s e ks"
  shows "\<exists>e' s'. reorder_run pay s ks = Some (s', map (\<lambda>k. (of_nat k, fst (pay k), snd (pay k))) [e..<e'])
     \<and> e \<le> e' \<and> rb_rel pay e' (A \<union> set ks) s' \<and> e' \<notin> A \<union> set ks \<and> rb_window s' = rb_window s"
  using assms
proof (induction ks arbitrary: e A s)
  case Nil
  then show ?case by (auto intro!: exI [of _ e])
next
  case (Cons k ks)
  have near: "serial_near k e" using Cons.prems(3,4) by (simp add: serial_near_def)
  obtain e1 s1 oc where f: "reorder_feed s (of_nat k) (fst (pay k)) (snd (pay k))
      = Some (s1, map (\<lambda>k. (of_nat k, fst (pay k), snd (pay k))) [e..<e1], oc)" "e \<le> e1"
    "rb_rel pay e1 (insert k A) s1" "e1 \<notin> insert k A" "rb_window s1 = rb_window s"
    using reorder_feed_spec [OF Cons.prems(1-3) near] Cons.prems(4) by (auto simp: Let_def split: if_splits)
  have "reorder_paced pay s1 e1 ks" using Cons.prems(4) f(1,2) by simp
  with Cons.IH [OF f(3,4)] f(5) Cons.prems(3) obtain e2 s2 where
    "reorder_run pay s1 ks = Some (s2, map (\<lambda>k. (of_nat k, fst (pay k), snd (pay k))) [e1..<e2])" "e1 \<le> e2"
    "rb_rel pay e2 (insert k A \<union> set ks) s2" "e2 \<notin> insert k A \<union> set ks" "rb_window s2 = rb_window s1"
    by auto
  moreover have "[e..<e2] = [e..<e1] @ [e1..<e2]"
    using upt_add_eq_append [of e e1 "e2 - e1"] f(2) \<open>e1 \<le> e2\<close> by simp
  ultimately show ?case using f by (intro exI [of _ e2] exI [of _ s2]) auto
qed

lemma rb_rel_init: "rb_rel pay (unat i) {..<unat i} (udp_reorder_buffer_init w i)"
  by (simp add: rb_rel_def udp_reorder_buffer_init_def ring_slot_def empty_slot_def default_window_def Let_def)

lemma buffered_at_rel: "rb_rel pay e A s \<Longrightarrow> hole < rb_window s \<Longrightarrow> buffered_at s hole = Some (e + hole \<in> A)"
  by (simp add: buffered_at_def rb_rel_def ring_slot_def Let_def not_le)

text \<open>
  C9. The reorder buffer releases datagrams in publish order, exactly once, without a gap, however
  they arrive, repeat or wrap: what it has released is the longest unbroken run of indices that
  have arrived, each with the bytes it was sent with, and it never indexes outside its slots. Its
  hole map tells which indices ahead of the edge it holds.
\<close>

theorem reorder_in_order:
  assumes "0 < window" and "window \<le> 32768"
    and "reorder_paced pay (udp_reorder_buffer_init window isn) (unat isn) ks"
  shows "\<exists>s out. reorder_run pay (udp_reorder_buffer_init window isn) ks = Some (s, out)
     \<and> (let e = unat isn + length out in
         out = map (\<lambda>k. (of_nat k, fst (pay k), snd (pay k))) [unat isn..<e]
         \<and> {unat isn..<e} \<subseteq> set ks \<and> e \<notin> set ks
         \<and> cumulative s = of_nat e - 1
         \<and> (\<forall>hole < window. buffered_at s hole = Some (e + hole \<in> set ks)))"
proof -
  let ?s = "udp_reorder_buffer_init window isn"
  have w: "rb_window ?s = window" using assms(1) by (simp add: udp_reorder_buffer_init_def Let_def)
  obtain e s where r: "reorder_run pay ?s ks = Some (s, map (\<lambda>k. (of_nat k, fst (pay k), snd (pay k))) [unat isn..<e])"
    "unat isn \<le> e" "rb_rel pay e ({..<unat isn} \<union> set ks) s" "e \<notin> {..<unat isn} \<union> set ks" "rb_window s = window"
    using reorder_run_spec [OF rb_rel_init [of pay isn window], of ks] assms w by auto
  have "{..<e} \<subseteq> {..<unat isn} \<union> set ks" "rb_expected s = of_nat e" using r(3) by (simp_all add: rb_rel_def)
  moreover have "buffered_at s hole = Some (e + hole \<in> set ks)" if "hole < window" for hole
    using buffered_at_rel [OF r(3)] that r(2,5) by auto
  ultimately show ?thesis using r(1,2,4) by (auto simp: Let_def cumulative_def)
qed

theorem reorder_in_order_witness:
  "\<exists>s out. reorder_run (\<lambda>k. (False, [of_nat k])) (udp_reorder_buffer_init 4 65534) [65535, 65534, 65537, 65535]
     = Some (s, out) \<and> out = [(65534, False, [254]), (65535, False, [255])]"
proof -
  have "reorder_paced (\<lambda>k. (False, [of_nat k])) (udp_reorder_buffer_init 4 65534) (unat (65534 :: u16))
      [65535, 65534, 65537, 65535]"
    by (simp add: reorder_feed_def udp_reorder_buffer_init_def half_space_def Let_def
        drain_contiguous.simps empty_slot_def)
  from reorder_in_order [OF _ _ this] obtain s out where
    r: "reorder_run (\<lambda>k. (False, [of_nat k])) (udp_reorder_buffer_init 4 65534) [65535, 65534, 65537, 65535] = Some (s, out)"
      "out = map (\<lambda>k. (of_nat k, False, [of_nat k])) [65534..<65534 + length out]"
      "65534 + length out \<notin> {65535, 65534, 65537}" "{65534..<65534 + length out} \<subseteq> {65535, 65534, 65537}"
    by (auto simp: Let_def)
  have "\<not> 65536 < 65534 + length out" using subsetD [OF r(4), of 65536] by auto
  moreover have "length out \<noteq> 0" "length out \<noteq> 1" using r(3) by auto
  ultimately have "length out = 2" by linarith
  with r(1,2) show ?thesis by (simp add: upt_conv_Cons)
qed


section \<open>Any input\<close>

definition rb_ok :: "udp_reorder_buffer \<Rightarrow> bool" where
  "rb_ok s \<longleftrightarrow> 0 < rb_window s \<and> length (rb_slots s) = rb_window s \<and> rb_base s < rb_window s"

lemma rb_ok_init: "rb_ok (udp_reorder_buffer_init w isn)"
  by (simp add: rb_ok_def udp_reorder_buffer_init_def default_window_def Let_def)

lemma drain_contiguous_ok: "rb_ok s \<Longrightarrow> safely (\<lambda>(s', _). rb_ok s') (drain_contiguous s)"
proof (induction s rule: drain_contiguous.induct)
  case (1 s)
  let ?n = "s\<lparr>rb_slots := (rb_slots s)[rb_base s := (rb_slots s ! rb_base s)\<lparr>sl_present := False\<rparr>],
      rb_expected := rb_expected s + 1, rb_base := (rb_base s + 1) mod rb_window s\<rparr>"
  have n: "rb_ok ?n" "\<not> length (rb_slots s) \<le> rb_base s" using 1(2) by (simp_all add: rb_ok_def)
  show ?case
  proof (cases "sl_present (rb_slots s ! rb_base s)")
    case True
    then have "safely (\<lambda>(s', _). rb_ok s') (drain_contiguous ?n)" using 1(1) n by simp
    with True n(2) show ?thesis by (auto simp: drain_contiguous.simps [of s] safely_def Let_def)
  qed (use 1(2) n(2) in \<open>simp add: drain_contiguous.simps [of s]\<close>)
qed

lemma reorder_feed_ok:
  assumes "rb_ok s"
  shows "safely (\<lambda>(s', _, _). rb_ok s') (reorder_feed s seq f data)"
proof -
  have i: "(rb_base s + unat (seq - rb_expected s)) mod rb_window s < length (rb_slots s)"
    using assms by (simp add: rb_ok_def)
  let ?s = "s\<lparr>rb_slots := (rb_slots s)[(rb_base s + unat (seq - rb_expected s)) mod rb_window s :=
      \<lparr>sl_bytes = data, sl_present = True, sl_fragmented = f\<rparr>]\<rparr>"
  have "rb_ok ?s" using assms by (simp add: rb_ok_def)
  with drain_contiguous_ok [OF this] i assms show ?thesis
    by (auto simp: reorder_feed_def Let_def safely_def)
qed

lemma buffered_at_ok:
  assumes "rb_ok s"
  shows "\<exists>b. buffered_at s hole = Some b"
proof -
  have "(rb_base s + hole) mod rb_window s < length (rb_slots s)" using assms by (simp add: rb_ok_def)
  then show ?thesis by (cases "rb_window s \<le> hole") (auto simp: buffered_at_def Let_def)
qed

end
