(* ===== verification/Udp_Envelope.thy ===== *)
theory Udp_Envelope
  imports Cursor
begin

text \<open>
  \<open>plexus-wire/udp_envelope.h\<close>, \<open>detail/udp_envelope_codec.h\<close>, \<open>udp_ack.h\<close> and
  \<open>plexus-datagram/detail/udp_handshake_frame.h\<close>: the datagram envelope and the three families of
  inner frames that share the reliable envelope kind. The envelope kind is an unchecked cast of two
  bits, hence a byte; the handshake and ARQ discriminators are checked, hence datatypes.
\<close>

definition udp_envelope_overhead :: nat where "udp_envelope_overhead = 3"
definition udp_fragment_subheader :: nat where "udp_fragment_subheader = 10"
definition udp_fragment_header_overhead :: nat where
  "udp_fragment_header_overhead = udp_envelope_overhead + udp_fragment_subheader"

type_synonym udp_envelope_kind = u8

definition best_effort :: udp_envelope_kind where "best_effort = 0"
definition reliable_arq :: udp_envelope_kind where "reliable_arq = 1"

definition udp_kind_shift :: nat where "udp_kind_shift = 6"
definition udp_kind_mask :: u8 where "udp_kind_mask = 0xC0"
definition udp_fragmented_bit :: u8 where "udp_fragmented_bit = 0x01"

definition pack_ver_flags :: "udp_envelope_kind \<Rightarrow> bool \<Rightarrow> u8" where
  "pack_ver_flags kind fragmented =
     (let bits = push_bit udp_kind_shift kind in if fragmented then bits OR udp_fragmented_bit else bits)"

record udp_decode_result =
  ue_kind :: udp_envelope_kind
  ue_seq :: u16
  ue_frame :: bytes
  ue_fragmented :: bool

record udp_fragment_header =
  uf_msg_id :: u16
  uf_frag_idx :: u32
  uf_frag_cnt :: u32
  uf_payload :: bytes

definition wrap_udp_into :: "bytes \<Rightarrow> udp_envelope_kind \<Rightarrow> u16 \<Rightarrow> bytes \<Rightarrow> bytes option" where
  "wrap_udp_into out kind seq frame = do {
     w \<leftarrow> writer_u8 (pack_ver_flags kind False) (writer_of (vec_resize (udp_envelope_overhead + length frame) out));
     w \<leftarrow> writer_u16 seq w;
     w \<leftarrow> writer_bytes frame w;
     Some (wr_region w)
   }"

definition wrap_udp :: "udp_envelope_kind \<Rightarrow> u16 \<Rightarrow> bytes \<Rightarrow> bytes option" where
  "wrap_udp kind seq frame = do {
     w \<leftarrow> writer_u8 (pack_ver_flags kind False) (writer_of (replicate (udp_envelope_overhead + length frame) 0));
     w \<leftarrow> writer_u16 seq w;
     w \<leftarrow> writer_bytes frame w;
     Some (wr_region w)
   }"

definition unwrap_udp :: "bytes \<Rightarrow> udp_decode_result option option" where
  "unwrap_udp datagram =
     (if length datagram < udp_envelope_overhead then Some None
      else do {
        (ver_flags, r) \<leftarrow> reader_u8 (reader_of datagram);
        (seq, r) \<leftarrow> reader_u16 r;
        frame \<leftarrow> reader_rest r;
        Some (Some \<lparr>ue_kind = drop_bit udp_kind_shift (ver_flags AND udp_kind_mask), ue_seq = seq,
                    ue_frame = frame, ue_fragmented = (ver_flags AND udp_fragmented_bit \<noteq> 0)\<rparr>)
      })"

definition wrap_udp_into_fragmented :: "bytes \<Rightarrow> udp_envelope_kind \<Rightarrow> u16 \<Rightarrow> bytes \<Rightarrow> bytes option" where
  "wrap_udp_into_fragmented out kind seq frame = do {
     w \<leftarrow> writer_u8 (pack_ver_flags kind True) (writer_of (vec_resize (udp_envelope_overhead + length frame) out));
     w \<leftarrow> writer_u16 seq w;
     w \<leftarrow> writer_bytes frame w;
     Some (wr_region w)
   }"

definition wrap_udp_fragment_into ::
  "bytes \<Rightarrow> udp_envelope_kind \<Rightarrow> u16 \<Rightarrow> u16 \<Rightarrow> u32 \<Rightarrow> u32 \<Rightarrow> bytes \<Rightarrow> bytes option" where
  "wrap_udp_fragment_into out kind seq msg_id frag_idx frag_cnt frag_bytes = do {
     w \<leftarrow> writer_u8 (pack_ver_flags kind True)
            (writer_of (vec_resize (udp_fragment_header_overhead + length frag_bytes) out));
     w \<leftarrow> writer_u16 seq w;
     w \<leftarrow> writer_u16 msg_id w;
     w \<leftarrow> writer_u32 frag_idx w;
     w \<leftarrow> writer_u32 frag_cnt w;
     w \<leftarrow> writer_bytes frag_bytes w;
     Some (wr_region w)
   }"

definition encode_udp_fragment_payload_into :: "bytes \<Rightarrow> u16 \<Rightarrow> u32 \<Rightarrow> u32 \<Rightarrow> bytes \<Rightarrow> bytes option" where
  "encode_udp_fragment_payload_into out msg_id frag_idx frag_cnt piece = do {
     w \<leftarrow> writer_u16 msg_id (writer_of (vec_resize (udp_fragment_subheader + length piece) out));
     w \<leftarrow> writer_u32 frag_idx w;
     w \<leftarrow> writer_u32 frag_cnt w;
     w \<leftarrow> writer_bytes piece w;
     Some (wr_region w)
   }"

definition decode_udp_fragment_header :: "bytes \<Rightarrow> udp_fragment_header option option" where
  "decode_udp_fragment_header frame =
     (if length frame < udp_fragment_subheader then Some None
      else do {
        (msg_id, r) \<leftarrow> reader_u16 (reader_of frame);
        (frag_idx, r) \<leftarrow> reader_u32 r;
        (frag_cnt, r) \<leftarrow> reader_u32 r;
        payload \<leftarrow> reader_rest r;
        Some (Some \<lparr>uf_msg_id = msg_id, uf_frag_idx = frag_idx, uf_frag_cnt = frag_cnt, uf_payload = payload\<rparr>)
      })"

section \<open>Acknowledgements and segments\<close>

datatype udp_arq_kind = arq_segment | arq_ack

fun udp_arq_kind_byte :: "udp_arq_kind \<Rightarrow> u8" where
  "udp_arq_kind_byte arq_segment = 2"
| "udp_arq_kind_byte arq_ack = 3"

definition bitmap_bytes :: nat where "bitmap_bytes = 32"
definition bitmap_bits :: nat where "bitmap_bits = bitmap_bytes * 8"

record udp_ack =
  ack_cumulative :: u16
  ack_selective :: bytes

definition empty_ack :: udp_ack where
  "empty_ack = \<lparr>ack_cumulative = 0, ack_selective = replicate bitmap_bytes 0\<rparr>"

definition hole_received :: "udp_ack \<Rightarrow> nat \<Rightarrow> bool" where
  "hole_received a i \<longleftrightarrow>
     i < bitmap_bits \<and> (ack_selective a ! (drop_bit 3 i)) AND push_bit (i mod 8) 1 \<noteq> 0"

definition mark_hole :: "udp_ack \<Rightarrow> nat \<Rightarrow> udp_ack" where
  "mark_hole a i =
     (if i < bitmap_bits
      then a\<lparr>ack_selective := (ack_selective a)[drop_bit 3 i := ack_selective a ! (drop_bit 3 i) OR push_bit (i mod 8) 1]\<rparr>
      else a)"

definition udp_ack_frame_size :: nat where
  "udp_ack_frame_size = 1 + 2 + bitmap_bytes"

definition encode_udp_ack_into :: "bytes \<Rightarrow> udp_ack \<Rightarrow> bytes option" where
  "encode_udp_ack_into out a = do {
     w \<leftarrow> writer_u8 (udp_arq_kind_byte arq_ack) (writer_of (vec_resize udp_ack_frame_size out));
     w \<leftarrow> writer_u16 (ack_cumulative a) w;
     w \<leftarrow> writer_bytes (ack_selective a) w;
     Some (wr_region w)
   }"

definition decode_udp_ack :: "bytes \<Rightarrow> udp_ack option option" where
  "decode_udp_ack frame =
     (if length frame \<noteq> udp_ack_frame_size then Some None
      else do {
        (marker, r) \<leftarrow> reader_u8 (reader_of frame);
        if marker \<noteq> udp_arq_kind_byte arq_ack then Some None
        else do {
          (cumulative, r) \<leftarrow> reader_u16 r;
          (selective, r) \<leftarrow> reader_copy_to (ack_selective empty_ack) bitmap_bytes r;
          Some (Some \<lparr>ack_cumulative = cumulative, ack_selective = selective\<rparr>)
        }
      })"

definition encode_udp_segment_into :: "bytes \<Rightarrow> bytes \<Rightarrow> bytes option" where
  "encode_udp_segment_into out payload = do {
     w \<leftarrow> writer_u8 (udp_arq_kind_byte arq_segment) (writer_of (vec_resize (1 + length payload) out));
     w \<leftarrow> writer_bytes payload w;
     Some (wr_region w)
   }"

definition decode_udp_segment :: "bytes \<Rightarrow> bytes option option" where
  "decode_udp_segment frame = do {
     (marker, r) \<leftarrow> reader_u8 (reader_of frame);
     if marker \<noteq> udp_arq_kind_byte arq_segment then Some None
     else map_option Some (reader_rest r)
   }"

definition peek_udp_arq_kind :: "bytes \<Rightarrow> udp_arq_kind option option" where
  "peek_udp_arq_kind frame = do {
     (marker, r) \<leftarrow> reader_u8 (reader_of frame);
     if \<not> rd_ok r then Some None
     else if marker = udp_arq_kind_byte arq_segment then Some (Some arq_segment)
     else if marker = udp_arq_kind_byte arq_ack then Some (Some arq_ack)
     else Some None
   }"

section \<open>The datagram handshake frame\<close>

datatype udp_hs_type = hs_request | hs_response
datatype udp_channel_mode = mode_best_effort | mode_reliable_datagram

fun udp_hs_type_byte :: "udp_hs_type \<Rightarrow> u8" where
  "udp_hs_type_byte hs_request = 0"
| "udp_hs_type_byte hs_response = 1"

fun udp_channel_mode_byte :: "udp_channel_mode \<Rightarrow> u8" where
  "udp_channel_mode_byte mode_best_effort = 0"
| "udp_channel_mode_byte mode_reliable_datagram = 1"

record udp_handshake =
  uh_type :: udp_hs_type
  uh_mode :: udp_channel_mode
  uh_initial_seq :: u16

definition encode_handshake_into :: "bytes \<Rightarrow> udp_hs_type \<Rightarrow> udp_channel_mode \<Rightarrow> u16 \<Rightarrow> bytes option" where
  "encode_handshake_into out type mode initial_seq =
     wrap_udp_into out reliable_arq 0
       [udp_hs_type_byte type, udp_channel_mode_byte mode, ucast (initial_seq AND 0xFF),
        ucast (drop_bit 8 initial_seq AND 0xFF)]"

definition decode_handshake :: "bytes \<Rightarrow> udp_handshake option option" where
  "decode_handshake datagram = do {
     dec \<leftarrow> unwrap_udp datagram;
     case dec of
       None \<Rightarrow> Some None
     | Some d \<Rightarrow>
         let frame = ue_frame d in
         if ue_kind d \<noteq> reliable_arq \<or> frame = [] \<or> length frame = 3 \<or> length frame > 4 then Some None
         else let v = frame ! 0 in
         if v \<noteq> udp_hs_type_byte hs_request \<and> v \<noteq> udp_hs_type_byte hs_response then Some None
         else if length frame \<ge> 2 \<and> frame ! 1 > udp_channel_mode_byte mode_reliable_datagram then Some None
         else
           let mode = (if length frame \<ge> 2 \<and> frame ! 1 = udp_channel_mode_byte mode_reliable_datagram
                       then mode_reliable_datagram else mode_best_effort);
               isn = (if length frame = 4 then ucast (frame ! 2) OR push_bit 8 (ucast (frame ! 3)) else 0)
           in Some (Some \<lparr>uh_type = (if v = udp_hs_type_byte hs_request then hs_request else hs_response),
                         uh_mode = mode, uh_initial_seq = isn\<rparr>)
   }"

section \<open>Layouts\<close>

lemmas udp_sizes = udp_envelope_overhead_def udp_fragment_subheader_def udp_fragment_header_overhead_def
  udp_ack_frame_size_def bitmap_bytes_def bitmap_bits_def

definition fragment_layout :: "u16 \<Rightarrow> u32 \<Rightarrow> u32 \<Rightarrow> bytes \<Rightarrow> bytes" where
  "fragment_layout msg_id idx cnt piece = be_bytes 2 msg_id @ be_bytes 4 idx @ be_bytes 4 cnt @ piece"

lemma udp_layout [wire_layout]:
  "wrap_udp kind seq frame = Some (pack_ver_flags kind False # be_bytes 2 seq @ frame)"
  "wrap_udp_into out kind seq frame = Some (pack_ver_flags kind False # be_bytes 2 seq @ frame)"
  "wrap_udp_into_fragmented out kind seq frame = Some (pack_ver_flags kind True # be_bytes 2 seq @ frame)"
  "wrap_udp_fragment_into out kind seq msg_id idx cnt piece
     = Some (pack_ver_flags kind True # be_bytes 2 seq @ fragment_layout msg_id idx cnt piece)"
  "encode_udp_fragment_payload_into out msg_id idx cnt piece = Some (fragment_layout msg_id idx cnt piece)"
  "encode_udp_segment_into out payload = Some (udp_arq_kind_byte arq_segment # payload)"
  by (simp_all add: wrap_udp_def wrap_udp_into_def wrap_udp_into_fragmented_def wrap_udp_fragment_into_def
      encode_udp_fragment_payload_into_def encode_udp_segment_into_def udp_sizes fragment_layout_def writer_eval)

lemma encode_udp_ack_into_layout [wire_layout]:
  "length (ack_selective a) = bitmap_bytes \<Longrightarrow>
   encode_udp_ack_into out a = Some (udp_arq_kind_byte arq_ack # be_bytes 2 (ack_cumulative a) @ ack_selective a)"
  by (simp add: encode_udp_ack_into_def udp_sizes writer_eval)

lemma pack_unpack_kind:
  assumes "kind < 4"
  shows "drop_bit 6 (pack_ver_flags kind f AND 0xC0) = kind"
    and "pack_ver_flags kind f AND 1 \<noteq> 0 \<longleftrightarrow> f"
proof -
  have "kind = 0 \<or> kind = 1 \<or> kind = 2 \<or> kind = 3"
  proof -
    have "unat kind < 4" using assms by (simp add: word_less_nat_alt)
    then have "unat kind = 0 \<or> unat kind = 1 \<or> unat kind = 2 \<or> unat kind = 3" by linarith
    then show ?thesis by (simp add: word_unat_eq_iff)
  qed
  then show "drop_bit 6 (pack_ver_flags kind f AND 0xC0) = kind"
    and "pack_ver_flags kind f AND 1 \<noteq> 0 \<longleftrightarrow> f"
    by (auto simp: pack_ver_flags_def udp_kind_shift_def udp_fragmented_bit_def Let_def)
qed

lemma unwrap_udp_layout:
  "unwrap_udp (ver # be_bytes 2 seq @ frame) = Some (Some \<lparr>ue_kind = drop_bit 6 (ver AND 0xC0), ue_seq = seq,
     ue_frame = frame, ue_fragmented = (ver AND 1 \<noteq> 0)\<rparr>)"
  by (simp add: unwrap_udp_def udp_sizes reader_eval udp_kind_shift_def udp_kind_mask_def udp_fragmented_bit_def)

lemma decode_udp_fragment_header_layout:
  "decode_udp_fragment_header (fragment_layout msg_id idx cnt piece)
     = Some (Some \<lparr>uf_msg_id = msg_id, uf_frag_idx = idx, uf_frag_cnt = cnt, uf_payload = piece\<rparr>)"
  by (simp add: decode_udp_fragment_header_def fragment_layout_def udp_sizes reader_eval)

lemma decode_udp_ack_layout:
  "length sel = bitmap_bytes \<Longrightarrow>
   decode_udp_ack (udp_arq_kind_byte arq_ack # be_bytes 2 c @ sel) = Some (Some \<lparr>ack_cumulative = c, ack_selective = sel\<rparr>)"
  using reader_at_copy_to [of sel bitmap_bytes "replicate bitmap_bytes 0" "udp_arq_kind_byte arq_ack # be_bytes 2 c" "[]"]
  by (simp add: decode_udp_ack_def udp_sizes reader_eval empty_ack_def)

text \<open>The inner-frame classifiers as functions of the first byte.\<close>

lemma reader_u8_empty: "reader_u8 (reader_at [] []) = Some (0, (reader_at [] [])\<lparr>rd_ok := False\<rparr>)"
  by (simp add: reader_u8_def reader_take_def reader_remaining_def reader_at_def)

lemma peek_udp_arq_kind_eq:
  "peek_udp_arq_kind frame = Some (case frame of [] \<Rightarrow> None
     | b # _ \<Rightarrow> if b = 2 then Some arq_segment else if b = 3 then Some arq_ack else None)"
  by (cases frame) (simp_all add: peek_udp_arq_kind_def reader_eval reader_u8_empty)

lemma decode_udp_segment_eq:
  "decode_udp_segment frame = Some (case frame of [] \<Rightarrow> None | b # rest \<Rightarrow> if b = 2 then Some rest else None)"
  by (cases frame) (simp_all add: decode_udp_segment_def reader_eval reader_u8_empty)

lemma unwrap_udp_total: "\<exists>r. unwrap_udp datagram = Some r"
proof -
  have "safely (\<lambda>_. True) (unwrap_udp datagram)"
    by (auto simp: unwrap_udp_def intro!: safe_intro)
  then show ?thesis by (simp add: safely_ex)
qed

lemma udp_handshake_total: "\<exists>r. decode_handshake datagram = Some r"
  using unwrap_udp_total [of datagram]
  by (auto simp: decode_handshake_def Let_def split: option.splits)

lemma decode_handshake_inner:
  assumes "decode_handshake datagram = Some (Some h)"
  shows "\<exists>d. unwrap_udp datagram = Some (Some d) \<and> ue_kind d = reliable_arq \<and> ue_frame d \<noteq> []
     \<and> hd (ue_frame d) = udp_hs_type_byte (uh_type h)"
proof -
  obtain r where r: "unwrap_udp datagram = Some r" using unwrap_udp_total by blast
  show ?thesis
    using assms r
    by (cases r) (auto simp: decode_handshake_def Let_def hd_conv_nth split: if_splits)
qed

lemma hs_bytes_small: "udp_hs_type_byte t \<noteq> 2" "udp_hs_type_byte t \<noteq> 3"
  by (cases t; simp)+

lemma isn_bytes:
  "(ucast (ucast (x AND 0xFF) :: u8) :: u16) OR push_bit 8 (ucast (ucast (drop_bit 8 x AND 0xFF) :: u8)) = (x :: u16)"
proof -
  have ff: "(0xFF :: u16) = mask 8" by (simp add: mask_eq_exp_minus_1)
  show ?thesis
    unfolding ff by (rule bit_word_eqI) (auto simp: word_bits dest: bit_imp_le_length)
qed

lemma decode_handshake_bytes:
  "decode_handshake (pack_ver_flags reliable_arq False # be_bytes 2 (seq :: u16) @ [udp_hs_type_byte t, udp_channel_mode_byte m, lo, hi])
     = Some (Some \<lparr>uh_type = t, uh_mode = m, uh_initial_seq = ucast lo OR push_bit 8 (ucast hi)\<rparr>)"
  using pack_unpack_kind(1) [of 1 False]
  by (cases t; cases m) (simp_all add: decode_handshake_def unwrap_udp_layout reliable_arq_def Let_def)

lemma decode_handshake_layout:
  "\<exists>dg. encode_handshake_into out t m isn = Some dg
     \<and> decode_handshake dg = Some (Some \<lparr>uh_type = t, uh_mode = m, uh_initial_seq = isn\<rparr>)"
  by (simp only: encode_handshake_into_def udp_layout decode_handshake_bytes isn_bytes option.inject simp_thms
      ex_simps)

lemma hole_received_mark:
  assumes "length (ack_selective a) = bitmap_bytes"
  shows "hole_received (mark_hole a j) i \<longleftrightarrow> (i = j \<and> i < bitmap_bits) \<or> hole_received a i"
proof -
  have split: "i = j \<longleftrightarrow> i div 8 = j div 8 \<and> i mod 8 = j mod 8"
    by (metis div_mult_mod_eq)
  show ?thesis
  proof (cases "j < 256")
    case True
    with assms show ?thesis
      by (auto simp: hole_received_def mark_hole_def udp_sizes nth_list_update drop_bit_eq_div
          and_exp_eq_0_iff_not_bit bit_or_iff bit_exp_iff split)
  next
    case False
    then show ?thesis by (auto simp: hole_received_def mark_hole_def udp_sizes)
  qed
qed

text \<open>
  The datagram envelope: whole frames and fragments come back with their kind, sequence
  number, fragmentation mark and fragment coordinates, and an acknowledgement with its bitmap, in
  which exactly the holes that were marked are set.
\<close>

lemma udp_envelope_roundtrip:
  assumes "kind < 4" and "length (ack_selective a) = bitmap_bytes"
  shows "(\<exists>dg. wrap_udp_into out kind seq frame = Some dg \<and> wrap_udp kind seq frame = Some dg
           \<and> unwrap_udp dg = Some (Some \<lparr>ue_kind = kind, ue_seq = seq, ue_frame = frame, ue_fragmented = False\<rparr>))
     \<and> (\<exists>dg inner. wrap_udp_fragment_into out kind seq msg_id idx cnt piece = Some dg
           \<and> unwrap_udp dg = Some (Some \<lparr>ue_kind = kind, ue_seq = seq, ue_frame = inner, ue_fragmented = True\<rparr>)
           \<and> encode_udp_fragment_payload_into out msg_id idx cnt piece = Some inner
           \<and> decode_udp_fragment_header inner
               = Some (Some \<lparr>uf_msg_id = msg_id, uf_frag_idx = idx, uf_frag_cnt = cnt, uf_payload = piece\<rparr>))
     \<and> (\<exists>bs. encode_udp_ack_into out a = Some bs \<and> decode_udp_ack bs = Some (Some a))
     \<and> (hole_received (mark_hole a j) i \<longleftrightarrow> (i = j \<and> i < bitmap_bits) \<or> hole_received a i)"
proof -
  have "encode_udp_ack_into out a = Some (udp_arq_kind_byte arq_ack # be_bytes 2 (ack_cumulative a) @ ack_selective a)"
    and "decode_udp_ack (udp_arq_kind_byte arq_ack # be_bytes 2 (ack_cumulative a) @ ack_selective a) = Some (Some a)"
    using encode_udp_ack_into_layout [OF assms(2)] decode_udp_ack_layout [OF assms(2)] by simp_all
  then show ?thesis
    using hole_received_mark [OF assms(2), of j i] pack_unpack_kind [OF assms(1)]
    by (simp add: udp_layout unwrap_udp_layout decode_udp_fragment_header_layout)
qed

lemma udp_envelope_roundtrip_witness:
  "(\<exists>dg. wrap_udp_into [7, 7] reliable_arq 515 [1, 2] = Some dg \<and> wrap_udp reliable_arq 515 [1, 2] = Some dg
       \<and> unwrap_udp dg = Some (Some \<lparr>ue_kind = reliable_arq, ue_seq = 515, ue_frame = [1, 2], ue_fragmented = False\<rparr>))
   \<and> (hole_received (mark_hole empty_ack 9) 9 \<longleftrightarrow> True)"
  using udp_envelope_roundtrip [of reliable_arq empty_ack "[7, 7]" 515 "[1, 2]" 0 0 0 "[]" 9 9]
  by (simp add: reliable_arq_def empty_ack_def bitmap_bits_def bitmap_bytes_def)

text \<open>
  The three families of inner frames never alias: on any datagram both decoders stay inside
  it, and one that decodes as a handshake is neither a data segment nor an acknowledgement; a
  handshake frame comes back with its type, mode and initial sequence number.
\<close>

lemma udp_inner_frames_disjoint:
  "(\<exists>r u. decode_handshake datagram = Some r \<and> unwrap_udp datagram = Some u
      \<and> (r \<noteq> None \<longrightarrow> (\<exists>d. u = Some d \<and> ue_kind d = reliable_arq
            \<and> peek_udp_arq_kind (ue_frame d) = Some None \<and> decode_udp_segment (ue_frame d) = Some None)))
   \<and> (\<exists>dg. encode_handshake_into out t m isn = Some dg
        \<and> decode_handshake dg = Some (Some \<lparr>uh_type = t, uh_mode = m, uh_initial_seq = isn\<rparr>))"
proof -
  obtain r u where ru: "decode_handshake datagram = Some r" "unwrap_udp datagram = Some u"
    using udp_handshake_total unwrap_udp_total by metis
  have "\<exists>d. u = Some d \<and> ue_kind d = reliable_arq \<and> peek_udp_arq_kind (ue_frame d) = Some None
      \<and> decode_udp_segment (ue_frame d) = Some None" if "r \<noteq> None"
    using that ru decode_handshake_inner [of datagram] hs_bytes_small
    by (auto simp: peek_udp_arq_kind_eq decode_udp_segment_eq neq_Nil_conv)
  then show ?thesis using ru decode_handshake_layout by auto
qed

lemma udp_inner_frames_disjoint_witness:
  "decode_handshake [0x40, 0, 0, 1, 1, 0x34, 0x12]
     = Some (Some \<lparr>uh_type = hs_response, uh_mode = mode_reliable_datagram, uh_initial_seq = 0x1234\<rparr>)
   \<and> (\<exists>d. unwrap_udp [0x40, 0, 0, 1, 1, 0x34, 0x12] = Some (Some d) \<and> decode_udp_segment (ue_frame d) = Some None)"
proof -
  have "decode_handshake [0x40, 0, 0, 1, 1, 0x34, 0x12]
     = Some (Some \<lparr>uh_type = hs_response, uh_mode = mode_reliable_datagram, uh_initial_seq = 0x1234\<rparr>)"
    by code_simp
  with udp_inner_frames_disjoint [of "[0x40, 0, 0, 1, 1, 0x34, 0x12]" "[]" hs_request mode_best_effort 0] show ?thesis by auto
qed

end
