(* ===== verification/Reliable_Arq.thy ===== *)
theory Reliable_Arq
  imports Reorder_Buffer Udp_Envelope
begin

text \<open>
  \<open>plexus-datagram/detail/udp_rto_estimator.h\<close> and \<open>udp_reliable_arq.h\<close>: the selective-repeat sender with
  its adaptive retransmission timeout, and the acknowledgement it builds from the reorder buffer.
  Durations and the clock are milliseconds as naturals; every operation that reads the clock takes
  \<open>now\<close>. A slot's timer is the wait it has armed, with the sequence number the handler captured.
  Callbacks are output events.
\<close>

section \<open>The timeout estimator\<close>

record udp_rto_estimator =
  re_min :: nat
  re_max :: nat
  re_rto :: nat
  re_srtt :: nat
  re_rttvar :: nat
  re_seeded :: bool

definition udp_rto_estimator_init :: "nat \<Rightarrow> nat \<Rightarrow> nat \<Rightarrow> udp_rto_estimator" where
  "udp_rto_estimator_init initial min_rto max_rto =
     \<lparr>re_min = min_rto, re_max = max_rto, re_rto = initial, re_srtt = 0, re_rttvar = 0, re_seeded = False\<rparr>"

definition clamp :: "nat \<Rightarrow> nat \<Rightarrow> nat \<Rightarrow> nat" where
  "clamp v lo hi = (if v < lo then lo else if hi < v then hi else v)"

definition rto_sample :: "nat \<Rightarrow> udp_rto_estimator \<Rightarrow> udp_rto_estimator" where
  "rto_sample rtt s =
     (let s = (if \<not> re_seeded s
               then s\<lparr>re_srtt := rtt, re_rttvar := rtt div 2, re_seeded := True\<rparr>
               else let err = (if re_srtt s > rtt then re_srtt s - rtt else rtt - re_srtt s) in
                 s\<lparr>re_rttvar := (re_rttvar s * 3 + err) div 4, re_srtt := (re_srtt s * 7 + rtt) div 8\<rparr>)
      in s\<lparr>re_rto := clamp (re_srtt s + re_rttvar s * 4) (re_min s) (re_max s)\<rparr>)"

fun backed_off_loop :: "nat \<Rightarrow> nat \<Rightarrow> nat \<Rightarrow> nat" where
  "backed_off_loop max_rto 0 r = r"
| "backed_off_loop max_rto (Suc n) r = backed_off_loop max_rto n (min (r * 2) max_rto)"

definition backed_off :: "udp_rto_estimator \<Rightarrow> nat \<Rightarrow> nat" where
  "backed_off s retransmits = backed_off_loop (re_max s) retransmits (re_rto s)"

section \<open>The sender\<close>

record udp_arq_config =
  ac_window :: nat
  ac_initial_rto :: nat
  ac_min_rto :: nat
  ac_max_rto :: nat
  ac_max_retransmit :: u8

definition default_arq_config :: udp_arq_config where
  "default_arq_config = \<lparr>ac_window = 512, ac_initial_rto = 200, ac_min_rto = 50, ac_max_rto = 2000, ac_max_retransmit = 6\<rparr>"

record arq_slot =
  as_bytes :: bytes
  as_timer :: "(u16 \<times> nat) option"
  as_sent_at :: nat
  as_retransmits :: u8
  as_outstanding :: bool
  as_retransmitted :: bool
  as_fragmented :: bool

definition empty_arq_slot :: arq_slot where
  "empty_arq_slot = \<lparr>as_bytes = [], as_timer = None, as_sent_at = 0, as_retransmits = 0, as_outstanding = False,
     as_retransmitted = False, as_fragmented = False\<rparr>"

record udp_reliable_arq =
  aq_cfg :: udp_arq_config
  aq_window :: nat
  aq_slots :: "arq_slot list"
  aq_recv :: udp_reorder_buffer
  aq_next :: u16
  aq_base :: u16
  aq_rto :: udp_rto_estimator
  aq_dead :: bool

datatype arq_event = Transmit u16 bytes bool | Send_ack udp_ack | Deliver u16 bool bytes | Exhausted | Window_advance

datatype submit_result = admitted | window_full

definition udp_reliable_arq_init :: "udp_arq_config \<Rightarrow> u16 \<Rightarrow> udp_reliable_arq" where
  "udp_reliable_arq_init cfg initial_seq =
     (let w = (if ac_window cfg = 0 then 512 else min (ac_window cfg) 32768) in
      \<lparr>aq_cfg = cfg, aq_window = w, aq_slots = replicate w empty_arq_slot,
       aq_recv = udp_reorder_buffer_init w initial_seq, aq_next = initial_seq, aq_base = initial_seq,
       aq_rto = udp_rto_estimator_init (ac_initial_rto cfg) (ac_min_rto cfg) (ac_max_rto cfg), aq_dead = False\<rparr>)"

definition slot_index :: "udp_reliable_arq \<Rightarrow> u16 \<Rightarrow> nat" where
  "slot_index s seq = unat seq mod aq_window s"

definition slot_at :: "udp_reliable_arq \<Rightarrow> u16 \<Rightarrow> arq_slot" where
  "slot_at s seq = aq_slots s ! slot_index s seq"

definition set_slot :: "u16 \<Rightarrow> arq_slot \<Rightarrow> udp_reliable_arq \<Rightarrow> udp_reliable_arq" where
  "set_slot seq x s = s\<lparr>aq_slots := (aq_slots s)[slot_index s seq := x]\<rparr>"

definition in_flight :: "udp_reliable_arq \<Rightarrow> nat" where
  "in_flight s = unat (aq_next s - aq_base s)"

definition window_has_room :: "udp_reliable_arq \<Rightarrow> bool" where
  "window_has_room s \<longleftrightarrow> in_flight s < aq_window s"

definition transmit :: "u16 \<Rightarrow> arq_slot \<Rightarrow> arq_event list" where
  "transmit seq x = [Transmit seq (as_bytes x) (as_fragmented x)]"

definition arm_segment :: "u16 \<Rightarrow> udp_reliable_arq \<Rightarrow> udp_reliable_arq" where
  "arm_segment seq s =
     (let x = slot_at s seq in
      set_slot seq (x\<lparr>as_timer := Some (seq, backed_off (aq_rto s) (unat (as_retransmits x)))\<rparr>) s)"

definition arq_submit :: "nat \<Rightarrow> bytes \<Rightarrow> bool \<Rightarrow> udp_reliable_arq \<Rightarrow> udp_reliable_arq \<times> arq_event list \<times> submit_result" where
  "arq_submit now payload fragmented s =
     (if in_flight s \<ge> aq_window s then (s, [], window_full)
      else let seq = aq_next s;
               s = s\<lparr>aq_next := seq + 1\<rparr>;
               x = (slot_at s seq)\<lparr>as_bytes := payload, as_outstanding := True, as_retransmitted := False,
                      as_retransmits := 0, as_fragmented := fragmented, as_sent_at := now\<rparr>;
               s = set_slot seq x s
           in (arm_segment seq s, transmit seq x, admitted))"

definition exhausted :: "udp_reliable_arq \<Rightarrow> udp_reliable_arq \<times> arq_event list" where
  "exhausted s = (if aq_dead s then (s, []) else (s\<lparr>aq_dead := True\<rparr>, [Exhausted]))"

definition on_rto :: "u16 \<Rightarrow> udp_reliable_arq \<Rightarrow> udp_reliable_arq \<times> arq_event list" where
  "on_rto seq s =
     (let x = slot_at s seq in
      if \<not> as_outstanding x then (s, [])
      else if as_retransmits x \<ge> ac_max_retransmit (aq_cfg s) then exhausted s
      else let x = x\<lparr>as_retransmits := as_retransmits x + 1, as_retransmitted := True\<rparr> in
        (arm_segment seq (set_slot seq x s), transmit seq x))"

text \<open>The completion of a wait that captured \<open>seq\<close>; \<open>ec\<close> tells whether it was cancelled.\<close>

definition arq_timer :: "u16 \<Rightarrow> bool \<Rightarrow> udp_reliable_arq \<Rightarrow> udp_reliable_arq \<times> arq_event list" where
  "arq_timer seq ec s = (if ec \<or> aq_dead s then (s, []) else on_rto seq s)"

definition free_segment :: "nat \<Rightarrow> u16 \<Rightarrow> bool \<Rightarrow> udp_reliable_arq \<Rightarrow> udp_reliable_arq" where
  "free_segment now seq sample_rtt s =
     (let x = slot_at s seq in
      if \<not> as_outstanding x then s
      else let s = (if sample_rtt \<and> \<not> as_retransmitted x
                    then s\<lparr>aq_rto := rto_sample (now - as_sent_at x) (aq_rto s)\<rparr> else s)
        in set_slot seq (x\<lparr>as_timer := None, as_outstanding := False\<rparr>) s)"

function slide_loop :: "nat \<Rightarrow> u16 \<Rightarrow> udp_reliable_arq \<Rightarrow> udp_reliable_arq" where
  "slide_loop now new_base s =
     (if new_base - aq_base s \<noteq> 0 \<and> new_base - aq_base s < half_space \<and> aq_base s \<noteq> aq_next s
      then slide_loop now new_base
        (let s = free_segment now (aq_base s) True s in s\<lparr>aq_base := aq_base s + 1\<rparr>)
      else s)"
  by pat_completeness auto
termination
proof (relation "measure (\<lambda>(_, new_base, s). unat (new_base - aq_base s))", goal_cases)
  case (2 now new_base s)
  have "aq_base (free_segment now seq b s) = aq_base s" for seq b
    by (simp add: free_segment_def set_slot_def Let_def)
  moreover have "unat (new_base - (aq_base s + 1)) < unat (new_base - aq_base s)"
    using measure_unat [of "new_base - aq_base s"] 2 by (simp add: diff_diff_eq)
  ultimately show ?case by (simp add: Let_def)
qed simp

declare slide_loop.simps [simp del]

definition slide_to :: "nat \<Rightarrow> u16 \<Rightarrow> udp_reliable_arq \<Rightarrow> udp_reliable_arq \<times> arq_event list" where
  "slide_to now new_base s =
     (let s' = slide_loop now new_base s in (s', if aq_base s' \<noteq> aq_base s then [Window_advance] else []))"

definition ack_hole :: "nat \<Rightarrow> u16 \<Rightarrow> udp_reliable_arq \<Rightarrow> udp_reliable_arq" where
  "ack_hole now seq s =
     (let rel = seq - aq_base s in
      if rel \<ge> half_space \<or> unat rel \<ge> aq_window s then s else free_segment now seq True s)"

definition on_ack :: "nat \<Rightarrow> udp_ack \<Rightarrow> udp_reliable_arq \<Rightarrow> udp_reliable_arq \<times> arq_event list" where
  "on_ack now ack s =
     (let (s, evs) = slide_to now (ack_cumulative ack + 1) s in
      (fold (\<lambda>i s. if hole_received ack i then ack_hole now (ack_cumulative ack + 2 + of_nat i) s else s)
         [0..<bitmap_bits] s, evs))"

definition send_ack :: "udp_reliable_arq \<Rightarrow> arq_event list option" where
  "send_ack s = do {
     ack \<leftarrow> fold (\<lambda>i acc. do { a \<leftarrow> acc; b \<leftarrow> buffered_at (aq_recv s) (i + 1); Some (if b then mark_hole a i else a) })
       [0..<bitmap_bits] (Some (empty_ack\<lparr>ack_cumulative := cumulative (aq_recv s)\<rparr>));
     Some [Send_ack ack]
   }"

definition on_segment :: "u16 \<Rightarrow> bool \<Rightarrow> bytes \<Rightarrow> udp_reliable_arq \<Rightarrow> (udp_reliable_arq \<times> arq_event list) option" where
  "on_segment seq fragmented payload s = do {
     (r, out, _) \<leftarrow> reorder_feed (aq_recv s) seq fragmented payload;
     let s = s\<lparr>aq_recv := r\<rparr> in do {
       acks \<leftarrow> send_ack s;
       Some (s, map (\<lambda>(q, f, b). Deliver q f b) out @ acks)
     }
   }"

definition arq_cancel :: "udp_reliable_arq \<Rightarrow> udp_reliable_arq" where
  "arq_cancel s = s\<lparr>aq_dead := True, aq_slots := map (\<lambda>x. x\<lparr>as_timer := None\<rparr>) (aq_slots s)\<rparr>"

section \<open>Bounds of the timeout\<close>

definition rto_ok :: "udp_rto_estimator \<Rightarrow> bool" where
  "rto_ok s \<longleftrightarrow> re_min s \<le> re_max s \<and> re_min s \<le> re_rto s \<and> re_rto s \<le> re_max s"

lemma rto_sample_ok: "rto_ok s \<Longrightarrow> rto_ok (rto_sample rtt s)"
  by (simp add: rto_ok_def rto_sample_def clamp_def Let_def)

lemma rto_sample_limits [simp]: "re_max (rto_sample rtt s) = re_max s" "re_min (rto_sample rtt s) = re_min s"
  by (simp_all add: rto_sample_def Let_def)

lemma rto_samples_ok:
  "rto_ok e \<Longrightarrow> rto_ok (fold rto_sample samples e) \<and> re_max (fold rto_sample samples e) = re_max e
     \<and> re_min (fold rto_sample samples e) = re_min e"
  by (induction samples arbitrary: e) (simp_all add: rto_sample_ok)

lemma backed_off_loop_eq: "r \<le> m \<Longrightarrow> backed_off_loop m n r = min (r * 2 ^ n) m"
proof (induction n arbitrary: r)
  case (Suc n)
  have "min (min (r * 2) m * 2 ^ n) m = min (r * 2 ^ Suc n) m"
  proof (cases "r * 2 \<le> m")
    case True
    then show ?thesis by (simp add: ac_simps)
  next
    case False
    then have "m \<le> m * 2 ^ n" "m \<le> r * 2 * 2 ^ n"
      by (simp_all add: le_trans [of m "r * 2"])
    with False show ?thesis by (simp add: ac_simps min_def)
  qed
  with Suc show ?case by simp
qed simp

text \<open>
  The retransmission timeout stays between its limits after any sequence of samples, and the
  timeout of a segment sent again \<open>n\<close> times is the base timeout doubled \<open>n\<close> times, cut at the maximum.
\<close>

lemma rto_bounded:
  assumes "ac_min_rto cfg \<le> ac_initial_rto cfg" and "ac_initial_rto cfg \<le> ac_max_rto cfg"
    and "est = fold rto_sample samples (aq_rto (udp_reliable_arq_init cfg isn))"
  shows "ac_min_rto cfg \<le> re_rto est \<and> re_rto est \<le> ac_max_rto cfg
     \<and> backed_off est n = min (re_rto est * 2 ^ n) (ac_max_rto cfg)"
proof -
  let ?e = "udp_rto_estimator_init (ac_initial_rto cfg) (ac_min_rto cfg) (ac_max_rto cfg)"
  have "rto_ok ?e" using assms by (simp add: rto_ok_def udp_rto_estimator_init_def)
  from rto_samples_ok [OF this, of samples] assms(3)
  have "rto_ok est" "re_max est = ac_max_rto cfg" "re_min est = ac_min_rto cfg"
    by (simp_all add: udp_reliable_arq_init_def udp_rto_estimator_init_def Let_def)
  then show ?thesis by (simp add: rto_ok_def backed_off_def backed_off_loop_eq)
qed

lemma rto_bounded_witness:
  "re_rto (fold rto_sample [100, 4000] (aq_rto (udp_reliable_arq_init default_arq_config 0))) \<le> 2000
   \<and> backed_off (fold rto_sample [100, 4000] (aq_rto (udp_reliable_arq_init default_arq_config 0))) 3 = 2000"
proof -
  have "re_rto (fold rto_sample [100, 4000] (aq_rto (udp_reliable_arq_init default_arq_config 0))) = 2000"
    by (simp add: rto_sample_def clamp_def udp_reliable_arq_init_def udp_rto_estimator_init_def default_arq_config_def
        Let_def)
  with rto_bounded [of default_arq_config _ "[100, 4000]" 0 3] show ?thesis
    by (simp add: default_arq_config_def)
qed

section \<open>The send window\<close>

text \<open>
  The sender represents the list \<open>log\<close> of all payloads it has admitted, numbered from \<open>i0\<close>, and the
  edge \<open>b\<close> below which everything is acknowledged. When the window divides the sequence space, the
  slot of the segment with index \<open>k\<close> is \<open>k mod w\<close>, and the window's segments have slots of their own.
\<close>

definition kslot :: "udp_reliable_arq \<Rightarrow> nat \<Rightarrow> arq_slot" where
  "kslot s k = aq_slots s ! (k mod aq_window s)"

definition arq_inv :: "nat \<Rightarrow> (bytes \<times> bool) list \<Rightarrow> nat \<Rightarrow> udp_reliable_arq \<Rightarrow> bool" where
  "arq_inv i0 log b s \<longleftrightarrow>
     0 < aq_window s \<and> aq_window s dvd 65536 \<and> aq_window s \<le> 32768 \<and> length (aq_slots s) = aq_window s
     \<and> aq_base s = of_nat b \<and> aq_next s = of_nat (i0 + length log)
     \<and> i0 \<le> b \<and> b \<le> i0 + length log \<and> i0 + length log \<le> b + aq_window s
     \<and> (\<forall>k. b \<le> k \<and> k < i0 + length log \<longrightarrow>
          (as_bytes (kslot s k), as_fragmented (kslot s k)) = log ! (k - i0)
          \<and> (as_outstanding (kslot s k) \<and> \<not> aq_dead s \<longrightarrow> (\<exists>d. as_timer (kslot s k) = Some (of_nat k, d))))
     \<and> (\<forall>k. i0 + length log \<le> k \<and> k < b + aq_window s \<longrightarrow> \<not> as_outstanding (kslot s k))
     \<and> (\<forall>k q d. b \<le> k \<and> k < b + aq_window s \<and> as_timer (kslot s k) = Some (q, d) \<longrightarrow>
          q = of_nat k \<and> as_outstanding (kslot s k))"

lemma slot_index_nat: "aq_window s dvd 65536 \<Longrightarrow> slot_index s (of_nat k) = k mod aq_window s"
  by (simp add: slot_index_def unat_of_nat mod_mod_cancel)

lemma slot_at_nat: "aq_window s dvd 65536 \<Longrightarrow> slot_at s (of_nat k) = kslot s k"
  by (simp add: slot_at_def slot_index_nat kslot_def)

lemma mod_window_inject:
  fixes j k b w :: nat
  assumes "b \<le> j" and "j < b + w" and "b \<le> k" and "k < b + w" and "j mod w = k mod w"
  shows "j = k"
proof -
  have "w dvd (max j k - min j k)"
    using assms(5) by (metis max_def min_def mod_eq_dvd_iff_nat nle_le)
  moreover have "max j k - min j k < w" using assms(1-4) by linarith
  ultimately have "max j k - min j k = 0" by (metis dvd_imp_le not_le not_gr_zero)
  then show ?thesis by linarith
qed

lemma kslot_set_slot:
  assumes "aq_window s dvd 65536" and "0 < aq_window s" and "length (aq_slots s) = aq_window s"
    and "b \<le> j" and "j < b + aq_window s" and "b \<le> k" and "k < b + aq_window s"
  shows "kslot (set_slot (of_nat k) x s) j = (if j = k then x else kslot s j)"
  using assms mod_window_inject [of b j "aq_window s" k]
  by (auto simp: kslot_def set_slot_def slot_index_nat nth_list_update)

lemma set_slot_fields [simp]:
  "aq_window (set_slot q x s) = aq_window s" "aq_cfg (set_slot q x s) = aq_cfg s"
  "aq_next (set_slot q x s) = aq_next s" "aq_base (set_slot q x s) = aq_base s"
  "aq_dead (set_slot q x s) = aq_dead s" "length (aq_slots (set_slot q x s)) = length (aq_slots s)"
  "aq_rto (set_slot q x s) = aq_rto s" "aq_recv (set_slot q x s) = aq_recv s"
  by (simp_all add: set_slot_def)

text \<open>Rewriting one slot of the window, under the conditions the invariant puts on it.\<close>

lemma arq_inv_set_slot:
  assumes "arq_inv i0 log b s" and "b \<le> k" and "k < i0 + length log"
    and "as_bytes x = as_bytes (kslot s k)" and "as_fragmented x = as_fragmented (kslot s k)"
    and "as_outstanding x \<and> \<not> aq_dead s \<longrightarrow> (\<exists>d. as_timer x = Some (of_nat k, d))"
    and "\<And>q d. as_timer x = Some (q, d) \<Longrightarrow> q = of_nat k \<and> as_outstanding x"
  shows "arq_inv i0 log b (set_slot (of_nat k) x s)"
proof -
  have w: "aq_window s dvd 65536" "0 < aq_window s" "length (aq_slots s) = aq_window s" "k < b + aq_window s"
    using assms(1-3) by (simp_all add: arq_inv_def)
  have eq: "kslot (set_slot (of_nat k) x s) j = (if j = k then x else kslot s j)" if "b \<le> j" "j < b + aq_window s" for j
    by (rule kslot_set_slot [OF w(1-3) that assms(2) w(4)])
  have le: "j < b + aq_window s" if "j < i0 + length log" for j using assms(1) that by (simp add: arq_inv_def)
  show ?thesis
    unfolding arq_inv_def
  proof (intro conjI allI impI)
    fix j assume j: "b \<le> j \<and> j < i0 + length log"
    show "(as_bytes (kslot (set_slot (of_nat k) x s) j), as_fragmented (kslot (set_slot (of_nat k) x s) j)) = log ! (j - i0)"
      using assms(1,4,5) j eq [of j] le [of j] by (auto simp: arq_inv_def)
    show "\<exists>d. as_timer (kslot (set_slot (of_nat k) x s) j) = Some (of_nat j, d)"
      if "as_outstanding (kslot (set_slot (of_nat k) x s) j) \<and> \<not> aq_dead (set_slot (of_nat k) x s)"
      using assms(1,6) j eq [of j] le [of j] that by (auto simp: arq_inv_def split: if_splits)
  next
    fix j assume "i0 + length log \<le> j \<and> j < b + aq_window (set_slot (of_nat k) x s)"
    then show "\<not> as_outstanding (kslot (set_slot (of_nat k) x s) j)"
      using assms(1-3) eq [of j] by (simp add: arq_inv_def)
  next
    fix j q d assume "b \<le> j \<and> j < b + aq_window (set_slot (of_nat k) x s) \<and> as_timer (kslot (set_slot (of_nat k) x s) j) = Some (q, d)"
    then show "q = of_nat j" "as_outstanding (kslot (set_slot (of_nat k) x s) j)"
      using assms(1,7) eq [of j] by (auto simp: arq_inv_def split: if_splits)
  qed (use assms(1) in \<open>simp_all add: arq_inv_def\<close>)
qed

lemma arq_inv_cong:
  "arq_inv i0 log b s \<Longrightarrow> arq_inv i0 log b (s\<lparr>aq_rto := e\<rparr>)"
  "arq_inv i0 log b s \<Longrightarrow> arq_inv i0 log b (s\<lparr>aq_recv := r\<rparr>)"
  "arq_inv i0 log b s \<Longrightarrow> arq_inv i0 log b (s\<lparr>aq_dead := True\<rparr>)"
  by (simp_all add: arq_inv_def kslot_def)

lemma in_flight_inv: "arq_inv i0 log b s \<Longrightarrow> in_flight s = i0 + length log - b"
proof -
  assume inv: "arq_inv i0 log b s"
  then have "b \<le> i0 + length log" "i0 + length log - b < 65536" by (auto simp: arq_inv_def)
  from unat_diff_u16 [OF this] inv show ?thesis unfolding arq_inv_def in_flight_def by metis
qed

lemma arq_inv_init:
  assumes "0 < ac_window cfg" and "ac_window cfg \<le> 32768" and "ac_window cfg dvd 65536"
  shows "arq_inv (unat isn) [] (unat isn) (udp_reliable_arq_init cfg isn)"
  using assms by (auto simp: arq_inv_def udp_reliable_arq_init_def kslot_def empty_arq_slot_def Let_def)

lemma arq_submit_inv:
  assumes "arq_inv i0 log b s" and "arq_submit now payload fragmented s = (s', evs, r)"
  shows "if r = admitted
    then arq_inv i0 (log @ [(payload, fragmented)]) b s' \<and> evs = [Transmit (of_nat (i0 + length log)) payload fragmented]
    else s' = s \<and> evs = []"
proof (cases "in_flight s \<ge> aq_window s")
  case True
  with assms(2) show ?thesis by (auto simp: arq_submit_def)
next
  case False
  let ?n = "i0 + length log" and ?w = "aq_window s"
  have inv: "0 < ?w" "?w dvd 65536" "length (aq_slots s) = ?w" "b \<le> ?n" "?n < b + ?w" "aq_next s = of_nat ?n"
    using assms(1) False in_flight_inv [OF assms(1)] by (auto simp: arq_inv_def)
  let ?s0 = "s\<lparr>aq_next := of_nat ?n + 1\<rparr>"
  let ?x = "(kslot s ?n)\<lparr>as_bytes := payload, as_outstanding := True, as_retransmitted := False,
      as_retransmits := 0, as_fragmented := fragmented, as_sent_at := now\<rparr>"
  let ?y = "?x\<lparr>as_timer := Some (of_nat ?n, backed_off (aq_rto s) (unat (as_retransmits ?x)))\<rparr>"
  let ?s1 = "set_slot (of_nat ?n) ?x ?s0"
  have k1: "kslot ?s1 j = (if j = ?n then ?x else kslot s j)" if "b \<le> j" "j < b + ?w" for j
    using kslot_set_slot [of ?s0 b j ?n ?x] inv that by (simp add: kslot_def)
  have s': "s' = set_slot (of_nat ?n) ?y ?s1" and r: "r = admitted" "evs = [Transmit (of_nat ?n) payload fragmented]"
    using assms(2) False inv(6) slot_at_nat [of ?s0 ?n] slot_at_nat [of ?s1 ?n] inv k1 [of ?n]
    by (auto simp: arq_submit_def arm_segment_def transmit_def Let_def kslot_def)
  have k2: "kslot s' j = (if j = ?n then ?y else kslot s j)" if "b \<le> j" "j < b + ?w" for j
    using kslot_set_slot [of ?s1 b j ?n ?y] inv that k1 [of j] by (simp add: s')
  have "arq_inv i0 (log @ [(payload, fragmented)]) b s'"
    unfolding arq_inv_def
  proof (intro conjI allI impI)
    fix k assume k: "b \<le> k \<and> k < i0 + length (log @ [(payload, fragmented)])"
    then have kw: "b \<le> k" "k < b + ?w" using inv(5) by auto
    show "(as_bytes (kslot s' k), as_fragmented (kslot s' k)) = (log @ [(payload, fragmented)]) ! (k - i0)"
      using assms(1) k k2 [OF kw] by (cases "k = ?n") (auto simp: arq_inv_def nth_append)
    show "\<exists>d. as_timer (kslot s' k) = Some (of_nat k, d)" if "as_outstanding (kslot s' k) \<and> \<not> aq_dead s'"
      using assms(1) k that k2 [OF kw] by (cases "k = ?n") (auto simp: arq_inv_def s')
  next
    fix k assume "i0 + length (log @ [(payload, fragmented)]) \<le> k \<and> k < b + aq_window s'"
    then show "\<not> as_outstanding (kslot s' k)"
      using assms(1) k2 [of k] inv(4) by (auto simp: arq_inv_def s')
  next
    fix k q d assume "b \<le> k \<and> k < b + aq_window s' \<and> as_timer (kslot s' k) = Some (q, d)"
    then show "q = of_nat k" "as_outstanding (kslot s' k)"
      using assms(1) k2 [of k] by (auto simp: arq_inv_def s' split: if_splits)
  qed (use assms(1) inv in \<open>auto simp: arq_inv_def s'\<close>)
  with r show ?thesis by simp
qed

lemma free_segment_idle: "\<not> as_outstanding (slot_at s q) \<Longrightarrow> free_segment now q smp s = s"
  by (simp add: free_segment_def)

lemma free_segment_outstanding:
  "as_outstanding (slot_at s q) \<Longrightarrow>
   \<exists>e. free_segment now q smp s = set_slot q ((slot_at s q)\<lparr>as_timer := None, as_outstanding := False\<rparr>) (s\<lparr>aq_rto := e\<rparr>)"
  by (intro exI [of _ "if smp \<and> \<not> as_retransmitted (slot_at s q)
      then rto_sample (now - as_sent_at (slot_at s q)) (aq_rto s) else aq_rto s"])
    (simp add: free_segment_def Let_def)

lemma free_segment_inv:
  assumes "arq_inv i0 log b s" and "b \<le> k" and "k < b + aq_window s"
  shows "arq_inv i0 log b (free_segment now (of_nat k) smp s)
     \<and> \<not> as_outstanding (kslot (free_segment now (of_nat k) smp s) k)"
proof -
  have d: "aq_window s dvd 65536" "0 < aq_window s" "length (aq_slots s) = aq_window s"
    using assms(1) by (simp_all add: arq_inv_def)
  note at = slot_at_nat [OF d(1), of k]
  show ?thesis
  proof (cases "as_outstanding (kslot s k)")
    case False
    with free_segment_idle [of s "of_nat k"] at assms(1) show ?thesis by simp
  next
    case True
    then have k: "k < i0 + length log" using assms unfolding arq_inv_def by (meson not_le)
    let ?x = "(kslot s k)\<lparr>as_timer := None, as_outstanding := False\<rparr>"
    obtain e where f: "free_segment now (of_nat k) smp s = set_slot (of_nat k) ?x (s\<lparr>aq_rto := e\<rparr>)"
      using True free_segment_outstanding [of s "of_nat k" now smp] unfolding at by blast
    have same: "kslot (s\<lparr>aq_rto := e\<rparr>) k = kslot s k" by (simp add: kslot_def)
    have "arq_inv i0 log b (set_slot (of_nat k) ?x (s\<lparr>aq_rto := e\<rparr>))"
      by (rule arq_inv_set_slot [OF arq_inv_cong(1) [OF assms(1)] assms(2) k]) (simp_all add: same)
    moreover have "kslot (set_slot (of_nat k) ?x (s\<lparr>aq_rto := e\<rparr>)) k = ?x"
      using kslot_set_slot [of "s\<lparr>aq_rto := e\<rparr>" b k k ?x] d assms(2,3) by simp
    ultimately show ?thesis unfolding f by simp
  qed
qed

lemma free_segment_fields [simp]:
  "aq_window (free_segment now q smp s) = aq_window s" "aq_base (free_segment now q smp s) = aq_base s"
  "aq_next (free_segment now q smp s) = aq_next s" "aq_dead (free_segment now q smp s) = aq_dead s"
  by (simp_all add: free_segment_def Let_def)

lemma arq_inv_advance:
  assumes "arq_inv i0 log b s" and "b < i0 + length log" and "\<not> as_outstanding (kslot s b)"
  shows "arq_inv i0 log (b + 1) (s\<lparr>aq_base := aq_base s + 1\<rparr>)"
proof -
  have same: "kslot (s\<lparr>aq_base := x\<rparr>) k = kslot s k" for x k by (simp add: kslot_def)
  have wrap: "kslot s (b + aq_window s) = kslot s b" by (simp add: kslot_def)
  have no_timer: "as_timer (kslot s b) = None"
    using assms by (cases "as_timer (kslot s b)") (auto simp: arq_inv_def)
  have last: "k = b + aq_window s \<or> k < b + aq_window s" if "k < Suc (b + aq_window s)" for k using that by linarith
  show ?thesis
    using assms wrap no_timer unfolding arq_inv_def same by (auto dest!: last)
qed

lemma slide_loop_inv:
  "arq_inv i0 log b s \<Longrightarrow> \<exists>b'. b \<le> b' \<and> arq_inv i0 log b' (slide_loop now nb s)
     \<and> aq_dead (slide_loop now nb s) = aq_dead s"
proof (induction now nb s arbitrary: b rule: slide_loop.induct)
  case (1 now nb s)
  note IH = 1(1) and inv = 1(2)
  show ?case
  proof (cases "nb - aq_base s \<noteq> 0 \<and> nb - aq_base s < half_space \<and> aq_base s \<noteq> aq_next s")
    case False
    then have "slide_loop now nb s = s" by (simp only: slide_loop.simps [of now nb s] if_False)
    with inv show ?thesis by auto
  next
    case True
    have base: "aq_base s = of_nat b" and "aq_next s = of_nat (i0 + length log)" "b \<le> i0 + length log"
      using inv by (simp_all only: arq_inv_def)
    then have b: "b < i0 + length log" using True by (metis le_neq_implies_less)
    let ?s1 = "free_segment now (aq_base s) True s"
    have "arq_inv i0 log b ?s1" "\<not> as_outstanding (kslot ?s1 b)"
      using free_segment_inv [OF inv, of b now True] inv base by (simp_all add: arq_inv_def)
    then have "arq_inv i0 log (b + 1) (?s1\<lparr>aq_base := aq_base ?s1 + 1\<rparr>)"
      using b by (intro arq_inv_advance)
    from IH [OF True, unfolded Let_def, OF this] obtain b' where b': "b + 1 \<le> b'"
      "arq_inv i0 log b' (slide_loop now nb (?s1\<lparr>aq_base := aq_base ?s1 + 1\<rparr>))"
      "aq_dead (slide_loop now nb (?s1\<lparr>aq_base := aq_base ?s1 + 1\<rparr>)) = aq_dead ?s1"
      by auto
    have "slide_loop now nb s = slide_loop now nb (?s1\<lparr>aq_base := aq_base ?s1 + 1\<rparr>)"
      using True slide_loop.simps [of now nb s] by (simp only: Let_def if_True simp_thms)
    then show ?thesis using b' by (intro exI [of _ b']) (simp only:, simp)
  qed
qed

lemma ack_hole_inv:
  assumes "arq_inv i0 log b s"
  shows "arq_inv i0 log b (ack_hole now seq s) \<and> aq_dead (ack_hole now seq s) = aq_dead s"
proof -
  let ?rel = "unat (seq - aq_base s)"
  have "seq = of_nat (b + ?rel)" using assms by (simp add: arq_inv_def)
  with free_segment_inv [OF assms, of "b + ?rel" now True] assms show ?thesis
    by (auto simp: ack_hole_def Let_def not_le)
qed

lemma ack_holes_inv:
  "arq_inv i0 log b s \<Longrightarrow>
   arq_inv i0 log b (fold (\<lambda>i s. if h i then ack_hole now (q i) s else s) xs s)
   \<and> aq_dead (fold (\<lambda>i s. if h i then ack_hole now (q i) s else s) xs s) = aq_dead s"
proof (induction xs arbitrary: s)
  case (Cons x xs)
  then show ?case using ack_hole_inv [of i0 log b s now "q x"] by simp
qed simp

lemma on_ack_inv:
  assumes "arq_inv i0 log b s" and "on_ack now ack s = (s', evs)"
  shows "(\<exists>b'. b \<le> b' \<and> arq_inv i0 log b' s') \<and> aq_dead s' = aq_dead s \<and> set evs \<subseteq> {Window_advance}"
proof -
  let ?s1 = "slide_loop now (ack_cumulative ack + 1) s"
  obtain b' where b': "b \<le> b'" "arq_inv i0 log b' ?s1" "aq_dead ?s1 = aq_dead s"
    using slide_loop_inv [OF assms(1)] by blast
  have "s' = fold (\<lambda>i s. if hole_received ack i then ack_hole now (ack_cumulative ack + 2 + of_nat i) s else s)
      [0..<bitmap_bits] ?s1" and "set evs \<subseteq> {Window_advance}"
    using assms(2) by (auto simp: on_ack_def slide_to_def Let_def)
  with ack_holes_inv [OF b'(2), of "hole_received ack" now "\<lambda>i. ack_cumulative ack + 2 + of_nat i" "[0..<bitmap_bits]"]
    b'(1,3) show ?thesis by metis
qed

text \<open>The wait armed in slot \<open>i\<close> expires.\<close>

definition arq_expire :: "nat \<Rightarrow> udp_reliable_arq \<Rightarrow> udp_reliable_arq \<times> arq_event list" where
  "arq_expire i s =
     (if i \<ge> length (aq_slots s) then (s, [])
      else case as_timer (aq_slots s ! i) of
          None \<Rightarrow> (s, [])
        | Some (seq, _) \<Rightarrow> arq_timer seq False (s\<lparr>aq_slots := (aq_slots s)[i := (aq_slots s ! i)\<lparr>as_timer := None\<rparr>]\<rparr>))"


lemma set_slot_set_slot [simp]: "set_slot q x (set_slot q y s) = set_slot q x s"
  by (simp add: set_slot_def slot_index_def)

lemma slot_at_set_slot [simp]:
  "0 < aq_window s \<Longrightarrow> length (aq_slots s) = aq_window s \<Longrightarrow> slot_at (set_slot q x s) q = x"
  by (simp add: slot_at_def set_slot_def slot_index_def)

lemma window_residue:
  fixes b w i :: nat
  assumes "i < w"
  shows "\<exists>k. b \<le> k \<and> k < b + w \<and> k mod w = i"
proof -
  have w: "0 < w" using assms by simp
  let ?k = "b + (i + w - b mod w) mod w"
  have "?k mod w = (b mod w + (i + w - b mod w)) mod w" by (simp add: mod_simps)
  also have "\<dots> = (i + w) mod w" using w mod_less_divisor [OF w, of b] by (simp add: le_add_diff_inverse)
  finally have "?k mod w = i" using assms by simp
  moreover have "?k < b + w" using w by simp
  ultimately show ?thesis by (intro exI [of _ ?k]) simp
qed

text \<open>What the expiry of a segment's wait does, in terms of its index.\<close>

lemma arq_expire_segment:
  assumes inv: "arq_inv i0 log b s" and k: "b \<le> k" "k < b + aq_window s" and t: "as_timer (kslot s k) = Some (q, d)"
    and ex: "arq_expire (k mod aq_window s) s = (s', evs)"
  shows "arq_inv i0 log b s' \<and> k < i0 + length log
     \<and> (if aq_dead s then evs = [] \<and> aq_dead s'
        else if ac_max_retransmit (aq_cfg s) \<le> as_retransmits (kslot s k) then evs = [Exhausted] \<and> aq_dead s'
        else evs = [Transmit (of_nat k) (fst (log ! (k - i0))) (snd (log ! (k - i0)))] \<and> aq_dead s' = aq_dead s
          \<and> (\<exists>d. as_timer (kslot s' k) = Some (of_nat k, d))
          \<and> as_retransmits (kslot s' k) = as_retransmits (kslot s k) + 1)
     \<and> aq_cfg s' = aq_cfg s \<and> aq_window s' = aq_window s"
proof -
  have w: "aq_window s dvd 65536" "0 < aq_window s" "length (aq_slots s) = aq_window s"
    using inv by (simp_all add: arq_inv_def)
  have q: "q = of_nat k" "as_outstanding (kslot s k)" using inv k t unfolding arq_inv_def by blast+
  have kl: "k < i0 + length log" using inv k q(2) unfolding arq_inv_def by (meson not_le)
  have pay: "as_bytes (kslot s k) = fst (log ! (k - i0))" "as_fragmented (kslot s k) = snd (log ! (k - i0))"
    using inv k(1) kl unfolding arq_inv_def by (metis fst_conv snd_conv)+
  let ?x = "(kslot s k)\<lparr>as_timer := None\<rparr>" and ?y = "set_slot (of_nat k) ((kslot s k)\<lparr>as_timer := None\<rparr>) s"
  have e: "arq_timer (of_nat k) False ?y = (s', evs)"
    using ex t w mod_less_divisor [OF w(2), of k]
    by (simp add: arq_expire_def kslot_def q(1) set_slot_def slot_index_nat not_le [symmetric])
  have at: "slot_at ?y (of_nat k) = ?x" using w by simp
  have dead: "arq_inv i0 log b (set_slot (of_nat k) ?x (s\<lparr>aq_dead := True\<rparr>))"
    by (rule arq_inv_set_slot [OF arq_inv_cong(3) [OF inv] k(1) kl]) (simp_all add: kslot_def)
  have killed: "set_slot (of_nat k) ?x (s\<lparr>aq_dead := True\<rparr>) = ?y\<lparr>aq_dead := True\<rparr>"
    by (simp add: set_slot_def slot_index_def)
  consider (dead) "aq_dead s"
    | (out) "\<not> aq_dead s" "ac_max_retransmit (aq_cfg s) \<le> as_retransmits (kslot s k)"
    | (resend) "\<not> aq_dead s" "\<not> ac_max_retransmit (aq_cfg s) \<le> as_retransmits (kslot s k)" by blast
  then show ?thesis
  proof cases
    case dead
    then have "s' = ?y" "evs = []" using e by (simp_all add: arq_timer_def)
    moreover have "arq_inv i0 log b ?y"
      by (rule arq_inv_set_slot [OF inv k(1) kl]) (simp_all add: dead)
    ultimately show ?thesis using dead kl by simp
  next
    case out
    then have "s' = ?y\<lparr>aq_dead := True\<rparr>" "evs = [Exhausted]"
      using e at q(2) by (simp_all add: arq_timer_def on_rto_def exhausted_def Let_def)
    with dead killed out kl show ?thesis by simp
  next
    case resend
    let ?z = "?x\<lparr>as_retransmits := as_retransmits (kslot s k) + 1, as_retransmitted := True,
        as_timer := Some (of_nat k, backed_off (aq_rto s) (unat (as_retransmits (kslot s k) + 1)))\<rparr>"
    have s': "s' = set_slot (of_nat k) ?z s" and evs: "evs = [Transmit (of_nat k) (fst (log ! (k - i0))) (snd (log ! (k - i0)))]"
      using e at q(2) resend w by (simp_all add: arq_timer_def on_rto_def arm_segment_def transmit_def pay Let_def)
    have "arq_inv i0 log b s'"
      unfolding s' by (rule arq_inv_set_slot [OF inv k(1) kl]) (auto simp: q(2))
    moreover have "kslot s' k = ?z"
      unfolding s' using kslot_set_slot [OF w k k] by simp
    ultimately show ?thesis using resend kl evs by (simp add: s')
  qed
qed

lemma arq_expire_inv:
  assumes "arq_inv i0 log b s" and "arq_expire i s = (s', evs)"
  shows "arq_inv i0 log b s' \<and> aq_window s' = aq_window s
     \<and> (\<forall>q p f. Transmit q p f \<in> set evs \<longrightarrow> (\<exists>k<length log. q = of_nat (i0 + k) \<and> log ! k = (p, f)))"
proof (cases "i < length (aq_slots s) \<and> as_timer (aq_slots s ! i) \<noteq> None")
  case False
  with assms show ?thesis by (auto simp: arq_expire_def split: if_splits option.splits)
next
  case True
  have w: "length (aq_slots s) = aq_window s" "i0 \<le> b" using assms(1) by (simp_all add: arq_inv_def)
  obtain k where k: "b \<le> k" "k < b + aq_window s" "k mod aq_window s = i"
    using True w window_residue by metis
  obtain q d where t: "as_timer (kslot s k) = Some (q, d)" using True k(3) by (auto simp: kslot_def)
  have e: "arq_expire (k mod aq_window s) s = (s', evs)" using assms(2) k(3) by simp
  from arq_expire_segment [OF assms(1) k(1,2) t e]
  have r: "arq_inv i0 log b s'" "k < i0 + length log" "aq_window s' = aq_window s"
    "set evs \<subseteq> {Exhausted, Transmit (of_nat k) (fst (log ! (k - i0))) (snd (log ! (k - i0)))}"
    by (auto split: if_splits)
  have "\<exists>j<length log. q = of_nat (i0 + j) \<and> log ! j = (p, f)" if "Transmit q p f \<in> set evs" for q p f
  proof (intro exI [of _ "k - i0"] conjI)
    show "k - i0 < length log" using r(2) k(1) w(2) by linarith
    show "q = of_nat (i0 + (k - i0))" "log ! (k - i0) = (p, f)" using r(4) that k(1) w(2) by (auto simp: prod_eq_iff)
  qed
  with r(1,3) show ?thesis by blast
qed

section \<open>Runs of the sender\<close>

text \<open>
  The sender's history: the payloads it admitted and the calls it made. Acknowledgements are
  arbitrary, so a run also covers stale, repeated and forged ones; the two parts of one, the slide
  of the base and the selective holes, are separate steps, since the window callback runs between them.
\<close>

inductive arq_run :: "udp_arq_config \<Rightarrow> u16 \<Rightarrow> udp_reliable_arq \<Rightarrow> (bytes \<times> bool) list \<Rightarrow> arq_event list \<Rightarrow> bool"
  for cfg isn where
  arq_run_init: "arq_run cfg isn (udp_reliable_arq_init cfg isn) [] []"
| arq_run_submit: "arq_run cfg isn s log evs \<Longrightarrow> arq_submit now p f s = (s', e, r) \<Longrightarrow>
    arq_run cfg isn s' (if r = admitted then log @ [(p, f)] else log) (evs @ e)"
| arq_run_slide: "arq_run cfg isn s log evs \<Longrightarrow> slide_to now nb s = (s', e) \<Longrightarrow> arq_run cfg isn s' log (evs @ e)"
| arq_run_hole: "arq_run cfg isn s log evs \<Longrightarrow> arq_run cfg isn (ack_hole now q s) log evs"
| arq_run_expire: "arq_run cfg isn s log evs \<Longrightarrow> arq_expire i s = (s', e) \<Longrightarrow> arq_run cfg isn s' log (evs @ e)"
| arq_run_segment: "arq_run cfg isn s log evs \<Longrightarrow> on_segment q f p s = Some (s', e) \<Longrightarrow> arq_run cfg isn s' log (evs @ e)"
| arq_run_cancel: "arq_run cfg isn s log evs \<Longrightarrow> arq_run cfg isn (arq_cancel s) log evs"

lemma arq_run_holes:
  "arq_run cfg isn s log evs \<Longrightarrow>
   arq_run cfg isn (fold (\<lambda>i s. if h i then ack_hole now (q i) s else s) xs s) log evs"
  by (induction xs arbitrary: s) (auto intro: arq_run_hole)

lemma arq_run_ack: "arq_run cfg isn s log evs \<Longrightarrow> on_ack now ack s = (s', e) \<Longrightarrow> arq_run cfg isn s' log (evs @ e)"
  by (auto simp: on_ack_def split: prod.splits intro!: arq_run_holes intro: arq_run_slide)

lemma on_segment_fields:
  assumes "on_segment q f p s = Some (s', e)"
  shows "\<exists>r. s' = s\<lparr>aq_recv := r\<rparr> \<and> Transmit q' p' f' \<notin> set e"
  using assms by (auto simp: on_segment_def send_ack_def Let_def split: Option.bind_splits)

lemma arq_cancel_inv: "arq_inv i0 log b s \<Longrightarrow> arq_inv i0 log b (arq_cancel s)"
proof -
  assume inv: "arq_inv i0 log b s"
  then have "kslot (arq_cancel s) k = (kslot s k)\<lparr>as_timer := None\<rparr>" for k
    by (simp add: arq_inv_def kslot_def arq_cancel_def)
  with inv show ?thesis by (simp add: arq_inv_def arq_cancel_def)
qed

lemma arq_run_submitted:
  "arq_run cfg isn s log evs \<Longrightarrow> snd (snd (arq_submit now p f s)) = admitted \<Longrightarrow>
   arq_run cfg isn (fst (arq_submit now p f s)) (log @ [(p, f)]) (evs @ fst (snd (arq_submit now p f s)))"
  by (cases "arq_submit now p f s") (auto dest: arq_run_submit [of cfg isn s log evs now p f])

lemma slide_loop_window [simp]: "aq_window (slide_loop now nb s) = aq_window s"
proof (induction now nb s rule: slide_loop.induct)
  case (1 now nb s)
  then show ?case by (cases "nb - aq_base s \<noteq> 0 \<and> nb - aq_base s < half_space \<and> aq_base s \<noteq> aq_next s")
      (simp_all add: slide_loop.simps [of now nb s] Let_def)
qed

lemma ack_hole_window [simp]: "aq_window (ack_hole now q s) = aq_window s"
  by (simp add: ack_hole_def Let_def)

lemma on_ack_window: "aq_window (fst (on_ack now ack s)) = aq_window s"
proof -
  have "aq_window (fold (\<lambda>i s. if h i then ack_hole now (q i) s else s) xs s) = aq_window s" for h q and xs :: "nat list" and s
    by (induction xs arbitrary: s) simp_all
  then show ?thesis by (simp add: on_ack_def slide_to_def Let_def)
qed

lemma arq_run_inv:
  assumes "arq_run cfg isn s log evs" and "0 < ac_window cfg" and "ac_window cfg \<le> 32768" and "ac_window cfg dvd 65536"
  shows "(\<exists>b. arq_inv (unat isn) log b s) \<and> aq_window s = ac_window cfg
     \<and> (\<forall>q p f. Transmit q p f \<in> set evs \<longrightarrow> (\<exists>k<length log. q = of_nat (unat isn + k) \<and> log ! k = (p, f)))"
  using assms(1)
proof induction
  case arq_run_init
  then show ?case using arq_inv_init [OF assms(2-4)] assms(2,3) by (auto simp: udp_reliable_arq_init_def Let_def)
next
  case (arq_run_submit s log evs now p f s' e r)
  then obtain b where b: "arq_inv (unat isn) log b s" by blast
  note sub = arq_submit_inv [OF b arq_run_submit(2)]
  have w: "aq_window s' = aq_window s"
    using arq_run_submit(2) by (auto simp: arq_submit_def arm_segment_def Let_def split: if_splits)
  show ?case
  proof (cases "r = admitted")
    case True
    with sub have e: "arq_inv (unat isn) (log @ [(p, f)]) b s'" "e = [Transmit (of_nat (unat isn + length log)) p f]"
      by simp_all
    have "\<exists>k<Suc (length log). q = of_nat (unat isn + k) \<and> (log @ [(p, f)]) ! k = (p', f')"
      if "Transmit q p' f' \<in> set (evs @ e)" for q p' f'
    proof (cases "Transmit q p' f' \<in> set evs")
      case True
      then obtain k where "k < length log" "q = of_nat (unat isn + k)" "log ! k = (p', f')"
        using arq_run_submit.IH by blast
      then show ?thesis by (intro exI [of _ k]) (simp add: nth_append)
    next
      case False
      then show ?thesis using that e(2) by (intro exI [of _ "length log"]) auto
    qed
    with True e(1) w arq_run_submit.IH show ?thesis by auto
  next
    case False
    with sub arq_run_submit.IH show ?thesis by simp
  qed
next
  case (arq_run_slide s log evs now nb s' e)
  then obtain b where "arq_inv (unat isn) log b s" by blast
  then have "\<exists>b. arq_inv (unat isn) log b s'" "set e \<subseteq> {Window_advance}" "aq_window s' = aq_window s"
    using arq_run_slide(2) slide_loop_inv [of "unat isn" log b s now nb] by (auto simp: slide_to_def Let_def)
  then show ?case using arq_run_slide.IH by auto
next
  case (arq_run_hole s log evs now q)
  then obtain b where "arq_inv (unat isn) log b s" by blast
  then have "arq_inv (unat isn) log b (ack_hole now q s)" using ack_hole_inv by blast
  then show ?case using arq_run_hole.IH by auto
next
  case (arq_run_expire s log evs i s' e)
  then obtain b where b: "arq_inv (unat isn) log b s" by blast
  from arq_expire_inv [OF b arq_run_expire(2)] arq_run_expire.IH show ?case by auto
next
  case (arq_run_segment s log evs q f p s' e)
  obtain r where r: "s' = s\<lparr>aq_recv := r\<rparr>" using on_segment_fields [OF arq_run_segment(2)] by blast
  obtain b where "arq_inv (unat isn) log b s" using arq_run_segment.IH by blast
  then have "arq_inv (unat isn) log b s'" unfolding r by (rule arq_inv_cong(2))
  moreover have "Transmit q' p' f' \<notin> set e" for q' p' f' using on_segment_fields [OF arq_run_segment(2)] by blast
  ultimately show ?case using arq_run_segment.IH by (auto simp: r)
next
  case (arq_run_cancel s log evs)
  have "aq_window (arq_cancel s) = aq_window s" by (simp add: arq_cancel_def)
  with arq_run_cancel.IH arq_cancel_inv show ?case by metis
qed




text \<open>A segment whose acknowledgement never comes: its wait expires again and again.\<close>

fun arq_expire_times :: "nat \<Rightarrow> nat \<Rightarrow> udp_reliable_arq \<Rightarrow> udp_reliable_arq \<times> arq_event list" where
  "arq_expire_times 0 i s = (s, [])"
| "arq_expire_times (Suc n) i s =
     (let (s, e) = arq_expire i s; (s, es) = arq_expire_times n i s in (s, e @ es))"

lemma arq_expire_times_spec:
  assumes "arq_inv i0 log b s" and "b \<le> k" and "k < b + aq_window s" and "as_timer (kslot s k) = Some (q, d)"
    and "\<not> aq_dead s" and "unat (ac_max_retransmit (aq_cfg s)) = unat (as_retransmits (kslot s k)) + n"
  shows "snd (arq_expire_times (Suc n) (k mod aq_window s) s)
       = replicate n (Transmit (of_nat k) (fst (log ! (k - i0))) (snd (log ! (k - i0)))) @ [Exhausted]
     \<and> aq_dead (fst (arq_expire_times (Suc n) (k mod aq_window s) s))"
  using assms
proof (induction n arbitrary: s q d)
  case 0
  obtain s' evs where e: "arq_expire (k mod aq_window s) s = (s', evs)" by (cases "arq_expire (k mod aq_window s) s")
  have "ac_max_retransmit (aq_cfg s) \<le> as_retransmits (kslot s k)" using "0.prems"(6) by (simp add: word_le_nat_alt)
  with arq_expire_segment [OF "0.prems"(1-4) e] "0.prems"(5) have "evs = [Exhausted] \<and> aq_dead s'" by simp
  with e show ?case by simp
next
  case (Suc n)
  obtain s' evs where e: "arq_expire (k mod aq_window s) s = (s', evs)" by (cases "arq_expire (k mod aq_window s) s")
  have lt: "as_retransmits (kslot s k) < ac_max_retransmit (aq_cfg s)" using Suc.prems(6) by (simp add: word_less_nat_alt)
  have up: "unat (as_retransmits (kslot s k) + 1) = unat (as_retransmits (kslot s k)) + 1"
    using lt unsigned_less [of "ac_max_retransmit (aq_cfg s)", where ?'a = nat] by (simp add: unat_word_ariths word_less_nat_alt)
  from arq_expire_segment [OF Suc.prems(1-4) e] Suc.prems(5) lt
  have s': "arq_inv i0 log b s'" "\<not> aq_dead s'" "aq_cfg s' = aq_cfg s" "aq_window s' = aq_window s"
    "evs = [Transmit (of_nat k) (fst (log ! (k - i0))) (snd (log ! (k - i0)))]"
    "as_retransmits (kslot s' k) = as_retransmits (kslot s k) + 1"
    "\<exists>d. as_timer (kslot s' k) = Some (of_nat k, d)"
    by (simp_all add: not_le [symmetric])
  from s'(7) obtain d' where t: "as_timer (kslot s' k) = Some (of_nat k, d')" by blast
  have "snd (arq_expire_times (Suc n) (k mod aq_window s) s')
       = replicate n (Transmit (of_nat k) (fst (log ! (k - i0))) (snd (log ! (k - i0)))) @ [Exhausted]
     \<and> aq_dead (fst (arq_expire_times (Suc n) (k mod aq_window s) s'))"
    using Suc.IH [OF s'(1) Suc.prems(2) _ t] Suc.prems(3,6) s' up by simp
  then show ?case using e s'(5) by (simp add: split_beta del: arq_expire_times.simps(2) add: arq_expire_times.simps(2) [of "Suc n"])
qed

text \<open>
  C11. The sender gives up in bounded time: from any reachable state in which a segment has just been
  admitted, if only that segment's waits expire, it is sent again exactly as often as configured, and
  the next expiry declares the channel exhausted.
\<close>

theorem arq_gives_up:
  assumes "arq_run cfg isn s log evs" and "0 < ac_window cfg" and "ac_window cfg \<le> 32768" and "ac_window cfg dvd 65536"
    and "arq_submit now p f s = (s', e, admitted)" and "\<not> aq_dead s'"
  shows "\<exists>i. snd (arq_expire_times (Suc (unat (ac_max_retransmit (aq_cfg s')))) i s')
        = replicate (unat (ac_max_retransmit (aq_cfg s'))) (Transmit (isn + of_nat (length log)) p f) @ [Exhausted]
     \<and> aq_dead (fst (arq_expire_times (Suc (unat (ac_max_retransmit (aq_cfg s')))) i s'))"
proof -
  obtain b where b: "arq_inv (unat isn) log b s" using arq_run_inv [OF assms(1-4)] by blast
  let ?log = "log @ [(p, f)]" and ?k = "unat isn + length log"
  have inv: "arq_inv (unat isn) ?log b s'" using arq_submit_inv [OF b assms(5)] by simp
  have lim: "b \<le> ?k" "?k < b + aq_window s'" using inv b by (simp_all add: arq_inv_def)
  have w: "aq_window s dvd 65536" "0 < aq_window s" "length (aq_slots s) = aq_window s" "aq_next s = of_nat ?k"
    using b by (simp_all add: arq_inv_def)
  have w': "aq_window s' dvd 65536" using inv by (simp add: arq_inv_def)
  have "as_retransmits (slot_at s' (aq_next s)) = 0 \<and> (\<exists>d. as_timer (slot_at s' (aq_next s)) = Some (aq_next s, d))"
    using assms(5) w by (auto simp: arq_submit_def arm_segment_def Let_def split: if_splits)
  then obtain d where "as_retransmits (kslot s' ?k) = 0" "as_timer (kslot s' ?k) = Some (of_nat ?k, d)"
    unfolding w(4) slot_at_nat [OF w'] by blast
  then show ?thesis
    using arq_expire_times_spec [OF inv lim, of "of_nat ?k" d "unat (ac_max_retransmit (aq_cfg s'))"] assms(6)
    by (intro exI [of _ "?k mod aq_window s'"]) (simp add: nth_append)
qed

lemma replicate_3: "replicate 3 x = [x, x, x]"
  by (simp add: numeral_3_eq_3)

text \<open>
  A window that does not divide the sequence space lets two segments of one window share a slot.
  With three slots, the segment after the wrap is admitted into the slot of its predecessor, whose
  payload is then in no slot: it can no longer be sent again.
\<close>

lemma arq_window_alias:
  assumes "1 < w" and "w \<le> 32768" and "\<not> w dvd 65536" and "aq_window s = w"
  shows "(\<exists>q q'. q \<noteq> q' \<and> unat (q' - q) < w \<and> slot_index s q = slot_index s q')
     \<and> (\<exists>s1 s2 e1 e2. arq_submit 0 [1] False (udp_reliable_arq_init (default_arq_config\<lparr>ac_window := 3\<rparr>) 65535) = (s1, e1, admitted)
          \<and> arq_submit 0 [2] False s1 = (s2, e2, admitted) \<and> [1] \<notin> as_bytes ` set (aq_slots s2))"
proof
  let ?r = "65535 mod w"
  have r: "?r < w" using assms(1) by simp
  have "?r + 1 \<noteq> w"
  proof
    assume "?r + 1 = w"
    then have "(65535 + 1) mod w = 0" by (metis mod_add_left_eq mod_self)
    with assms(3) show False by (simp add: dvd_eq_mod_eq_0)
  qed
  with r have lt: "?r + 1 < w" by simp
  have "(65535 :: u16) = - 1" by simp
  then have "(of_nat ?r :: u16) - 65535 = of_nat (?r + 1)" by (simp only: of_nat_add of_nat_1 diff_minus_eq_add)
  moreover have "unat (of_nat (?r + 1) :: u16) = ?r + 1" using lt assms(2) by (simp only: unat_of_nat) simp
  ultimately have dist: "unat ((of_nat ?r :: u16) - 65535) < w" using lt by (simp only:)
  have idx: "slot_index s 65535 = slot_index s (of_nat ?r)"
    using assms(2) r by (simp add: slot_index_def assms(4) unat_of_nat)
  have ne: "(65535 :: u16) \<noteq> of_nat ?r"
  proof
    assume "(65535 :: u16) = of_nat ?r"
    then have "unat (65535 :: u16) = unat (of_nat ?r :: u16)" by (simp only:)
    with r assms(2) show False by (simp add: unat_of_nat)
  qed
  show "\<exists>q q'. q \<noteq> q' \<and> unat (q' - q) < w \<and> slot_index s q = slot_index s q'"
    using ne dist idx by blast
qed (simp add: arq_submit_def in_flight_def udp_reliable_arq_init_def default_arq_config_def Let_def
    arm_segment_def transmit_def set_slot_def slot_index_def slot_at_def replicate_3 empty_arq_slot_def)

text \<open>
  A completion that was already queued when its segment was acknowledged and its slot reused is
  not recognised as stale: it sends the new segment's payload under the old sequence number and
  rearms the slot under the old number, so the new segment loses its own wait.
\<close>

lemma arq_stale_completion:
  assumes "arq_run cfg isn s log evs" and "0 < ac_window cfg" and "ac_window cfg \<le> 32768" and "ac_window cfg dvd 65536"
    and "length log - in_flight s \<le> k" and "k < length log" and "ac_window cfg \<le> k"
    and "as_outstanding (slot_at s (isn + of_nat k))" and "\<not> aq_dead s"
    and "as_retransmits (slot_at s (isn + of_nat k)) < ac_max_retransmit (aq_cfg s)"
    and "stale = isn + of_nat (k - ac_window cfg)"
  shows "\<exists>s' d. arq_timer stale False s = (s', [Transmit stale (fst (log ! k)) (snd (log ! k))])
     \<and> as_timer (slot_at s' (isn + of_nat k)) = Some (stale, d)"
proof -
  obtain b where b: "arq_inv (unat isn) log b s" and w: "aq_window s = ac_window cfg"
    using arq_run_inv [OF assms(1-4)] by blast
  have ws: "aq_window s dvd 65536" "0 < aq_window s" "length (aq_slots s) = aq_window s"
    using b by (simp_all add: arq_inv_def)
  let ?q = "isn + of_nat k" and ?j = "unat isn + (k - ac_window cfg)"
  have "unat isn + k = ?j + aq_window s" using assms(7) w by simp
  then have "(unat isn + k) mod aq_window s = ?j mod aq_window s" by (simp only: mod_add_self2)
  then have idx: "slot_index s stale = slot_index s ?q"
    using slot_index_nat [OF ws(1), of ?j] slot_index_nat [OF ws(1), of "unat isn + k"] assms(11) by simp
  have at: "slot_at s stale = slot_at s ?q" by (simp add: slot_at_def idx)
  have "b \<le> unat isn + k" "unat isn + k < unat isn + length log"
    using assms(5,6) in_flight_inv [OF b] b unfolding arq_inv_def by linarith+
  then have "(as_bytes (kslot s (unat isn + k)), as_fragmented (kslot s (unat isn + k))) = log ! (unat isn + k - unat isn)"
    using b unfolding arq_inv_def by blast
  then have pay: "as_bytes (slot_at s ?q) = fst (log ! k)" "as_fragmented (slot_at s ?q) = snd (log ! k)"
    using slot_at_nat [OF ws(1), of "unat isn + k"] by (simp_all add: prod_eq_iff)
  have got: "slot_at (set_slot stale x s) ?q = x" for x
    using ws by (simp add: slot_at_def set_slot_def slot_index_def idx [unfolded slot_index_def])
  have more: "(ac_max_retransmit (aq_cfg s) \<le> as_retransmits (slot_at s ?q)) = False"
    using assms(10) by (simp only: not_le [symmetric])
  show ?thesis
    using assms(8,9) ws by (simp add: arq_timer_def on_rto_def at more arm_segment_def transmit_def Let_def pay got)
qed


theorem arq_gives_up_witness:
  "\<exists>s e i. arq_submit 0 [7] False (udp_reliable_arq_init default_arq_config 65535) = (s, e, admitted)
     \<and> snd (arq_expire_times 7 i s) = replicate 6 (Transmit 65535 [7] False) @ [Exhausted]"
proof -
  let ?r = "arq_submit 0 [7] False (udp_reliable_arq_init default_arq_config 65535)"
  have r: "snd (snd ?r) = admitted" "\<not> aq_dead (fst ?r)" "ac_max_retransmit (aq_cfg (fst ?r)) = 6"
    by (simp_all add: arq_submit_def in_flight_def udp_reliable_arq_init_def default_arq_config_def Let_def arm_segment_def)
  then have e: "?r = (fst ?r, fst (snd ?r), admitted)" by (metis prod.collapse)
  have c: "0 < ac_window default_arq_config" "ac_window default_arq_config \<le> 32768" "ac_window default_arq_config dvd 65536"
    by (simp_all add: default_arq_config_def)
  have n: "unat (6 :: u8) = 6" "Suc 6 = (7 :: nat)" "(65535 :: u16) + of_nat (length []) = 65535" by simp_all
  from arq_gives_up [OF arq_run_init c e r(2)]
  obtain i where "snd (arq_expire_times 7 i (fst ?r)) = replicate 6 (Transmit 65535 [7] False) @ [Exhausted]"
    unfolding r(3) n by blast
  with e show ?thesis by blast
qed

lemma arq_window_alias_witness:
  "\<exists>q q'. q \<noteq> q' \<and> unat (q' - q) < 500
     \<and> slot_index (udp_reliable_arq_init (default_arq_config\<lparr>ac_window := 500\<rparr>) 0) q
       = slot_index (udp_reliable_arq_init (default_arq_config\<lparr>ac_window := 500\<rparr>) 0) q'"
  using arq_window_alias [of 500 "udp_reliable_arq_init (default_arq_config\<lparr>ac_window := 500\<rparr>) 0"]
  by (simp add: udp_reliable_arq_init_def)

lemma arq_stale_completion_witness:
  "\<exists>s s' d. arq_timer 0 False s = (s', [Transmit 0 [2] False]) \<and> as_timer (slot_at s' 1) = Some (0, d)"
proof -
  let ?cfg = "default_arq_config\<lparr>ac_window := 1\<rparr>"
  let ?s0 = "udp_reliable_arq_init ?cfg 0"
  let ?r1 = "arq_submit 0 [1] False ?s0"
  let ?a = "on_ack 0 empty_ack (fst ?r1)"
  let ?r2 = "arq_submit 0 [2] False (fst ?a)"
  have ack: "\<not> hole_received empty_ack i" for i
    by (simp add: hole_received_def empty_ack_def bitmap_bits_def bitmap_bytes_def drop_bit_eq_div)
  have fold: "fold (\<lambda>i s. s) xs s = s" for xs :: "nat list" and s :: udp_reliable_arq
    by (induction xs) simp_all
  have r1: "snd (snd ?r1) = admitted"
    by (simp add: arq_submit_def in_flight_def udp_reliable_arq_init_def default_arq_config_def Let_def)
  note ev = arq_submit_def in_flight_def udp_reliable_arq_init_def default_arq_config_def Let_def arm_segment_def
    transmit_def set_slot_def slot_index_def slot_at_def empty_arq_slot_def free_segment_def empty_ack_def half_space_def
  have a: "fst ?a = slide_loop 0 1 (fst ?r1)"
    by (simp add: on_ack_def slide_to_def ack fold Let_def) (simp add: empty_ack_def)
  have sl: "slide_loop 0 1 (fst ?r1) = (free_segment 0 0 True (fst ?r1))\<lparr>aq_base := 1\<rparr>"
    by (simp add: slide_loop.simps [of 0 1] ev)
  have r2: "snd (snd ?r2) = admitted" "in_flight (fst ?r2) = 1" "\<not> aq_dead (fst ?r2)"
    "as_outstanding (slot_at (fst ?r2) 1)" "as_retransmits (slot_at (fst ?r2) 1) < ac_max_retransmit (aq_cfg (fst ?r2))"
    unfolding a sl by (simp_all add: ev)
  have "arq_run ?cfg 0 (fst ?a) [([1], False)] ((fst (snd ?r1)) @ snd ?a)"
    using arq_run_ack [OF arq_run_submitted [OF arq_run_init r1], of 0 empty_ack "fst ?a" "snd ?a"] by simp
  from arq_run_submitted [OF this r2(1)]
  have "arq_run ?cfg 0 (fst ?r2) [([1], False), ([2], False)] ((fst (snd ?r1) @ snd ?a) @ fst (snd ?r2))" by simp
  from arq_stale_completion [OF this, of 1 0] r2 show ?thesis
    by (auto simp: default_arq_config_def)
qed


section \<open>Any input\<close>

text \<open>The shape the engine needs to answer any segment, acknowledgement or timer without a fault.\<close>

definition arq_ok :: "udp_reliable_arq \<Rightarrow> bool" where
  "arq_ok s \<longleftrightarrow> 0 < aq_window s \<and> length (aq_slots s) = aq_window s \<and> rb_ok (aq_recv s)"

fun event_ok :: "arq_event \<Rightarrow> bool" where
  "event_ok (Send_ack a) \<longleftrightarrow> length (ack_selective a) = bitmap_bytes"
| "event_ok _ \<longleftrightarrow> True"

lemma arq_ok_init: "arq_ok (udp_reliable_arq_init cfg isn)"
  by (simp add: arq_ok_def udp_reliable_arq_init_def rb_ok_init Let_def)

lemma arq_ok_set_slot [simp]: "arq_ok (set_slot q x s) = arq_ok s" "arq_ok (s\<lparr>aq_next := n\<rparr>) = arq_ok s"
  "arq_ok (s\<lparr>aq_base := n\<rparr>) = arq_ok s" "arq_ok (s\<lparr>aq_rto := e\<rparr>) = arq_ok s" "arq_ok (s\<lparr>aq_dead := d\<rparr>) = arq_ok s"
  "arq_ok (s\<lparr>aq_slots := (aq_slots s)[i := y]\<rparr>) = arq_ok s"
  by (simp_all add: arq_ok_def set_slot_def)

lemma arq_ok_steps [simp]:
  "arq_ok (fst (arq_submit now p f s)) = arq_ok s" "arq_ok (fst (arq_timer q ec s)) = arq_ok s"
  "arq_ok (free_segment now q smp s) = arq_ok s" "arq_ok (ack_hole now q s) = arq_ok s"
  by (auto simp: arq_submit_def arm_segment_def arq_timer_def on_rto_def exhausted_def free_segment_def ack_hole_def Let_def)

lemma arq_ok_slide [simp]: "arq_ok (slide_loop now nb s) = arq_ok s"
proof (induction now nb s rule: slide_loop.induct)
  case (1 now nb s)
  then show ?case by (cases "nb - aq_base s \<noteq> 0 \<and> nb - aq_base s < half_space \<and> aq_base s \<noteq> aq_next s")
      (simp_all add: slide_loop.simps [of now nb s] Let_def)
qed

lemma arq_ok_expire [simp]: "arq_ok (fst (arq_expire i s)) = arq_ok s"
  by (auto simp: arq_expire_def split: option.splits prod.splits)

lemma arq_ok_cancel [simp]: "arq_ok (arq_cancel s) = arq_ok s"
  by (simp add: arq_ok_def arq_cancel_def)

lemma step_events_ok:
  "list_all event_ok (fst (snd (arq_submit now p f s)))" "list_all event_ok (snd (arq_timer q ec s))"
  "list_all event_ok (snd (arq_expire i s))" "list_all event_ok (snd (slide_to now nb s))"
  by (auto simp: arq_submit_def arq_timer_def on_rto_def exhausted_def transmit_def arq_expire_def slide_to_def Let_def
      split: option.splits prod.splits)

lemma mark_hole_length [simp]: "length (ack_selective (mark_hole a i)) = length (ack_selective a)"
  by (simp add: mark_hole_def)

lemma send_ack_ok:
  assumes "rb_ok (aq_recv s)"
  shows "safely (list_all event_ok) (send_ack s)"
proof -
  let ?f = "\<lambda>i acc. do { a \<leftarrow> acc; b \<leftarrow> buffered_at (aq_recv s) (i + 1); Some (if b then mark_hole a i else a) }"
  have "\<exists>a'. fold ?f xs (Some a) = Some a' \<and> length (ack_selective a') = length (ack_selective a)" for xs a
  proof (induction xs arbitrary: a)
    case (Cons x xs)
    obtain b where b: "buffered_at (aq_recv s) (x + 1) = Some b" using buffered_at_ok [OF assms] by blast
    show ?case using Cons.IH [of "if b then mark_hole a x else a"] b by (cases b) simp_all
  qed simp
  from this [of "[0..<bitmap_bits]" "empty_ack\<lparr>ack_cumulative := cumulative (aq_recv s)\<rparr>"]
  show ?thesis by (auto simp: send_ack_def safely_def empty_ack_def)
qed

lemma on_segment_ok:
  assumes "arq_ok s"
  shows "safely (\<lambda>(s', evs). arq_ok s' \<and> list_all event_ok evs) (on_segment q f p s)"
proof -
  obtain r out o' where r: "reorder_feed (aq_recv s) q f p = Some (r, out, o')" "rb_ok r"
    using reorder_feed_ok [of "aq_recv s" q f p] assms by (auto simp: arq_ok_def safely_def)
  obtain acks where a: "send_ack (s\<lparr>aq_recv := r\<rparr>) = Some acks" "list_all event_ok acks"
    using send_ack_ok [of "s\<lparr>aq_recv := r\<rparr>"] r(2) by (auto simp: safely_def)
  have "list_all event_ok (map (\<lambda>(q, f, b). Deliver q f b) out)" by (auto simp: list_all_iff)
  with r a assms show ?thesis by (simp add: on_segment_def arq_ok_def)
qed

end
