(* ===== verification/Send_Queue.thy ===== *)
theory Send_Queue
  imports Prelude
begin

text \<open>
  The three outbound queues: \<open>plexus-stream/detail/send_queue.h\<close> (gathers queued frames into one
  write), \<open>plexus-datagram/detail/send_queue.h\<close> (one datagram at a time) and
  \<open>plexus-datagram/detail/udp_backpressure_queue.h\<close> (frames parked while the send window is full).
  A sink invocation is an output of the step that makes it and its completion is an operation of
  its own, so a sink that completes at once is the completion operation right behind the step. Byte
  counts are naturals: every counted byte is resident. The outer \<open>option\<close> is an access to the front
  of an empty deque.
\<close>

section \<open>The contract of a bounded queue\<close>

text \<open>
  A submission \<open>p\<close> carries the frames \<open>frames p\<close>. \<open>push\<close> answers whether it took them and which frames
  it handed to the sink; \<open>pop\<close> removes the frames that are done and tells which ones it handed on.
\<close>

datatype 'p queue_op = Push 'p | Pop

fun queue_run ::
  "('p \<Rightarrow> 's \<Rightarrow> 's \<times> bool \<times> 'a list) \<Rightarrow> ('s \<Rightarrow> ('s \<times> 'a list \<times> 'a list) option) \<Rightarrow> ('s \<Rightarrow> bool) \<Rightarrow> 'p queue_op list \<Rightarrow> 's
     \<Rightarrow> ('s \<times> 'p list \<times> 'a list \<times> 'a list) option" where
  "queue_run push pop ready [] s = Some (s, [], [], [])"
| "queue_run push pop ready (Push p # ops) s =
     (let (s', ok, w) = push p s in
      map_option (\<lambda>(s'', ps, xs, w'). (s'', if ok then p # ps else ps, xs, w @ w')) (queue_run push pop ready ops s'))"
| "queue_run push pop ready (Pop # ops) s =
     (if \<not> ready s then queue_run push pop ready ops s
      else do {
        (s', xs, w) \<leftarrow> pop s;
        (s'', ps, xs', w') \<leftarrow> queue_run push pop ready ops s';
        Some (s'', ps, xs @ xs', w @ w')
      })"

locale fifo_queue =
  fixes frames :: "'p \<Rightarrow> 'a list"
    and items :: "'s \<Rightarrow> 'a list"
    and inv :: "'s \<Rightarrow> bool"
    and push :: "'p \<Rightarrow> 's \<Rightarrow> 's \<times> bool \<times> 'a list"
    and pop :: "'s \<Rightarrow> ('s \<times> 'a list \<times> 'a list) option"
    and ready :: "'s \<Rightarrow> bool"
  assumes push_law: "inv s \<Longrightarrow> push p s = (s', ok, w) \<Longrightarrow>
      inv s' \<and> items s' = items s @ (if ok then frames p else [])"
    and pop_law: "inv s \<Longrightarrow> ready s \<Longrightarrow>
      \<exists>s' xs w. pop s = Some (s', xs, w) \<and> inv s' \<and> xs \<noteq> [] \<and> items s = xs @ items s'"
    and ready_law: "inv s \<Longrightarrow> ready s \<longleftrightarrow> items s \<noteq> []"
begin

text \<open>A relation between the state and its history that every step keeps holds after a run.\<close>

lemma run_keeps:
  assumes "inv s" and "J s ps xs ws"
    and "\<And>s p s' ok w ps xs ws. inv s \<Longrightarrow> J s ps xs ws \<Longrightarrow> Push p \<in> set ops \<Longrightarrow> push p s = (s', ok, w) \<Longrightarrow>
      J s' (ps @ (if ok then [p] else [])) xs (ws @ w)"
    and "\<And>s s' x w ps xs ws. inv s \<Longrightarrow> J s ps xs ws \<Longrightarrow> ready s \<Longrightarrow> pop s = Some (s', x, w) \<Longrightarrow>
      J s' ps (xs @ x) (ws @ w)"
  shows "\<exists>s' ps' xs' ws'. queue_run push pop ready ops s = Some (s', ps', xs', ws') \<and> inv s'
     \<and> J s' (ps @ ps') (xs @ xs') (ws @ ws')"
  using assms
proof (induction ops arbitrary: s ps xs ws)
  case Nil
  then show ?case by simp
next
  case (Cons op ops)
  note IH = Cons.IH [OF _ _ _ Cons.prems(4)] and J = Cons.prems(3) and J' = Cons.prems(4)
  show ?case
  proof (cases op)
    case (Push p)
    obtain s1 ok w where p: "push p s = (s1, ok, w)" by (cases "push p s")
    have s1: "inv s1" "J s1 (ps @ (if ok then [p] else [])) xs (ws @ w)"
      using push_law [OF Cons.prems(1) p] J [OF Cons.prems(1,2) _ p] by (simp_all add: Push)
    have "\<exists>s' ps' xs' ws'. queue_run push pop ready ops s1 = Some (s', ps', xs', ws') \<and> inv s'
        \<and> J s' ((ps @ (if ok then [p] else [])) @ ps') (xs @ xs') ((ws @ w) @ ws')"
      by (rule IH [OF s1]) (simp add: J)
    then show ?thesis by (cases ok) (auto simp: Push p)
  next
    case Pop
    show ?thesis
    proof (cases "ready s")
      case True
      from pop_law [OF Cons.prems(1) True] obtain s1 x w where s1: "pop s = Some (s1, x, w)" "inv s1" by blast
      have "\<exists>s' ps' xs' ws'. queue_run push pop ready ops s1 = Some (s', ps', xs', ws') \<and> inv s'
          \<and> J s' (ps @ ps') ((xs @ x) @ xs') ((ws @ w) @ ws')"
        by (rule IH [OF s1(2) J' [OF Cons.prems(1,2) True s1(1)]]) (simp add: J)
      then show ?thesis using s1 by (auto simp: Pop True)
    next
      case False
      have "\<exists>s' ps' xs' ws'. queue_run push pop ready ops s = Some (s', ps', xs', ws') \<and> inv s'
          \<and> J s' (ps @ ps') (xs @ xs') (ws @ ws')"
        by (rule IH [OF Cons.prems(1,2)]) (simp add: J)
      with False show ?thesis by (simp add: Pop)
    qed
  qed
qed

lemma fifo:
  assumes "inv s"
  shows "\<exists>s' ps xs w. queue_run push pop ready ops s = Some (s', ps, xs, w) \<and> inv s'
     \<and> items s @ concat (map frames ps) = xs @ items s'"
proof -
  let ?J = "\<lambda>t ps xs (w :: 'a list). items s @ concat (map frames ps) = xs @ items t"
  have "\<exists>s' ps xs w. queue_run push pop ready ops s = Some (s', ps, xs, w) \<and> inv s' \<and> ?J s' ([] @ ps) ([] @ xs) ([] @ w)"
    by (rule run_keeps [where J = ?J]) (use assms push_law pop_law in \<open>fastforce+\<close>)
  then show ?thesis by simp
qed

lemma drains:
  assumes "inv s"
  shows "\<exists>s' w. queue_run push pop ready (replicate (length (items s)) Pop) s = Some (s', [], items s, w)
     \<and> inv s' \<and> items s' = []"
proof -
  have "\<exists>s' w. queue_run push pop ready (replicate n Pop) s = Some (s', [], items s, w) \<and> inv s' \<and> items s' = []"
    if "inv s" "length (items s) \<le> n" for n s
    using that
  proof (induction n arbitrary: s)
    case (Suc n)
    show ?case
    proof (cases "ready s")
      case True
      from pop_law [OF Suc.prems(1) True] obtain s1 xs w where
        s1: "pop s = Some (s1, xs, w)" "inv s1" "xs \<noteq> []" "items s = xs @ items s1" by blast
      then have "length (items s1) \<le> n" using Suc.prems(2) by (cases xs) simp_all
      from Suc.IH [OF s1(2) this] s1 show ?thesis by (auto simp: True)
    next
      case False
      with ready_law [OF Suc.prems(1)] have "items s = []" by simp
      with Suc.IH [OF Suc.prems(1)] False show ?thesis by simp
    qed
  qed simp
  from this [OF assms order_refl] show ?thesis .
qed

end

text \<open>A queue whose backlog is capped. The lax law lets an empty queue take one submission of any size.\<close>

locale budget_queue = fifo_queue frames items inv push pop ready
  for frames :: "'p \<Rightarrow> 'a list"
    and items :: "'s \<Rightarrow> 'a list"
    and inv :: "'s \<Rightarrow> bool"
    and push :: "'p \<Rightarrow> 's \<Rightarrow> 's \<times> bool \<times> 'a list"
    and pop :: "'s \<Rightarrow> ('s \<times> 'a list \<times> 'a list) option"
    and ready :: "'s \<Rightarrow> bool" +
  fixes weight :: "'a \<Rightarrow> nat"
    and cap :: "'s \<Rightarrow> nat"
  assumes push_cap: "inv s \<Longrightarrow> push p s = (s', ok, w) \<Longrightarrow> cap s' = cap s"
    and pop_cap: "inv s \<Longrightarrow> ready s \<Longrightarrow> pop s = Some (s', xs, w) \<Longrightarrow> cap s' = cap s"
    and push_fits: "inv s \<Longrightarrow> push p s = (s', True, w) \<Longrightarrow>
      sum_list (map weight (items s)) = 0 \<or> sum_list (map weight (items s)) + sum_list (map weight (frames p)) \<le> cap s"
begin

lemma bounded:
  assumes "inv s" and "\<And>p. Push p \<in> set ops \<Longrightarrow> sum_list (map weight (frames p)) \<le> m"
    and "sum_list (map weight (items s)) \<le> max (cap s) m" and "queue_run push pop ready ops s = Some (s', ps, xs, w)"
  shows "sum_list (map weight (items s')) \<le> max (cap s) m"
proof -
  let ?J = "\<lambda>t (ps :: 'p list) (xs :: 'a list) (w :: 'a list). cap t = cap s \<and> sum_list (map weight (items t)) \<le> max (cap s) m"
  have "\<exists>s' ps xs w. queue_run push pop ready ops s = Some (s', ps, xs, w) \<and> inv s' \<and> ?J s' ([] @ ps) ([] @ xs) ([] @ w)"
  proof (rule run_keeps [where J = ?J], goal_cases)
    case (3 t p t' ok w ps xs ws)
    show ?case
    proof (cases ok)
      case True
      with 3 have p: "push p t = (t', True, w)" by simp
      have "sum_list (map weight (items t')) = sum_list (map weight (items t)) + sum_list (map weight (frames p))"
        using push_law [OF 3(1) p] by simp
      then show ?thesis
        using push_fits [OF 3(1) p] push_cap [OF 3(1) p] 3(2) assms(2) [OF 3(3)]
        by (simp only: le_max_iff_disj) linarith
    next
      case False
      then show ?thesis using push_law [OF 3(1,4)] push_cap [OF 3(1,4)] 3(2) by simp
    qed
  next
    case (4 t t' x w ps xs ws)
    then have "items t = x @ items t'" using pop_law [OF 4(1,3)] by auto
    with 4 pop_cap [OF 4(1,3,4)] show ?case by simp
  qed (use assms in simp_all)
  with assms(4) show ?thesis by auto
qed

lemma cap_run:
  assumes "inv s" and "queue_run push pop ready ops s = Some (s', ps, xs, w)"
  shows "cap s' = cap s"
proof -
  let ?J = "\<lambda>t (ps :: 'p list) (xs :: 'a list) (w :: 'a list). cap t = cap s"
  have "\<exists>s' ps xs w. queue_run push pop ready ops s = Some (s', ps, xs, w) \<and> inv s' \<and> ?J s' ([] @ ps) ([] @ xs) ([] @ w)"
    by (rule run_keeps [where J = ?J]) (use assms(1) push_cap pop_cap in auto)
  with assms(2) show ?thesis by auto
qed

end

text \<open>A queue that drains through a sink one batch at a time: \<open>started\<close> is the batch in flight.\<close>

locale serial_sender = fifo_queue frames items inv push pop ready
  for frames :: "'p \<Rightarrow> 'a list"
    and items :: "'s \<Rightarrow> 'a list"
    and inv :: "'s \<Rightarrow> bool"
    and push :: "'p \<Rightarrow> 's \<Rightarrow> 's \<times> bool \<times> 'a list"
    and pop :: "'s \<Rightarrow> ('s \<times> 'a list \<times> 'a list) option"
    and ready :: "'s \<Rightarrow> bool" +
  fixes started :: "'s \<Rightarrow> 'a list"
  assumes push_started: "inv s \<Longrightarrow> push p s = (s', ok, w) \<Longrightarrow> started s' = started s @ w"
    and pop_started: "inv s \<Longrightarrow> ready s \<Longrightarrow> pop s = Some (s', xs, w) \<Longrightarrow> xs = started s \<and> started s' = w"
begin

lemma writes_in_order:
  assumes "inv s" and "queue_run push pop ready ops s = Some (s', ps, xs, w)"
  shows "started s @ w = xs @ started s'"
proof -
  let ?J = "\<lambda>t (ps :: 'p list) xs w. started s @ w = xs @ started t"
  have "\<exists>s' ps xs w. queue_run push pop ready ops s = Some (s', ps, xs, w) \<and> inv s' \<and> ?J s' ([] @ ps) ([] @ xs) ([] @ w)"
  proof (rule run_keeps [where J = ?J], goal_cases)
    case (3 t p t' ok w ps xs ws)
    have "started s @ ws @ w = xs @ started t @ w" using 3(2) by (metis append.assoc)
    with push_started [OF 3(1,4)] show ?case by simp
  next
    case (4 t t' x w ps xs ws)
    have "started s @ ws @ w = xs @ started t @ w" using 4(2) by (metis append.assoc)
    with pop_started [OF 4(1,3,4)] show ?case by simp
  qed (use assms(1) in simp_all)
  with assms(2) show ?thesis by auto
qed

end

section \<open>The gathering stream queue\<close>

record stream_send_queue =
  sq_byte_cap :: nat
  sq_gather_limit :: nat
  sq_queue :: "bytes list"
  sq_in_flight :: nat
  sq_bytes :: nat
  sq_open :: bool
  sq_sending :: bool

definition default_gather_limit :: nat where "default_gather_limit = 64"

definition stream_send_queue_init :: "nat \<Rightarrow> nat \<Rightarrow> stream_send_queue" where
  "stream_send_queue_init byte_cap gather_limit =
     \<lparr>sq_byte_cap = byte_cap, sq_gather_limit = gather_limit, sq_queue = [], sq_in_flight = 0, sq_bytes = 0,
      sq_open = True, sq_sending = False\<rparr>"

definition sq_admits :: "nat \<Rightarrow> stream_send_queue \<Rightarrow> bool" where
  "sq_admits n s \<longleftrightarrow> sq_bytes s = 0 \<or> (sq_bytes s < sq_byte_cap s \<and> n \<le> sq_byte_cap s - sq_bytes s)"

definition sq_stash :: "bytes \<Rightarrow> stream_send_queue \<Rightarrow> stream_send_queue" where
  "sq_stash frame s = s\<lparr>sq_bytes := sq_bytes s + length frame, sq_queue := sq_queue s @ [frame]\<rparr>"

text \<open>The frames of the buffer sequence handed to the sink, if any, are the second component.\<close>

definition sq_drive :: "stream_send_queue \<Rightarrow> stream_send_queue \<times> bytes list" where
  "sq_drive s =
     (if sq_queue s = [] then (s\<lparr>sq_sending := False\<rparr>, [])
      else let n = min (sq_gather_limit s) (length (sq_queue s)) in
        (s\<lparr>sq_sending := True, sq_in_flight := n\<rparr>, take n (sq_queue s)))"

definition sq_drive_if_idle :: "stream_send_queue \<Rightarrow> stream_send_queue \<times> bytes list" where
  "sq_drive_if_idle s = (if \<not> sq_sending s then sq_drive s else (s, []))"

definition sq_admit :: "bytes \<Rightarrow> stream_send_queue \<Rightarrow> stream_send_queue \<times> bool \<times> bytes list" where
  "sq_admit frame s = (let (s, w) = sq_drive_if_idle (sq_stash frame s) in (s, True, w))"

definition sq_enqueue :: "bytes \<Rightarrow> stream_send_queue \<Rightarrow> stream_send_queue \<times> bool \<times> bytes list" where
  "sq_enqueue frame s = (if \<not> sq_admits (length frame) s then (s, False, []) else sq_admit frame s)"

definition sq_enqueue_both :: "bytes \<Rightarrow> bytes \<Rightarrow> stream_send_queue \<Rightarrow> stream_send_queue \<times> bool \<times> bytes list" where
  "sq_enqueue_both payload trailer s =
     (if \<not> sq_admits (length payload + length trailer) s then (s, False, [])
      else let (s, w) = sq_drive_if_idle (sq_stash trailer (sq_stash payload s)) in (s, True, w))"

fun sq_pop_fronts :: "nat \<Rightarrow> stream_send_queue \<Rightarrow> stream_send_queue option" where
  "sq_pop_fronts 0 s = Some s"
| "sq_pop_fronts (Suc n) s =
     (case sq_queue s of [] \<Rightarrow> None
      | f # q \<Rightarrow> sq_pop_fronts n (s\<lparr>sq_bytes := sq_bytes s - length f, sq_queue := q\<rparr>))"

definition sq_completion :: "stream_send_queue \<Rightarrow> (stream_send_queue \<times> bytes list) option" where
  "sq_completion s = (if \<not> sq_open s then Some (s, []) else map_option sq_drive (sq_pop_fronts (sq_in_flight s) s))"

definition sq_close :: "stream_send_queue \<Rightarrow> stream_send_queue" where
  "sq_close s = s\<lparr>sq_open := False, sq_sending := False, sq_in_flight := 0, sq_queue := [], sq_bytes := 0\<rparr>"

definition sq_close_and_drain :: "stream_send_queue \<Rightarrow> stream_send_queue \<times> nat" where
  "sq_close_and_drain s = (let residual = length (sq_queue s) in (sq_close s, residual))"

definition sq_full :: "stream_send_queue \<Rightarrow> bool" where
  "sq_full s \<longleftrightarrow> sq_bytes s \<ge> sq_byte_cap s"

subsection \<open>Correctness\<close>

datatype stream_submission = One bytes | Both bytes bytes

fun sq_frames :: "stream_submission \<Rightarrow> bytes list" where
  "sq_frames (One f) = [f]"
| "sq_frames (Both p t) = [p, t]"

fun sq_push :: "stream_submission \<Rightarrow> stream_send_queue \<Rightarrow> stream_send_queue \<times> bool \<times> bytes list" where
  "sq_push (One f) s = sq_enqueue f s"
| "sq_push (Both p t) s = sq_enqueue_both p t s"

definition sq_pop :: "stream_send_queue \<Rightarrow> (stream_send_queue \<times> bytes list \<times> bytes list) option" where
  "sq_pop s = map_option (\<lambda>(s', w). (s', take (sq_in_flight s) (sq_queue s), w)) (sq_completion s)"

definition sq_inv :: "stream_send_queue \<Rightarrow> bool" where
  "sq_inv s \<longleftrightarrow> sq_open s \<and> 0 < sq_gather_limit s \<and> sq_bytes s = sum_list (map length (sq_queue s))
     \<and> (sq_sending s \<longleftrightarrow> sq_queue s \<noteq> []) \<and> (sq_sending s \<longrightarrow> 0 < sq_in_flight s \<and> sq_in_flight s \<le> length (sq_queue s))"

definition sq_started :: "stream_send_queue \<Rightarrow> bytes list" where
  "sq_started s = (if sq_sending s then take (sq_in_flight s) (sq_queue s) else [])"

lemma sq_pop_fronts_eq:
  "n \<le> length (sq_queue s) \<Longrightarrow> sq_bytes s = sum_list (map length (sq_queue s)) \<Longrightarrow>
   sq_pop_fronts n s = Some (s\<lparr>sq_queue := drop n (sq_queue s), sq_bytes := sum_list (map length (drop n (sq_queue s)))\<rparr>)"
proof (induction n s rule: sq_pop_fronts.induct)
  case (1 s)
  then show ?case by simp
next
  case (2 n s)
  then show ?case by (cases "sq_queue s") auto
qed

lemma sq_drive_inv:
  assumes "sq_open s" and "0 < sq_gather_limit s" and "sq_bytes s = sum_list (map length (sq_queue s))"
    and "sq_drive s = (s', w)"
  shows "sq_inv s' \<and> sq_queue s' = sq_queue s \<and> sq_byte_cap s' = sq_byte_cap s \<and> sq_started s' = w"
  using assms by (auto simp: sq_drive_def sq_inv_def sq_started_def Let_def split: if_splits)

lemma sq_stashed_inv:
  assumes "sq_inv s" and "fs \<noteq> []"
    and "sq_drive_if_idle (s\<lparr>sq_bytes := sq_bytes s + sum_list (map length fs), sq_queue := sq_queue s @ fs\<rparr>) = (s', w)"
  shows "sq_inv s' \<and> sq_queue s' = sq_queue s @ fs \<and> sq_byte_cap s' = sq_byte_cap s \<and> sq_started s' = sq_started s @ w"
proof (cases "sq_sending s")
  case True
  with assms show ?thesis by (auto simp: sq_drive_if_idle_def sq_inv_def sq_started_def)
next
  case False
  with assms sq_drive_inv [of "s\<lparr>sq_bytes := sq_bytes s + sum_list (map length fs), sq_queue := sq_queue s @ fs\<rparr>" s' w]
  show ?thesis by (auto simp: sq_drive_if_idle_def sq_inv_def sq_started_def)
qed

lemma sq_stash_two:
  "sq_stash t (sq_stash p s) = s\<lparr>sq_bytes := sq_bytes s + sum_list (map length [p, t]), sq_queue := sq_queue s @ [p, t]\<rparr>"
  "sq_stash p s = s\<lparr>sq_bytes := sq_bytes s + sum_list (map length [p]), sq_queue := sq_queue s @ [p]\<rparr>"
  by (simp_all add: sq_stash_def)

lemma sq_push_law:
  assumes "sq_inv s" and "sq_push p s = (s', ok, w)"
  shows "sq_inv s' \<and> sq_queue s' = sq_queue s @ (if ok then sq_frames p else []) \<and> sq_byte_cap s' = sq_byte_cap s
     \<and> sq_started s' = sq_started s @ w
     \<and> (ok \<longleftrightarrow> sq_bytes s = 0 \<or> sq_bytes s < sq_byte_cap s \<and> sq_bytes s + sum_list (map length (sq_frames p)) \<le> sq_byte_cap s)"
proof (cases "sq_admits (sum_list (map length (sq_frames p))) s")
  case False
  with assms show ?thesis
    by (cases p) (auto simp: sq_enqueue_def sq_enqueue_both_def sq_admits_def)
next
  case True
  have "sq_drive_if_idle (s\<lparr>sq_bytes := sq_bytes s + sum_list (map length (sq_frames p)), sq_queue := sq_queue s @ sq_frames p\<rparr>)
      = (s', w) \<and> ok"
    using assms(2) True unfolding sq_frames.simps
    by (cases p) (simp_all add: sq_enqueue_def sq_enqueue_both_def sq_admit_def sq_stash_two add.assoc split: prod.splits)
  moreover have "sq_frames p \<noteq> []" by (cases p) simp_all
  ultimately show ?thesis
    using sq_stashed_inv [OF assms(1), of "sq_frames p" s' w] True by (auto simp: sq_admits_def)
qed

lemma sq_pop_law:
  assumes "sq_inv s" and "sq_sending s"
  shows "\<exists>s' w. sq_pop s = Some (s', take (sq_in_flight s) (sq_queue s), w) \<and> sq_inv s'
     \<and> sq_queue s' = drop (sq_in_flight s) (sq_queue s) \<and> sq_byte_cap s' = sq_byte_cap s \<and> sq_started s' = w"
proof -
  let ?s = "s\<lparr>sq_queue := drop (sq_in_flight s) (sq_queue s),
      sq_bytes := sum_list (map length (drop (sq_in_flight s) (sq_queue s)))\<rparr>"
  have "sq_completion s = Some (sq_drive ?s)"
    using assms sq_pop_fronts_eq [of "sq_in_flight s" s] by (simp add: sq_completion_def sq_inv_def)
  moreover obtain s' w where "sq_drive ?s = (s', w)" by (cases "sq_drive ?s")
  ultimately show ?thesis
    using sq_drive_inv [of ?s s' w] assms by (auto simp: sq_pop_def sq_inv_def)
qed

interpretation stream_q: fifo_queue sq_frames sq_queue sq_inv sq_push sq_pop sq_sending
proof unfold_locales
  show "sq_sending s \<longleftrightarrow> sq_queue s \<noteq> []" if "sq_inv s" for s using that by (simp add: sq_inv_def)
  show "\<exists>s' xs w. sq_pop s = Some (s', xs, w) \<and> sq_inv s' \<and> xs \<noteq> [] \<and> sq_queue s = xs @ sq_queue s'"
    if "sq_inv s" "sq_sending s" for s
    using sq_pop_law [OF that] that by (auto simp: sq_inv_def)
qed (use sq_push_law in blast)


interpretation stream_budget: budget_queue sq_frames sq_queue sq_inv sq_push sq_pop sq_sending length sq_byte_cap
proof unfold_locales
  show "sq_byte_cap s' = sq_byte_cap s" if "sq_inv s" "sq_push p s = (s', ok, w)" for s p s' ok w
    using sq_push_law [OF that] by simp
  show "sum_list (map length (sq_queue s)) = 0
      \<or> sum_list (map length (sq_queue s)) + sum_list (map length (sq_frames p)) \<le> sq_byte_cap s"
    if "sq_inv s" "sq_push p s = (s', True, w)" for s p s' w
    using sq_push_law [OF that] that(1) by (auto simp: sq_inv_def)
  show "sq_byte_cap s' = sq_byte_cap s" if "sq_inv s" "sq_sending s" "sq_pop s = Some (s', xs, w)" for s s' xs w
    using sq_pop_law [OF that(1,2)] that(3) by auto
qed

interpretation stream_sender: serial_sender sq_frames sq_queue sq_inv sq_push sq_pop sq_sending sq_started
proof unfold_locales
  show "sq_started s' = sq_started s @ w" if "sq_inv s" "sq_push p s = (s', ok, w)" for s p s' ok w
    using sq_push_law [OF that] by simp
  show "xs = sq_started s \<and> sq_started s' = w" if "sq_inv s" "sq_sending s" "sq_pop s = Some (s', xs, w)" for s s' xs w
    using sq_pop_law [OF that(1,2)] that(2,3) by (auto simp: sq_started_def)
qed

section \<open>The datagram send queue\<close>

text \<open>The spare-buffer pool is kept: a drained buffer's content is overwritten when it is taken again.\<close>

record 'ep datagram_send_queue =
  dq_byte_cap :: nat
  dq_queue :: "(bytes \<times> 'ep) list"
  dq_free_buffers :: "bytes list"
  dq_bytes :: nat
  dq_open :: bool
  dq_sending :: bool

definition k_max_free_buffers :: nat where "k_max_free_buffers = 64"

definition datagram_send_queue_init :: "nat \<Rightarrow> 'ep datagram_send_queue" where
  "datagram_send_queue_init byte_cap =
     \<lparr>dq_byte_cap = byte_cap, dq_queue = [], dq_free_buffers = [], dq_bytes = 0, dq_open = True, dq_sending = False\<rparr>"

definition dq_admits :: "nat \<Rightarrow> 'ep datagram_send_queue \<Rightarrow> bool" where
  "dq_admits n s \<longleftrightarrow> dq_bytes s < dq_byte_cap s \<and> n \<le> dq_byte_cap s - dq_bytes s"

definition take_buffer :: "bytes \<Rightarrow> 'ep datagram_send_queue \<Rightarrow> 'ep datagram_send_queue \<times> bytes" where
  "take_buffer b s =
     (if dq_free_buffers s \<noteq> [] then (s\<lparr>dq_free_buffers := butlast (dq_free_buffers s)\<rparr>, b) else (s, b))"

definition recycle_buffer :: "bytes \<Rightarrow> 'ep datagram_send_queue \<Rightarrow> 'ep datagram_send_queue" where
  "recycle_buffer buf s =
     (if length (dq_free_buffers s) < k_max_free_buffers then s\<lparr>dq_free_buffers := dq_free_buffers s @ [buf]\<rparr> else s)"

definition dq_drive :: "'ep datagram_send_queue \<Rightarrow> 'ep datagram_send_queue \<times> (bytes \<times> 'ep) list" where
  "dq_drive s =
     (case dq_queue s of [] \<Rightarrow> (s\<lparr>dq_sending := False\<rparr>, []) | front # _ \<Rightarrow> (s\<lparr>dq_sending := True\<rparr>, [front]))"

definition dq_enqueue :: "bytes \<times> 'ep \<Rightarrow> 'ep datagram_send_queue \<Rightarrow> 'ep datagram_send_queue \<times> bool \<times> (bytes \<times> 'ep) list" where
  "dq_enqueue d s =
     (let (b, dest) = d in
      if \<not> dq_admits (length b) s then (s, False, [])
      else let s = s\<lparr>dq_bytes := dq_bytes s + length b\<rparr>;
               (s, buf) = take_buffer b s;
               s = s\<lparr>dq_queue := dq_queue s @ [(buf, dest)]\<rparr>;
               (s, w) = (if \<not> dq_sending s then dq_drive s else (s, []))
           in (s, True, w))"

definition dq_completion :: "'ep datagram_send_queue \<Rightarrow> ('ep datagram_send_queue \<times> (bytes \<times> 'ep) list) option" where
  "dq_completion s =
     (if \<not> dq_open s then Some (s, [])
      else case dq_queue s of
        [] \<Rightarrow> None
      | (b, _) # q \<Rightarrow> Some (dq_drive ((recycle_buffer b (s\<lparr>dq_bytes := dq_bytes s - length b\<rparr>))\<lparr>dq_queue := q\<rparr>)))"

definition dq_close :: "'ep datagram_send_queue \<Rightarrow> 'ep datagram_send_queue" where
  "dq_close s = s\<lparr>dq_open := False, dq_sending := False, dq_queue := [], dq_free_buffers := [], dq_bytes := 0\<rparr>"

definition dq_full :: "'ep datagram_send_queue \<Rightarrow> bool" where
  "dq_full s \<longleftrightarrow> dq_bytes s \<ge> dq_byte_cap s"

definition dq_pop :: "'ep datagram_send_queue \<Rightarrow> ('ep datagram_send_queue \<times> (bytes \<times> 'ep) list \<times> (bytes \<times> 'ep) list) option" where
  "dq_pop s = map_option (\<lambda>(s', w). (s', take 1 (dq_queue s), w)) (dq_completion s)"

abbreviation dq_weight :: "bytes \<times> 'ep \<Rightarrow> nat" where
  "dq_weight d \<equiv> length (fst d)"

definition dq_inv :: "'ep datagram_send_queue \<Rightarrow> bool" where
  "dq_inv s \<longleftrightarrow> dq_open s \<and> dq_bytes s = sum_list (map dq_weight (dq_queue s)) \<and> dq_bytes s \<le> dq_byte_cap s
     \<and> (dq_sending s \<longleftrightarrow> dq_queue s \<noteq> [])
     \<and> length (dq_free_buffers s) \<le> k_max_free_buffers"

definition dq_started :: "'ep datagram_send_queue \<Rightarrow> (bytes \<times> 'ep) list" where
  "dq_started s = (if dq_sending s then take 1 (dq_queue s) else [])"

lemma dq_drive_inv:
  assumes "dq_open s" and "dq_bytes s = sum_list (map dq_weight (dq_queue s))"
    and "length (dq_free_buffers s) \<le> k_max_free_buffers" and "dq_bytes s \<le> dq_byte_cap s" and "dq_drive s = (s', w)"
  shows "dq_inv s' \<and> dq_queue s' = dq_queue s \<and> dq_byte_cap s' = dq_byte_cap s \<and> dq_started s' = w"
  using assms by (auto simp: dq_drive_def dq_inv_def dq_started_def split: list.splits)

lemma dq_push_law:
  assumes "dq_inv s" and "dq_enqueue d s = (s', ok, w)"
  shows "dq_inv s' \<and> dq_queue s' = dq_queue s @ (if ok then [d] else []) \<and> dq_byte_cap s' = dq_byte_cap s
     \<and> dq_started s' = dq_started s @ w \<and> (ok \<longleftrightarrow> dq_bytes s < dq_byte_cap s \<and> dq_bytes s + dq_weight d \<le> dq_byte_cap s)"
proof (cases "dq_admits (dq_weight d) s")
  case False
  with assms show ?thesis by (cases d) (auto simp: dq_enqueue_def dq_admits_def)
next
  case True
  let ?t = "s\<lparr>dq_bytes := dq_bytes s + dq_weight d\<rparr>"
  let ?s = "(fst (take_buffer (fst d) ?t))\<lparr>dq_queue := dq_queue s @ [d]\<rparr>"
  have s: "dq_open ?s" "dq_bytes ?s = sum_list (map dq_weight (dq_queue ?s))"
      "length (dq_free_buffers ?s) \<le> k_max_free_buffers" "dq_bytes ?s \<le> dq_byte_cap ?s" "dq_sending ?s = dq_sending s"
      "dq_byte_cap ?s = dq_byte_cap s"
    using assms(1) True by (auto simp: dq_inv_def take_buffer_def dq_admits_def)
  have e: "(if \<not> dq_sending ?s then dq_drive ?s else (?s, [])) = (s', w) \<and> ok"
    using assms(2) True by (cases d) (auto simp: dq_enqueue_def take_buffer_def Let_def split: if_splits prod.splits)
  show ?thesis
  proof (cases "dq_sending s")
    case sending: True
    with e s assms(1) have "s' = ?s" "w = []" ok by auto
    moreover have "dq_queue s \<noteq> []" using sending assms(1) by (simp add: dq_inv_def)
    ultimately show ?thesis using s sending True by (cases "dq_queue s") (auto simp: dq_inv_def dq_started_def dq_admits_def)
  next
    case False
    with e s have "dq_drive ?s = (s', w)" ok by auto
    with dq_drive_inv [OF s(1-4)] s(6) False True assms(1) show ?thesis by (auto simp: dq_started_def dq_admits_def)
  qed
qed

lemma dq_pop_law:
  assumes "dq_inv s" and "dq_sending s"
  shows "\<exists>s' w. dq_pop s = Some (s', take 1 (dq_queue s), w) \<and> dq_inv s' \<and> dq_queue s' = tl (dq_queue s)
     \<and> dq_byte_cap s' = dq_byte_cap s \<and> dq_started s' = w"
proof -
  obtain d q where q: "dq_queue s = d # q" using assms by (cases "dq_queue s") (auto simp: dq_inv_def)
  let ?s = "(recycle_buffer (fst d) (s\<lparr>dq_bytes := dq_bytes s - dq_weight d\<rparr>))\<lparr>dq_queue := q\<rparr>"
  have s: "dq_open ?s" "dq_bytes ?s = sum_list (map dq_weight (dq_queue ?s))" "length (dq_free_buffers ?s) \<le> k_max_free_buffers"
      "dq_bytes ?s \<le> dq_byte_cap ?s" "dq_byte_cap ?s = dq_byte_cap s"
    using assms q by (auto simp: dq_inv_def recycle_buffer_def)
  obtain s' w where d: "dq_drive ?s = (s', w)" by (cases "dq_drive ?s")
  have "dq_completion s = Some (s', w)" using assms(1) q d by (cases d) (simp add: dq_completion_def dq_inv_def)
  with dq_drive_inv [OF s(1-4) d] s(5) q show ?thesis by (auto simp: dq_pop_def)
qed

interpretation datagram_q: fifo_queue "\<lambda>d. [d]" dq_queue dq_inv dq_enqueue dq_pop dq_sending
proof unfold_locales
  show "dq_sending s \<longleftrightarrow> dq_queue s \<noteq> []" if "dq_inv s" for s :: "'a datagram_send_queue"
    using that by (simp add: dq_inv_def)
  show "\<exists>s' xs w. dq_pop s = Some (s', xs, w) \<and> dq_inv s' \<and> xs \<noteq> [] \<and> dq_queue s = xs @ dq_queue s'"
    if "dq_inv s" "dq_sending s" for s :: "'a datagram_send_queue"
    using dq_pop_law [OF that] that by (cases "dq_queue s") (auto simp: dq_inv_def)
qed (use dq_push_law in blast)

interpretation datagram_sender: serial_sender "\<lambda>d. [d]" dq_queue dq_inv dq_enqueue dq_pop dq_sending dq_started
proof unfold_locales
  show "dq_started s' = dq_started s @ w" if "dq_inv s" "dq_enqueue p s = (s', ok, w)" for p ok w and s s' :: "'a datagram_send_queue"
    using dq_push_law [OF that] by simp
  show "xs = dq_started s \<and> dq_started s' = w" if "dq_inv s" "dq_sending s" "dq_pop s = Some (s', xs, w)"
    for xs w and s s' :: "'a datagram_send_queue"
    using dq_pop_law [OF that(1,2)] that(2,3) by (auto simp: dq_started_def)
qed

interpretation datagram_budget: budget_queue "\<lambda>d. [d]" dq_queue dq_inv dq_enqueue dq_pop dq_sending dq_weight dq_byte_cap
proof unfold_locales
  show "dq_byte_cap s' = dq_byte_cap s" if "dq_inv s" "dq_enqueue p s = (s', ok, w)" for p ok w and s s' :: "'a datagram_send_queue"
    using dq_push_law [OF that] by simp
  show "dq_byte_cap s' = dq_byte_cap s" if "dq_inv s" "dq_sending s" "dq_pop s = Some (s', xs, w)"
    for xs w and s s' :: "'a datagram_send_queue"
    using dq_pop_law [OF that(1,2)] that(3) by auto
  show "sum_list (map dq_weight (dq_queue s)) = 0 \<or> sum_list (map dq_weight (dq_queue s)) + sum_list (map dq_weight [p]) \<le> dq_byte_cap s"
    if "dq_inv s" "dq_enqueue p s = (s', True, w)" for p w and s s' :: "'a datagram_send_queue"
    using dq_push_law [OF that] that(1) by (simp add: dq_inv_def)
qed

section \<open>The backpressure queue\<close>

record udp_backpressure_queue =
  bq_byte_cap :: nat
  bq_bytes :: nat
  bq_queue :: "(bytes \<times> bool) list"

definition udp_backpressure_queue_init :: "nat \<Rightarrow> udp_backpressure_queue" where
  "udp_backpressure_queue_init byte_cap =
     \<lparr>bq_byte_cap = (if byte_cap = 0 then 1 else byte_cap), bq_bytes = 0, bq_queue = []\<rparr>"

definition bq_admits :: "nat \<Rightarrow> udp_backpressure_queue \<Rightarrow> bool" where
  "bq_admits n s \<longleftrightarrow> bq_bytes s < bq_byte_cap s \<and> n \<le> bq_byte_cap s - bq_bytes s"

definition bq_admit :: "bytes \<times> bool \<Rightarrow> udp_backpressure_queue \<Rightarrow> udp_backpressure_queue \<times> bool" where
  "bq_admit e s =
     (let (frame, fragmented) = e in
      if \<not> bq_admits (length frame) s then (s, False)
      else (s\<lparr>bq_bytes := bq_bytes s + length frame, bq_queue := bq_queue s @ [(frame, fragmented)]\<rparr>, True))"

definition bq_pop_front :: "udp_backpressure_queue \<Rightarrow> udp_backpressure_queue option" where
  "bq_pop_front s =
     (case bq_queue s of [] \<Rightarrow> None
      | (b, _) # q \<Rightarrow> Some (s\<lparr>bq_bytes := bq_bytes s - length b, bq_queue := q\<rparr>))"

definition bq_push :: "bytes \<times> bool \<Rightarrow> udp_backpressure_queue \<Rightarrow> udp_backpressure_queue \<times> bool \<times> (bytes \<times> bool) list" where
  "bq_push e s = (let (s, ok) = bq_admit e s in (s, ok, []))"

definition bq_pop :: "udp_backpressure_queue \<Rightarrow> (udp_backpressure_queue \<times> (bytes \<times> bool) list \<times> (bytes \<times> bool) list) option" where
  "bq_pop s = map_option (\<lambda>s'. (s', take 1 (bq_queue s), [])) (bq_pop_front s)"

abbreviation bq_weight :: "bytes \<times> bool \<Rightarrow> nat" where
  "bq_weight e \<equiv> length (fst e)"

definition bq_inv :: "udp_backpressure_queue \<Rightarrow> bool" where
  "bq_inv s \<longleftrightarrow> bq_bytes s = sum_list (map bq_weight (bq_queue s)) \<and> bq_bytes s \<le> bq_byte_cap s"

abbreviation bq_nonempty :: "udp_backpressure_queue \<Rightarrow> bool" where
  "bq_nonempty s \<equiv> bq_queue s \<noteq> []"

interpretation backpressure_q: fifo_queue "\<lambda>e. [e]" bq_queue bq_inv bq_push bq_pop bq_nonempty
proof unfold_locales
  show "bq_inv s' \<and> bq_queue s' = bq_queue s @ (if ok then [p] else [])" if "bq_inv s" "bq_push p s = (s', ok, w)" for s p s' ok w
    using that by (cases p) (auto simp: bq_push_def bq_admit_def bq_inv_def bq_admits_def split: if_splits)
  show "\<exists>s' xs w. bq_pop s = Some (s', xs, w) \<and> bq_inv s' \<and> xs \<noteq> [] \<and> bq_queue s = xs @ bq_queue s'"
    if "bq_inv s" "bq_nonempty s" for s
    using that by (cases "bq_queue s") (auto simp: bq_pop_def bq_pop_front_def bq_inv_def)
qed simp

interpretation backpressure_budget: budget_queue "\<lambda>e. [e]" bq_queue bq_inv bq_push bq_pop bq_nonempty bq_weight bq_byte_cap
proof unfold_locales
  show "bq_byte_cap s' = bq_byte_cap s" if "bq_inv s" "bq_push p s = (s', ok, w)" for s p s' ok w
    using that by (cases p) (auto simp: bq_push_def bq_admit_def split: if_splits)
  show "bq_byte_cap s' = bq_byte_cap s" if "bq_inv s" "bq_nonempty s" "bq_pop s = Some (s', xs, w)" for s s' xs w
    using that by (auto simp: bq_pop_def bq_pop_front_def split: list.splits)
  show "sum_list (map bq_weight (bq_queue s)) = 0 \<or> sum_list (map bq_weight (bq_queue s)) + sum_list (map bq_weight [p]) \<le> bq_byte_cap s"
    if "bq_inv s" "bq_push p s = (s', True, w)" for s p s' w
    using that by (cases p) (auto simp: bq_push_def bq_admit_def bq_inv_def bq_admits_def split: if_splits)
qed

section \<open>Properties\<close>

lemma queue_run_append:
  "queue_run push pop ready (ops @ ops') s = do {
     (s1, ps, xs, w) \<leftarrow> queue_run push pop ready ops s;
     (s2, ps', xs', w') \<leftarrow> queue_run push pop ready ops' s1;
     Some (s2, ps @ ps', xs @ xs', w @ w')
   }"
proof (induction push pop ready ops s rule: queue_run.induct)
  case (2 push pop ready p ops s)
  obtain s' ok w where p: "push p s = (s', ok, w)" by (cases "push p s")
  show ?case
    using 2 [OF p [symmetric] refl] by (cases "queue_run push pop ready ops s'") (auto simp: p split: Option.bind_splits)
next
  case (3 push pop ready ops s)
  show ?case
  proof (cases "ready s")
    case True
    then show ?thesis using 3(2) by (cases "pop s") (auto split: Option.bind_splits)
  qed (use 3(1) in simp)
qed (simp split: prod.splits)

lemma sq_inv_init: "0 < gather \<Longrightarrow> sq_inv (stream_send_queue_init byte_cap gather)"
  by (simp add: sq_inv_def stream_send_queue_init_def)



text \<open>
  The datagram queue: over any sequence of submissions and completions, at most one datagram is
  with the socket, datagrams go out in the order admitted, each once, and the queued bytes never
  exceed the cap; the parked frames of the backpressure queue leave in the order admitted, with
  their fragment marks, and stay within its cap.
\<close>

lemma datagram_queues_fifo:
  fixes ops :: "(bytes \<times> 'ep) queue_op list"
  shows "(\<exists>s ps acked written. queue_run dq_enqueue dq_pop dq_sending ops (datagram_send_queue_init byte_cap) = Some (s, ps, acked, written)
     \<and> ps = acked @ dq_queue s \<and> written = acked @ dq_started s \<and> length (dq_started s) \<le> 1
     \<and> dq_bytes s = sum_list (map (\<lambda>d. length (fst d)) (dq_queue s)) \<and> dq_bytes s \<le> byte_cap
     \<and> length (dq_free_buffers s) \<le> k_max_free_buffers)
   \<and> (\<exists>t qs popped w. queue_run bq_push bq_pop (\<lambda>s. bq_queue s \<noteq> []) bops (udp_backpressure_queue_init byte_cap) = Some (t, qs, popped, w)
     \<and> qs = popped @ bq_queue t \<and> bq_bytes t = sum_list (map (\<lambda>e. length (fst e)) (bq_queue t))
     \<and> bq_bytes t \<le> max 1 byte_cap)"
proof
  let ?s0 = "datagram_send_queue_init byte_cap :: 'ep datagram_send_queue"
  have inv0: "dq_inv ?s0" and e0: "dq_queue ?s0 = []" "dq_started ?s0 = []" "dq_byte_cap ?s0 = byte_cap"
    by (simp_all add: dq_inv_def datagram_send_queue_init_def dq_started_def)
  obtain s ps acked written where r: "queue_run dq_enqueue dq_pop dq_sending ops ?s0 = Some (s, ps, acked, written)"
    "dq_inv s" "ps = acked @ dq_queue s"
    using datagram_q.fifo [OF inv0, of ops] unfolding e0(1) by auto
  have "written = acked @ dq_started s" using datagram_sender.writes_in_order [OF inv0 r(1)] e0(2) by simp
  moreover have "dq_byte_cap s = byte_cap" using datagram_budget.cap_run [OF inv0 r(1)] e0(3) by simp
  ultimately show "\<exists>s ps acked written. queue_run dq_enqueue dq_pop dq_sending ops ?s0 = Some (s, ps, acked, written)
     \<and> ps = acked @ dq_queue s \<and> written = acked @ dq_started s \<and> length (dq_started s) \<le> 1
     \<and> dq_bytes s = sum_list (map (\<lambda>d. length (fst d)) (dq_queue s)) \<and> dq_bytes s \<le> byte_cap
     \<and> length (dq_free_buffers s) \<le> k_max_free_buffers"
    using r by (auto simp: dq_inv_def dq_started_def)
next
  let ?t0 = "udp_backpressure_queue_init byte_cap"
  have inv0: "bq_inv ?t0" and e0: "bq_queue ?t0 = []" "bq_byte_cap ?t0 \<le> max 1 byte_cap"
    by (simp_all add: bq_inv_def udp_backpressure_queue_init_def)
  obtain t qs popped w where r: "queue_run bq_push bq_pop bq_nonempty bops ?t0 = Some (t, qs, popped, w)"
    "bq_inv t" "qs = popped @ bq_queue t"
    using backpressure_q.fifo [OF inv0, of bops] unfolding e0(1) by auto
  have "bq_byte_cap t \<le> max 1 byte_cap" using backpressure_budget.cap_run [OF inv0 r(1)] e0(2) by simp
  with r show "\<exists>t qs popped w. queue_run bq_push bq_pop bq_nonempty bops ?t0 = Some (t, qs, popped, w)
     \<and> qs = popped @ bq_queue t \<and> bq_bytes t = sum_list (map (\<lambda>e. length (fst e)) (bq_queue t))
     \<and> bq_bytes t \<le> max 1 byte_cap"
    by (auto simp: bq_inv_def)
qed

end
