(* ===== verification/Keyed_Table.thy ===== *)
theory Keyed_Table
  imports Prelude "HOL-Library.Multiset"
begin

text \<open>
  The keyed tables of the program and the contract their clients rely on: the sorted vector of
  \<open>plexus-datagram/detail/reassembler_flat_map.h\<close>, the fixed-capacity slot array of
  \<open>plexus-core/io/detail/fixed_flat_map.h\<close>, and \<open>std::map\<close>, which is the sorted vector without a limit. A
  reference into a table is its index.
\<close>

section \<open>Sorted vectors\<close>

abbreviation sorted_table :: "('k :: linorder \<times> 'v) list \<Rightarrow> bool" where
  "sorted_table xs \<equiv> sorted_wrt (<) (map fst xs)"

definition lower_bound :: "('k :: linorder \<times> 'v) list \<Rightarrow> 'k \<Rightarrow> nat" where
  "lower_bound xs k = length (takeWhile (\<lambda>e. fst e < k) xs)"

definition fm_find :: "('k :: linorder \<times> 'v) list \<Rightarrow> 'k \<Rightarrow> nat option" where
  "fm_find xs k = (let i = lower_bound xs k in if i < length xs \<and> fst (xs ! i) = k then Some i else None)"

text \<open>\<open>emplace\<close> at a table with a limit; \<open>None\<close> is the past-the-end iterator.\<close>

definition fm_emplace :: "nat \<Rightarrow> ('k :: linorder \<times> 'v) list \<Rightarrow> 'k \<Rightarrow> 'v \<Rightarrow> (('k \<times> 'v) list \<times> nat) option" where
  "fm_emplace max_entries xs k v =
     (if length xs \<ge> max_entries then None
      else let i = lower_bound xs k in Some (take i xs @ (k, v) # drop i xs, i))"

definition fm_erase :: "nat \<Rightarrow> ('k \<times> 'v) list \<Rightarrow> ('k \<times> 'v) list" where
  "fm_erase i xs = take i xs @ drop (Suc i) xs"

definition fm_write :: "nat \<Rightarrow> 'v \<Rightarrow> ('k \<times> 'v) list \<Rightarrow> ('k \<times> 'v) list" where
  "fm_write i v xs = xs[i := (fst (xs ! i), v)]"

subsection \<open>Lookup semantics\<close>

lemma lower_bound_split:
  assumes "sorted_table xs"
  obtains lo hi where "xs = lo @ hi" "length lo = lower_bound xs k" "\<And>e. e \<in> set lo \<Longrightarrow> fst e < k"
    "\<And>e. e \<in> set hi \<Longrightarrow> k \<le> fst e" "lower_bound xs k \<le> length xs"
proof
  let ?lo = "takeWhile (\<lambda>e. fst e < k) xs" and ?hi = "dropWhile (\<lambda>e. fst e < k) xs"
  show "xs = ?lo @ ?hi" by simp
  show "length ?lo = lower_bound xs k" "lower_bound xs k \<le> length xs" by (simp_all add: lower_bound_def length_takeWhile_le)
  show "fst e < k" if "e \<in> set ?lo" for e using that set_takeWhileD by fastforce
  show "k \<le> fst e" if e: "e \<in> set ?hi" for e
  proof (cases ?hi)
    case (Cons h hs)
    then have "k \<le> fst h" using hd_dropWhile [of "\<lambda>e. fst e < k" xs] by force
    moreover have "sorted_wrt (<) (map fst ?hi)"
      using assms \<open>xs = ?lo @ ?hi\<close> by (metis map_append sorted_wrt_append)
    ultimately show ?thesis using e Cons by (force simp: less_imp_le intro: order_trans)
  next
    case Nil
    with e show ?thesis by (simp only: list.set empty_iff)
  qed
qed

lemma map_of_append_disjoint:
  "(\<And>e. e \<in> set lo \<Longrightarrow> fst e \<noteq> k) \<Longrightarrow> map_of (lo @ hi) k = map_of hi k"
  by (fastforce simp: map_add_def dest!: map_of_SomeD split: option.splits)

lemma fm_find_Some:
  assumes "sorted_table xs" and "fm_find xs k = Some i"
  shows "i < length xs \<and> fst (xs ! i) = k \<and> map_of xs k = Some (snd (xs ! i))"
proof -
  obtain lo hi where s: "xs = lo @ hi" "length lo = lower_bound xs k" "\<And>e. e \<in> set lo \<Longrightarrow> fst e < k"
    using lower_bound_split [OF assms(1)] by metis
  have i: "i = length lo" "i < length xs" "fst (xs ! i) = k"
    using assms(2) s(2) by (auto simp: fm_find_def Let_def split: if_splits)
  then obtain h hs where hi: "hi = h # hs" using s(1) by (cases hi) auto
  have "map_of xs k = map_of hi k" unfolding s(1) using s(3) by (intro map_of_append_disjoint) auto
  with i hi s(1) show ?thesis by (cases h) auto
qed

lemma fm_find_None:
  assumes "sorted_table xs" and "fm_find xs k = None"
  shows "map_of xs k = None"
proof -
  obtain lo hi where s: "xs = lo @ hi" "length lo = lower_bound xs k" "\<And>e. e \<in> set lo \<Longrightarrow> fst e < k"
    "\<And>e. e \<in> set hi \<Longrightarrow> k \<le> fst e"
    using lower_bound_split [OF assms(1)] by metis
  have "k \<notin> fst ` set hi"
  proof
    assume "k \<in> fst ` set hi"
    then obtain h hs where hi: "hi = h # hs" by (cases hi) auto
    have "fst h \<noteq> k" using assms(2) s(1,2) hi by (auto simp: fm_find_def Let_def nth_append split: if_splits)
    then have "k < fst h" using s(4) [of h] hi by auto
    moreover have "sorted_wrt (<) (map fst hi)" using assms(1) s(1) by (simp add: sorted_wrt_append)
    ultimately show False using \<open>k \<in> fst ` set hi\<close> hi by (force dest: order.strict_trans)
  qed
  moreover have "k \<notin> fst ` set lo" using s(3) by force
  ultimately show ?thesis unfolding s(1) by (auto simp: map_of_eq_None_iff)
qed

lemma fm_find_map_of: "sorted_table xs \<Longrightarrow> map_of xs k = map_option (\<lambda>i. snd (xs ! i)) (fm_find xs k)"
  by (cases "fm_find xs k") (auto dest: fm_find_None fm_find_Some)

lemma fm_emplace_law:
  assumes "sorted_table xs" and "fm_find xs k = None" and "fm_emplace n xs k v = Some (ys, i)"
  shows "sorted_table ys \<and> map_of ys = (map_of xs)(k \<mapsto> v) \<and> i < length ys \<and> ys ! i = (k, v) \<and> mset ys = add_mset (k, v) (mset xs)
     \<and> length xs < n"
proof -
  obtain lo hi where s: "xs = lo @ hi" "length lo = lower_bound xs k" "\<And>e. e \<in> set lo \<Longrightarrow> fst e < k"
    "\<And>e. e \<in> set hi \<Longrightarrow> k \<le> fst e"
    using lower_bound_split [OF assms(1)] by metis
  have ys: "ys = lo @ (k, v) # hi" "i = length lo"
    using assms(3) s(1,2) by (auto simp: fm_emplace_def Let_def split: if_splits)
  have none: "map_of xs k = None" using fm_find_None [OF assms(1,2)] .
  then have "k \<noteq> fst e" if "e \<in> set hi" for e using that s(1) by (auto simp: map_of_eq_None_iff)
  with s(4) have "k < fst e" if "e \<in> set hi" for e using that by (metis order.not_eq_order_implies_strict)
  with s(1,3) assms(1) have "sorted_table ys" unfolding ys by (fastforce simp: sorted_wrt_append)
  moreover have "map_of lo k = None" using s(3) by (force simp: map_of_eq_None_iff)
  then have "map_of ys = (map_of xs)(k \<mapsto> v)"
    unfolding ys s(1) by (auto simp: fun_eq_iff map_add_def split: option.splits)
  moreover have "length xs < n" using assms(3) by (auto simp: fm_emplace_def split: if_splits)
  ultimately show ?thesis using ys s(1) by simp
qed

lemma fm_erase_law:
  assumes "sorted_table xs" and "i < length xs"
  shows "sorted_table (fm_erase i xs) \<and> map_of (fm_erase i xs) = (map_of xs)(fst (xs ! i) := None)
     \<and> mset xs = add_mset (xs ! i) (mset (fm_erase i xs))"
proof -
  have xs: "xs = take i xs @ xs ! i # drop (Suc i) xs" using assms(2) by (rule id_take_nth_drop)
  have sorted: "sorted_wrt (<) (map fst (take i xs) @ fst (xs ! i) # map fst (drop (Suc i) xs))"
    using assms(1) xs by (metis list.simps(9) map_append)
  then have "fst (xs ! i) \<notin> fst ` set (take i xs)" "fst (xs ! i) \<notin> fst ` set (drop (Suc i) xs)"
    by (auto simp: sorted_wrt_append)
  then have none: "map_of (take i xs) (fst (xs ! i)) = None" "map_of (drop (Suc i) xs) (fst (xs ! i)) = None"
    by (auto simp: map_of_eq_None_iff)
  have "map_of xs = map_of (take i xs @ (fst (xs ! i), snd (xs ! i)) # drop (Suc i) xs)" using xs by simp
  also have "\<dots> = (map_of (drop (Suc i) xs))(fst (xs ! i) \<mapsto> snd (xs ! i)) ++ map_of (take i xs)" by simp
  finally have "map_of (fm_erase i xs) = (map_of xs)(fst (xs ! i) := None)"
    using none by (auto simp: fm_erase_def fun_eq_iff map_add_def split: option.splits)
  moreover have "sorted_table (fm_erase i xs)" using sorted by (auto simp: fm_erase_def sorted_wrt_append)
  moreover have "mset xs = mset (take i xs @ xs ! i # drop (Suc i) xs)" using xs by simp
  ultimately show ?thesis by (simp add: fm_erase_def)
qed

lemma fm_write_law:
  assumes "sorted_table xs" and "i < length xs"
  shows "sorted_table (fm_write i v xs) \<and> map_of (fm_write i v xs) = (map_of xs)(fst (xs ! i) \<mapsto> v)
     \<and> length (fm_write i v xs) = length xs \<and> map fst (fm_write i v xs) = map fst xs"
proof -
  have fsts: "map fst (fm_write i v xs) = map fst xs"
    using assms(2) by (simp add: fm_write_def map_update) (metis list_update_id nth_map)
  have d: "distinct (map fst xs)" using assms(1) by (simp add: strict_sorted_iff)
  have "map_of (fm_write i v xs) k = ((map_of xs)(fst (xs ! i) \<mapsto> v)) k" for k
  proof -
    have dw: "distinct (map fst (fm_write i v xs))" using d fsts by simp
    show ?thesis
    proof (cases "k \<in> fst ` set xs")
      case False
      then show ?thesis using fsts assms(2)
        by (metis fun_upd_other list.set_map map_of_eq_None_iff nth_mem image_eqI)
    next
      case True
      then obtain j where j: "j < length xs" "fst (xs ! j) = k" by (auto simp: in_set_conv_nth)
      have "fm_write i v xs ! j \<in> set (fm_write i v xs)" using j(1) by (intro nth_mem) (simp add: fm_write_def)
      moreover have "fm_write i v xs ! j = (k, if j = i then v else snd (xs ! j))"
        using j assms(2) by (auto simp: fm_write_def nth_list_update prod_eq_iff)
      ultimately have "map_of (fm_write i v xs) k = Some (if j = i then v else snd (xs ! j))" using dw by simp
      moreover have "map_of xs k = Some (snd (xs ! j))" using d j nth_mem [OF j(1)] by (metis map_of_eq_Some_iff prod.collapse)
      moreover have "fst (xs ! i) = k \<longleftrightarrow> j = i" using d j assms(2) by (metis length_map nth_eq_iff_index_eq nth_map)
      ultimately show ?thesis by auto
    qed
  qed
  with assms fsts show ?thesis by (auto simp: fm_write_def)
qed


lemma lower_bound_keys: "lower_bound xs k = length (takeWhile (\<lambda>x. x < k) (map fst xs))"
  by (simp add: lower_bound_def takeWhile_map comp_def)

lemma fm_write_keys: "i < length xs \<Longrightarrow> map fst (fm_write i v xs) = map fst xs"
  by (simp add: fm_write_def map_update list_update_same_conv)

lemma fm_write_nth: "i < length xs \<Longrightarrow> fm_write i v xs ! i = (fst (xs ! i), v)"
  by (simp add: fm_write_def)

lemma fm_find_write: "i < length xs \<Longrightarrow> fm_find (fm_write i v xs) k = fm_find xs k"
  using fm_write_keys [of i xs v]
  by (auto simp: fm_find_def Let_def lower_bound_keys) (auto simp: fm_write_def nth_list_update split: if_splits)

lemma fm_erase_write: "fm_erase i (fm_write i v xs) = fm_erase i xs"
  by (simp add: fm_erase_def fm_write_def)

lemma fm_find_unique:
  assumes "sorted_table xs" and "i < length xs"
  shows "fm_find xs (fst (xs ! i)) = Some i"
proof (cases "fm_find xs (fst (xs ! i))")
  case None
  then have "fst (xs ! i) \<notin> fst ` set xs" using fm_find_None [OF assms(1)] by (simp add: map_of_eq_None_iff)
  with assms(2) show ?thesis by (metis image_eqI nth_mem)
next
  case (Some j)
  have "distinct (map fst xs)" using assms(1) by (simp add: strict_sorted_iff)
  with Some fm_find_Some [OF assms(1) Some] assms(2) show ?thesis by (metis length_map nth_eq_iff_index_eq nth_map)
qed

text \<open>The total weight of a table's values follows its updates.\<close>

abbreviation table_weight :: "('v \<Rightarrow> nat) \<Rightarrow> ('k \<times> 'v) list \<Rightarrow> nat" where
  "table_weight w xs \<equiv> sum_list (map (\<lambda>e. w (snd e)) xs)"

lemma table_weight_mset: "table_weight w xs = sum_mset (image_mset (\<lambda>e. w (snd e)) (mset xs))"
  by (simp add: sum_mset_sum_list [symmetric])

lemma table_weight_emplace:
  assumes "sorted_table xs" and "fm_find xs k = None" and "fm_emplace n xs k v = Some (ys, i)"
  shows "table_weight w ys = table_weight w xs + w v"
  using fm_emplace_law [OF assms] by (simp add: table_weight_mset)

lemma table_weight_erase:
  "sorted_table xs \<Longrightarrow> i < length xs \<Longrightarrow> table_weight w xs = w (snd (xs ! i)) + table_weight w (fm_erase i xs)"
  using fm_erase_law [of xs i] by (simp add: table_weight_mset)

lemma table_weight_write:
  assumes "i < length xs"
  shows "table_weight w (fm_write i v xs) + w (snd (xs ! i)) = table_weight w xs + w v"
proof -
  let ?f = "\<lambda>xs. map (\<lambda>e. w (snd e)) xs"
  have "table_weight w xs = table_weight w (take i xs) + (w (snd (xs ! i)) + table_weight w (drop (Suc i) xs))"
    using assms by (subst id_take_nth_drop [OF assms]) simp
  moreover have "table_weight w (fm_write i v xs) = table_weight w (take i xs) + (w v + table_weight w (drop (Suc i) xs))"
    using assms by (simp add: fm_write_def upd_conv_take_nth_drop)
  ultimately show ?thesis by simp
qed

lemma table_weight_dom:
  "distinct (map fst xs) \<Longrightarrow> table_weight w xs = (\<Sum>k\<in>dom (map_of xs). w (the (map_of xs k)))"
proof (induction xs)
  case (Cons x xs)
  obtain k v where x: "x = (k, v)" by (cases x)
  have k: "k \<notin> dom (map_of xs)" using Cons.prems by (simp add: x dom_map_of_conv_image_fst)
  have "(\<Sum>j\<in>dom (map_of xs). w (the (map_of (x # xs) j))) = (\<Sum>j\<in>dom (map_of xs). w (the (map_of xs j)))"
    using k by (intro sum.cong) (auto simp: x)
  moreover have d: "dom (map_of (x # xs)) = insert k (dom (map_of xs))" by (auto simp: x dom_def)
  have "(\<Sum>j\<in>dom (map_of (x # xs)). w (the (map_of (x # xs) j))) = w v + (\<Sum>j\<in>dom (map_of xs). w (the (map_of (x # xs) j)))"
    unfolding d using k finite_dom_map_of [of xs] by (simp add: x)
  ultimately show ?case using Cons by (simp only: list.map sum_list_simps x snd_conv distinct.simps)
qed simp

section \<open>The contract\<close>

text \<open>
  The operations a client of a keyed table uses, as the template parameter it is: \<open>t_upsert\<close> is
  \<open>at_or_insert\<close> followed by the write through the reference (\<open>None\<close> when a full table fails closed),
  \<open>t_modify\<close> a write through a found pointer, \<open>t_sweep\<close> the visit of every entry with a mutating
  callback, \<open>t_erase_if\<close> the removal of the entries that satisfy a predicate. The callbacks answer
  with the events they emit.
\<close>

record ('s, 'k, 'v, 'o) table_ops =
  t_find :: "'s \<Rightarrow> 'k \<Rightarrow> 'v option"
  t_upsert :: "'k \<Rightarrow> ('v \<Rightarrow> 'v \<times> 'o list) \<Rightarrow> 's \<Rightarrow> ('s \<times> 'o list) option"
  t_modify :: "'k \<Rightarrow> ('v \<Rightarrow> 'v) \<Rightarrow> 's \<Rightarrow> 's"
  t_erase :: "'k \<Rightarrow> 's \<Rightarrow> 's"
  t_sweep :: "('k \<Rightarrow> 'v \<Rightarrow> 'v \<times> 'o list) \<Rightarrow> 's \<Rightarrow> 's \<times> 'o list"
  t_erase_if :: "('k \<Rightarrow> 'v \<Rightarrow> bool) \<Rightarrow> 's \<Rightarrow> 's"

locale keyed_table =
  fixes ops :: "('s, 'k, 'v, 'o) table_ops"
    and inv :: "'s \<Rightarrow> bool"
    and dflt :: 'v
  assumes upsert_law: "inv s \<Longrightarrow> t_upsert ops k f s = Some (s', out) \<Longrightarrow>
      inv s' \<and> (let v = (case t_find ops s k of None \<Rightarrow> dflt | Some v \<Rightarrow> v) in
        t_find ops s' = (t_find ops s)(k \<mapsto> fst (f v)) \<and> out = snd (f v))"
    and upsert_present: "inv s \<Longrightarrow> t_find ops s k \<noteq> None \<Longrightarrow> t_upsert ops k f s \<noteq> None"
    and modify_law: "inv s \<Longrightarrow> inv (t_modify ops k g s)
      \<and> t_find ops (t_modify ops k g s) = (t_find ops s)(k := map_option g (t_find ops s k))"
    and erase_law: "inv s \<Longrightarrow> inv (t_erase ops k s) \<and> t_find ops (t_erase ops k s) = (t_find ops s)(k := None)"
    and sweep_law: "inv s \<Longrightarrow> t_sweep ops h s = (s', out) \<Longrightarrow>
      inv s' \<and> (\<forall>k. t_find ops s' k = map_option (\<lambda>v. fst (h k v)) (t_find ops s k))
      \<and> (\<exists>ks. distinct ks \<and> set ks = dom (t_find ops s) \<and> out = concat (map (\<lambda>k. snd (h k (the (t_find ops s k)))) ks))"
    and erase_if_law: "inv s \<Longrightarrow> inv (t_erase_if ops P s)
      \<and> (\<forall>k. t_find ops (t_erase_if ops P s) k =
          (case t_find ops s k of None \<Rightarrow> None | Some v \<Rightarrow> if P k v then None else Some v))"
    and finite_dom: "inv s \<Longrightarrow> finite (dom (t_find ops s))"
begin

lemma sweep_events:
  assumes "inv s" and "t_sweep ops f s = (s', out)"
  shows "e \<in> set out \<longleftrightarrow> (\<exists>k v. t_find ops s k = Some v \<and> e \<in> set (snd (f k v)))"
proof -
  obtain ks where "set ks = dom (t_find ops s)" "out = concat (map (\<lambda>k. snd (f k (the (t_find ops s k)))) ks)"
    using sweep_law [OF assms] by blast
  then show ?thesis by (force simp: dom_def)
qed

lemma upsert_find:
  assumes "inv s" and "t_upsert ops k f s = Some (s', out)"
  shows "inv s'" and "t_find ops s' k = Some (fst (f (case t_find ops s k of None \<Rightarrow> dflt | Some v \<Rightarrow> v)))"
    and "k' \<noteq> k \<Longrightarrow> t_find ops s' k' = t_find ops s k'"
    and "out = snd (f (case t_find ops s k of None \<Rightarrow> dflt | Some v \<Rightarrow> v))"
  using upsert_law [OF assms] by (simp_all add: Let_def)

end

section \<open>Two providers\<close>

subsection \<open>The ordered map\<close>

definition sm_find :: "('k :: linorder \<times> 'v) list \<Rightarrow> 'k \<Rightarrow> 'v option" where
  "sm_find xs k = map_option (\<lambda>i. snd (xs ! i)) (fm_find xs k)"

definition sm_upsert :: "'v \<Rightarrow> 'k :: linorder \<Rightarrow> ('v \<Rightarrow> 'v \<times> 'o list) \<Rightarrow> ('k \<times> 'v) list \<Rightarrow> (('k \<times> 'v) list \<times> 'o list) option" where
  "sm_upsert d k f xs =
     (case fm_find xs k of
        Some i \<Rightarrow> (let (v, out) = f (snd (xs ! i)) in Some (fm_write i v xs, out))
      | None \<Rightarrow> (let (v, out) = f d in map_option (\<lambda>(ys, _). (ys, out)) (fm_emplace (Suc (length xs)) xs k v)))"

definition sm_modify :: "'k :: linorder \<Rightarrow> ('v \<Rightarrow> 'v) \<Rightarrow> ('k \<times> 'v) list \<Rightarrow> ('k \<times> 'v) list" where
  "sm_modify k g xs = (case fm_find xs k of None \<Rightarrow> xs | Some i \<Rightarrow> fm_write i (g (snd (xs ! i))) xs)"

definition sm_erase :: "'k :: linorder \<Rightarrow> ('k \<times> 'v) list \<Rightarrow> ('k \<times> 'v) list" where
  "sm_erase k xs = (case fm_find xs k of None \<Rightarrow> xs | Some i \<Rightarrow> fm_erase i xs)"

definition sm_sweep :: "('k \<Rightarrow> 'v \<Rightarrow> 'v \<times> 'o list) \<Rightarrow> ('k \<times> 'v) list \<Rightarrow> ('k \<times> 'v) list \<times> 'o list" where
  "sm_sweep f xs = (map (\<lambda>(k, v). (k, fst (f k v))) xs, concat (map (\<lambda>(k, v). snd (f k v)) xs))"

definition sm_erase_if :: "('k \<Rightarrow> 'v \<Rightarrow> bool) \<Rightarrow> ('k \<times> 'v) list \<Rightarrow> ('k \<times> 'v) list" where
  "sm_erase_if P xs = filter (\<lambda>(k, v). \<not> P k v) xs"

definition std_map_ops :: "'v \<Rightarrow> (('k :: linorder \<times> 'v) list, 'k, 'v, 'o) table_ops" where
  "std_map_ops d = \<lparr>t_find = sm_find, t_upsert = sm_upsert d, t_modify = sm_modify, t_erase = sm_erase,
     t_sweep = sm_sweep, t_erase_if = sm_erase_if\<rparr>"

lemma sm_find_map_of: "sorted_table xs \<Longrightarrow> sm_find xs = map_of xs"
  by (simp add: fun_eq_iff sm_find_def fm_find_map_of)

lemma map_of_map_snd: "map_of (map (\<lambda>(k, v). (k, h k v)) xs) k = map_option (h k) (map_of xs k)"
  by (induction xs) auto

lemma map_of_filter_keys:
  "distinct (map fst xs) \<Longrightarrow>
   map_of (filter (\<lambda>(k, v). \<not> P k v) xs) k = (case map_of xs k of None \<Rightarrow> None | Some v \<Rightarrow> if P k v then None else Some v)"
  by (induction xs) (auto simp: map_of_eq_None_iff split: option.splits dest: weak_map_of_SomeI)

lemma sorted_table_distinct: "sorted_table xs \<Longrightarrow> distinct (map fst xs)"
  by (simp add: strict_sorted_iff)

lemma sm_upsert_law:
  assumes "sorted_table xs" and "sm_upsert d k f xs = Some (ys, out)"
  shows "sorted_table ys \<and> (let v = (case sm_find xs k of None \<Rightarrow> d | Some v \<Rightarrow> v) in
        sm_find ys = (sm_find xs)(k \<mapsto> fst (f v)) \<and> out = snd (f v))"
proof (cases "fm_find xs k")
  case None
  then have "sm_find xs k = None" by (simp add: sm_find_def)
  moreover obtain i where "fm_emplace (Suc (length xs)) xs k (fst (f d)) = Some (ys, i)" "out = snd (f d)"
    using assms(2) None by (auto simp: sm_upsert_def Let_def split: prod.splits)
  ultimately show ?thesis
    using fm_emplace_law [OF assms(1) None] by (simp add: sm_find_map_of [OF assms(1)] sm_find_map_of Let_def)
next
  case (Some i)
  note at = fm_find_Some [OF assms(1) Some]
  then have "sm_find xs k = Some (snd (xs ! i))" using Some by (simp add: sm_find_def)
  moreover have "ys = fm_write i (fst (f (snd (xs ! i)))) xs" "out = snd (f (snd (xs ! i)))"
    using assms(2) Some by (auto simp: sm_upsert_def Let_def split: prod.splits)
  moreover have "sorted_table (fm_write i v xs)" "map_of (fm_write i v xs) = (map_of xs)(k \<mapsto> v)" for v
    using fm_write_law [OF assms(1), of i v] at assms(1) by simp_all
  ultimately show ?thesis by (simp add: sm_find_map_of assms(1) Let_def)
qed

interpretation std_map: keyed_table "std_map_ops d :: (('k :: linorder \<times> 'v) list, 'k, 'v, 'o) table_ops" sorted_table d
  for d :: 'v
proof unfold_locales
  fix xs :: "('k :: linorder \<times> 'v) list" and k :: 'k and f :: "'v \<Rightarrow> 'v \<times> 'o list" and g :: "'v \<Rightarrow> 'v"
    and h :: "'k \<Rightarrow> 'v \<Rightarrow> 'v \<times> 'o list" and P :: "'k \<Rightarrow> 'v \<Rightarrow> bool" and ys out
  let ?ops = "std_map_ops d :: (('k \<times> 'v) list, 'k, 'v, 'o) table_ops"
  assume s: "sorted_table xs"
  show "sorted_table ys \<and> (let v = (case t_find ?ops xs k of None \<Rightarrow> d | Some v \<Rightarrow> v) in
        t_find ?ops ys = (t_find ?ops xs)(k \<mapsto> fst (f v)) \<and> out = snd (f v))"
    if "t_upsert ?ops k f xs = Some (ys, out)"
    using sm_upsert_law [OF s] that by (simp add: std_map_ops_def)
  show "t_upsert ?ops k f xs \<noteq> None"
    by (auto simp: std_map_ops_def sm_upsert_def fm_emplace_def Let_def split: option.splits prod.splits)
  show "sorted_table (t_modify ?ops k g xs) \<and> t_find ?ops (t_modify ?ops k g xs) = (t_find ?ops xs)(k := map_option g (t_find ?ops xs k))"
  proof (cases "fm_find xs k")
    case None
    with s show ?thesis by (auto simp: std_map_ops_def sm_modify_def sm_find_def fun_eq_iff)
  next
    case (Some i)
    note fm_find_Some [OF s Some]
    with fm_write_law [OF s, of i "g (snd (xs ! i))"] Some s show ?thesis
      by (auto simp: std_map_ops_def sm_modify_def sm_find_map_of fun_eq_iff)
  qed
  show "sorted_table (t_erase ?ops k xs) \<and> t_find ?ops (t_erase ?ops k xs) = (t_find ?ops xs)(k := None)"
  proof (cases "fm_find xs k")
    case None
    with s show ?thesis by (auto simp: std_map_ops_def sm_erase_def sm_find_def fun_eq_iff)
  next
    case (Some i)
    note fm_find_Some [OF s Some]
    with fm_erase_law [OF s, of i] Some s show ?thesis
      by (auto simp: std_map_ops_def sm_erase_def sm_find_map_of)
  qed
  show "sorted_table ys \<and> (\<forall>k. t_find ?ops ys k = map_option (\<lambda>v. fst (h k v)) (t_find ?ops xs k))
      \<and> (\<exists>ks. distinct ks \<and> set ks = dom (t_find ?ops xs) \<and> out = concat (map (\<lambda>k. snd (h k (the (t_find ?ops xs k)))) ks))"
    if sw: "t_sweep ?ops h xs = (ys, out)"
  proof -
    have ys: "ys = map (\<lambda>(k, v). (k, fst (h k v))) xs" and out: "out = concat (map (\<lambda>(k, v). snd (h k v)) xs)"
      using sw by (simp_all add: std_map_ops_def sm_sweep_def)
    have fsts: "map fst ys = map fst xs" unfolding ys by (simp add: comp_def split_beta)
    then have sy: "sorted_table ys" using s by simp
    have "map (\<lambda>(k, v). snd (h k v)) xs = map (\<lambda>k. snd (h k (the (map_of xs k)))) (map fst xs)"
      using sorted_table_distinct [OF s] by (auto simp: map_of_is_SomeI)
    with out have "out = concat (map (\<lambda>k. snd (h k (the (map_of xs k)))) (map fst xs))" by (simp only:)
    then have "\<exists>ks. distinct ks \<and> set ks = dom (map_of xs) \<and> out = concat (map (\<lambda>k. snd (h k (the (map_of xs k)))) ks)"
      using sorted_table_distinct [OF s] by (intro exI [of _ "map fst xs"]) (simp add: dom_map_of_conv_image_fst)
    moreover have "\<forall>k. map_of ys k = map_option (\<lambda>v. fst (h k v)) (map_of xs k)"
      unfolding ys by (simp add: map_of_map_snd)
    ultimately show ?thesis using sy by (simp add: std_map_ops_def sm_find_map_of s)
  qed
  show "sorted_table (t_erase_if ?ops P xs) \<and> (\<forall>k. t_find ?ops (t_erase_if ?ops P xs) k =
          (case t_find ?ops xs k of None \<Rightarrow> None | Some v \<Rightarrow> if P k v then None else Some v))"
  proof -
    have "sorted_table (filter (\<lambda>(k, v). \<not> P k v) xs)" using s by (simp add: sorted_wrt_map sorted_wrt_filter)
    then show ?thesis using s sorted_table_distinct [OF s]
      by (simp add: std_map_ops_def sm_erase_if_def sm_find_map_of map_of_filter_keys)
  qed
  show "finite (dom (t_find ?ops xs))" using s by (simp add: std_map_ops_def sm_find_map_of finite_dom_map_of)
qed


subsection \<open>The fixed-capacity flat map\<close>

record ('k, 'v) flat_slot =
  fs_key :: 'k
  fs_value :: 'v
  fs_occupied :: bool

type_synonym ('k, 'v) fixed_flat_map = "('k, 'v) flat_slot list"

definition fixed_flat_map_init :: "nat \<Rightarrow> 'k \<Rightarrow> 'v \<Rightarrow> ('k, 'v) fixed_flat_map" where
  "fixed_flat_map_init n k v = replicate n \<lparr>fs_key = k, fs_value = v, fs_occupied = False\<rparr>"

fun ffm_locate :: "('k, 'v) fixed_flat_map \<Rightarrow> 'k \<Rightarrow> nat option" where
  "ffm_locate [] key = None"
| "ffm_locate (s # slots) key =
     (if fs_occupied s \<and> fs_key s = key then Some 0 else map_option Suc (ffm_locate slots key))"

fun ffm_first_free :: "('k, 'v) fixed_flat_map \<Rightarrow> nat option" where
  "ffm_first_free [] = None"
| "ffm_first_free (s # slots) = (if \<not> fs_occupied s then Some 0 else map_option Suc (ffm_first_free slots))"

definition ffm_at_or_insert :: "'v \<Rightarrow> 'k \<Rightarrow> ('k, 'v) fixed_flat_map \<Rightarrow> (('k, 'v) fixed_flat_map \<times> nat) option" where
  "ffm_at_or_insert d key slots =
     (case ffm_locate slots key of
        Some i \<Rightarrow> Some (slots, i)
      | None \<Rightarrow> (case ffm_first_free slots of
          Some i \<Rightarrow> Some (slots[i := \<lparr>fs_key = key, fs_value = d, fs_occupied = True\<rparr>], i)
        | None \<Rightarrow> None))"

definition ffm_find :: "('k, 'v) fixed_flat_map \<Rightarrow> 'k \<Rightarrow> 'v option" where
  "ffm_find slots key = map_option (\<lambda>i. fs_value (slots ! i)) (ffm_locate slots key)"

definition ffm_write :: "nat \<Rightarrow> 'v \<Rightarrow> ('k, 'v) fixed_flat_map \<Rightarrow> ('k, 'v) fixed_flat_map" where
  "ffm_write i v slots = slots[i := (slots ! i)\<lparr>fs_value := v\<rparr>]"

definition ffm_upsert :: "'v \<Rightarrow> 'k \<Rightarrow> ('v \<Rightarrow> 'v \<times> 'o list) \<Rightarrow> ('k, 'v) fixed_flat_map \<Rightarrow> (('k, 'v) fixed_flat_map \<times> 'o list) option" where
  "ffm_upsert d key f slots = do {
     (slots, i) \<leftarrow> ffm_at_or_insert d key slots;
     let (v, out) = f (fs_value (slots ! i)) in Some (ffm_write i v slots, out)
   }"

definition ffm_modify :: "'k \<Rightarrow> ('v \<Rightarrow> 'v) \<Rightarrow> ('k, 'v) fixed_flat_map \<Rightarrow> ('k, 'v) fixed_flat_map" where
  "ffm_modify key g slots =
     (case ffm_locate slots key of None \<Rightarrow> slots | Some i \<Rightarrow> ffm_write i (g (fs_value (slots ! i))) slots)"

definition ffm_erase :: "'k \<Rightarrow> ('k, 'v) fixed_flat_map \<Rightarrow> ('k, 'v) fixed_flat_map" where
  "ffm_erase key slots =
     (case ffm_locate slots key of None \<Rightarrow> slots | Some i \<Rightarrow> slots[i := (slots ! i)\<lparr>fs_occupied := False\<rparr>])"

definition ffm_for_each :: "('k \<Rightarrow> 'v \<Rightarrow> 'v \<times> 'o list) \<Rightarrow> ('k, 'v) fixed_flat_map \<Rightarrow> ('k, 'v) fixed_flat_map \<times> 'o list" where
  "ffm_for_each f slots =
     (map (\<lambda>s. if fs_occupied s then s\<lparr>fs_value := fst (f (fs_key s) (fs_value s))\<rparr> else s) slots,
      concat (map (\<lambda>s. if fs_occupied s then snd (f (fs_key s) (fs_value s)) else []) slots))"

definition ffm_erase_if :: "('k \<Rightarrow> 'v \<Rightarrow> bool) \<Rightarrow> ('k, 'v) fixed_flat_map \<Rightarrow> ('k, 'v) fixed_flat_map" where
  "ffm_erase_if P slots = map (\<lambda>s. if fs_occupied s \<and> P (fs_key s) (fs_value s) then s\<lparr>fs_occupied := False\<rparr> else s) slots"

definition fixed_map_ops :: "'v \<Rightarrow> (('k, 'v) fixed_flat_map, 'k, 'v, 'o) table_ops" where
  "fixed_map_ops d = \<lparr>t_find = ffm_find, t_upsert = ffm_upsert d, t_modify = ffm_modify, t_erase = ffm_erase,
     t_sweep = ffm_for_each, t_erase_if = ffm_erase_if\<rparr>"

text \<open>The occupied slots as an association list.\<close>

definition ffm_live :: "('k, 'v) fixed_flat_map \<Rightarrow> ('k \<times> 'v) list" where
  "ffm_live slots = map (\<lambda>s. (fs_key s, fs_value s)) (filter fs_occupied slots)"

definition ffm_inv :: "('k, 'v) fixed_flat_map \<Rightarrow> bool" where
  "ffm_inv slots \<longleftrightarrow> distinct (map fst (ffm_live slots))"

lemma ffm_locate_None: "ffm_locate slots k = None \<longleftrightarrow> k \<notin> fst ` set (ffm_live slots)"
  by (induction slots) (auto simp: ffm_live_def)

lemma ffm_locate_Some: "ffm_locate slots k = Some i \<Longrightarrow> i < length slots \<and> fs_occupied (slots ! i) \<and> fs_key (slots ! i) = k"
  by (induction slots arbitrary: i) (auto split: if_splits)

lemma ffm_first_free_Some: "ffm_first_free slots = Some i \<Longrightarrow> i < length slots \<and> \<not> fs_occupied (slots ! i)"
  by (induction slots arbitrary: i) (auto split: if_splits)

lemma ffm_first_free_None: "ffm_first_free slots = None \<longleftrightarrow> length (ffm_live slots) = length slots"
proof (induction slots)
  case (Cons s slots)
  have "length (filter fs_occupied slots) \<noteq> Suc (length slots)"
    using length_filter_le [of fs_occupied slots] by linarith
  with Cons show ?case by (auto simp: ffm_live_def)
qed (simp add: ffm_live_def)

lemma ffm_find_map_of: "ffm_find slots = map_of (ffm_live slots)"
proof
  show "ffm_find slots k = map_of (ffm_live slots) k" for k
    by (induction slots) (auto simp: ffm_find_def ffm_live_def option.map_comp comp_def)
qed

lemma ffm_live_split:
  "i < length slots \<Longrightarrow> ffm_live (slots[i := x]) =
     ffm_live (take i slots) @ (if fs_occupied x then [(fs_key x, fs_value x)] else []) @ ffm_live (drop (Suc i) slots)"
  by (simp add: ffm_live_def upd_conv_take_nth_drop)

lemma ffm_live_at:
  "i < length slots \<Longrightarrow> ffm_live slots =
     ffm_live (take i slots) @ (if fs_occupied (slots ! i) then [(fs_key (slots ! i), fs_value (slots ! i))] else [])
       @ ffm_live (drop (Suc i) slots)"
  using ffm_live_split [of i slots "slots ! i"] by simp

lemma map_of_middle:
  "k \<notin> fst ` set xs \<Longrightarrow> k \<notin> fst ` set ys \<Longrightarrow> map_of (xs @ (k, v) # ys) = (map_of (xs @ ys))(k \<mapsto> v)"
  by (auto simp: fun_eq_iff map_add_def map_of_eq_None_iff [symmetric] split: option.splits)

lemma ffm_set_slot:
  assumes "ffm_inv slots" and "i < length slots"
    and "\<not> fs_occupied (slots ! i) \<and> fs_key x \<notin> fst ` set (ffm_live slots)
      \<or> fs_occupied (slots ! i) \<and> fs_key x = fs_key (slots ! i)"
  shows "ffm_inv (slots[i := x])
     \<and> ffm_find (slots[i := x]) = (ffm_find slots)(fs_key x := if fs_occupied x then Some (fs_value x) else None)"
proof -
  let ?l = "ffm_live (take i slots)" and ?r = "ffm_live (drop (Suc i) slots)"
  note live = ffm_live_at [OF assms(2)] and upd = ffm_live_split [OF assms(2), of x]
  have fresh: "fs_key x \<notin> fst ` set ?l" "fs_key x \<notin> fst ` set ?r" and d: "distinct (map fst (?l @ ?r))"
    using assms(1,3) unfolding ffm_inv_def live by auto
  have old: "(ffm_find slots)(fs_key x := o') = (map_of (?l @ ?r))(fs_key x := o')" for o'
  proof (cases "fs_occupied (slots ! i)")
    case True
    then have "fs_key x = fs_key (slots ! i)" using assms(3) by simp
    then have "ffm_find slots = (map_of (?l @ ?r))(fs_key x \<mapsto> fs_value (slots ! i))"
      using True map_of_middle [OF fresh, of "fs_value (slots ! i)"]
      unfolding ffm_find_map_of live by (simp del: map_of_append)
    then show ?thesis by simp
  qed (simp add: ffm_find_map_of live)
  have none: "map_of (?l @ ?r) (fs_key x) = None" using fresh by (auto simp: map_of_eq_None_iff)
  show ?thesis
  proof (cases "fs_occupied x")
    case True
    then show ?thesis using fresh d map_of_middle [OF fresh, of "fs_value x"] unfolding ffm_inv_def upd old
      by (simp add: ffm_find_map_of upd del: map_of_append)
  next
    case False
    then show ?thesis using d none unfolding ffm_inv_def upd old by (simp add: ffm_find_map_of upd fun_upd_idem)
  qed
qed


lemma ffm_write_eq:
  "ffm_locate slots k = Some i \<Longrightarrow> ffm_inv slots \<Longrightarrow>
   ffm_inv (ffm_write i v slots) \<and> ffm_find (ffm_write i v slots) = (ffm_find slots)(k \<mapsto> v)"
  using ffm_set_slot [of slots i "(slots ! i)\<lparr>fs_value := v\<rparr>"] ffm_locate_Some [of slots k i]
  by (simp add: ffm_write_def)

lemma ffm_locate_unique:
  assumes "ffm_inv slots" and "i < length slots" and "fs_occupied (slots ! i)"
  shows "ffm_find slots (fs_key (slots ! i)) = Some (fs_value (slots ! i))"
proof -
  have "(fs_key (slots ! i), fs_value (slots ! i)) \<in> set (ffm_live slots)" using assms(2,3) by (auto simp: ffm_live_def)
  with assms(1) show ?thesis by (simp add: ffm_find_map_of ffm_inv_def)
qed

lemma ffm_upsert_law:
  assumes "ffm_inv slots" and "ffm_upsert d k f slots = Some (slots', out)"
  shows "ffm_inv slots' \<and> (let v = (case ffm_find slots k of None \<Rightarrow> d | Some v \<Rightarrow> v) in
        ffm_find slots' = (ffm_find slots)(k \<mapsto> fst (f v)) \<and> out = snd (f v))"
proof (cases "ffm_locate slots k")
  case (Some i)
  then have "ffm_find slots k = Some (fs_value (slots ! i))" by (simp add: ffm_find_def)
  moreover have "slots' = ffm_write i (fst (f (fs_value (slots ! i)))) slots" "out = snd (f (fs_value (slots ! i)))"
    using assms(2) Some by (auto simp: ffm_upsert_def ffm_at_or_insert_def Let_def split: prod.splits)
  ultimately show ?thesis using ffm_write_eq [OF Some assms(1)] by (simp add: Let_def)
next
  case None
  then have n: "ffm_find slots k = None" "k \<notin> fst ` set (ffm_live slots)"
    by (simp_all add: ffm_find_def ffm_locate_None [symmetric])
  obtain i where i: "ffm_first_free slots = Some i"
    using assms(2) None by (auto simp: ffm_upsert_def ffm_at_or_insert_def split: option.splits)
  note free = ffm_first_free_Some [OF i]
  have s': "slots' = slots[i := \<lparr>fs_key = k, fs_value = fst (f d), fs_occupied = True\<rparr>]" "out = snd (f d)"
    using assms(2) None i free by (auto simp: ffm_upsert_def ffm_at_or_insert_def ffm_write_def Let_def split: prod.splits)
  show ?thesis
    using ffm_set_slot [OF assms(1), of i "\<lparr>fs_key = k, fs_value = fst (f d), fs_occupied = True\<rparr>"] free n s' by simp
qed

lemma ffm_live_for_each:
  "ffm_live (fst (ffm_for_each f slots)) = map (\<lambda>(k, v). (k, fst (f k v))) (ffm_live slots)"
  "snd (ffm_for_each f slots) = concat (map (\<lambda>(k, v). snd (f k v)) (ffm_live slots))"
  by (induction slots) (auto simp: ffm_for_each_def ffm_live_def)

lemma ffm_live_erase_if: "ffm_live (ffm_erase_if P slots) = filter (\<lambda>(k, v). \<not> P k v) (ffm_live slots)"
  by (induction slots) (auto simp: ffm_erase_if_def ffm_live_def)

interpretation fixed_map: keyed_table "fixed_map_ops d :: (('k, 'v) fixed_flat_map, 'k, 'v, 'o) table_ops" ffm_inv d
  for d :: 'v
proof unfold_locales
  fix s s' :: "('k, 'v) fixed_flat_map" and k :: 'k and f :: "'v \<Rightarrow> 'v \<times> 'o list" and g :: "'v \<Rightarrow> 'v"
    and h :: "'k \<Rightarrow> 'v \<Rightarrow> 'v \<times> 'o list" and P :: "'k \<Rightarrow> 'v \<Rightarrow> bool" and out :: "'o list"
  let ?ops = "fixed_map_ops d :: (('k, 'v) fixed_flat_map, 'k, 'v, 'o) table_ops"
  assume s: "ffm_inv s"
  show "ffm_inv s' \<and> (let v = (case t_find ?ops s k of None \<Rightarrow> d | Some v \<Rightarrow> v) in
        t_find ?ops s' = (t_find ?ops s)(k \<mapsto> fst (f v)) \<and> out = snd (f v))"
    if "t_upsert ?ops k f s = Some (s', out)"
    using ffm_upsert_law [OF s] that by (simp add: fixed_map_ops_def)
  show "t_upsert ?ops k f s \<noteq> None" if "t_find ?ops s k \<noteq> None"
    using that by (auto simp: fixed_map_ops_def ffm_upsert_def ffm_at_or_insert_def ffm_find_def Let_def split: prod.splits)
  show "ffm_inv (t_modify ?ops k g s) \<and> t_find ?ops (t_modify ?ops k g s) = (t_find ?ops s)(k := map_option g (t_find ?ops s k))"
  proof (cases "ffm_locate s k")
    case None
    with s show ?thesis by (auto simp: fixed_map_ops_def ffm_modify_def ffm_find_def fun_eq_iff)
  next
    case (Some i)
    then show ?thesis using ffm_write_eq [OF Some s]
      by (simp add: fixed_map_ops_def ffm_modify_def) (simp add: ffm_find_def)
  qed
  show "ffm_inv (t_erase ?ops k s) \<and> t_find ?ops (t_erase ?ops k s) = (t_find ?ops s)(k := None)"
  proof (cases "ffm_locate s k")
    case None
    with s show ?thesis by (auto simp: fixed_map_ops_def ffm_erase_def ffm_find_def fun_eq_iff)
  next
    case (Some i)
    then show ?thesis using ffm_set_slot [OF s, of i "(s ! i)\<lparr>fs_occupied := False\<rparr>"] ffm_locate_Some [OF Some]
      by (simp add: fixed_map_ops_def ffm_erase_def)
  qed
  have d: "distinct (map fst (ffm_live s))" using s by (simp add: ffm_inv_def)
  show "ffm_inv s' \<and> (\<forall>k. t_find ?ops s' k = map_option (\<lambda>v. fst (h k v)) (t_find ?ops s k))
      \<and> (\<exists>ks. distinct ks \<and> set ks = dom (t_find ?ops s) \<and> out = concat (map (\<lambda>k. snd (h k (the (t_find ?ops s k)))) ks))"
    if sw: "t_sweep ?ops h s = (s', out)"
  proof -
    have live: "ffm_live s' = map (\<lambda>(k, v). (k, fst (h k v))) (ffm_live s)"
      and out: "out = concat (map (\<lambda>(k, v). snd (h k v)) (ffm_live s))"
      using ffm_live_for_each [of h s] sw by (simp_all add: fixed_map_ops_def)
    have "map fst (ffm_live s') = map fst (ffm_live s)" unfolding live by (simp add: comp_def split_beta)
    then have "ffm_inv s'" using d by (simp add: ffm_inv_def)
    moreover have "\<forall>k. t_find ?ops s' k = map_option (\<lambda>v. fst (h k v)) (t_find ?ops s k)"
      by (simp add: fixed_map_ops_def ffm_find_map_of live map_of_map_snd)
    moreover have "map (\<lambda>(k, v). snd (h k v)) (ffm_live s) = map (\<lambda>k. snd (h k (the (map_of (ffm_live s) k)))) (map fst (ffm_live s))"
      using d by (auto simp: map_of_is_SomeI)
    with out have "out = concat (map (\<lambda>k. snd (h k (the (map_of (ffm_live s) k)))) (map fst (ffm_live s)))" by (simp only:)
    then have "\<exists>ks. distinct ks \<and> set ks = dom (t_find ?ops s) \<and> out = concat (map (\<lambda>k. snd (h k (the (t_find ?ops s k)))) ks)"
      using d by (intro exI [of _ "map fst (ffm_live s)"])
        (simp add: fixed_map_ops_def ffm_find_map_of dom_map_of_conv_image_fst)
    ultimately show ?thesis by blast
  qed
  show "ffm_inv (t_erase_if ?ops P s) \<and> (\<forall>k. t_find ?ops (t_erase_if ?ops P s) k =
          (case t_find ?ops s k of None \<Rightarrow> None | Some v \<Rightarrow> if P k v then None else Some v))"
    using d by (simp add: fixed_map_ops_def ffm_inv_def ffm_find_map_of ffm_live_erase_if map_of_filter_keys
        distinct_map_filter)
  show "finite (dom (t_find ?ops s))" by (simp add: fixed_map_ops_def ffm_find_map_of finite_dom_map_of)
qed

text \<open>The fixed map refuses exactly a new key at capacity.\<close>

lemma ffm_upsert_refuses:
  "ffm_upsert d k f slots = None \<longleftrightarrow> ffm_find slots k = None \<and> length (ffm_live slots) = length slots"
  by (auto simp: ffm_upsert_def ffm_at_or_insert_def ffm_find_def ffm_first_free_None [symmetric] Let_def
      split: option.splits prod.splits)

end
