(* ===== verification/Qos.thy ===== *)
theory Qos
  imports Subscribe_Codec
begin

text \<open>
  The quality-of-service vocabulary (\<open>topic_qos.h\<close>, \<open>io/subscriber_qos.h\<close> and the small enumerations
  they use), its wire form (\<open>io/subscribe_qos_wire.h\<close>), the request-versus-offer relations
  (\<open>io/qos_rxo.h\<close>) and the per-topic message ceiling. Enumerations that arrive from the wire unchecked
  (\<open>durability\<close>, \<open>delivery\<close>) and bit masks are bytes; the others are datatypes.
\<close>

section \<open>Vocabulary\<close>

datatype priority = background | normal | high | realtime

datatype congestion = block | drop_oldest | drop_newest

datatype reliability = rel_best_effort | rel_reliable

datatype io_error =
  connection_refused | broken_pipe | connection_reset | timed_out | address_in_use | operation_aborted
  | message_too_large | would_block | unknown

type_synonym locality = u8

definition loc_process :: locality where "loc_process = 1"
definition loc_local :: locality where "loc_local = 2"
definition loc_remote :: locality where "loc_remote = 4"
definition loc_any :: locality where "loc_any = loc_process OR loc_local OR loc_remote"

definition locality_complement :: "locality \<Rightarrow> locality" where
  "locality_complement a = NOT a AND loc_any"

definition locality_any_set :: "locality \<Rightarrow> locality \<Rightarrow> bool" where
  "locality_any_set m tier \<longleftrightarrow> m AND tier \<noteq> 0"

definition tier_of :: "string \<Rightarrow> locality" where
  "tier_of scheme = (if scheme = ''inproc'' then loc_process else if scheme = ''unix'' then loc_local else loc_remote)"

type_synonym dispatch_hint = u8

definition hint_none :: dispatch_hint where "hint_none = 0"

definition hint_any_set :: "dispatch_hint \<Rightarrow> bool" where
  "hint_any_set h \<longleftrightarrow> h \<noteq> 0"

definition scheme_is_reliable :: "string \<Rightarrow> bool" where
  "scheme_is_reliable scheme \<longleftrightarrow> scheme = ''udpr'' \<or> scheme = ''tcp'' \<or> scheme = ''tls'' \<or> scheme = ''unix'' \<or> scheme = ''inproc''"

text \<open>The drop vocabulary of \<open>io/detail/drop_event.h\<close>; a constructor carries its enumerator's name.\<close>

datatype drop_cause =
  dc_none | dc_drop_oldest | dc_drop_newest | dc_blocked | dc_replay | dc_too_old | dc_tamper | dc_reassembly_evicted
  | dc_reassembly_cap | dc_malformed | dc_demux_refused | dc_arq_shed | dc_unroutable | dc_closed_unsent

record drop_event =
  de_cause :: drop_cause
  de_transport :: locality
  de_band :: u8
  de_topic_hash :: u64
  de_peer :: bytes
  de_count :: u64

definition default_drop_event :: drop_event where
  "default_drop_event = \<lparr>de_cause = dc_none, de_transport = loc_any, de_band = 0, de_topic_hash = 0,
     de_peer = replicate 16 0, de_count = 1\<rparr>"

record topic_qos =
  tq_latch :: bool
  tq_depth :: u32
  tq_reach :: locality
  tq_reliability :: reliability
  tq_congestion :: congestion
  tq_priority :: priority
  tq_dispatch :: dispatch_hint
  tq_max_message_bytes :: u32
  tq_offered_deadline_ns :: u64
  tq_offered_lease_ns :: u64

definition default_topic_qos :: topic_qos where
  "default_topic_qos = \<lparr>tq_latch = False, tq_depth = 1, tq_reach = loc_any, tq_reliability = rel_best_effort,
     tq_congestion = block, tq_priority = normal, tq_dispatch = hint_none, tq_max_message_bytes = 0,
     tq_offered_deadline_ns = 0, tq_offered_lease_ns = 0\<rparr>"

type_synonym durability = u8

definition dur_none :: durability where "dur_none = 0"
definition dur_latest :: durability where "dur_latest = 1"
definition dur_all :: durability where "dur_all = 2"

type_synonym delivery_mode = u8

definition delivery_push :: delivery_mode where "delivery_push = 0"
definition delivery_pull :: delivery_mode where "delivery_pull = 1"

datatype rxo_mode = rxo_permissive | rxo_strict

datatype attach_posture = posture_lenient | posture_strict

record subscriber_qos =
  uq_durability_mode :: durability
  uq_delivery_mode :: delivery_mode
  uq_replay_depth :: u32
  uq_requires_source_identity :: bool
  uq_requested_reliability_reliable :: bool
  uq_requested_deadline_ns :: u64
  uq_requested_lease_ns :: u64
  uq_requested_priority :: u8
  uq_requested_max_message_bytes :: u32
  uq_rxo :: rxo_mode
  uq_posture :: attach_posture
  uq_wants_message_info :: bool
  uq_dispatch :: dispatch_hint

definition default_subscriber_qos :: subscriber_qos where
  "default_subscriber_qos = \<lparr>uq_durability_mode = dur_none, uq_delivery_mode = delivery_push, uq_replay_depth = 0,
     uq_requires_source_identity = False, uq_requested_reliability_reliable = False, uq_requested_deadline_ns = 0,
     uq_requested_lease_ns = 0, uq_requested_priority = 0, uq_requested_max_message_bytes = 0, uq_rxo = rxo_permissive,
     uq_posture = posture_lenient, uq_wants_message_info = True, uq_dispatch = hint_none\<rparr>"


section \<open>The wire form\<close>

definition k_qos_flag_requires_source_identity :: u8 where "k_qos_flag_requires_source_identity = 1"
definition k_qos_flag_requested_reliable :: u8 where "k_qos_flag_requested_reliable = 2"
definition k_qos_flag_rxo_strict :: u8 where "k_qos_flag_rxo_strict = 4"
definition k_qos_flag_typed_strict :: u8 where "k_qos_flag_typed_strict = 8"

lemmas qos_flags = k_qos_flag_requires_source_identity_def k_qos_flag_requested_reliable_def
  k_qos_flag_rxo_strict_def k_qos_flag_typed_strict_def

definition to_wire_region :: "subscriber_qos \<Rightarrow> subscribe_qos_region" where
  "to_wire_region q =
     (let flags = 0;
          flags = (if uq_requires_source_identity q then flags OR k_qos_flag_requires_source_identity else flags);
          flags = (if uq_requested_reliability_reliable q then flags OR k_qos_flag_requested_reliable else flags);
          flags = (if uq_rxo q = rxo_strict then flags OR k_qos_flag_rxo_strict else flags);
          flags = (if uq_posture q = posture_strict then flags OR k_qos_flag_typed_strict else flags)
      in \<lparr>sq_durability = uq_durability_mode q, sq_delivery_mode = uq_delivery_mode q, sq_replay_depth = uq_replay_depth q,
          sq_requested_flags = flags, sq_requested_deadline_ns = uq_requested_deadline_ns q,
          sq_requested_lease_ns = uq_requested_lease_ns q, sq_requested_priority = uq_requested_priority q,
          sq_requested_max_message_bytes = uq_requested_max_message_bytes q\<rparr>)"

definition from_wire_region :: "subscribe_qos_region \<Rightarrow> subscriber_qos" where
  "from_wire_region r = default_subscriber_qos\<lparr>
     uq_durability_mode := sq_durability r, uq_delivery_mode := sq_delivery_mode r, uq_replay_depth := sq_replay_depth r,
     uq_requires_source_identity := (sq_requested_flags r AND k_qos_flag_requires_source_identity \<noteq> 0),
     uq_requested_reliability_reliable := (sq_requested_flags r AND k_qos_flag_requested_reliable \<noteq> 0),
     uq_requested_deadline_ns := sq_requested_deadline_ns r, uq_requested_lease_ns := sq_requested_lease_ns r,
     uq_requested_priority := sq_requested_priority r, uq_requested_max_message_bytes := sq_requested_max_message_bytes r,
     uq_rxo := (if sq_requested_flags r AND k_qos_flag_rxo_strict \<noteq> 0 then rxo_strict else rxo_permissive),
     uq_posture := (if sq_requested_flags r AND k_qos_flag_typed_strict \<noteq> 0 then posture_strict else posture_lenient)\<rparr>"

section \<open>Request versus offer\<close>

definition effective_max :: "topic_qos \<Rightarrow> nat \<Rightarrow> nat" where
  "effective_max t global_default =
     (if tq_max_message_bytes t \<noteq> 0 then unat (tq_max_message_bytes t) else global_default)"

definition reliability_compatible :: "reliability \<Rightarrow> bool \<Rightarrow> bool" where
  "reliability_compatible offered requested_reliable \<longleftrightarrow> \<not> requested_reliable \<or> offered = rel_reliable"

definition durability_compatible :: "bool \<Rightarrow> durability \<Rightarrow> bool" where
  "durability_compatible offered_latch requested \<longleftrightarrow> requested = dur_none \<or> offered_latch"

definition deadline_compatible :: "u64 \<Rightarrow> u64 \<Rightarrow> bool" where
  "deadline_compatible offered_period requested_period \<longleftrightarrow>
     offered_period = 0 \<or> requested_period = 0 \<or> offered_period \<le> requested_period"

definition lease_compatible :: "u64 \<Rightarrow> u64 \<Rightarrow> bool" where
  "lease_compatible offered_lease requested_lease \<longleftrightarrow>
     offered_lease = 0 \<or> requested_lease = 0 \<or> offered_lease \<le> requested_lease"

definition source_identity_compatible :: "bool \<Rightarrow> bool \<Rightarrow> bool" where
  "source_identity_compatible offered_emit requires_sid \<longleftrightarrow> \<not> requires_sid \<or> offered_emit"

definition max_message_bytes_compatible :: "nat \<Rightarrow> u32 \<Rightarrow> bool" where
  "max_message_bytes_compatible offered_effective_max requested_max \<longleftrightarrow>
     requested_max = 0 \<or> offered_effective_max \<le> unat requested_max"

definition k_rxo_field_reliability :: u8 where "k_rxo_field_reliability = 0x01"
definition k_rxo_field_durability :: u8 where "k_rxo_field_durability = 0x02"
definition k_rxo_field_deadline :: u8 where "k_rxo_field_deadline = 0x04"
definition k_rxo_field_lease :: u8 where "k_rxo_field_lease = 0x08"
definition k_rxo_field_max_message_bytes :: u8 where "k_rxo_field_max_message_bytes = 0x10"

lemmas rxo_fields = k_rxo_field_reliability_def k_rxo_field_durability_def k_rxo_field_deadline_def
  k_rxo_field_lease_def k_rxo_field_max_message_bytes_def

datatype rxo_verdict = v_compatible | v_degraded | v_incompatible_qos | v_source_identity_incompatible

record rxo_result =
  rx_verdict :: rxo_verdict
  rx_degraded_fields :: u8

definition rxo_check :: "topic_qos \<Rightarrow> bool \<Rightarrow> nat \<Rightarrow> subscriber_qos \<Rightarrow> rxo_result" where
  "rxo_check offered offers_source_identity global_default requested =
     (if \<not> source_identity_compatible offers_source_identity (uq_requires_source_identity requested)
      then \<lparr>rx_verdict = v_source_identity_incompatible, rx_degraded_fields = 0\<rparr>
      else let bits = 0;
        bits = (if \<not> reliability_compatible (tq_reliability offered) (uq_requested_reliability_reliable requested)
                then bits OR k_rxo_field_reliability else bits);
        bits = (if \<not> durability_compatible (tq_latch offered) (uq_durability_mode requested)
                then bits OR k_rxo_field_durability else bits);
        bits = (if \<not> deadline_compatible (tq_offered_deadline_ns offered) (uq_requested_deadline_ns requested)
                then bits OR k_rxo_field_deadline else bits);
        bits = (if \<not> lease_compatible (tq_offered_lease_ns offered) (uq_requested_lease_ns requested)
                then bits OR k_rxo_field_lease else bits);
        bits = (if \<not> max_message_bytes_compatible (effective_max offered global_default) (uq_requested_max_message_bytes requested)
                then bits OR k_rxo_field_max_message_bytes else bits)
      in if bits = 0 then \<lparr>rx_verdict = v_compatible, rx_degraded_fields = 0\<rparr>
         else if uq_rxo requested = rxo_strict then \<lparr>rx_verdict = v_incompatible_qos, rx_degraded_fields = bits\<rparr>
         else \<lparr>rx_verdict = v_degraded, rx_degraded_fields = bits\<rparr>)"

section \<open>Properties\<close>

text \<open>What a field of the request demands, and the bit that reports it unmet.\<close>

datatype rxo_field = F_reliability | F_durability | F_deadline | F_lease | F_max_message

fun rxo_field_bit :: "rxo_field \<Rightarrow> u8" where
  "rxo_field_bit F_reliability = k_rxo_field_reliability"
| "rxo_field_bit F_durability = k_rxo_field_durability"
| "rxo_field_bit F_deadline = k_rxo_field_deadline"
| "rxo_field_bit F_lease = k_rxo_field_lease"
| "rxo_field_bit F_max_message = k_rxo_field_max_message_bytes"

fun rxo_field_met :: "topic_qos \<Rightarrow> nat \<Rightarrow> subscriber_qos \<Rightarrow> rxo_field \<Rightarrow> bool" where
  "rxo_field_met t g q F_reliability \<longleftrightarrow> (uq_requested_reliability_reliable q \<longrightarrow> tq_reliability t = rel_reliable)"
| "rxo_field_met t g q F_durability \<longleftrightarrow> (uq_durability_mode q \<noteq> 0 \<longrightarrow> tq_latch t)"
| "rxo_field_met t g q F_deadline \<longleftrightarrow> (uq_requested_deadline_ns q \<noteq> 0 \<longrightarrow> tq_offered_deadline_ns t \<le> uq_requested_deadline_ns q)"
| "rxo_field_met t g q F_lease \<longleftrightarrow> (uq_requested_lease_ns q \<noteq> 0 \<longrightarrow> tq_offered_lease_ns t \<le> uq_requested_lease_ns q)"
| "rxo_field_met t g q F_max_message \<longleftrightarrow>
     (uq_requested_max_message_bytes q \<noteq> 0 \<longrightarrow> effective_max t g \<le> unat (uq_requested_max_message_bytes q))"

lemma rxo_field_met_all:
  "{f. rxo_field_met t g q f} = UNIV \<longleftrightarrow> rxo_field_met t g q F_reliability \<and> rxo_field_met t g q F_durability
     \<and> rxo_field_met t g q F_deadline \<and> rxo_field_met t g q F_lease \<and> rxo_field_met t g q F_max_message"
proof -
  have "(\<forall>f. P f) \<longleftrightarrow> P F_reliability \<and> P F_durability \<and> P F_deadline \<and> P F_lease \<and> P F_max_message" for P
    by (metis rxo_field.exhaust)
  then show ?thesis by blast
qed

lemma rxo_compatible_iff:
  "reliability_compatible (tq_reliability t) (uq_requested_reliability_reliable q) \<longleftrightarrow> rxo_field_met t g q F_reliability"
  "durability_compatible (tq_latch t) (uq_durability_mode q) \<longleftrightarrow> rxo_field_met t g q F_durability"
  "deadline_compatible (tq_offered_deadline_ns t) (uq_requested_deadline_ns q) \<longleftrightarrow> rxo_field_met t g q F_deadline"
  "lease_compatible (tq_offered_lease_ns t) (uq_requested_lease_ns q) \<longleftrightarrow> rxo_field_met t g q F_lease"
  "max_message_bytes_compatible (effective_max t g) (uq_requested_max_message_bytes q) \<longleftrightarrow> rxo_field_met t g q F_max_message"
  by (auto simp: reliability_compatible_def durability_compatible_def deadline_compatible_def lease_compatible_def
      max_message_bytes_compatible_def dur_none_def)

text \<open>
  C13. The negotiation reports exactly the unmet demands: source identity is decided first and is
  never relaxed; otherwise each field's bit is set exactly when its demand is unmet, the verdict is
  compatible exactly when none is, and an unmet demand refuses a strict subscriber and degrades a
  permissive one.
\<close>

theorem rxo_check_exact:
  "let r = rxo_check t sid g q in
   (rx_verdict r = v_source_identity_incompatible \<longleftrightarrow> uq_requires_source_identity q \<and> \<not> sid)
   \<and> (rx_verdict r = v_compatible \<longleftrightarrow>
        (sid \<or> uq_requires_source_identity q = False) \<and> {f. rxo_field_met t g q f} = UNIV)
   \<and> (rx_verdict r = v_incompatible_qos \<longleftrightarrow>
        (sid \<or> uq_requires_source_identity q = False) \<and> {f. rxo_field_met t g q f} \<noteq> UNIV \<and> uq_rxo q = rxo_strict)
   \<and> (rx_degraded_fields r AND rxo_field_bit f \<noteq> 0 \<longleftrightarrow>
        (sid \<or> uq_requires_source_identity q = False) \<and> rxo_field_met t g q f = False)"
proof (cases "uq_requires_source_identity q \<and> \<not> sid")
  case True
  then show ?thesis by (simp add: rxo_check_def source_identity_compatible_def)
next
  case False
  then have sid: "source_identity_compatible sid (uq_requires_source_identity q) = True"
      "(sid \<or> uq_requires_source_identity q = False) = True" "(uq_requires_source_identity q \<and> \<not> sid) = False"
    by (auto simp: source_identity_compatible_def)
  show ?thesis
    unfolding rxo_check_def Let_def sid rxo_compatible_iff [where g = g] rxo_field_met_all
    by (cases f; cases "uq_rxo q"; cases "rxo_field_met t g q F_reliability"; cases "rxo_field_met t g q F_durability";
        cases "rxo_field_met t g q F_deadline"; cases "rxo_field_met t g q F_lease"; cases "rxo_field_met t g q F_max_message")
      (simp_all add: rxo_fields del: rxo_field_met.simps)
qed

text \<open>
  A subscriber's choice survives the wire: encoding into the request region and decoding gives
  back every negotiated field, while the two local-only fields arrive as their defaults; so the
  producer reaches the verdict it would reach on the subscriber's own value.
\<close>

lemma qos_region_roundtrip:
  "from_wire_region (to_wire_region q) = q\<lparr>uq_wants_message_info := True, uq_dispatch := hint_none\<rparr>
   \<and> rxo_check t sid g (from_wire_region (to_wire_region q)) = rxo_check t sid g q"
proof -
  have "from_wire_region (to_wire_region q) = q\<lparr>uq_wants_message_info := True, uq_dispatch := hint_none\<rparr>"
    by (cases "uq_rxo q"; cases "uq_posture q"; cases "uq_requires_source_identity q"; cases "uq_requested_reliability_reliable q")
      (simp_all add: from_wire_region_def to_wire_region_def qos_flags default_subscriber_qos_def Let_def)
  moreover have "rxo_check t sid g (q\<lparr>uq_wants_message_info := True, uq_dispatch := hint_none\<rparr>) = rxo_check t sid g q"
    unfolding rxo_check_def Let_def by simp
  ultimately show ?thesis by simp
qed

end
