(* ===== verification/Fragmentation.thy ===== *)
theory Fragmentation
  imports Qos Udp_Envelope
begin

text \<open>
  \<open>plexus-core/io/fragmentation.h\<close>: the sizing constants of the fragment path and the splitter. The sink
  is the list of its calls; a span outside the payload is \<open>None\<close>. Sizes are naturals: a payload is
  resident, so no sum of sizes wraps; the fragment count is narrowed to 32 bits as in the code.
\<close>

definition max_message_size :: nat where "max_message_size = 4 * 1024 * 1024"
definition min_fragment_payload :: nat where "min_fragment_payload = 128"
definition global_default_max_message_bytes :: nat where "global_default_max_message_bytes = 8 * 1024 * 1024"
definition reassembly_memory_budget :: nat where "reassembly_memory_budget = 16 * 1024 * 1024"

definition max_fragment_count :: nat where
  "max_fragment_count = (max_message_size + min_fragment_payload - 1) div min_fragment_payload"

definition k_aead_fragment_overhead :: nat where "k_aead_fragment_overhead = 8 + 1 + 16"

definition effective_fragment_budget :: "nat \<Rightarrow> bool \<Rightarrow> nat" where
  "effective_fragment_budget transport_budget aead_decorated =
     (let overhead = udp_fragment_header_overhead + (if aead_decorated then k_aead_fragment_overhead else 0) in
      if transport_budget \<le> overhead + min_fragment_payload then min_fragment_payload
      else transport_budget - overhead)"

definition subspan :: "nat \<Rightarrow> nat \<Rightarrow> bytes \<Rightarrow> bytes option" where
  "subspan offset len bs = (if offset + len \<le> length bs then Some (take len (drop offset bs)) else None)"

type_synonym fragment = "u32 \<times> u32 \<times> bytes"

definition split_count :: "nat \<Rightarrow> nat \<Rightarrow> nat" where
  "split_count n budget = (if n = 0 then 1 else (n + budget - 1) div budget)"

fun split_loop :: "bytes \<Rightarrow> nat \<Rightarrow> u32 \<Rightarrow> nat list \<Rightarrow> fragment list option" where
  "split_loop payload budget frag_cnt [] = Some []"
| "split_loop payload budget frag_cnt (i # is) = do {
     let offset = i * budget in
     if offset > length payload then None
     else do {
       slice \<leftarrow> subspan offset (min budget (length payload - offset)) payload;
       rest \<leftarrow> split_loop payload budget frag_cnt is;
       Some ((of_nat i, frag_cnt, slice) # rest)
     }
   }"

definition split :: "bytes \<Rightarrow> nat \<Rightarrow> bool \<Rightarrow> (fragment list \<times> u32) option" where
  "split payload transport_budget aead_decorated =
     (let budget = effective_fragment_budget transport_budget aead_decorated;
          count = split_count (length payload) budget;
          frag_cnt = of_nat count :: u32
      in map_option (\<lambda>fs. (fs, frag_cnt)) (split_loop payload budget frag_cnt [0..<count]))"

section \<open>What the splitter emits\<close>

definition fragment_slice :: "bytes \<Rightarrow> nat \<Rightarrow> nat \<Rightarrow> bytes" where
  "fragment_slice payload budget i = take budget (drop (i * budget) payload)"

lemma budget_pos [simp]: "0 < effective_fragment_budget tb aead"
  by (simp add: effective_fragment_budget_def min_fragment_payload_def Let_def)

lemma split_count_pos: "0 < split_count n b" if "0 < b"
  using that by (auto simp: split_count_def div_greater_zero_iff)

lemma split_count_bounds:
  assumes "0 < b"
  shows "n \<le> split_count n b * b" and "i < split_count n b \<Longrightarrow> i * b \<le> n"
proof -
  show "n \<le> split_count n b * b"
  proof (cases "n = 0")
    case False
    have "n + b - 1 < Suc ((n + b - 1) div b) * b" using dividend_less_div_times [OF assms] by (simp add: add.commute)
    with False show ?thesis by (simp add: split_count_def)
  qed simp
  show "i * b \<le> n" if "i < split_count n b"
  proof (cases "n = 0")
    case False
    with that have "Suc i \<le> (n + b - 1) div b" by (simp add: split_count_def)
    then have "Suc i * b \<le> n + b - 1" using assms by (simp add: less_eq_div_iff_mult_less_eq)
    with False assms show ?thesis by simp
  qed (use that in \<open>simp add: split_count_def\<close>)
qed

lemma split_count_nonempty:
  assumes "0 < b" and "i < split_count n b"
  shows "i * b < n \<or> n = 0"
proof (cases "n = 0")
  case False
  with assms(2) have "Suc i \<le> (n + b - 1) div b" by (simp add: split_count_def)
  then have "Suc i * b \<le> n + b - 1" using assms(1) by (simp add: less_eq_div_iff_mult_less_eq)
  with False assms(1) show ?thesis by simp
qed simp

lemma split_loop_eq:
  "(\<forall>i\<in>set is. i * b \<le> length payload) \<Longrightarrow>
   split_loop payload b c is = Some (map (\<lambda>i. (of_nat i, c, fragment_slice payload b i)) is)"
  by (induction "is") (auto simp: subspan_def fragment_slice_def Let_def min_def)

lemma split_eq:
  "split payload tb aead =
     (let b = effective_fragment_budget tb aead; n = split_count (length payload) b in
      Some (map (\<lambda>i. (of_nat i, of_nat n, fragment_slice payload b i)) [0..<n], of_nat n))"
  using split_count_bounds(2) [OF budget_pos, of _ "length payload" tb aead]
  by (simp add: split_def Let_def split_loop_eq)

lemma fragment_slices_join:
  assumes "0 < b" and "length payload \<le> n * b"
  shows "concat (map (fragment_slice payload b) [0..<n]) = payload"
  using assms(2)
proof (induction n arbitrary: payload)
  case (Suc n)
  have "concat (map (fragment_slice (drop b payload) b) [0..<n]) = drop b payload"
    using Suc.prems by (intro Suc.IH) simp
  moreover have "map (fragment_slice payload b) [0..<Suc n]
      = take b payload # map (fragment_slice (drop b payload) b) [0..<n]"
    unfolding map_upt_Suc by (simp add: fragment_slice_def add.commute)
  ultimately show ?case by simp
qed simp

text \<open>
  The splitter never reads outside the payload, numbers its fragments from zero to the count it
  announces, and the slices joined in that order are the payload; each slice fits the fragment
  budget, and all but an empty payload's only slice are non-empty.
\<close>

lemma split_correct:
  assumes "split_count (length payload) (effective_fragment_budget tb aead) < 2 ^ 32"
  shows "\<exists>fs cnt. split payload tb aead = Some (fs, cnt) \<and> length fs = unat cnt \<and> 0 < cnt
     \<and> map (\<lambda>(i, c, _). (unat i, c)) fs = map (\<lambda>i. (i, cnt)) [0..<length fs]
     \<and> concat (map (\<lambda>(_, _, s). s) fs) = payload
     \<and> (\<forall>(_, _, s) \<in> set fs. length s \<le> effective_fragment_budget tb aead \<and> (s = [] \<longrightarrow> payload = []))"
proof -
  let ?b = "effective_fragment_budget tb aead"
  let ?n = "split_count (length payload) ?b"
  let ?fs = "map (\<lambda>i. (of_nat i, of_nat ?n, fragment_slice payload ?b i)) [0..<?n] :: fragment list"
  have n: "unat (of_nat ?n :: u32) = ?n" using assms by (simp add: unat_of_nat)
  have pos: "0 < (of_nat ?n :: u32)" using split_count_pos [OF budget_pos] n by (simp add: word_less_nat_alt)
  have "map (\<lambda>(i, c, _). (unat i, c)) ?fs = map (\<lambda>i. (i, of_nat ?n)) [0..<length ?fs]"
    using assms by (auto simp: unat_of_nat)
  moreover have "concat (map (\<lambda>(_, _, s). s) ?fs) = payload"
    using fragment_slices_join [OF budget_pos split_count_bounds(1) [OF budget_pos], of payload tb aead]
    by (simp add: comp_def)
  moreover have "length (fragment_slice payload ?b i) \<le> ?b" for i by (simp add: fragment_slice_def)
  moreover have "payload = []" if "i < ?n" "fragment_slice payload ?b i = []" for i
    using that split_count_nonempty [OF budget_pos, of i "length payload" tb aead] budget_pos [of tb aead]
    by (auto simp: fragment_slice_def)
  ultimately show ?thesis
    using n pos by (intro exI [of _ ?fs] exI [of _ "of_nat ?n"]) (auto simp: split_eq Let_def)
qed

lemma split_correct_witness:
  "\<exists>fs. split (replicate 200 7) 100 False = Some (fs, 2) \<and> concat (map (\<lambda>(_, _, s). s) fs) = replicate 200 (7 :: u8)"
proof -
  have b: "effective_fragment_budget 100 False = 128"
    by (simp add: effective_fragment_budget_def min_fragment_payload_def udp_fragment_header_overhead_def
        udp_envelope_overhead_def udp_fragment_subheader_def)
  have "split_count (length (replicate 200 (7 :: u8))) (effective_fragment_budget 100 False) < 2 ^ 32"
    by (simp add: b split_count_def)
  from split_correct [OF this] show ?thesis by (auto simp: split_eq b split_count_def Let_def)
qed

end
