(* ===== verification/Datagram_Reassembler.thy ===== *)
theory Datagram_Reassembler
  imports Keyed_Table Fragmentation
begin

text \<open>
  \<open>plexus-datagram/detail/reassembler.h\<close>: the table of partial messages behind the fragment path. A
  wait is armed with its entry; its completion is the operation \<open>reassembly_timeout\<close>, which may arrive
  with or without the cancellation code. Sinks are the event list. The outer \<open>option\<close> is \<open>None\<close> for an
  index outside a vector or a byte counter that would wrap below zero.
\<close>

record reassembler_config =
  rc_max_message_size :: nat
  rc_total_memory_cap :: nat
  rc_per_message_timeout :: nat

definition default_reassembler_config :: reassembler_config where
  "default_reassembler_config = \<lparr>rc_max_message_size = global_default_max_message_bytes,
     rc_total_memory_cap = reassembly_memory_budget, rc_per_message_timeout = 5000\<rparr>"

datatype reassembly_outcome = ro_admitted | ro_completed | ro_dropped_malformed | ro_dropped_cap

record reassembly_entry =
  en_slots :: "bytes list"
  en_present :: "bool list"
  en_received :: nat
  en_size :: nat
  en_overhead :: nat
  en_timer :: "nat option"

record reassembler =
  rs_cfg :: reassembler_config
  rs_max_entries :: nat
  rs_table :: "(u16 \<times> reassembly_entry) list"
  rs_held :: nat
  rs_dead :: bool

datatype reassembly_event = Assembled bytes | Reassembly_drop drop_event

text \<open>\<open>sizeof(std::vector<std::byte>)\<close>: three pointers of a 64-bit target.\<close>

definition sizeof_vector :: nat where "sizeof_vector = 24"

definition structural_cost :: "nat \<Rightarrow> nat" where
  "structural_cost frag_cnt = frag_cnt * sizeof_vector + (frag_cnt + 7) div 8"

definition cap_implied_max_partials :: "nat \<Rightarrow> nat \<Rightarrow> nat" where
  "cap_implied_max_partials total_memory_cap min_entry_cost = total_memory_cap div min_entry_cost + 1"

definition reassembler_init :: "reassembler_config \<Rightarrow> reassembler" where
  "reassembler_init cfg = \<lparr>rs_cfg = cfg,
     rs_max_entries = cap_implied_max_partials (rc_total_memory_cap cfg) (structural_cost 1),
     rs_table = [], rs_held = 0, rs_dead = False\<rparr>"

definition emit_reassembly_drop :: "drop_cause \<Rightarrow> reassembly_event list" where
  "emit_reassembly_drop cause = [Reassembly_drop (default_drop_event\<lparr>de_cause := cause, de_transport := loc_remote\<rparr>)]"

definition arm_timeout :: "reassembler \<Rightarrow> reassembly_entry \<Rightarrow> reassembly_entry" where
  "arm_timeout s e = e\<lparr>en_timer := Some (rc_per_message_timeout (rs_cfg s))\<rparr>"

definition open_entry :: "u16 \<Rightarrow> u32 \<Rightarrow> nat \<Rightarrow> reassembler \<Rightarrow> reassembler \<times> nat option" where
  "open_entry msg_id frag_cnt payload s =
     (if rs_held s + structural_cost (unat frag_cnt) + payload > rc_total_memory_cap (rs_cfg s) then (s, None)
      else let e = \<lparr>en_slots = replicate (unat frag_cnt) [], en_present = replicate (unat frag_cnt) False,
                    en_received = 0, en_size = 0, en_overhead = structural_cost (unat frag_cnt), en_timer = None\<rparr>
           in case fm_emplace (rs_max_entries s) (rs_table s) msg_id e of
                None \<Rightarrow> (s, None)
              | Some (table, i) \<Rightarrow>
                  (s\<lparr>rs_table := fm_write i (arm_timeout s e) table, rs_held := rs_held s + en_overhead e\<rparr>, Some i))"

definition evict :: "u16 \<Rightarrow> reassembler \<Rightarrow> reassembler option" where
  "evict msg_id s =
     (case fm_find (rs_table s) msg_id of
        None \<Rightarrow> Some s
      | Some i \<Rightarrow> (let e = snd (rs_table s ! i) in
          if en_size e + en_overhead e > rs_held s then None
          else Some (s\<lparr>rs_held := rs_held s - (en_size e + en_overhead e), rs_table := fm_erase i (rs_table s)\<rparr>)))"

definition assemble_and_evict :: "u16 \<Rightarrow> reassembly_entry \<Rightarrow> reassembler \<Rightarrow> (reassembler \<times> reassembly_event list) option" where
  "assemble_and_evict msg_id e s = map_option (\<lambda>s'. (s', [Assembled (concat (en_slots e))])) (evict msg_id s)"

definition store :: "nat \<Rightarrow> u16 \<Rightarrow> u32 \<Rightarrow> bytes \<Rightarrow> reassembler \<Rightarrow> (reassembler \<times> reassembly_event list \<times> reassembly_outcome) option" where
  "store i msg_id frag_idx bs s =
     (if i \<ge> length (rs_table s) then None
      else let e = snd (rs_table s ! i); k = unat frag_idx in
        if k \<ge> length (en_slots e) then Some (s, [], ro_dropped_malformed)
        else if k \<ge> length (en_present e) then None
        else if en_present e ! k then Some (s, [], ro_admitted)
        else if en_size e + length bs > rc_max_message_size (rs_cfg s) \<or> rs_held s + length bs > rc_total_memory_cap (rs_cfg s)
          then Some (s, [], ro_dropped_malformed)
        else let e' = e\<lparr>en_slots := (en_slots e)[k := bs], en_present := (en_present e)[k := True],
                        en_size := en_size e + length bs, en_received := en_received e + 1\<rparr>;
                 s' = s\<lparr>rs_table := fm_write i e' (rs_table s), rs_held := rs_held s + length bs\<rparr>
             in if en_received e' < length (en_slots e') then Some (s', [], ro_admitted)
                else map_option (\<lambda>(s'', evs). (s'', evs, ro_completed)) (assemble_and_evict msg_id e' s'))"

definition admit_fragment :: "u16 \<Rightarrow> u32 \<Rightarrow> u32 \<Rightarrow> bytes \<Rightarrow> reassembler \<Rightarrow> (reassembler \<times> reassembly_event list \<times> reassembly_outcome) option" where
  "admit_fragment msg_id frag_idx frag_cnt bs s =
     (case fm_find (rs_table s) msg_id of
        Some i \<Rightarrow> store i msg_id frag_idx bs s
      | None \<Rightarrow> (case open_entry msg_id frag_cnt (length bs) s of
          (s', None) \<Rightarrow> Some (s', [], ro_dropped_cap)
        | (s', Some i) \<Rightarrow> store i msg_id frag_idx bs s'))"

definition reassembly_feed :: "u16 \<Rightarrow> u32 \<Rightarrow> u32 \<Rightarrow> bytes \<Rightarrow> reassembler \<Rightarrow> (reassembler \<times> reassembly_event list \<times> reassembly_outcome) option" where
  "reassembly_feed msg_id frag_idx frag_cnt bs s = do {
     (s', evs, out) \<leftarrow>
       (if frag_cnt = 0 \<or> frag_idx \<ge> frag_cnt \<or> unat frag_cnt > max_fragment_count then Some (s, [], ro_dropped_malformed)
        else admit_fragment msg_id frag_idx frag_cnt bs s);
     Some (s', evs @ (if out = ro_dropped_malformed then emit_reassembly_drop dc_malformed
                      else if out = ro_dropped_cap then emit_reassembly_drop dc_reassembly_cap else []), out)
   }"

definition reassembly_timeout :: "u16 \<Rightarrow> bool \<Rightarrow> reassembler \<Rightarrow> (reassembler \<times> reassembly_event list) option" where
  "reassembly_timeout msg_id ec s =
     (if ec \<or> rs_dead s then Some (s, [])
      else map_option (\<lambda>s'. (s', emit_reassembly_drop dc_reassembly_evicted)) (evict msg_id s))"

definition reassembly_cancel :: "reassembler \<Rightarrow> reassembler" where
  "reassembly_cancel s = s\<lparr>rs_dead := True, rs_table := map (\<lambda>(k, e). (k, e\<lparr>en_timer := None\<rparr>)) (rs_table s)\<rparr>"

section \<open>Memory\<close>

definition entry_weight :: "reassembly_entry \<Rightarrow> nat" where
  "entry_weight e = en_size e + en_overhead e"

definition entry_ok :: "nat \<Rightarrow> reassembly_entry \<Rightarrow> bool" where
  "entry_ok m e \<longleftrightarrow> length (en_present e) = length (en_slots e) \<and> en_received e = length (filter id (en_present e))
     \<and> en_received e < length (en_slots e) \<and> en_size e = sum_list (map length (en_slots e)) \<and> en_size e \<le> m
     \<and> en_overhead e = structural_cost (length (en_slots e))
     \<and> (\<forall>k<length (en_slots e). \<not> en_present e ! k \<longrightarrow> en_slots e ! k = [])"

definition reassembler_ok :: "reassembler \<Rightarrow> bool" where
  "reassembler_ok s \<longleftrightarrow> sorted_table (rs_table s)
     \<and> (\<forall>x\<in>set (rs_table s). entry_ok (rc_max_message_size (rs_cfg s)) (snd x))
     \<and> rs_held s = table_weight entry_weight (rs_table s) \<and> rs_held s \<le> rc_total_memory_cap (rs_cfg s)
     \<and> rs_max_entries s = cap_implied_max_partials (rc_total_memory_cap (rs_cfg s)) (structural_cost 1)"

lemma structural_cost_mono: "m \<le> n \<Longrightarrow> structural_cost m \<le> structural_cost n"
  by (simp add: structural_cost_def add_mono div_le_mono)

lemma entry_weight_least: "entry_ok m e \<Longrightarrow> structural_cost 1 \<le> entry_weight e"
  using structural_cost_mono [of 1 "length (en_slots e)"] by (simp add: entry_ok_def entry_weight_def)

lemma table_weight_least:
  "(\<forall>x\<in>set xs. c \<le> w (snd x)) \<Longrightarrow> c * length xs \<le> table_weight w xs"
  by (induction xs) auto

lemma entry_in_table:
  assumes "reassembler_ok s" and "fm_find (rs_table s) k = Some i"
  shows "i < length (rs_table s)" and "fst (rs_table s ! i) = k"
    and "entry_ok (rc_max_message_size (rs_cfg s)) (snd (rs_table s ! i))"
    and "entry_weight (snd (rs_table s ! i)) \<le> rs_held s"
proof -
  show i: "i < length (rs_table s)" and "fst (rs_table s ! i) = k"
    using assms fm_find_Some [of "rs_table s" k i] by (simp_all add: reassembler_ok_def)
  then show "entry_ok (rc_max_message_size (rs_cfg s)) (snd (rs_table s ! i))"
    using assms(1) by (simp add: reassembler_ok_def)
  show "entry_weight (snd (rs_table s ! i)) \<le> rs_held s"
    using assms(1) table_weight_erase [OF _ i, of entry_weight] by (simp add: reassembler_ok_def)
qed

text \<open>The count ceiling of the table is never what refuses a partial message.\<close>

lemma ceiling_slack:
  assumes "reassembler_ok s"
  shows "length (rs_table s) < rs_max_entries s"
proof -
  let ?c = "structural_cost 1"
  have "\<forall>x\<in>set (rs_table s). ?c \<le> entry_weight (snd x)"
    using assms entry_weight_least unfolding reassembler_ok_def by blast
  then have "?c * length (rs_table s) \<le> rc_total_memory_cap (rs_cfg s)"
    using table_weight_least [of "rs_table s" ?c entry_weight] assms by (simp add: reassembler_ok_def)
  moreover have "0 < ?c" by (simp add: structural_cost_def sizeof_vector_def)
  ultimately have "length (rs_table s) \<le> rc_total_memory_cap (rs_cfg s) div ?c"
    by (simp add: less_eq_div_iff_mult_less_eq mult.commute)
  with assms show ?thesis by (simp add: reassembler_ok_def cap_implied_max_partials_def)
qed

lemma evict_ok:
  assumes "reassembler_ok s"
  shows "safely (\<lambda>s'. reassembler_ok s' \<and> map_of (rs_table s') = (map_of (rs_table s))(k := None) \<and> rs_cfg s' = rs_cfg s
           \<and> rs_held s = rs_held s' + (case map_of (rs_table s) k of None \<Rightarrow> 0 | Some e \<Rightarrow> entry_weight e)
           \<and> rs_dead s' = rs_dead s) (evict k s)"
proof (cases "fm_find (rs_table s) k")
  case None
  then have "map_of (rs_table s) k = None" using assms fm_find_None by (auto simp: reassembler_ok_def)
  with None assms show ?thesis by (simp add: evict_def fun_upd_idem)
next
  case (Some i)
  note at = entry_in_table [OF assms Some]
  have s: "sorted_table (rs_table s)" using assms by (simp add: reassembler_ok_def)
  note er = fm_erase_law [OF s at(1)] and w = table_weight_erase [OF s at(1), of entry_weight]
  have sub: "set (fm_erase i (rs_table s)) \<subseteq> set (rs_table s)"
    by (auto simp: fm_erase_def dest: in_set_takeD in_set_dropD)
  have "map_of (rs_table s) k = Some (snd (rs_table s ! i))" using fm_find_Some [OF s Some] by simp
  with Some at er w sub assms show ?thesis
    by (auto simp: evict_def Let_def reassembler_ok_def entry_weight_def)
qed


lemma filter_id_set_True:
  assumes "k < length xs" and "\<not> xs ! k"
  shows "length (filter id (xs[k := True])) = Suc (length (filter id xs))"
proof -
  have "filter id xs = filter id (take k xs @ xs ! k # drop (Suc k) xs)" using assms(1) by (metis id_take_nth_drop)
  with assms show ?thesis by (simp add: upd_conv_take_nth_drop)
qed

text \<open>The entry a fragment leaves behind, and the two ways a stored fragment ends.\<close>

definition with_fragment :: "nat \<Rightarrow> bytes \<Rightarrow> reassembly_entry \<Rightarrow> reassembly_entry" where
  "with_fragment k bs e = e\<lparr>en_slots := (en_slots e)[k := bs], en_present := (en_present e)[k := True],
     en_size := en_size e + length bs, en_received := en_received e + 1\<rparr>"

lemma with_fragment_ok:
  assumes "entry_ok m e" and "k < length (en_slots e)" and "\<not> en_present e ! k"
    and "en_size e + length bs \<le> m" and "en_received e + 1 < length (en_slots e)"
  shows "entry_ok m (with_fragment k bs e)"
proof -
  have "sum_list (map length ((en_slots e)[k := bs])) = sum_list (map length (en_slots e)) + length bs"
    using assms(1-3) by (simp add: map_update sum_list_update entry_ok_def)
  with assms show ?thesis
    by (auto simp: entry_ok_def with_fragment_def filter_id_set_True nth_list_update)
qed

lemma entry_weight_with_fragment: "entry_weight (with_fragment k bs e) = entry_weight e + length bs"
  by (simp add: entry_weight_def with_fragment_def)

lemma store_more:
  assumes "reassembler_ok s" and i: "fm_find (rs_table s) msg_id = Some i"
    and e: "map_of (rs_table s) msg_id = Some e" and k: "unat idx < length (en_slots e)" "\<not> en_present e ! unat idx"
    and room: "en_size e + length bs \<le> rc_max_message_size (rs_cfg s)" "rs_held s + length bs \<le> rc_total_memory_cap (rs_cfg s)"
    and more: "en_received e + 1 < length (en_slots e)"
  shows "\<exists>s'. store i msg_id idx bs s = Some (s', [], ro_admitted) \<and> reassembler_ok s'
    \<and> map_of (rs_table s') = (map_of (rs_table s))(msg_id \<mapsto> with_fragment (unat idx) bs e)
    \<and> rs_held s' = rs_held s + length bs \<and> rs_cfg s' = rs_cfg s \<and> rs_dead s' = rs_dead s"
proof -
  note at = entry_in_table [OF assms(1) i]
  have s: "sorted_table (rs_table s)" using assms(1) by (simp add: reassembler_ok_def)
  have ei: "e = snd (rs_table s ! i)" using fm_find_Some [OF s i] e by simp
  let ?e = "with_fragment (unat idx) bs e"
  let ?s = "s\<lparr>rs_table := fm_write i ?e (rs_table s), rs_held := rs_held s + length bs\<rparr>"
  note wr = fm_write_law [OF s at(1), of ?e]
  have ok: "entry_ok (rc_max_message_size (rs_cfg s)) ?e"
    using with_fragment_ok [OF _ k room(1) more] at(3) ei by simp
  have "set (fm_write i ?e (rs_table s)) \<subseteq> insert (msg_id, ?e) (set (rs_table s))"
    using at(2) set_update_subset_insert [of "rs_table s" i "(msg_id, ?e)"] by (simp add: fm_write_def)
  then have "\<forall>x\<in>set (fm_write i ?e (rs_table s)). entry_ok (rc_max_message_size (rs_cfg s)) (snd x)"
    using assms(1) ok unfolding reassembler_ok_def by force
  moreover have "table_weight entry_weight (fm_write i ?e (rs_table s)) = rs_held s + length bs"
    using table_weight_write [OF at(1), of entry_weight ?e] assms(1)
    by (simp add: entry_weight_with_fragment ei reassembler_ok_def)
  ultimately have "reassembler_ok ?s"
    using assms(1) wr room(2) by (simp add: reassembler_ok_def)
  moreover have "store i msg_id idx bs s = Some (?s, [], ro_admitted)"
    using at(1,3) k room more unfolding ei by (simp add: store_def Let_def with_fragment_def entry_ok_def)
  ultimately show ?thesis using wr at(2) by simp
qed

lemma store_last:
  assumes "reassembler_ok s" and i: "fm_find (rs_table s) msg_id = Some i"
    and e: "map_of (rs_table s) msg_id = Some e" and k: "unat idx < length (en_slots e)" "\<not> en_present e ! unat idx"
    and room: "en_size e + length bs \<le> rc_max_message_size (rs_cfg s)" "rs_held s + length bs \<le> rc_total_memory_cap (rs_cfg s)"
    and last: "\<not> en_received e + 1 < length (en_slots e)"
  shows "\<exists>s'. store i msg_id idx bs s = Some (s', [Assembled (concat ((en_slots e)[unat idx := bs]))], ro_completed)
    \<and> reassembler_ok s' \<and> map_of (rs_table s') = (map_of (rs_table s))(msg_id := None)
    \<and> rs_held s = rs_held s' + entry_weight e \<and> rs_cfg s' = rs_cfg s \<and> rs_dead s' = rs_dead s"
proof -
  note at = entry_in_table [OF assms(1) i]
  have s: "sorted_table (rs_table s)" using assms(1) by (simp add: reassembler_ok_def)
  have ei: "e = snd (rs_table s ! i)" using fm_find_Some [OF s i] e by simp
  let ?e = "with_fragment (unat idx) bs e"
  let ?s = "s\<lparr>rs_table := fm_write i ?e (rs_table s), rs_held := rs_held s + length bs\<rparr>"
  let ?s' = "s\<lparr>rs_held := rs_held s - entry_weight e, rs_table := fm_erase i (rs_table s)\<rparr>"
  have "evict msg_id ?s = Some ?s'"
    using at i ei entry_weight_with_fragment [of "unat idx" bs e]
    by (simp add: evict_def fm_find_write fm_erase_write Let_def entry_weight_def [symmetric] fm_write_nth)
  then have "store i msg_id idx bs s = Some (?s', [Assembled (concat ((en_slots e)[unat idx := bs]))], ro_completed)"
    using at(1,3) k room last unfolding ei
    by (simp add: store_def Let_def with_fragment_def entry_ok_def assemble_and_evict_def)
  moreover have "evict msg_id s = Some ?s'" using at i ei by (simp add: evict_def Let_def entry_weight_def)
  with evict_ok [OF assms(1), of msg_id] e
  have "reassembler_ok ?s' \<and> map_of (rs_table ?s') = (map_of (rs_table s))(msg_id := None) \<and> rs_held s = rs_held ?s' + entry_weight e"
    by simp
  ultimately show ?thesis by simp
qed

lemma open_entry_ok:
  assumes "reassembler_ok s" and none: "map_of (rs_table s) msg_id = None" and cnt: "0 < cnt"
    and room: "rs_held s + structural_cost (unat cnt) + p \<le> rc_total_memory_cap (rs_cfg s)"
  shows "\<exists>s' i. open_entry msg_id cnt p s = (s', Some i) \<and> reassembler_ok s' \<and> fm_find (rs_table s') msg_id = Some i
    \<and> map_of (rs_table s') = (map_of (rs_table s))(msg_id \<mapsto>
        \<lparr>en_slots = replicate (unat cnt) [], en_present = replicate (unat cnt) False, en_received = 0, en_size = 0,
         en_overhead = structural_cost (unat cnt), en_timer = Some (rc_per_message_timeout (rs_cfg s))\<rparr>)
    \<and> rs_held s' = rs_held s + structural_cost (unat cnt) \<and> rs_cfg s' = rs_cfg s \<and> rs_dead s' = rs_dead s"
proof -
  have s: "sorted_table (rs_table s)" using assms(1) by (simp add: reassembler_ok_def)
  have pos: "0 < unat cnt" using cnt by (simp add: word_less_nat_alt)
  have absent: "fm_find (rs_table s) msg_id = None"
    using fm_find_Some [OF s] none by (cases "fm_find (rs_table s) msg_id") auto
  let ?e = "\<lparr>en_slots = replicate (unat cnt) [], en_present = replicate (unat cnt) False, en_received = 0, en_size = 0,
     en_overhead = structural_cost (unat cnt), en_timer = None\<rparr>"
  let ?e' = "arm_timeout s ?e"
  obtain table i where em: "fm_emplace (rs_max_entries s) (rs_table s) msg_id ?e = Some (table, i)"
    using ceiling_slack [OF assms(1)] by (auto simp: fm_emplace_def Let_def)
  note el = fm_emplace_law [OF s absent em] and ew = table_weight_emplace [OF s absent em, of entry_weight]
  then have st: "sorted_table table" "i < length table" "table ! i = (msg_id, ?e)" by simp_all
  note wr = fm_write_law [OF st(1,2), of ?e']
  let ?s = "s\<lparr>rs_table := fm_write i ?e' table, rs_held := rs_held s + structural_cost (unat cnt)\<rparr>"
  have "set table = insert (msg_id, ?e) (set (rs_table s))" using el by (metis set_mset_add_mset_insert set_mset_mset)
  then have sub: "set (fm_write i ?e' table) \<subseteq> insert (msg_id, ?e') (insert (msg_id, ?e) (set (rs_table s)))"
    using st(3) set_update_subset_insert [of table i "(msg_id, ?e')"] by (auto simp: fm_write_def)
  have ok: "entry_ok m ?e" "entry_ok m ?e'" for m
    using pos by (simp_all add: entry_ok_def arm_timeout_def)
  then have all: "\<forall>x\<in>set (fm_write i ?e' table). entry_ok (rc_max_message_size (rs_cfg s)) (snd x)"
    using assms(1) sub unfolding reassembler_ok_def by force
  have "table_weight entry_weight (fm_write i ?e' table) = rs_held s + structural_cost (unat cnt)"
    using table_weight_write [OF st(2), of entry_weight ?e'] ew st(3) assms(1)
    by (simp add: reassembler_ok_def entry_weight_def arm_timeout_def)
  then have "reassembler_ok ?s"
    using assms(1) all wr st(1) add_leD1 [OF room] by (simp add: reassembler_ok_def)
  moreover have "open_entry msg_id cnt p s = (?s, Some i)"
    using room em by (simp add: open_entry_def)
  moreover have m: "map_of (fm_write i ?e' table) = (map_of (rs_table s))(msg_id \<mapsto> ?e')" using wr el st(3) by simp
  moreover have "fm_find (fm_write i ?e' table) msg_id = Some i"
    using st fm_find_unique [OF st(1,2)] by (simp add: fm_find_write)
  ultimately show ?thesis by (simp add: arm_timeout_def)
qed


lemma store_ok:
  assumes "reassembler_ok s" and i: "fm_find (rs_table s) msg_id = Some i"
  shows "safely (\<lambda>(s', _, _). reassembler_ok s' \<and> rs_cfg s' = rs_cfg s) (store i msg_id idx bs s)"
proof -
  note at = entry_in_table [OF assms]
  have s: "sorted_table (rs_table s)" using assms(1) by (simp add: reassembler_ok_def)
  define e where "e = snd (rs_table s ! i)"
  have e: "map_of (rs_table s) msg_id = Some e" using fm_find_Some [OF s i] by (simp add: e_def)
  have len: "length (en_present e) = length (en_slots e)" using at(3) by (simp add: e_def entry_ok_def)
  show ?thesis
  proof (cases "unat idx < length (en_slots e) \<and> \<not> en_present e ! unat idx
      \<and> en_size e + length bs \<le> rc_max_message_size (rs_cfg s) \<and> rs_held s + length bs \<le> rc_total_memory_cap (rs_cfg s)")
    case True
    then show ?thesis
      using store_more [OF assms e, of idx bs] store_last [OF assms e, of idx bs]
      by (cases "en_received e + 1 < length (en_slots e)") auto
  next
    case False
    then have "\<exists>out. store i msg_id idx bs s = Some (s, [], out)"
      using at(1) len by (auto simp: store_def e_def [symmetric] Let_def)
    with assms(1) show ?thesis by auto
  qed
qed

lemma reassembly_feed_ok:
  assumes "reassembler_ok s"
  shows "safely (\<lambda>(s', _, _). reassembler_ok s' \<and> rs_cfg s' = rs_cfg s) (reassembly_feed msg_id idx cnt bs s)"
proof -
  have s: "sorted_table (rs_table s)" using assms by (simp add: reassembler_ok_def)
  have "safely (\<lambda>(s', _, _). reassembler_ok s' \<and> rs_cfg s' = rs_cfg s) (admit_fragment msg_id idx cnt bs s)" if "0 < cnt"
  proof (cases "fm_find (rs_table s) msg_id")
    case (Some i)
    then show ?thesis using store_ok [OF assms Some] by (simp add: admit_fragment_def)
  next
    case None
    then have none: "map_of (rs_table s) msg_id = None" by (rule fm_find_None [OF s])
    show ?thesis
    proof (cases "rs_held s + structural_cost (unat cnt) + length bs \<le> rc_total_memory_cap (rs_cfg s)")
      case True
      from open_entry_ok [OF assms none that True] obtain s' i where
        "open_entry msg_id cnt (length bs) s = (s', Some i)" "reassembler_ok s'" "fm_find (rs_table s') msg_id = Some i"
        "rs_cfg s' = rs_cfg s" by blast
      with None store_ok [of s' msg_id i idx bs] show ?thesis by (simp add: admit_fragment_def)
    next
      case False
      with None assms show ?thesis by (simp add: admit_fragment_def open_entry_def)
    qed
  qed
  with assms show ?thesis
    by (auto simp: reassembly_feed_def word_gt_0 safely_def split: option.splits)
qed

datatype reassembly_op = Feed_fragment u16 u32 u32 bytes | Partial_timeout u16 bool | Cancel_reassembly

fun reassembly_step :: "reassembler \<Rightarrow> reassembly_op \<Rightarrow> (reassembler \<times> reassembly_event list) option" where
  "reassembly_step s (Feed_fragment msg_id idx cnt bs) = map_option (\<lambda>(s', evs, _). (s', evs)) (reassembly_feed msg_id idx cnt bs s)"
| "reassembly_step s (Partial_timeout msg_id ec) = reassembly_timeout msg_id ec s"
| "reassembly_step s Cancel_reassembly = Some (reassembly_cancel s, [])"

lemma reassembly_cancel_ok: "reassembler_ok s \<Longrightarrow> reassembler_ok (reassembly_cancel s)"
proof -
  have "table_weight entry_weight (map (\<lambda>(k, e). (k, e\<lparr>en_timer := None\<rparr>)) xs) = table_weight entry_weight xs"
    and "map fst (map (\<lambda>(k, e). (k, e\<lparr>en_timer := None\<rparr>)) xs) = map fst xs" for xs :: "(u16 \<times> reassembly_entry) list"
    by (induction xs) (auto simp: entry_weight_def)
  moreover have "entry_ok m (e\<lparr>en_timer := t\<rparr>) = entry_ok m e" for m e t by (simp add: entry_ok_def)
  ultimately show "reassembler_ok s \<Longrightarrow> reassembler_ok (reassembly_cancel s)"
    by (auto simp: reassembler_ok_def reassembly_cancel_def simp del: map_map)
qed

lemma reassembly_step_ok:
  assumes "reassembler_ok s"
  shows "safely (\<lambda>(s', _). reassembler_ok s' \<and> rs_cfg s' = rs_cfg s) (reassembly_step s op)"
proof (cases op)
  case (Feed_fragment msg_id idx cnt bs)
  then show ?thesis using reassembly_feed_ok [OF assms, of msg_id idx cnt bs] by (auto simp: safely_def)
next
  case (Partial_timeout msg_id ec)
  then show ?thesis using evict_ok [OF assms, of msg_id] assms by (auto simp: safely_def reassembly_timeout_def)
next
  case Cancel_reassembly
  then show ?thesis using reassembly_cancel_ok [OF assms] by (simp add: reassembly_cancel_def)
qed

interpretation partials: safe_machine reassembly_step "\<lambda>s. reassembler_ok s \<and> rs_cfg s = cfg" for cfg
  by unfold_locales (use reassembly_step_ok in \<open>auto simp: safely_def\<close>)

lemma reassembler_ok_init: "reassembler_ok (reassembler_init cfg)"
  by (simp add: reassembler_ok_def reassembler_init_def)

text \<open>
  C14. Over any sequence of fragments, whatever they claim, timeouts and cancellations the
  reassembler never indexes outside a vector and never wraps its byte counter; the counter is the
  payload and slot metadata of the open partial messages, it never passes the memory cap, and the
  table never reaches the limit on the number of partial messages, so the cap is what binds.
\<close>

theorem reassembly_memory_safe:
  "\<exists>s out. run_safe reassembly_step (reassembler_init cfg) ops = Some (s, out)
     \<and> rs_held s = (\<Sum>x\<leftarrow>rs_table s. sum_list (map length (en_slots (snd x))) + structural_cost (length (en_slots (snd x))))
     \<and> rs_held s \<le> rc_total_memory_cap cfg \<and> length (rs_table s) < rs_max_entries s"
proof -
  obtain s out where run: "run_safe reassembly_step (reassembler_init cfg) ops = Some (s, out)"
    and ok: "reassembler_ok s" and cfg: "rs_cfg s = cfg"
    using partials.safe_run [of "reassembler_init cfg" cfg ops] reassembler_ok_init [of cfg]
    by (auto simp: reassembler_init_def)
  have "map (\<lambda>x. entry_weight (snd x)) (rs_table s)
      = map (\<lambda>x. sum_list (map length (en_slots (snd x))) + structural_cost (length (en_slots (snd x)))) (rs_table s)"
    using ok by (auto simp: reassembler_ok_def entry_ok_def entry_weight_def)
  then have "rs_held s = (\<Sum>x\<leftarrow>rs_table s. sum_list (map length (en_slots (snd x))) + structural_cost (length (en_slots (snd x))))"
    using ok by (metis reassembler_ok_def)
  then show ?thesis using run ok cfg ceiling_slack [OF ok] by (auto simp: reassembler_ok_def)
qed


section \<open>Messages\<close>

text \<open>
  The abstract state of a partial message is the set of fragment numbers received. \<open>pay\<close> gives the
  payload of each message and \<open>b\<close> the fragment budget.
\<close>

definition partial_entry :: "nat \<Rightarrow> bytes \<Rightarrow> nat \<Rightarrow> nat set \<Rightarrow> reassembly_entry" where
  "partial_entry t p b S = (let n = split_count (length p) b in
     \<lparr>en_slots = map (\<lambda>i. if i \<in> S then fragment_slice p b i else []) [0..<n], en_present = map (\<lambda>i. i \<in> S) [0..<n],
      en_received = card S, en_size = (\<Sum>i\<in>S. length (fragment_slice p b i)), en_overhead = structural_cost n,
      en_timer = Some t\<rparr>)"

definition message_cost :: "nat \<Rightarrow> bytes \<Rightarrow> nat" where
  "message_cost b p = length p + structural_cost (split_count (length p) b)"

lemma slices_length:
  assumes "0 < b" and "S \<subseteq> {..<split_count (length p) b}"
  shows "(\<Sum>i\<in>S. length (fragment_slice p b i)) \<le> length p"
proof -
  let ?n = "split_count (length p) b"
  have join: "concat (map (fragment_slice p b) [0..<?n]) = p"
    by (rule fragment_slices_join [OF assms(1) split_count_bounds(1) [OF assms(1)]])
  have "length (concat (map (fragment_slice p b) [0..<?n])) = (\<Sum>i\<leftarrow>[0..<?n]. length (fragment_slice p b i))"
    by (simp add: length_concat comp_def)
  then have "length p = (\<Sum>i\<leftarrow>[0..<?n]. length (fragment_slice p b i))" unfolding join .
  also have "\<dots> = (\<Sum>i\<in>{..<?n}. length (fragment_slice p b i))"
    by (simp add: interv_sum_list_conv_sum_set_nat atLeast0LessThan)
  finally show ?thesis using sum_mono2 [of "{..<?n}" S "\<lambda>i. length (fragment_slice p b i)"] assms(2) by simp
qed

lemma partial_entry_weight:
  "0 < b \<Longrightarrow> S \<subseteq> {..<split_count (length p) b} \<Longrightarrow> entry_weight (partial_entry t p b S) \<le> message_cost b p"
  using slices_length [of b S p] by (simp add: entry_weight_def partial_entry_def message_cost_def Let_def)

lemma map_upt_update: "i < n \<Longrightarrow> (map f [0..<n])[i := y] = map (f(i := y)) [0..<n]"
  by (intro nth_equalityI) (auto simp: nth_list_update)

lemma partial_entry_insert:
  assumes "finite S" and "i \<notin> S" and "i < split_count (length p) b"
  shows "with_fragment i (fragment_slice p b i) (partial_entry t p b S) = partial_entry t p b (insert i S)"
  using assms by (auto simp: with_fragment_def partial_entry_def Let_def map_upt_update)

lemma partial_entry_empty:
  "partial_entry t p b {} = (let n = split_count (length p) b in
     \<lparr>en_slots = replicate n [], en_present = replicate n False, en_received = 0, en_size = 0,
      en_overhead = structural_cost n, en_timer = Some t\<rparr>)"
  by (simp add: partial_entry_def Let_def map_replicate_const)

definition fragment_op :: "(u16 \<Rightarrow> bytes) \<Rightarrow> nat \<Rightarrow> u16 \<times> nat \<Rightarrow> reassembly_op" where
  "fragment_op pay b x = (case x of (msg_id, i) \<Rightarrow>
     Feed_fragment msg_id (of_nat i) (of_nat (split_count (length (pay msg_id)) b)) (fragment_slice (pay msg_id) b i))"

definition received :: "(u16 \<times> nat) set \<Rightarrow> u16 \<Rightarrow> nat set" where
  "received D msg_id = {i. (msg_id, i) \<in> D}"

definition fragments_of :: "(u16 \<Rightarrow> bytes) \<Rightarrow> nat \<Rightarrow> u16 set \<Rightarrow> (u16 \<times> nat) set" where
  "fragments_of pay b ids = {(msg_id, i). msg_id \<in> ids \<and> i < split_count (length (pay msg_id)) b}"

definition partials_rel :: "reassembler_config \<Rightarrow> (u16 \<Rightarrow> bytes) \<Rightarrow> nat \<Rightarrow> u16 set \<Rightarrow> (u16 \<times> nat) set \<Rightarrow> reassembler \<Rightarrow> reassembly_event list \<Rightarrow> bool" where
  "partials_rel cfg pay b ids D s out \<longleftrightarrow> reassembler_ok s \<and> rs_cfg s = cfg
     \<and> (\<forall>k. map_of (rs_table s) k = (if k \<in> ids \<and> received D k \<noteq> {} \<and> received D k \<noteq> {..<split_count (length (pay k)) b}
           then Some (partial_entry (rc_per_message_timeout cfg) (pay k) b (received D k)) else None))
     \<and> (\<exists>order. out = map (\<lambda>k. Assembled (pay k)) order \<and> distinct order
           \<and> set order = {k \<in> ids. received D k = {..<split_count (length (pay k)) b}})"

definition messages_fit :: "reassembler_config \<Rightarrow> (u16 \<Rightarrow> bytes) \<Rightarrow> nat \<Rightarrow> u16 set \<Rightarrow> bool" where
  "messages_fit cfg pay b ids \<longleftrightarrow> 0 < b \<and> finite ids
     \<and> (\<forall>k\<in>ids. length (pay k) \<le> rc_max_message_size cfg \<and> split_count (length (pay k)) b \<le> max_fragment_count)
     \<and> (\<Sum>k\<in>ids. message_cost b (pay k)) \<le> rc_total_memory_cap cfg"

lemma held_by_others:
  assumes "reassembler_ok s" and "finite ids" and "k \<in> ids"
    and "\<And>j e. map_of (rs_table s) j = Some e \<Longrightarrow> j \<in> ids \<and> entry_weight e \<le> c j"
  shows "rs_held s + c k \<le> sum c ids + (case map_of (rs_table s) k of None \<Rightarrow> 0 | Some e \<Rightarrow> entry_weight e)"
proof -
  let ?m = "map_of (rs_table s)" and ?w = "\<lambda>j. entry_weight (the (map_of (rs_table s) j))"
  have d: "distinct (map fst (rs_table s))" using assms(1) by (simp add: reassembler_ok_def strict_sorted_iff)
  have "rs_held s = sum ?w (dom ?m)" using assms(1) table_weight_dom [OF d] by (simp add: reassembler_ok_def)
  also have "\<dots> = sum ?w (dom ?m - {k}) + (case ?m k of None \<Rightarrow> 0 | Some e \<Rightarrow> entry_weight e)"
  proof (cases "?m k")
    case None
    then have "dom ?m - {k} = dom ?m" by auto
    with None show ?thesis by (simp only: option.case add_0_right)
  next
    case (Some e)
    then show ?thesis using sum.remove [OF finite_dom_map_of, of k "rs_table s" ?w] by (auto simp: add.commute)
  qed
  also have "sum ?w (dom ?m - {k}) \<le> sum c (dom ?m - {k})" using assms(4) by (intro sum_mono) auto
  also have "sum c (dom ?m - {k}) \<le> sum c (ids - {k})" using assms(2,4) by (intro sum_mono2) auto
  finally show ?thesis using sum.remove [OF assms(2,3), of c] by simp
qed


lemma received_insert: "received (insert (k, i) D) j = (if j = k then insert i (received D k) else received D j)"
  by (auto simp: received_def)

text \<open>A fragment of a message finds its entry, or opens the empty one.\<close>

lemma admit_through_entry:
  assumes ok: "reassembler_ok s" and cfg: "rs_cfg s = cfg" and n: "n = split_count (length p) b" "n \<le> max_fragment_count" "i < n"
    and fin: "finite S" and e: "map_of (rs_table s) k = (if S = {} then None else Some (partial_entry (rc_per_message_timeout cfg) p b S))"
    and room: "rs_held s + (if S = {} then structural_cost n else 0) + length bs \<le> rc_total_memory_cap cfg"
  shows "\<exists>s1 j. reassembly_feed k (of_nat i) (of_nat n) bs s = do {
       (s', evs, out) \<leftarrow> store j k (of_nat i) bs s1;
       Some (s', evs @ (if out = ro_dropped_malformed then emit_reassembly_drop dc_malformed
                        else if out = ro_dropped_cap then emit_reassembly_drop dc_reassembly_cap else []), out)
     } \<and> reassembler_ok s1 \<and> rs_cfg s1 = cfg \<and> fm_find (rs_table s1) k = Some j
     \<and> map_of (rs_table s1) = (map_of (rs_table s))(k \<mapsto> partial_entry (rc_per_message_timeout cfg) p b S)
     \<and> rs_held s1 = rs_held s + (if S = {} then structural_cost n else 0)"
proof -
  have max: "max_fragment_count = 32768"
    by (simp add: max_fragment_count_def max_message_size_def min_fragment_payload_def)
  have u: "unat (of_nat n :: u32) = n" "unat (of_nat i :: u32) = i" using n max by (simp_all add: unat_of_nat)
  have g: "(0 :: u32) < of_nat n" "(of_nat i :: u32) < of_nat n" "unat (of_nat n :: u32) \<le> max_fragment_count"
    using u n by (simp_all add: word_less_nat_alt)
  have s: "sorted_table (rs_table s)" using ok by (simp add: reassembler_ok_def)
  have fd: "reassembly_feed k (of_nat i) (of_nat n) bs s = do {
       (s', evs, out) \<leftarrow> admit_fragment k (of_nat i) (of_nat n) bs s;
       Some (s', evs @ (if out = ro_dropped_malformed then emit_reassembly_drop dc_malformed
                        else if out = ro_dropped_cap then emit_reassembly_drop dc_reassembly_cap else []), out)
     }" using g by (simp add: reassembly_feed_def word_gt_0 leD linorder_not_le [THEN iffD2])
  show ?thesis
  proof (cases "S = {}")
    case True
    then have none: "map_of (rs_table s) k = None" using e by simp
    then have f: "fm_find (rs_table s) k = None" using fm_find_Some [OF s, of k] by (cases "fm_find (rs_table s) k") auto
    have "rs_held s + structural_cost (unat (of_nat n :: u32)) + length bs \<le> rc_total_memory_cap (rs_cfg s)"
      using room True u cfg by simp
    from open_entry_ok [OF ok none g(1) this] obtain s1 j where
      "open_entry k (of_nat n) (length bs) s = (s1, Some j)" "reassembler_ok s1" "fm_find (rs_table s1) k = Some j"
      "map_of (rs_table s1) = (map_of (rs_table s))(k \<mapsto> partial_entry (rc_per_message_timeout cfg) p b {})"
      "rs_held s1 = rs_held s + structural_cost n" "rs_cfg s1 = cfg"
      unfolding partial_entry_empty Let_def n(1) [symmetric] u cfg by blast
    with f show ?thesis unfolding fd admit_fragment_def True by (intro exI [of _ s1] exI [of _ j]) simp
  next
    case False
    then have e': "map_of (rs_table s) k = Some (partial_entry (rc_per_message_timeout cfg) p b S)" using e by simp
    obtain j where j: "fm_find (rs_table s) k = Some j"
      using fm_find_None [OF s, of k] e' by (cases "fm_find (rs_table s) k") auto
    have "map_of (rs_table s) = (map_of (rs_table s))(k \<mapsto> partial_entry (rc_per_message_timeout cfg) p b S)"
      using e' by (simp add: fun_upd_idem)
    with False ok cfg j show ?thesis unfolding fd admit_fragment_def by (intro exI [of _ s] exI [of _ j]) simp
  qed
qed

lemma partials_rel_grow:
  assumes rel: "partials_rel cfg pay b ids D s out" and k: "k \<in> ids" and proper: "received D k \<noteq> full"
    and full: "full = {..<split_count (length (pay k)) b}"
    and s': "reassembler_ok s'" "rs_cfg s' = cfg"
    and m': "map_of (rs_table s') = (map_of (rs_table s))(k := if insert i (received D k) = full then None
        else Some (partial_entry (rc_per_message_timeout cfg) (pay k) b (insert i (received D k))))"
  shows "partials_rel cfg pay b ids (insert (k, i) D) s'
    (out @ (if insert i (received D k) = full then [Assembled (pay k)] else []))"
proof -
  obtain order where order: "out = map (\<lambda>k. Assembled (pay k)) order" "distinct order"
      "set order = {k \<in> ids. received D k = {..<split_count (length (pay k)) b}}"
    using rel by (auto simp: partials_rel_def)
  let ?order = "order @ (if insert i (received D k) = full then [k] else [])"
  have "k \<notin> set order" using order(3) proper full by simp
  then have "distinct ?order" "set ?order = {j \<in> ids. received (insert (k, i) D) j = {..<split_count (length (pay j)) b}}"
    using order(2,3) k proper full by (auto simp: received_insert)
  moreover have "out @ (if insert i (received D k) = full then [Assembled (pay k)] else []) = map (\<lambda>k. Assembled (pay k)) ?order"
    using order(1) by simp
  moreover have "map_of (rs_table s') j = (if j \<in> ids \<and> received (insert (k, i) D) j \<noteq> {}
        \<and> received (insert (k, i) D) j \<noteq> {..<split_count (length (pay j)) b}
      then Some (partial_entry (rc_per_message_timeout cfg) (pay j) b (received (insert (k, i) D) j)) else None)" for j
    using rel k full unfolding m' partials_rel_def by (cases "j = k") (simp_all add: received_insert)
  ultimately show ?thesis using s' unfolding partials_rel_def by blast
qed

lemma partials_step:
  assumes fit: "messages_fit cfg pay b ids" and rel: "partials_rel cfg pay b ids D s out"
    and D: "D \<subseteq> fragments_of pay b ids" and x: "(k, i) \<in> fragments_of pay b ids - D"
  shows "\<exists>s' o'. reassembly_step s (fragment_op pay b (k, i)) = Some (s', o')
     \<and> partials_rel cfg pay b ids (insert (k, i) D) s' (out @ o')"
proof -
  let ?t = "rc_per_message_timeout cfg" and ?p = "pay k" and ?S = "received D k"
  define n where "n = split_count (length ?p) b"
  let ?bs = "fragment_slice ?p b i" and ?e = "partial_entry ?t ?p b ?S"
  have b: "0 < b" and ids: "finite ids" "k \<in> ids" and i: "i < n" "i \<notin> ?S" and sub: "?S \<subseteq> {..<n}"
    and lim: "length ?p \<le> rc_max_message_size cfg" "n \<le> max_fragment_count"
    using fit x D by (auto simp: messages_fit_def fragments_of_def received_def n_def)
  have fin: "finite ?S" using sub finite_subset by blast
  have sub': "insert i ?S \<subseteq> {..<n}" using sub i(1) by simp
  have proper: "?S \<noteq> {..<n}" using i by blast
  have ok: "reassembler_ok s" and cfg: "rs_cfg s = cfg"
    and m: "\<And>j. map_of (rs_table s) j = (if j \<in> ids \<and> received D j \<noteq> {} \<and> received D j \<noteq> {..<split_count (length (pay j)) b}
           then Some (partial_entry ?t (pay j) b (received D j)) else None)"
    using rel by (simp_all add: partials_rel_def)
  have mk: "map_of (rs_table s) k = (if ?S = {} then None else Some ?e)" using m [of k] ids(2) proper n_def by simp
  have "rs_held s + message_cost b ?p \<le> (\<Sum>j\<in>ids. message_cost b (pay j))
      + (case map_of (rs_table s) k of None \<Rightarrow> 0 | Some e \<Rightarrow> entry_weight e)"
  proof (rule held_by_others [OF ok ids])
    fix j e assume "map_of (rs_table s) j = Some e"
    then show "j \<in> ids \<and> entry_weight e \<le> message_cost b (pay j)"
      using m [of j] D b by (auto simp: fragments_of_def received_def split: if_splits intro!: partial_entry_weight)
  qed
  then have held: "rs_held s + message_cost b ?p \<le> rc_total_memory_cap cfg + (if ?S = {} then 0 else entry_weight ?e)"
    using fit unfolding mk by (cases "?S = {}") (simp_all add: messages_fit_def)
  have grown: "(\<Sum>j\<in>?S. length (fragment_slice ?p b j)) + length ?bs \<le> length ?p"
    using slices_length [OF b sub' [unfolded n_def]] fin i(2) by (simp add: add.commute)
  have fld: "en_size ?e = (\<Sum>j\<in>?S. length (fragment_slice ?p b j))" "en_overhead ?e = structural_cost n"
      "length (en_slots ?e) = n" "en_received ?e = card ?S"
    by (simp_all add: partial_entry_def Let_def n_def)
  have room: "rs_held s + (if ?S = {} then structural_cost n else 0) + length ?bs \<le> rc_total_memory_cap cfg"
    using held grown fld by (auto simp: message_cost_def entry_weight_def n_def [symmetric] split: if_splits)
  obtain s1 j where feed: "reassembly_feed k (of_nat i) (of_nat n) ?bs s = do {
       (s', evs, out) \<leftarrow> store j k (of_nat i) ?bs s1;
       Some (s', evs @ (if out = ro_dropped_malformed then emit_reassembly_drop dc_malformed
                        else if out = ro_dropped_cap then emit_reassembly_drop dc_reassembly_cap else []), out)}"
    and ok1: "reassembler_ok s1" "rs_cfg s1 = cfg" "fm_find (rs_table s1) k = Some j"
    and m1: "map_of (rs_table s1) = (map_of (rs_table s))(k \<mapsto> ?e)"
    and h1: "rs_held s1 = rs_held s + (if ?S = {} then structural_cost n else 0)"
    using admit_through_entry [OF ok cfg n_def lim(2) i(1) fin mk room] by blast
  have u: "unat (of_nat i :: u32) = i"
    using i(1) lim(2) by (simp add: unat_of_nat max_fragment_count_def max_message_size_def min_fragment_payload_def)
  have e1: "map_of (rs_table s1) k = Some ?e" using m1 by simp
  have k1: "unat (of_nat i :: u32) < length (en_slots ?e)" "\<not> en_present ?e ! unat (of_nat i :: u32)"
    using i u by (simp_all add: partial_entry_def Let_def n_def)
  have r1: "en_size ?e + length ?bs \<le> rc_max_message_size (rs_cfg s1)" "rs_held s1 + length ?bs \<le> rc_total_memory_cap (rs_cfg s1)"
    using grown lim(1) fld ok1(2) h1 room by simp_all
  have op: "reassembly_step s (fragment_op pay b (k, i))
      = map_option (\<lambda>(s', evs, _). (s', evs)) (reassembly_feed k (of_nat i) (of_nat n) ?bs s)"
    by (simp add: fragment_op_def n_def)
  note grow = partials_rel_grow [OF rel ids(2) proper n_def [THEN arg_cong [of _ _ lessThan]]]
  show ?thesis
  proof (cases "card ?S + 1 < n")
    case True
    then have more: "insert i ?S \<noteq> {..<n}"
      using fin i(2) by (metis card_insert_disjoint card_lessThan less_irrefl Suc_eq_plus1)
    obtain s' where st: "store j k (of_nat i) ?bs s1 = Some (s', [], ro_admitted)" "reassembler_ok s'" "rs_cfg s' = cfg"
      "map_of (rs_table s') = (map_of (rs_table s))(k \<mapsto> partial_entry ?t ?p b (insert i ?S))"
      using store_more [OF ok1(1,3) e1 k1 r1] True fld m1 ok1(2) partial_entry_insert [OF fin i(2) i(1) [unfolded n_def]] u
      by auto
    then have "partials_rel cfg pay b ids (insert (k, i) D) s' (out @ [])" using grow [of s' i] more by simp
    moreover have "reassembly_step s (fragment_op pay b (k, i)) = Some (s', [])" unfolding op feed st(1) by simp
    ultimately show ?thesis by blast
  next
    case False
    then have "card (insert i ?S) = card {..<n}" using fin i sub card_mono [OF finite_lessThan sub'] by simp
    then have full: "insert i ?S = {..<n}" by (intro card_subset_eq sub' finite_lessThan)
    have "en_slots ?e = map (\<lambda>j. if j \<in> ?S then fragment_slice ?p b j else []) [0..<n]"
      by (simp add: partial_entry_def Let_def n_def)
    moreover have "\<forall>j<n. j = i \<or> j \<in> ?S" using full by blast
    ultimately have "(en_slots ?e)[i := ?bs] = map (fragment_slice ?p b) [0..<n]"
      using i(1) by (simp only: map_upt_update) auto
    then have join: "concat ((en_slots ?e)[unat (of_nat i :: u32) := ?bs]) = ?p"
      using fragment_slices_join [OF b split_count_bounds(1) [OF b], of ?p] by (simp add: u n_def)
    obtain s' where st: "store j k (of_nat i) ?bs s1 = Some (s', [Assembled ?p], ro_completed)" "reassembler_ok s'" "rs_cfg s' = cfg"
      "map_of (rs_table s') = (map_of (rs_table s))(k := None)"
      using store_last [OF ok1(1,3) e1 k1 r1] False fld m1 ok1(2) join by auto
    then have "partials_rel cfg pay b ids (insert (k, i) D) s' (out @ [Assembled ?p])" using grow [of s' i] full by simp
    moreover have "reassembly_step s (fragment_op pay b (k, i)) = Some (s', [Assembled ?p])" unfolding op feed st(1) by simp
    ultimately show ?thesis by blast
  qed
qed


lemma partials_run:
  assumes fit: "messages_fit cfg pay b ids"
  shows "partials_rel cfg pay b ids D s out \<Longrightarrow> D \<union> set xs \<subseteq> fragments_of pay b ids \<Longrightarrow> distinct xs \<Longrightarrow> set xs \<inter> D = {} \<Longrightarrow>
     \<exists>s' o'. run_safe reassembly_step s (map (fragment_op pay b) xs) = Some (s', o')
       \<and> partials_rel cfg pay b ids (D \<union> set xs) s' (out @ o')"
proof (induction xs arbitrary: D s out)
  case (Cons x xs)
  obtain k i where x: "x = (k, i)" by (cases x)
  obtain s1 o1 where s1: "reassembly_step s (fragment_op pay b x) = Some (s1, o1)"
      "partials_rel cfg pay b ids (insert x D) s1 (out @ o1)"
    using partials_step [OF fit Cons.prems(1), of k i] Cons.prems(2,4) x by auto
  obtain s' o' where "run_safe reassembly_step s1 (map (fragment_op pay b) xs) = Some (s', o')"
      "partials_rel cfg pay b ids (insert x D \<union> set xs) s' ((out @ o1) @ o')"
    using Cons.IH [OF s1(2)] Cons.prems by auto
  with s1(1) show ?case by (simp add: insert_absorb)
qed simp

definition message_ops :: "nat \<Rightarrow> bool \<Rightarrow> u16 \<times> bytes \<Rightarrow> reassembly_op list" where
  "message_ops tb aead m = (case m of (msg_id, p) \<Rightarrow>
     (case split p tb aead of None \<Rightarrow> [] | Some (fs, _) \<Rightarrow> map (\<lambda>(i, c, s). Feed_fragment msg_id i c s) fs))"

fun op_key :: "reassembly_op \<Rightarrow> u16 \<times> nat" where
  "op_key (Feed_fragment msg_id i c s) = (msg_id, unat i)"
| "op_key _ = (0, 0)"

lemma message_ops_eq:
  "pay k = p \<Longrightarrow> b = effective_fragment_budget tb aead \<Longrightarrow>
   message_ops tb aead (k, p) = map (fragment_op pay b) (map (Pair k) [0..<split_count (length p) b])"
  by (simp add: message_ops_def split_eq Let_def fragment_op_def)

lemma op_key_fragment_op:
  "i < split_count (length (pay k)) b \<Longrightarrow> split_count (length (pay k)) b \<le> max_fragment_count \<Longrightarrow> op_key (fragment_op pay b (k, i)) = (k, i)"
  by (simp add: fragment_op_def unat_of_nat max_fragment_count_def max_message_size_def min_fragment_payload_def)

text \<open>A reordering of a list of fragments is a list of reordered fragment numbers.\<close>

lemma reordered_keys:
  assumes "mset ops = mset (map (fragment_op pay b) ps)" and "\<And>x. x \<in> set ps \<Longrightarrow> op_key (fragment_op pay b x) = x"
  shows "ops = map (fragment_op pay b) (map op_key ops)" and "mset (map op_key ops) = mset ps"
proof -
  have "fragment_op pay b (op_key y) = y" if "y \<in> set ops" for y
    using that mset_eq_setD [OF assms(1)] assms(2) by auto
  then show "ops = map (fragment_op pay b) (map op_key ops)" by (simp add: map_idI)
  have "mset (map op_key ops) = mset (map op_key (map (fragment_op pay b) ps))" using assms(1) by (metis mset_map)
  also have "map op_key (map (fragment_op pay b) ps) = ps" using assms(2) by (simp add: map_idI)
  finally show "mset (map op_key ops) = mset ps" .
qed

text \<open>
  C15. Several messages split into fragments, all their fragments arriving once each in any
  interleaving and any order: when the messages fit the memory cap together, every message is
  delivered exactly once, whole, nothing is dropped, and the reassembler ends empty.
\<close>

theorem reassembly_any_order:
  fixes msgs :: "(u16 \<times> bytes) list"
  assumes "distinct (map fst msgs)"
    and "\<forall>(k, p) \<in> set msgs. length p \<le> rc_max_message_size cfg
      \<and> split_count (length p) (effective_fragment_budget tb aead) \<le> max_fragment_count"
    and "(\<Sum>(k, p)\<leftarrow>msgs. message_cost (effective_fragment_budget tb aead) p) \<le> rc_total_memory_cap cfg"
    and "mset ops = mset (concat (map (message_ops tb aead) msgs))"
  shows "\<exists>s order. run_safe reassembly_step (reassembler_init cfg) ops = Some (s, map (\<lambda>(k, p). Assembled p) order)
     \<and> mset order = mset msgs \<and> rs_table s = [] \<and> rs_held s = 0"
proof -
  let ?b = "effective_fragment_budget tb aead"
  define ids where "ids = set (map fst msgs)"
  define pay where "pay = (\<lambda>k. the (map_of msgs k))"
  have pay: "pay k = p" if "(k, p) \<in> set msgs" for k p using that assms(1) by (simp add: pay_def)
  let ?ps = "concat (map (\<lambda>(k, p). map (Pair k) [0..<split_count (length p) ?b]) msgs)"
  have lim: "length (pay k) \<le> rc_max_message_size cfg \<and> split_count (length (pay k)) ?b \<le> max_fragment_count" if "k \<in> ids" for k
    using that assms(2) pay by (fastforce simp: ids_def)
  have "(\<Sum>k\<in>ids. message_cost ?b (pay k)) = (\<Sum>k\<leftarrow>map fst msgs. message_cost ?b (pay k))"
    unfolding ids_def by (rule sum_list_distinct_conv_sum_set [OF assms(1), symmetric])
  also have "map (\<lambda>k. message_cost ?b (pay k)) (map fst msgs) = map (\<lambda>(k, p). message_cost ?b p) msgs"
    using pay by auto
  finally have fit: "messages_fit cfg pay ?b ids" using assms(3) lim by (simp add: messages_fit_def ids_def)
  have eq: "map (message_ops tb aead) msgs = map (\<lambda>(k, p). map (fragment_op pay ?b) (map (Pair k) [0..<split_count (length p) ?b])) msgs"
    using pay by (auto simp: message_ops_eq [where pay = pay])
  have "concat (map (message_ops tb aead) msgs) = map (fragment_op pay ?b) ?ps"
    unfolding eq by (simp add: map_concat comp_def case_prod_beta')
  then have ops: "mset ops = mset (map (fragment_op pay ?b) ?ps)" using assms(4) by (simp only:)
  have "(k, i) \<in> set ?ps \<longleftrightarrow> (\<exists>p. (k, p) \<in> set msgs \<and> i < split_count (length p) ?b)" for k i
    by (auto intro!: bexI)
  moreover have "(k, i) \<in> fragments_of pay ?b ids \<longleftrightarrow> (\<exists>p. (k, p) \<in> set msgs \<and> i < split_count (length p) ?b)" for k i
    using pay by (force simp: fragments_of_def ids_def)
  ultimately have sps: "set ?ps = fragments_of pay ?b ids" by (simp only: set_eq_iff split_paired_All simp_thms)
  have key: "op_key (fragment_op pay ?b x) = x" if "x \<in> set ?ps" for x
    using that lim unfolding sps by (auto simp: fragments_of_def intro!: op_key_fragment_op)
  have "distinct (concat (map (\<lambda>(k, p). map (Pair k) [0..<n k p]) msgs))" for n
    using assms(1) by (induction msgs) (auto simp: distinct_map inj_on_def image_iff)
  then have dps: "distinct ?ps" .
  let ?xs = "map op_key ops"
  note re = reordered_keys [OF ops key]
  have xs: "distinct ?xs" "set ?xs = fragments_of pay ?b ids"
    using re(2) dps sps by (metis mset_eq_imp_distinct_iff, metis mset_eq_setD)
  have "partials_rel cfg pay ?b ids {} (reassembler_init cfg) []"
    using split_count_pos [OF budget_pos] reassembler_ok_init [of cfg]
    by (auto simp: partials_rel_def received_def reassembler_init_def lessThan_empty_iff)
  from partials_run [OF fit this, of ?xs] xs obtain s out where
    run: "run_safe reassembly_step (reassembler_init cfg) ops = Some (s, out)"
    and rel: "partials_rel cfg pay ?b ids (fragments_of pay ?b ids) s out"
    using re(1) by auto
  have full: "received (fragments_of pay ?b ids) k = (if k \<in> ids then {..<split_count (length (pay k)) ?b} else {})" for k
    by (auto simp: received_def fragments_of_def)
  have "map_of (rs_table s) = Map.empty" using rel by (auto simp: partials_rel_def full fun_eq_iff)
  then have tab: "rs_table s = []" by (simp add: map_of_eq_empty_iff)
  obtain order where o: "out = map (\<lambda>k. Assembled (pay k)) order" "distinct order" "set order = ids"
    using rel by (auto simp: partials_rel_def full)
  let ?order = "map (\<lambda>k. (k, pay k)) order"
  have "mset order = mset (map fst msgs)" using set_eq_iff_mset_eq_distinct [OF o(2) assms(1)] o(3) ids_def by blast
  then have "mset ?order = mset (map (\<lambda>k. (k, pay k)) (map fst msgs))" by (metis mset_map)
  also have "map (\<lambda>k. (k, pay k)) (map fst msgs) = msgs" using pay by (auto intro: map_idI)
  finally have "mset ?order = mset msgs" .
  moreover have "out = map (\<lambda>(k, p). Assembled p) ?order" using o(1) by simp
  moreover have "rs_held s = 0" using rel tab by (simp add: partials_rel_def reassembler_ok_def)
  ultimately show ?thesis using run tab by blast
qed


lemma structural_cost_small: "structural_cost 2 = 49" "structural_cost (Suc 0) = 25"
  by (simp_all add: structural_cost_def sizeof_vector_def)

theorem reassembly_any_order_witness:
  "\<exists>s order. run_safe reassembly_step (reassembler_init default_reassembler_config)
       [Feed_fragment 5 1 2 (replicate 2 7), Feed_fragment 9 0 1 [], Feed_fragment 5 0 2 (replicate 128 7)]
     = Some (s, map (\<lambda>(k, p). Assembled p) order)
   \<and> mset order = mset [(5 :: u16, replicate 130 7), (9, [])] \<and> rs_table s = [] \<and> rs_held s = 0"
proof -
  have b: "effective_fragment_budget 100 False = 128"
    by (simp add: effective_fragment_budget_def min_fragment_payload_def udp_fragment_header_overhead_def
        udp_envelope_overhead_def udp_fragment_subheader_def)
  have c: "split_count 130 128 = 2" "split_count 0 128 = 1" by (simp_all add: split_count_def)
  have upt: "[0..<2] = [0, Suc 0]" by (simp add: upt_rec)
  have o: "message_ops 100 False (5, replicate 130 7) = [Feed_fragment 5 0 2 (replicate 128 7), Feed_fragment 5 1 2 (replicate 2 7)]"
    "message_ops 100 False (9, []) = [Feed_fragment 9 0 1 []]"
    by (simp_all add: message_ops_eq [where pay = "\<lambda>_. replicate 130 7"] message_ops_eq [where pay = "\<lambda>_. []"] b c upt fragment_op_def fragment_slice_def)
  show ?thesis
    by (rule reassembly_any_order [where tb = 100 and aead = False])
      (simp_all add: o b c message_cost_def structural_cost_small default_reassembler_config_def
        global_default_max_message_bytes_def reassembly_memory_budget_def max_fragment_count_def max_message_size_def
        min_fragment_payload_def add_mset_commute)
qed

end
