(* ===== verification/Udp_Channel.thy ===== *)
theory Udp_Channel
  imports Reliable_Arq Send_Queue Dedup_Window Datagram_Reassembler
begin

text \<open>
  \<open>plexus-asio/udp_channel.h\<close> and \<open>detail/udp_channel_io.h\<close>: the per-peer datagram channel, which puts
  together the envelope codec, the duplicate window, the fragment path and the reliable sender with
  its backpressure queue. The server socket, the executor and the owner's callbacks are the event
  list; a posted callback is the event of its posting. The scratch vectors are output buffers of the
  encoders, whose result does not depend on the old content, and are not state. The outer \<open>option\<close> is
  a fault of a component or a use of an absent engine.
\<close>

definition default_max_payload :: nat where "default_max_payload = 1200"
definition default_backpressure_bytes :: nat where "default_backpressure_bytes = 1 * max_message_size"

record udp_channel =
  uc_max_payload :: nat
  uc_max_message_bytes :: nat
  uc_reassembly_budget :: nat
  uc_reassembly_timeout :: nat
  uc_arq_cfg :: udp_arq_config
  uc_congestion :: congestion
  uc_backpressure :: udp_backpressure_queue
  uc_dropped :: nat
  uc_mode :: udp_channel_mode
  uc_initial_seq :: u16
  uc_out_seq :: u16
  uc_out_msg_id :: u16
  uc_dedup :: udp_dedup_window
  uc_arq :: "udp_reliable_arq option"
  uc_reassembler :: "reassembler option"
  uc_open :: bool

datatype channel_event =
  Send_to bytes | Send_standalone_to bytes | Post_data bytes | Channel_error io_error | Channel_drop drop_event
  | Reliable_segment u16 bytes | Post_closed | Torn_down

definition udp_channel_init ::
  "nat \<Rightarrow> udp_arq_config \<Rightarrow> congestion \<Rightarrow> nat \<Rightarrow> udp_channel_mode \<Rightarrow> u16 \<Rightarrow> nat \<Rightarrow> nat \<Rightarrow> nat \<Rightarrow> udp_channel" where
  "udp_channel_init max_payload arq_cfg congestion backpressure_bytes mode initial_seq max_message_bytes reassembly_budget per_message_timeout =
     \<lparr>uc_max_payload = max_payload, uc_max_message_bytes = max_message_bytes, uc_reassembly_budget = reassembly_budget,
      uc_reassembly_timeout = per_message_timeout, uc_arq_cfg = arq_cfg, uc_congestion = congestion,
      uc_backpressure = udp_backpressure_queue_init (max backpressure_bytes max_message_bytes), uc_dropped = 0,
      uc_mode = mode, uc_initial_seq = initial_seq, uc_out_seq = 0, uc_out_msg_id = 0,
      uc_dedup = udp_dedup_window_init depth_max, uc_arq = None, uc_reassembler = None, uc_open = True\<rparr>"

section \<open>Outbound\<close>

definition reject_oversize :: "channel_event list" where
  "reject_oversize = [Channel_error message_too_large]"

definition exceeds_max_message :: "udp_channel \<Rightarrow> nat \<Rightarrow> bool" where
  "exceeds_max_message c n \<longleftrightarrow> n > uc_max_message_bytes c"

fun send_fragments :: "u16 \<Rightarrow> fragment list \<Rightarrow> udp_channel \<Rightarrow> (udp_channel \<times> channel_event list) option" where
  "send_fragments msg_id [] c = Some (c, [])"
| "send_fragments msg_id ((idx, cnt, piece) # fs) c = do {
     d \<leftarrow> wrap_udp_fragment_into [] best_effort (uc_out_seq c) msg_id idx cnt piece;
     (c', out) \<leftarrow> send_fragments msg_id fs (c\<lparr>uc_out_seq := uc_out_seq c + 1\<rparr>);
     Some (c', Send_to d # out)
   }"

definition send_best_effort_large :: "bytes \<Rightarrow> udp_channel \<Rightarrow> (udp_channel \<times> channel_event list) option" where
  "send_best_effort_large frame c =
     (if exceeds_max_message c (length frame) then Some (c, reject_oversize)
      else let msg_id = uc_out_msg_id c; c = c\<lparr>uc_out_msg_id := msg_id + 1\<rparr> in do {
        (fs, _) \<leftarrow> split frame (uc_max_payload c) False;
        send_fragments msg_id fs c
      })"

text \<open>The callbacks installed on the reliable sender.\<close>

fun arq_emit :: "arq_event \<Rightarrow> channel_event list option" where
  "arq_emit (Transmit seq payload fragmented) = do {
     inner \<leftarrow> encode_udp_segment_into [] payload;
     d \<leftarrow> (if fragmented then wrap_udp_into_fragmented [] reliable_arq seq inner
          else wrap_udp_into [] reliable_arq seq inner);
     Some [Send_to d]
   }"
| "arq_emit (Send_ack ack) = do {
     inner \<leftarrow> encode_udp_ack_into [] ack;
     d \<leftarrow> wrap_udp_into [] reliable_arq 0 inner;
     Some [Send_to d]
   }"
| "arq_emit Exhausted = Some [Channel_error timed_out]"
| "arq_emit (Deliver _ _ _) = Some []"
| "arq_emit Window_advance = Some []"

definition arq_emits :: "arq_event list \<Rightarrow> channel_event list option" where
  "arq_emits evs = map_option concat (those (map arq_emit evs))"

definition on_window_full :: "bytes \<Rightarrow> bool \<Rightarrow> udp_channel \<Rightarrow> udp_channel \<times> channel_event list \<times> submit_result" where
  "on_window_full payload fragmented c =
     (if uc_congestion c = drop_newest
      then (c\<lparr>uc_dropped := uc_dropped c + 1\<rparr>,
            [Channel_drop (default_drop_event\<lparr>de_cause := dc_arq_shed, de_transport := loc_remote\<rparr>)], window_full)
      else case bq_admit (payload, fragmented) (uc_backpressure c) of
             (b, ok) \<Rightarrow> if ok then (c\<lparr>uc_backpressure := b\<rparr>, [], admitted)
                        else (c, [Channel_error would_block], window_full))"

definition ensure_arq :: "udp_channel \<Rightarrow> udp_channel" where
  "ensure_arq c = (case uc_arq c of Some _ \<Rightarrow> c
     | None \<Rightarrow> c\<lparr>uc_arq := Some (udp_reliable_arq_init (uc_arq_cfg c) (uc_initial_seq c))\<rparr>)"

definition submit_reliable_fragment ::
  "nat \<Rightarrow> u16 \<Rightarrow> u32 \<Rightarrow> u32 \<Rightarrow> bytes \<Rightarrow> udp_channel \<Rightarrow> (udp_channel \<times> channel_event list \<times> submit_result) option" where
  "submit_reliable_fragment now msg_id idx cnt piece c = do {
     scratch \<leftarrow> encode_udp_fragment_payload_into [] msg_id idx cnt piece;
     a \<leftarrow> uc_arq c;
     let (a, evs, r) = arq_submit now scratch True a in do {
       out \<leftarrow> arq_emits evs;
       let c = c\<lparr>uc_arq := Some a\<rparr> in
       if r = admitted then Some (c, out, r)
       else let (c, out', r) = on_window_full scratch True c in Some (c, out @ out', r)
     }
   }"

fun submit_fragments ::
  "nat \<Rightarrow> u16 \<Rightarrow> fragment list \<Rightarrow> submit_result \<Rightarrow> udp_channel \<Rightarrow> (udp_channel \<times> channel_event list \<times> submit_result) option" where
  "submit_fragments now msg_id [] r c = Some (c, [], r)"
| "submit_fragments now msg_id ((idx, cnt, piece) # fs) r c = do {
     (c, out, r) \<leftarrow> submit_reliable_fragment now msg_id idx cnt piece c;
     (c, out', r) \<leftarrow> submit_fragments now msg_id fs r c;
     Some (c, out @ out', r)
   }"

definition send_reliable_large :: "nat \<Rightarrow> bytes \<Rightarrow> udp_channel \<Rightarrow> (udp_channel \<times> channel_event list \<times> submit_result) option" where
  "send_reliable_large now payload c =
     (if exceeds_max_message c (length payload) then Some (c, reject_oversize, window_full)
      else let c = ensure_arq c; msg_id = uc_out_msg_id c; c = c\<lparr>uc_out_msg_id := msg_id + 1\<rparr> in do {
        (fs, _) \<leftarrow> split payload (uc_max_payload c) False;
        submit_fragments now msg_id fs admitted c
      })"

definition send_reliable :: "nat \<Rightarrow> bytes \<Rightarrow> udp_channel \<Rightarrow> (udp_channel \<times> channel_event list \<times> submit_result) option" where
  "send_reliable now payload c =
     (if \<not> uc_open c then Some (c, [], window_full)
      else if length payload + udp_envelope_overhead + 1 > uc_max_payload c then send_reliable_large now payload c
      else let c = ensure_arq c in do {
        a \<leftarrow> uc_arq c;
        let (a, evs, r) = arq_submit now payload False a in do {
          out \<leftarrow> arq_emits evs;
          let c = c\<lparr>uc_arq := Some a\<rparr> in
          if r = admitted then Some (c, out, r)
          else let (c, out', r) = on_window_full payload False c in Some (c, out @ out', r)
        }
      })"

definition channel_send :: "nat \<Rightarrow> bytes \<Rightarrow> udp_channel \<Rightarrow> (udp_channel \<times> channel_event list) option" where
  "channel_send now frame c =
     (if uc_mode c = mode_reliable_datagram then map_option (\<lambda>(c, out, _). (c, out)) (send_reliable now frame c)
      else if \<not> uc_open c then Some (c, [])
      else if length frame + udp_envelope_overhead > uc_max_payload c then send_best_effort_large frame c
      else do {
        d \<leftarrow> wrap_udp_into [] best_effort (uc_out_seq c) frame;
        Some (c\<lparr>uc_out_seq := uc_out_seq c + 1\<rparr>, [Send_standalone_to d])
      })"

text \<open>The loop pops a parked frame in every turn.\<close>

function drain_backpressure :: "nat \<Rightarrow> udp_channel \<Rightarrow> (udp_channel \<times> channel_event list) option" where
  "drain_backpressure now c =
     (case (bq_queue (uc_backpressure c), uc_arq c) of
        ((payload, fragmented) # q, Some a) \<Rightarrow>
          if \<not> window_has_room a then Some (c, [])
          else let (a, evs, r) = arq_submit now payload fragmented a in
            (case arq_emits evs of None \<Rightarrow> None
             | Some out \<Rightarrow>
                 let c = c\<lparr>uc_arq := Some a\<rparr> in
                 if r \<noteq> admitted then Some (c, out)
                 else (case bq_pop_front (uc_backpressure c) of None \<Rightarrow> None
                       | Some b \<Rightarrow> map_option (apsnd ((@) out)) (drain_backpressure now (c\<lparr>uc_backpressure := b\<rparr>))))
      | _ \<Rightarrow> Some (c, []))"
  by pat_completeness auto
termination
  by (relation "measure (\<lambda>(_, c). length (bq_queue (uc_backpressure c)))") (auto simp: bq_pop_front_def split: list.splits)

declare drain_backpressure.simps [simp del]

section \<open>Inbound\<close>

definition ensure_reassembler :: "udp_channel \<Rightarrow> udp_channel" where
  "ensure_reassembler c = (case uc_reassembler c of Some _ \<Rightarrow> c
     | None \<Rightarrow> c\<lparr>uc_reassembler := Some (reassembler_init \<lparr>rc_max_message_size = uc_max_message_bytes c,
         rc_total_memory_cap = uc_reassembly_budget c, rc_per_message_timeout = uc_reassembly_timeout c\<rparr>)\<rparr>)"

fun reassembler_callback :: "reassembly_event \<Rightarrow> channel_event" where
  "reassembler_callback (Assembled msg) = Post_data msg"
| "reassembler_callback (Reassembly_drop ev) = Channel_drop ev"

definition feed_fragment :: "bytes \<Rightarrow> udp_channel \<Rightarrow> (udp_channel \<times> channel_event list) option" where
  "feed_fragment frame c = (let c = ensure_reassembler c in do {
     h \<leftarrow> decode_udp_fragment_header frame;
     case h of None \<Rightarrow> Some (c, [])
     | Some h \<Rightarrow> do {
         r \<leftarrow> uc_reassembler c;
         (r, evs, _) \<leftarrow> reassembly_feed (uf_msg_id h) (uf_frag_idx h) (uf_frag_cnt h) (uf_payload h) r;
         Some (c\<lparr>uc_reassembler := Some r\<rparr>, map reassembler_callback evs)
       }
   })"

definition deliver_reliable_inorder :: "bool \<Rightarrow> bytes \<Rightarrow> udp_channel \<Rightarrow> (udp_channel \<times> channel_event list) option" where
  "deliver_reliable_inorder fragmented payload c =
     (if \<not> fragmented then Some (c, [Post_data payload]) else feed_fragment payload c)"

fun arq_callback :: "nat \<Rightarrow> arq_event \<Rightarrow> udp_channel \<Rightarrow> (udp_channel \<times> channel_event list) option" where
  "arq_callback now (Deliver _ fragmented payload) c = deliver_reliable_inorder fragmented payload c"
| "arq_callback now Window_advance c = drain_backpressure now c"
| "arq_callback now ev c = map_option (Pair c) (arq_emit ev)"

fun arq_callbacks :: "nat \<Rightarrow> arq_event list \<Rightarrow> udp_channel \<Rightarrow> (udp_channel \<times> channel_event list) option" where
  "arq_callbacks now [] c = Some (c, [])"
| "arq_callbacks now (ev # evs) c = do {
     (c, out) \<leftarrow> arq_callback now ev c;
     (c, out') \<leftarrow> arq_callbacks now evs c;
     Some (c, out @ out')
   }"

text \<open>
  \<open>on_ack\<close> with the channel's callback in its place: the window advance drains the backpressure queue
  after the base has moved and before the selective holes are released.
\<close>

definition ack_holes :: "nat \<Rightarrow> udp_ack \<Rightarrow> udp_reliable_arq \<Rightarrow> udp_reliable_arq" where
  "ack_holes now ack = fold (\<lambda>i s. if hole_received ack i then ack_hole now (ack_cumulative ack + 2 + of_nat i) s else s)
     [0..<bitmap_bits]"

definition channel_on_ack :: "nat \<Rightarrow> udp_ack \<Rightarrow> udp_channel \<Rightarrow> (udp_channel \<times> channel_event list) option" where
  "channel_on_ack now ack c =
     (case uc_arq c of None \<Rightarrow> Some (c, [])
      | Some a \<Rightarrow> (let (a, evs) = slide_to now (ack_cumulative ack + 1) a in do {
          (c, out) \<leftarrow> arq_callbacks now evs (c\<lparr>uc_arq := Some a\<rparr>);
          Some (c\<lparr>uc_arq := map_option (ack_holes now ack) (uc_arq c)\<rparr>, out)
        }))"

definition deliver_reliable :: "nat \<Rightarrow> u16 \<Rightarrow> bool \<Rightarrow> bytes \<Rightarrow> udp_channel \<Rightarrow> (udp_channel \<times> channel_event list) option" where
  "deliver_reliable now seq fragmented inner c = do {
     kind \<leftarrow> peek_udp_arq_kind inner;
     case kind of None \<Rightarrow> Some (c, [])
     | Some arq_ack \<Rightarrow> do {
         ack \<leftarrow> decode_udp_ack inner;
         case ack of None \<Rightarrow> Some (c, []) | Some ack \<Rightarrow> channel_on_ack now ack c
       }
     | Some arq_segment \<Rightarrow> do {
         payload \<leftarrow> decode_udp_segment inner;
         case payload of None \<Rightarrow> Some (c, [])
         | Some payload \<Rightarrow> let c = ensure_arq c in do {
             a \<leftarrow> uc_arq c;
             (a, evs) \<leftarrow> on_segment seq fragmented payload a;
             (c, out) \<leftarrow> arq_callbacks now evs (c\<lparr>uc_arq := Some a\<rparr>);
             Some (c, Reliable_segment seq payload # out)
           }
       }
   }"

definition deliver_inbound :: "nat \<Rightarrow> bytes \<Rightarrow> udp_channel \<Rightarrow> (udp_channel \<times> channel_event list) option" where
  "deliver_inbound now datagram c = do {
     dec \<leftarrow> unwrap_udp datagram;
     case dec of None \<Rightarrow> Some (c, [])
     | Some d \<Rightarrow>
         if ue_kind d = best_effort then
           (case dw_admit (uc_dedup c) (ue_seq d) of (w, o') \<Rightarrow>
              let c = c\<lparr>uc_dedup := w\<rparr> in
              if o' \<noteq> dw_fresh then Some (c, [])
              else if ue_fragmented d then feed_fragment (ue_frame d) c
              else Some (c, [Post_data (ue_frame d)]))
         else if uc_mode c = mode_reliable_datagram then deliver_reliable now (ue_seq d) (ue_fragmented d) (ue_frame d) c
         else Some (c, [])
   }"

section \<open>Timers and teardown\<close>

text \<open>A retransmission wait that completes: by its slot, or with any captured number.\<close>

definition channel_rto :: "(udp_reliable_arq \<Rightarrow> udp_reliable_arq \<times> arq_event list) \<Rightarrow> udp_channel \<Rightarrow> (udp_channel \<times> channel_event list) option" where
  "channel_rto fire c =
     (case uc_arq c of None \<Rightarrow> Some (c, [])
      | Some a \<Rightarrow> (let (a, evs) = fire a in map_option (Pair (c\<lparr>uc_arq := Some a\<rparr>)) (arq_emits evs)))"

definition channel_partial_timeout :: "u16 \<Rightarrow> bool \<Rightarrow> udp_channel \<Rightarrow> (udp_channel \<times> channel_event list) option" where
  "channel_partial_timeout msg_id ec c =
     (case uc_reassembler c of None \<Rightarrow> Some (c, [])
      | Some r \<Rightarrow> map_option (\<lambda>(r, evs). (c\<lparr>uc_reassembler := Some r\<rparr>, map reassembler_callback evs)) (reassembly_timeout msg_id ec r))"

definition channel_close :: "udp_channel \<Rightarrow> udp_channel \<times> channel_event list" where
  "channel_close c = (if \<not> uc_open c then (c, []) else (c\<lparr>uc_open := False\<rparr>, [Post_closed]))"

definition channel_teardown :: "udp_channel \<Rightarrow> udp_channel \<times> channel_event list" where
  "channel_teardown c = (c\<lparr>uc_open := False, uc_reassembler := map_option reassembly_cancel (uc_reassembler c),
     uc_arq := map_option arq_cancel (uc_arq c)\<rparr>, [Torn_down])"


section \<open>Any input\<close>

definition channel_ok :: "udp_channel \<Rightarrow> bool" where
  "channel_ok c \<longleftrightarrow> pred_option arq_ok (uc_arq c) \<and> pred_option reassembler_ok (uc_reassembler c) \<and> bq_inv (uc_backpressure c)"

lemma channel_ok_fields [simp]:
  "channel_ok (c\<lparr>uc_out_seq := x\<rparr>) = channel_ok c" "channel_ok (c\<lparr>uc_out_msg_id := x\<rparr>) = channel_ok c"
  "channel_ok (c\<lparr>uc_dropped := n\<rparr>) = channel_ok c" "channel_ok (c\<lparr>uc_dedup := w\<rparr>) = channel_ok c"
  "channel_ok (c\<lparr>uc_open := o'\<rparr>) = channel_ok c"
  by (simp_all add: channel_ok_def)

lemma arq_emit_ok: "event_ok ev \<Longrightarrow> \<exists>out. arq_emit ev = Some out"
  by (cases ev) (auto simp: udp_layout encode_udp_ack_into_layout)

lemma arq_emits_Nil [simp]: "arq_emits [] = Some []"
  by (simp add: arq_emits_def)

lemma arq_emits_Cons [simp]:
  "arq_emits (ev # evs) = do { out \<leftarrow> arq_emit ev; out' \<leftarrow> arq_emits evs; Some (out @ out') }"
  by (auto simp: arq_emits_def split: option.splits Option.bind_splits)

lemma arq_emits_ok: "list_all event_ok evs \<Longrightarrow> \<exists>out. arq_emits evs = Some out"
  by (induction evs) (auto dest!: arq_emit_ok)

lemma fragment_header_total: "\<exists>r. decode_udp_fragment_header frame = Some r"
proof -
  have "safely (\<lambda>_. True) (decode_udp_fragment_header frame)"
    by (auto simp: decode_udp_fragment_header_def intro!: safe_intro)
  then show ?thesis by (simp add: safely_ex)
qed

lemma udp_ack_total: "\<exists>r. decode_udp_ack frame = Some r"
proof -
  have "safely (\<lambda>_. True) (decode_udp_ack frame)"
    by (auto simp: decode_udp_ack_def empty_ack_def intro!: safe_intro)
  then show ?thesis by (simp add: safely_ex)
qed

lemma bq_admit_ok: "bq_inv b \<Longrightarrow> bq_inv (fst (bq_admit e b))"
  by (cases e) (auto simp: bq_admit_def bq_inv_def bq_admits_def)

lemma bq_pop_front_ok: "bq_inv b \<Longrightarrow> bq_queue b = e # q \<Longrightarrow> \<exists>b'. bq_pop_front b = Some b' \<and> bq_inv b' \<and> bq_queue b' = q"
  by (cases e) (auto simp: bq_pop_front_def bq_inv_def)

lemma on_window_full_ok:
  "channel_ok c \<Longrightarrow> channel_ok (fst (on_window_full p f c))"
  using bq_admit_ok [of "uc_backpressure c" "(p, f)"]
  by (auto simp: on_window_full_def channel_ok_def split: prod.splits)

lemma ensure_arq_ok: "channel_ok c \<Longrightarrow> channel_ok (ensure_arq c) \<and> (\<exists>a. uc_arq (ensure_arq c) = Some a)"
  by (auto simp: ensure_arq_def channel_ok_def arq_ok_init split: option.splits)

lemma ensure_reassembler_ok:
  "channel_ok c \<Longrightarrow> channel_ok (ensure_reassembler c) \<and> (\<exists>r. uc_reassembler (ensure_reassembler c) = Some r)"
  by (auto simp: ensure_reassembler_def channel_ok_def reassembler_ok_init split: option.splits)

text \<open>Every submission to the engine is one of these: taken by the window, or parked, or refused.\<close>

definition push_piece :: "nat \<Rightarrow> bytes \<times> bool \<Rightarrow> udp_channel \<Rightarrow> (udp_channel \<times> channel_event list \<times> submit_result) option" where
  "push_piece now x c = (case x of (payload, fragmented) \<Rightarrow> do {
     a \<leftarrow> uc_arq c;
     let (a, evs, r) = arq_submit now payload fragmented a in do {
       out \<leftarrow> arq_emits evs;
       let c = c\<lparr>uc_arq := Some a\<rparr> in
       if r = admitted then Some (c, out, r)
       else let (c, out', r) = on_window_full payload fragmented c in Some (c, out @ out', r)
     }
   })"

lemma push_piece_ok:
  assumes "channel_ok c" and "uc_arq c \<noteq> None"
  shows "safely (\<lambda>(c', _, _). channel_ok c' \<and> uc_arq c' \<noteq> None) (push_piece now x c)"
proof -
  obtain p f where x: "x = (p, f)" by (cases x)
  obtain a where a: "uc_arq c = Some a" "arq_ok a" using assms by (auto simp: channel_ok_def)
  obtain a' evs r where s: "arq_submit now p f a = (a', evs, r)" by (cases "arq_submit now p f a")
  have "arq_ok a'" "list_all event_ok evs"
    using arq_ok_steps(1) [of now p f a] step_events_ok(1) [of now p f a] a(2) s by simp_all
  then obtain out where out: "arq_emits evs = Some out" using arq_emits_ok by blast
  have ok: "channel_ok (c\<lparr>uc_arq := Some a'\<rparr>)" using assms(1) \<open>arq_ok a'\<close> by (simp add: channel_ok_def)
  have "uc_arq (fst (on_window_full p f (c\<lparr>uc_arq := Some a'\<rparr>))) = Some a'"
    by (auto simp: on_window_full_def split: prod.splits)
  with on_window_full_ok [OF ok, of p f] ok show ?thesis
    by (auto simp: push_piece_def x a s out Let_def split: prod.splits)
qed

lemma submit_reliable_fragment_push:
  "submit_reliable_fragment now msg_id idx cnt piece c = push_piece now (fragment_layout msg_id idx cnt piece, True) c"
  by (simp add: submit_reliable_fragment_def push_piece_def udp_layout)

lemma send_reliable_small:
  "uc_open c \<Longrightarrow> length payload + udp_envelope_overhead + 1 \<le> uc_max_payload c \<Longrightarrow>
   send_reliable now payload c = push_piece now (payload, False) (ensure_arq c)"
  by (simp add: send_reliable_def push_piece_def Let_def)

lemma submit_fragments_ok:
  "channel_ok c \<Longrightarrow> uc_arq c \<noteq> None \<Longrightarrow> safely (\<lambda>(c', _, _). channel_ok c') (submit_fragments now msg_id fs r c)"
proof (induction fs arbitrary: c r)
  case (Cons x fs)
  obtain idx cnt piece where x: "x = (idx, cnt, piece)" by (cases x)
  obtain c1 out r1 where p: "push_piece now (fragment_layout msg_id idx cnt piece, True) c = Some (c1, out, r1)"
      "channel_ok c1" "uc_arq c1 \<noteq> None"
    using push_piece_ok [OF Cons.prems, of now "(fragment_layout msg_id idx cnt piece, True)"] by (auto simp: safely_def)
  from Cons.IH [OF p(2,3), of r1] p(1) show ?case
    by (auto simp: x submit_reliable_fragment_push safely_def)
qed simp

lemma send_reliable_ok:
  assumes "channel_ok c"
  shows "safely (\<lambda>(c', _, _). channel_ok c') (send_reliable now payload c)"
proof -
  note e = ensure_arq_ok [OF assms]
  have "safely (\<lambda>(c', _, _). channel_ok c') (send_reliable_large now payload c)"
    using assms e submit_fragments_ok [of "(ensure_arq c)\<lparr>uc_out_msg_id := uc_out_msg_id (ensure_arq c) + 1\<rparr>" now "uc_out_msg_id (ensure_arq c)"]
    by (auto simp: send_reliable_large_def split_eq Let_def)
  moreover have "safely (\<lambda>(c', _, _). channel_ok c') (push_piece now (payload, False) (ensure_arq c))"
    using push_piece_ok [of "ensure_arq c" now "(payload, False)"] e by (auto simp: safely_def)
  moreover have "send_reliable now payload c =
      (if \<not> uc_open c then Some (c, [], window_full)
       else if length payload + udp_envelope_overhead + 1 \<le> uc_max_payload c then push_piece now (payload, False) (ensure_arq c)
       else send_reliable_large now payload c)"
    using send_reliable_small [of c payload now] by (auto simp: send_reliable_def)
  ultimately show ?thesis using assms by simp
qed

lemma send_fragments_ok: "channel_ok c \<Longrightarrow> safely (\<lambda>(c', _). channel_ok c') (send_fragments msg_id fs c)"
proof (induction fs arbitrary: c)
  case (Cons x fs)
  obtain idx cnt piece where x: "x = (idx, cnt, piece)" by (cases x)
  from Cons.IH [of "c\<lparr>uc_out_seq := uc_out_seq c + 1\<rparr>"] Cons.prems show ?case
    by (auto simp: x udp_layout safely_def)
qed simp

lemma channel_send_ok:
  assumes "channel_ok c"
  shows "safely (\<lambda>(c', _). channel_ok c') (channel_send now frame c)"
  using assms send_reliable_ok [OF assms, of now frame]
    send_fragments_ok [of "c\<lparr>uc_out_msg_id := uc_out_msg_id c + 1\<rparr>" "uc_out_msg_id c"]
  by (auto simp: channel_send_def udp_layout send_best_effort_large_def split_eq Let_def safely_def)

lemma drain_backpressure_ok:
  "channel_ok c \<Longrightarrow> safely (\<lambda>(c', _). channel_ok c') (drain_backpressure now c)"
proof (induction now c rule: drain_backpressure.induct)
  case (1 now c)
  show ?case
  proof (cases "bq_queue (uc_backpressure c) = [] \<or> uc_arq c = None")
    case True
    with 1(2) show ?thesis by (auto simp: drain_backpressure.simps [of now c] split: list.splits option.splits)
  next
    case False
    then obtain p f q a where q: "bq_queue (uc_backpressure c) = (p, f) # q" and a: "uc_arq c = Some a"
      by (cases "bq_queue (uc_backpressure c)") auto
    obtain a' evs r where s: "arq_submit now p f a = (a', evs, r)" by (cases "arq_submit now p f a")
    have ok: "arq_ok a'" "list_all event_ok evs"
      using arq_ok_steps(1) [of now p f a] step_events_ok(1) [of now p f a] 1(2) s a by (simp_all add: channel_ok_def)
    then obtain out where out: "arq_emits evs = Some out" using arq_emits_ok by blast
    obtain b where b: "bq_pop_front (uc_backpressure c) = Some b" "bq_inv b"
      using bq_pop_front_ok [OF _ q] 1(2) by (auto simp: channel_ok_def)
    have ch: "channel_ok (c\<lparr>uc_arq := Some a'\<rparr>)" "channel_ok (c\<lparr>uc_arq := Some a', uc_backpressure := b\<rparr>)"
      using 1(2) ok(1) b(2) by (simp_all add: channel_ok_def)
    show ?thesis
    proof (cases "window_has_room a \<and> r = admitted")
      case True
      then have "safely (\<lambda>(c', _). channel_ok c') (drain_backpressure now (c\<lparr>uc_arq := Some a', uc_backpressure := b\<rparr>))"
        using 1(1) q a s out b(1) ch(2) by fastforce
      with True q a s out b(1) show ?thesis
        by (auto simp: drain_backpressure.simps [of now c] safely_def Let_def)
    next
      case False
      with q a s out b(1) ch(1) 1(2) show ?thesis
        by (auto simp: drain_backpressure.simps [of now c] safely_def Let_def)
    qed
  qed
qed


lemma feed_fragment_ok:
  assumes "channel_ok c"
  shows "safely (\<lambda>(c', _). channel_ok c') (feed_fragment frame c)"
proof -
  obtain h where h: "decode_udp_fragment_header frame = Some h" using fragment_header_total by blast
  obtain r where r: "uc_reassembler (ensure_reassembler c) = Some r" and ok: "channel_ok (ensure_reassembler c)"
    using ensure_reassembler_ok [OF assms] by blast
  then have "reassembler_ok r" by (simp add: channel_ok_def)
  note feed = reassembly_feed_ok [OF this]
  show ?thesis
  proof (cases h)
    case None
    with h ok show ?thesis by (simp add: feed_fragment_def Let_def)
  next
    case (Some x)
    obtain r' evs o' where "reassembly_feed (uf_msg_id x) (uf_frag_idx x) (uf_frag_cnt x) (uf_payload x) r = Some (r', evs, o')"
      "reassembler_ok r'" using feed [of "uf_msg_id x" "uf_frag_idx x" "uf_frag_cnt x" "uf_payload x"] by (auto simp: safely_def)
    with Some h r ok show ?thesis by (simp add: feed_fragment_def Let_def channel_ok_def)
  qed
qed

lemma arq_callback_ok:
  assumes "channel_ok c" and "event_ok ev"
  shows "safely (\<lambda>(c', _). channel_ok c') (arq_callback now ev c)"
  using assms feed_fragment_ok [OF assms(1)] drain_backpressure_ok [OF assms(1)] arq_emit_ok [OF assms(2)]
  by (cases ev) (auto simp: deliver_reliable_inorder_def safely_def)

lemma arq_callbacks_ok:
  "channel_ok c \<Longrightarrow> list_all event_ok evs \<Longrightarrow> safely (\<lambda>(c', _). channel_ok c') (arq_callbacks now evs c)"
proof (induction evs arbitrary: c)
  case (Cons ev evs)
  obtain c1 out where c1: "arq_callback now ev c = Some (c1, out)" "channel_ok c1"
    using arq_callback_ok [OF Cons.prems(1), of ev now] Cons.prems(2) by (auto simp: safely_def)
  from Cons.IH [OF c1(2)] Cons.prems(2) c1(1) show ?case by (auto simp: safely_def)
qed simp

lemma arq_ok_ack_holes [simp]: "arq_ok (ack_holes now ack a) = arq_ok a"
proof -
  have "arq_ok (fold (\<lambda>i s. if h i then ack_hole now (q i) s else s) xs s) = arq_ok s" for h q and xs :: "nat list" and s
    by (induction xs arbitrary: s) simp_all
  then show ?thesis by (simp add: ack_holes_def)
qed

lemma channel_on_ack_ok:
  assumes "channel_ok c"
  shows "safely (\<lambda>(c', _). channel_ok c') (channel_on_ack now ack c)"
proof (cases "uc_arq c")
  case (Some a)
  obtain a' evs where s: "slide_to now (ack_cumulative ack + 1) a = (a', evs)" by fastforce
  have "arq_ok a'" "list_all event_ok evs"
    using s step_events_ok(4) [of now "ack_cumulative ack + 1" a] assms Some
    by (auto simp: slide_to_def Let_def channel_ok_def)
  then have "channel_ok (c\<lparr>uc_arq := Some a'\<rparr>)" using assms by (simp add: channel_ok_def)
  from arq_callbacks_ok [OF this \<open>list_all event_ok evs\<close>, of now] obtain c' out where
    "arq_callbacks now evs (c\<lparr>uc_arq := Some a'\<rparr>) = Some (c', out)" "channel_ok c'" by (auto simp: safely_def)
  with Some s show ?thesis by (auto simp: channel_on_ack_def channel_ok_def option.pred_map comp_def)
qed (use assms in \<open>simp add: channel_on_ack_def\<close>)

lemma on_segment_channel_ok:
  assumes "channel_ok c"
  shows "safely (\<lambda>(c', _). channel_ok c') (do {
     a \<leftarrow> uc_arq (ensure_arq c);
     (a, evs) \<leftarrow> on_segment seq fragmented payload a;
     (c, out) \<leftarrow> arq_callbacks now evs ((ensure_arq c)\<lparr>uc_arq := Some a\<rparr>);
     Some (c, Reliable_segment seq payload # out)
   })"
proof -
  obtain a where a: "uc_arq (ensure_arq c) = Some a" and ok: "channel_ok (ensure_arq c)" using ensure_arq_ok [OF assms] by blast
  then obtain a' evs where s: "on_segment seq fragmented payload a = Some (a', evs)" "arq_ok a'" "list_all event_ok evs"
    using on_segment_ok [of a seq fragmented payload] by (auto simp: channel_ok_def safely_def)
  then have "channel_ok ((ensure_arq c)\<lparr>uc_arq := Some a'\<rparr>)" using ok by (simp add: channel_ok_def)
  from arq_callbacks_ok [OF this s(3), of now] a s(1) show ?thesis by (auto simp: safely_def)
qed

lemma deliver_reliable_ok:
  assumes "channel_ok c"
  shows "safely (\<lambda>(c', _). channel_ok c') (deliver_reliable now seq fragmented inner c)"
proof -
  obtain ack where ack: "decode_udp_ack inner = Some ack" using udp_ack_total by blast
  have "safely (\<lambda>(c', _). channel_ok c') (do { ack \<leftarrow> decode_udp_ack inner;
      case ack of None \<Rightarrow> Some (c, []) | Some ack \<Rightarrow> channel_on_ack now ack c })"
    using assms channel_on_ack_ok [OF assms] ack by (cases ack) simp_all
  with on_segment_channel_ok [OF assms] assms show ?thesis
    by (cases inner) (auto simp: deliver_reliable_def peek_udp_arq_kind_eq decode_udp_segment_eq Let_def)
qed

lemma deliver_inbound_ok:
  assumes "channel_ok c"
  shows "safely (\<lambda>(c', _). channel_ok c') (deliver_inbound now datagram c)"
proof -
  obtain dec where dec: "unwrap_udp datagram = Some dec" using unwrap_udp_total by blast
  have "channel_ok (c\<lparr>uc_dedup := w\<rparr>)" for w using assms by simp
  from feed_fragment_ok [OF this] deliver_reliable_ok [OF assms] assms show ?thesis
    by (cases dec) (simp_all add: deliver_inbound_def dec Let_def split: prod.splits)
qed

section \<open>The channel as a machine\<close>

datatype channel_op =
  Op_send nat bytes | Op_send_reliable nat bytes | Op_inbound nat bytes | Op_arq_completion u16 bool | Op_arq_expire nat
  | Op_partial_timeout u16 bool | Op_close | Op_teardown

fun channel_step :: "udp_channel \<Rightarrow> channel_op \<Rightarrow> (udp_channel \<times> channel_event list) option" where
  "channel_step c (Op_send now frame) = channel_send now frame c"
| "channel_step c (Op_send_reliable now frame) = map_option (\<lambda>(c, out, _). (c, out)) (send_reliable now frame c)"
| "channel_step c (Op_inbound now datagram) = deliver_inbound now datagram c"
| "channel_step c (Op_arq_completion seq ec) = channel_rto (arq_timer seq ec) c"
| "channel_step c (Op_arq_expire i) = channel_rto (arq_expire i) c"
| "channel_step c (Op_partial_timeout msg_id ec) = channel_partial_timeout msg_id ec c"
| "channel_step c Op_close = Some (channel_close c)"
| "channel_step c Op_teardown = Some (channel_teardown c)"

lemma channel_rto_ok:
  assumes "channel_ok c" and "\<And>a. arq_ok a \<Longrightarrow> arq_ok (fst (fire a)) \<and> list_all event_ok (snd (fire a))"
  shows "safely (\<lambda>(c', _). channel_ok c') (channel_rto fire c)"
proof (cases "uc_arq c")
  case (Some a)
  obtain a' evs where f: "fire a = (a', evs)" by fastforce
  have ok: "arq_ok a'" "list_all event_ok evs" using assms Some f by (auto simp: channel_ok_def dest: assms(2))
  then obtain out where "arq_emits evs = Some out" using arq_emits_ok by blast
  with Some f ok(1) assms(1) show ?thesis by (simp add: channel_rto_def channel_ok_def)
qed (use assms(1) in \<open>simp add: channel_rto_def\<close>)

lemma channel_partial_timeout_ok:
  assumes "channel_ok c"
  shows "safely (\<lambda>(c', _). channel_ok c') (channel_partial_timeout msg_id ec c)"
proof (cases "uc_reassembler c")
  case (Some r)
  then have r: "reassembler_ok r" using assms by (simp add: channel_ok_def)
  from reassembly_step_ok [OF r, of "Partial_timeout msg_id ec"] Some assms show ?thesis
    by (auto simp: channel_partial_timeout_def safely_def channel_ok_def)
qed (use assms in \<open>simp add: channel_partial_timeout_def\<close>)

lemma channel_step_ok: "channel_ok c \<Longrightarrow> safely (\<lambda>(c', _). channel_ok c') (channel_step c op)"
proof (cases op)
  case (Op_send_reliable now frame)
  then show "channel_ok c \<Longrightarrow> ?thesis" using send_reliable_ok [of c now frame] by (auto simp: safely_def)
next
  case (Op_arq_completion seq ec)
  then show "channel_ok c \<Longrightarrow> ?thesis" using channel_rto_ok [of c "arq_timer seq ec"] step_events_ok(2) by simp
next
  case (Op_arq_expire i)
  then show "channel_ok c \<Longrightarrow> ?thesis" using channel_rto_ok [of c "arq_expire i"] step_events_ok(3) by simp
next
  case Op_teardown
  then show "channel_ok c \<Longrightarrow> ?thesis"
    by (auto simp: channel_teardown_def channel_ok_def option.pred_map comp_def reassembly_cancel_ok elim!: option.pred_mono_strong)
qed (simp_all add: channel_send_ok deliver_inbound_ok channel_partial_timeout_ok channel_close_def)

interpretation channel: safe_machine channel_step channel_ok
  by unfold_locales (rule channel_step_ok)

lemma channel_ok_init: "channel_ok (udp_channel_init mp cfg cg bp mode isn mm rb rt)"
  by (simp add: channel_ok_def udp_channel_init_def bq_inv_def udp_backpressure_queue_init_def)


text \<open>
  C16. The channel answers every sequence of sends, inbound datagrams with any content, timer
  completions, closing and teardown without a fault in any of its parts: no read outside a buffer, no
  use of an engine that was not built, no wrapped byte count. The reassembly memory stays within its
  budget and the parked bytes within the backpressure cap throughout.
\<close>

theorem udp_channel_safe:
  "\<exists>c out. run_safe channel_step (udp_channel_init mp cfg cg bp mode isn mm rb rt) ops = Some (c, out)
     \<and> bq_bytes (uc_backpressure c) = sum_list (map (\<lambda>e. length (fst e)) (bq_queue (uc_backpressure c)))
     \<and> bq_bytes (uc_backpressure c) \<le> bq_byte_cap (uc_backpressure c)
     \<and> (case uc_reassembler c of None \<Rightarrow> True | Some r \<Rightarrow> rs_held r \<le> rc_total_memory_cap (rs_cfg r))"
proof -
  obtain c out where "run_safe channel_step (udp_channel_init mp cfg cg bp mode isn mm rb rt) ops = Some (c, out)" "channel_ok c"
    using channel.safe_run [OF channel_ok_init] by blast
  then show ?thesis by (auto simp: channel_ok_def bq_inv_def reassembler_ok_def split: option.splits)
qed

section \<open>Limits of the reliable fragment path\<close>

lemma subheader_sizes: "length (fragment_layout msg_id idx cnt piece) = 10 + length piece"
  by (simp add: fragment_layout_def)

definition fragments :: "bytes \<Rightarrow> nat \<Rightarrow> fragment list" where
  "fragments p tb = (let b = effective_fragment_budget tb False; n = split_count (length p) b in
     map (\<lambda>i. (of_nat i, of_nat n, fragment_slice p b i)) [0..<n])"

lemma ensure_arq_fields [simp]:
  "uc_max_payload (ensure_arq c) = uc_max_payload c" "uc_out_msg_id (ensure_arq c) = uc_out_msg_id c"
  "uc_backpressure (ensure_arq c) = uc_backpressure c" "uc_congestion (ensure_arq c) = uc_congestion c"
  "uc_max_message_bytes (ensure_arq c) = uc_max_message_bytes c" "uc_open (ensure_arq c) = uc_open c"
  by (simp_all add: ensure_arq_def split: option.splits)

lemma send_reliable_fragmented:
  assumes "uc_open c" and "uc_max_payload c < length payload + udp_envelope_overhead + 1" and "length payload \<le> uc_max_message_bytes c"
  shows "send_reliable now payload c = submit_fragments now (uc_out_msg_id c) (fragments payload (uc_max_payload c)) admitted
     ((ensure_arq c)\<lparr>uc_out_msg_id := uc_out_msg_id c + 1\<rparr>)"
  using assms by (simp add: send_reliable_def send_reliable_large_def exceeds_max_message_def split_eq fragments_def Let_def)

lemma fragments_first:
  "\<exists>fs. fragments p tb = (0, of_nat (split_count (length p) (effective_fragment_budget tb False)),
     fragment_slice p (effective_fragment_budget tb False) 0) # fs"
proof -
  let ?n = "split_count (length p) (effective_fragment_budget tb False)"
  have "[0..<?n] = 0 # [Suc 0..<?n]" using split_count_pos [OF budget_pos] by (intro upt_conv_Cons)
  then show ?thesis by (simp add: fragments_def Let_def)
qed

lemma fragments_weight:
  "(\<Sum>(i, n, q)\<leftarrow>fragments p tb. 10 + length q) = 10 * length (fragments p tb) + length p"
proof -
  let ?b = "effective_fragment_budget tb False"
  let ?n = "split_count (length p) ?b"
  have join: "concat (map (fragment_slice p ?b) [0..<?n]) = p"
    by (rule fragment_slices_join [OF budget_pos split_count_bounds(1) [OF budget_pos]])
  have "length (concat (map (fragment_slice p ?b) [0..<?n])) = (\<Sum>i\<leftarrow>[0..<?n]. length (fragment_slice p ?b i))"
    by (simp add: length_concat comp_def)
  then have "(\<Sum>i\<leftarrow>[0..<?n]. length (fragment_slice p ?b i)) = length p" unfolding join by simp
  then show ?thesis by (simp add: fragments_def Let_def comp_def sum_list_addf sum_list_triv)
qed

text \<open>
  A reliable message that is fragmented at an ordinary datagram budget leaves its first datagram
  one byte longer than the budget: the splitter takes off the envelope and the sub-header but not
  the segment marker that the reliable path adds.
\<close>

lemma reliable_fragment_overruns_budget:
  assumes "c = udp_channel_init mp cfg cg bp mode isn mm rb rt" and "142 \<le> mp" and "mp \<le> length payload" and "length payload \<le> mm"
  shows "\<exists>c' d out r. send_reliable now payload c = Some (c', Send_to d # out, r) \<and> length d = mp + 1"
proof -
  let ?b = "effective_fragment_budget mp False" and ?a = "udp_reliable_arq_init cfg isn"
  define c1 where "c1 = c\<lparr>uc_arq := Some ?a, uc_out_msg_id := 1\<rparr>"
  have c: "uc_open c" "uc_max_payload c = mp" "uc_max_message_bytes c = mm" "uc_out_msg_id c = 0"
    "(ensure_arq c)\<lparr>uc_out_msg_id := uc_out_msg_id c + 1\<rparr> = c1"
    by (simp_all add: assms(1) udp_channel_init_def ensure_arq_def c1_def)
  have b: "?b + 13 = mp" using assms(2) by (simp add: effective_fragment_budget_def udp_sizes min_fragment_payload_def)
  obtain cnt piece fs where fs: "fragments payload mp = (0, cnt, piece) # fs" "piece = fragment_slice payload ?b 0"
    using fragments_first [of payload mp] by blast
  have len: "length piece = ?b" using b assms(3) by (simp add: fragment_slice_def fs(2))
  let ?x = "fragment_layout 0 0 cnt piece"
  have "\<not> aq_window ?a \<le> in_flight ?a" by (simp add: udp_reliable_arq_init_def in_flight_def Let_def)
  then obtain a' where "arq_submit now ?x True ?a = (a', [Transmit (aq_next ?a) ?x True], admitted)"
    by (auto simp: arq_submit_def transmit_def Let_def)
  then obtain c2 d where p: "push_piece now (?x, True) c1 = Some (c2, [Send_to d], admitted)" "length d = mp + 1"
    using len b by (auto simp: push_piece_def c1_def udp_layout subheader_sizes Let_def)
  have "channel_ok c1" "uc_arq c1 \<noteq> None"
    using channel_ok_init [of mp cfg cg bp mode isn mm rb rt] by (simp_all add: assms(1) c1_def channel_ok_def arq_ok_init)
  from push_piece_ok [OF this, of now "(?x, True)"] p(1) have ok: "channel_ok c2" "uc_arq c2 \<noteq> None" by simp_all
  obtain c' out r where "submit_fragments now 0 fs admitted c2 = Some (c', out, r)"
    using submit_fragments_ok [OF ok, of now 0 fs admitted] by (auto simp: safely_def)
  then have "submit_fragments now 0 (fragments payload mp) admitted c1 = Some (c', Send_to d # out, r)"
    using p(1) by (simp add: fs submit_reliable_fragment_push)
  moreover have "mp < length payload + udp_envelope_overhead + 1" using assms(3) by simp
  ultimately show ?thesis using send_reliable_fragmented [of c payload now] c assms(4) p(2) by auto
qed

lemma reliable_fragment_overruns_budget_witness:
  "\<exists>c' d out r. send_reliable 0 (replicate 1200 7)
       (udp_channel_init default_max_payload default_arq_config block default_backpressure_bytes mode_reliable_datagram 0
          global_default_max_message_bytes reassembly_memory_budget 5000) = Some (c', Send_to d # out, r)
     \<and> length d = 1201"
  using reliable_fragment_overruns_budget [OF refl, where payload = "replicate 1200 7" and mp = default_max_payload
      and mm = global_default_max_message_bytes and now = 0]
  by (simp add: default_max_payload_def global_default_max_message_bytes_def)


text \<open>With the window full, the fragments of a message go to the backpressure queue one by one.\<close>

definition park :: "bytes \<times> bool \<Rightarrow> udp_channel \<Rightarrow> udp_channel \<times> channel_event list \<times> submit_result" where
  "park x c = (case bq_admit x (uc_backpressure c) of
     (b, ok) \<Rightarrow> if ok then (c\<lparr>uc_backpressure := b\<rparr>, [], admitted) else (c, [Channel_error would_block], window_full))"

lemma push_piece_parks:
  assumes "uc_arq c = Some a" and "\<not> window_has_room a" and "uc_congestion c \<noteq> drop_newest"
  shows "push_piece now x c = Some (park x c)"
proof -
  obtain p f where x: "x = (p, f)" by (cases x)
  have "arq_submit now p f a = (a, [], window_full)" using assms(2) by (simp add: arq_submit_def window_has_room_def)
  moreover have "c\<lparr>uc_arq := Some a\<rparr> = c" using assms(1) by simp
  ultimately show ?thesis
    using assms(1,3) by (simp add: push_piece_def x on_window_full_def park_def split: prod.splits)
qed

lemma park_cases:
  obtains (parked) b where "park x c = (c\<lparr>uc_backpressure := b\<rparr>, [], admitted)" "bq_queue b = bq_queue (uc_backpressure c) @ [x]"
      "bq_byte_cap b = bq_byte_cap (uc_backpressure c)"
  | (refused) "park x c = (c, [Channel_error would_block], window_full)"
proof (cases "bq_admit x (uc_backpressure c)")
  case (Pair b ok)
  then show ?thesis
    by (cases x; cases ok) (auto simp: park_def bq_admit_def intro: that split: if_splits)
qed

lemma submit_fragments_parked:
  assumes "uc_arq c = Some a" and "\<not> window_has_room a" and "uc_congestion c \<noteq> drop_newest"
  shows "\<exists>c' out r'. submit_fragments now msg_id fs r c = Some (c', out, r') \<and> uc_congestion c' = uc_congestion c \<and> uc_arq c' = uc_arq c
     \<and> bq_byte_cap (uc_backpressure c') = bq_byte_cap (uc_backpressure c)
     \<and> (Channel_error would_block \<in> set out
        \<or> bq_queue (uc_backpressure c') = bq_queue (uc_backpressure c) @ map (\<lambda>(i, n, p). (fragment_layout msg_id i n p, True)) fs)"
  using assms
proof (induction fs arbitrary: c r)
  case (Cons y fs)
  obtain i n p where y: "y = (i, n, p)" by (cases y)
  let ?x = "(fragment_layout msg_id i n p, True)"
  note push = push_piece_parks [OF Cons.prems, of now ?x]
  show ?case
  proof (cases rule: park_cases [of ?x c])
    case (parked b)
    with Cons.IH [of "c\<lparr>uc_backpressure := b\<rparr>" admitted] Cons.prems push show ?thesis
      by (force simp: y submit_reliable_fragment_push)
  next
    case refused
    with Cons.IH [of c window_full] Cons.prems push show ?thesis
      by (force simp: y submit_reliable_fragment_push)
  qed
qed simp

text \<open>
  With the send window full, a message as long as the backpressure cap, which the cap's floor is
  meant to make admissible, is not: every parked fragment carries a ten-byte sub-header, so some
  fragment is refused while others are queued for sending, and the message arrives in part.
\<close>

lemma reliable_backlog_refused:
  assumes "channel_ok c" and "uc_open c" and "uc_arq c = Some a" and "\<not> window_has_room a" and "uc_congestion c \<noteq> drop_newest"
    and "bq_byte_cap (uc_backpressure c) = length payload" and "length payload \<le> uc_max_message_bytes c"
    and "uc_max_payload c \<le> length payload"
  shows "\<exists>c' out r. send_reliable now payload c = Some (c', out, r) \<and> Channel_error would_block \<in> set out"
proof -
  define c1 where "c1 = c\<lparr>uc_out_msg_id := uc_out_msg_id c + 1\<rparr>"
  define fs where "fs = fragments payload (uc_max_payload c)"
  let ?pieces = "map (\<lambda>(i, n, p). (fragment_layout (uc_out_msg_id c) i n p, True)) fs"
  have "(ensure_arq c)\<lparr>uc_out_msg_id := uc_out_msg_id c + 1\<rparr> = c1" using assms(3) by (simp add: ensure_arq_def c1_def)
  then have send: "send_reliable now payload c = submit_fragments now (uc_out_msg_id c) fs admitted c1"
    using send_reliable_fragmented [of c payload now] assms(2,7,8) by (simp add: fs_def)
  have c1: "channel_ok c1" "uc_arq c1 = Some a" "uc_congestion c1 \<noteq> drop_newest" "uc_backpressure c1 = uc_backpressure c"
    using assms(1,3,5) by (simp_all add: c1_def)
  from submit_fragments_parked [OF c1(2) assms(4) c1(3), of now "uc_out_msg_id c" fs admitted]
  obtain c' out r' where run: "submit_fragments now (uc_out_msg_id c) fs admitted c1 = Some (c', out, r')"
    and cap: "bq_byte_cap (uc_backpressure c') = bq_byte_cap (uc_backpressure c1)"
    and fin: "Channel_error would_block \<in> set out \<or> bq_queue (uc_backpressure c') = bq_queue (uc_backpressure c1) @ ?pieces"
    by blast
  have "channel_ok c'" using submit_fragments_ok [OF c1(1), of now "uc_out_msg_id c" fs admitted] run c1(2) by simp
  then have fits: "sum_list (map bq_weight (bq_queue (uc_backpressure c'))) \<le> length payload"
    using cap assms(6) c1(4) by (simp add: channel_ok_def bq_inv_def)
  have "map bq_weight ?pieces = map (\<lambda>(i, n, p). 10 + length p) fs" by (auto simp: subheader_sizes)
  then have "sum_list (map bq_weight ?pieces) = 10 * length fs + length payload"
    using fragments_weight [of payload "uc_max_payload c"] by (simp only: fs_def)
  moreover have "fs \<noteq> []" using fragments_first [of payload "uc_max_payload c"] by (auto simp: fs_def)
  ultimately have "length payload < sum_list (map bq_weight ?pieces)" by (cases fs) simp_all
  with fits fin have "Channel_error would_block \<in> set out" by auto
  with run send show ?thesis by simp
qed


text \<open>A channel with a window of one segment, and the same channel with that segment in flight.\<close>

definition tiny_channel :: udp_channel where
  "tiny_channel = udp_channel_init 100 (default_arq_config\<lparr>ac_window := 1\<rparr>) block 0 mode_reliable_datagram 0 257
     reassembly_memory_budget 5000"

lemma tiny_channel_fields:
  "uc_open tiny_channel" "uc_max_payload tiny_channel = 100" "uc_max_message_bytes tiny_channel = 257" "uc_congestion tiny_channel = block"
  "uc_arq tiny_channel = None" "uc_arq_cfg tiny_channel = default_arq_config\<lparr>ac_window := 1\<rparr>" "uc_initial_seq tiny_channel = 0"
  "uc_out_msg_id tiny_channel = 0" "uc_backpressure tiny_channel = \<lparr>bq_byte_cap = 257, bq_bytes = 0, bq_queue = []\<rparr>"
  by (simp_all add: tiny_channel_def udp_channel_init_def udp_backpressure_queue_init_def)

lemma tiny_channel_full:
  "\<exists>a out. send_reliable 0 [1] tiny_channel = Some (tiny_channel\<lparr>uc_arq := Some a\<rparr>, out, admitted) \<and> \<not> window_has_room a
     \<and> channel_ok (tiny_channel\<lparr>uc_arq := Some a\<rparr>)"
proof -
  define fresh where "fresh = udp_reliable_arq_init (default_arq_config\<lparr>ac_window := 1\<rparr>) 0"
  define a where "a = fst (arq_submit 0 [1] False fresh)"
  note ev = fresh_def in_flight_def udp_reliable_arq_init_def default_arq_config_def Let_def
  have "snd (arq_submit 0 [1] False fresh) = ([Transmit 0 [1] False], admitted)" by (simp add: arq_submit_def ev transmit_def)
  then have r: "arq_submit 0 [1] False fresh = (a, [Transmit 0 [1] False], admitted)" by (simp add: prod_eq_iff a_def)
  have full: "\<not> window_has_room a"
    by (simp add: a_def arq_submit_def ev window_has_room_def arm_segment_def set_slot_def)
  have "ensure_arq tiny_channel = tiny_channel\<lparr>uc_arq := Some fresh\<rparr>"
    unfolding ensure_arq_def tiny_channel_fields fresh_def by simp
  moreover have "send_reliable 0 [1] tiny_channel = push_piece 0 ([1], False) (ensure_arq tiny_channel)"
    by (rule send_reliable_small) (simp_all add: tiny_channel_fields udp_sizes)
  ultimately have "\<exists>out. send_reliable 0 [1] tiny_channel = Some (tiny_channel\<lparr>uc_arq := Some a\<rparr>, out, admitted)"
    by (simp add: push_piece_def r udp_layout)
  moreover have "arq_ok fresh" by (simp only: fresh_def arq_ok_init)
  then have "channel_ok (tiny_channel\<lparr>uc_arq := Some a\<rparr>)"
    using channel_ok_init by (simp add: tiny_channel_def channel_ok_def a_def)
  ultimately show ?thesis using full by blast
qed

lemma tiny_fragments:
  "fragments (replicate 257 7) 100 = [(0, 3, replicate 128 7), (1, 3, replicate 128 7), (2, 3, [7])]"
proof -
  have b: "effective_fragment_budget 100 False = 128"
    by (simp add: effective_fragment_budget_def min_fragment_payload_def udp_sizes)
  have n: "split_count 257 128 = 3" by (simp add: split_count_def)
  have upt: "[0..<3] = [0, Suc 0, Suc (Suc 0)]" by (simp add: upt_rec)
  show ?thesis by (simp add: fragments_def b n upt fragment_slice_def)
qed

text \<open>
  The result of a fragmented reliable send is that of its last fragment: here the middle fragment
  of three is refused for lack of room and the short last one still fits, so the send answers that
  the message was admitted.
\<close>

lemma reliable_refusal_masked:
  "\<exists>c out c' out'. send_reliable 0 [1] tiny_channel = Some (c, out, admitted)
     \<and> send_reliable 0 (replicate 257 7) c = Some (c', out', admitted) \<and> Channel_error would_block \<in> set out'"
proof -
  obtain a out where a: "send_reliable 0 [1] tiny_channel = Some (tiny_channel\<lparr>uc_arq := Some a\<rparr>, out, admitted)"
      "\<not> window_has_room a" using tiny_channel_full by blast
  let ?c = "tiny_channel\<lparr>uc_arq := Some a\<rparr>"
  let ?c1 = "?c\<lparr>uc_out_msg_id := 1\<rparr>"
  have park: "push_piece 0 x (?c1\<lparr>uc_backpressure := b\<rparr>) = Some (park x (?c1\<lparr>uc_backpressure := b\<rparr>))" for x b
    using a(2) by (intro push_piece_parks) (simp_all add: tiny_channel_fields)
  have c1: "?c1 = ?c1\<lparr>uc_backpressure := \<lparr>bq_byte_cap = 257, bq_bytes = 0, bq_queue = []\<rparr>\<rparr>" using tiny_channel_fields(9) by simp
  have "\<exists>c' out'. submit_fragments 0 0 (fragments (replicate 257 7) 100) admitted ?c1 = Some (c', out', admitted)
      \<and> Channel_error would_block \<in> set out'"
    by (subst c1) (simp add: tiny_fragments submit_reliable_fragment_push park park_def bq_admit_def bq_admits_def subheader_sizes)
  then show ?thesis
    using send_reliable_fragmented [of ?c "replicate 257 7" 0] a(1)
    by (fastforce simp: tiny_channel_fields ensure_arq_def)
qed

end
