(* ===== verification/Udp_Channel_Order.thy ===== *)
theory Udp_Channel_Order
  imports Udp_Channel
begin

text \<open>
  The order of the reliable datagram channel: accepted frames and fragments take their sequence
  numbers in the order of acceptance, whether they went to the window at once or waited in the
  backpressure queue. The channel's window is read as a run of the sender (\<open>arq_run\<close>).
\<close>

section \<open>What the channel accepts and sends\<close>

fun push_pieces :: "nat \<Rightarrow> (bytes \<times> bool) list \<Rightarrow> udp_channel \<Rightarrow> (udp_channel \<times> channel_event list \<times> submit_result list) option" where
  "push_pieces now [] c = Some (c, [], [])"
| "push_pieces now (x # xs) c = do {
     (c, out, r) \<leftarrow> push_piece now x c;
     (c, out', rs) \<leftarrow> push_pieces now xs c;
     Some (c, out @ out', r # rs)
   }"

definition taken :: "(bytes \<times> bool) list \<Rightarrow> submit_result list \<Rightarrow> (bytes \<times> bool) list" where
  "taken xs rs = map fst (filter (\<lambda>(_, r). r = admitted) (zip xs rs))"

definition reliable_pieces :: "bytes \<Rightarrow> udp_channel \<Rightarrow> (bytes \<times> bool) list" where
  "reliable_pieces payload c =
     (if \<not> uc_open c then []
      else if length payload + udp_envelope_overhead + 1 \<le> uc_max_payload c then [(payload, False)]
      else if exceeds_max_message c (length payload) then []
      else map (\<lambda>(i, n, p). (fragment_layout (uc_out_msg_id c) i n p, True)) (fragments payload (uc_max_payload c)))"

definition accepted_by :: "nat \<Rightarrow> bytes \<Rightarrow> udp_channel \<Rightarrow> (bytes \<times> bool) list" where
  "accepted_by now payload c =
     (case push_pieces now (reliable_pieces payload c) (ensure_arq c) of
        None \<Rightarrow> [] | Some (_, _, rs) \<Rightarrow> taken (reliable_pieces payload c) rs)"

fun channel_accepts :: "udp_channel \<Rightarrow> channel_op \<Rightarrow> (bytes \<times> bool) list" where
  "channel_accepts c (Op_send_reliable now p) = accepted_by now p c"
| "channel_accepts c (Op_send now p) = (if uc_mode c = mode_reliable_datagram then accepted_by now p c else [])"
| "channel_accepts c _ = []"

fun accepted_run :: "udp_channel \<Rightarrow> channel_op list \<Rightarrow> (bytes \<times> bool) list" where
  "accepted_run c [] = []"
| "accepted_run c (op # ops) = (case channel_step c op of None \<Rightarrow> [] | Some (c', _) \<Rightarrow> channel_accepts c op @ accepted_run c' ops)"

text \<open>The data segments among the datagrams sent, as the peer's decoders read them.\<close>

fun data_segment :: "channel_event \<Rightarrow> (u16 \<times> bytes \<times> bool) list" where
  "data_segment (Send_to d) = (case unwrap_udp d of
     Some (Some r) \<Rightarrow>
       if ue_kind r = reliable_arq then (case decode_udp_segment (ue_frame r) of
         Some (Some p) \<Rightarrow> [(ue_seq r, p, ue_fragmented r)] | _ \<Rightarrow> [])
       else []
   | _ \<Rightarrow> [])"
| "data_segment _ = []"

definition data_segments :: "channel_event list \<Rightarrow> (u16 \<times> bytes \<times> bool) list" where
  "data_segments out = concat (map data_segment out)"

fun transmitted :: "arq_event \<Rightarrow> (u16 \<times> bytes \<times> bool) list" where
  "transmitted (Transmit q p f) = [(q, p, f)]"
| "transmitted _ = []"

definition transmits :: "arq_event list \<Rightarrow> (u16 \<times> bytes \<times> bool) list" where
  "transmits evs = concat (map transmitted evs)"

lemma data_segments_simps [simp]:
  "data_segments [] = []" "data_segments (e # es) = data_segment e @ data_segments es"
  "data_segments (es @ fs) = data_segments es @ data_segments fs"
  "transmits [] = []" "transmits (ev # evs) = transmitted ev @ transmits evs" "transmits (evs @ evs') = transmits evs @ transmits evs'"
  by (simp_all add: data_segments_def transmits_def)

lemma transmits_iff: "(q, p, f) \<in> set (transmits evs) \<longleftrightarrow> Transmit q p f \<in> set evs"
proof -
  have "(q, p, f) \<in> set (transmitted ev) \<longleftrightarrow> ev = Transmit q p f" for ev by (cases ev) auto
  then show ?thesis by (auto simp: transmits_def)
qed

lemma unwrap_wrapped:
  assumes "kind < 4"
  shows "unwrap_udp (pack_ver_flags kind f # be_bytes 2 seq @ frame)
     = Some (Some \<lparr>ue_kind = kind, ue_seq = seq, ue_frame = frame, ue_fragmented = f\<rparr>)"
  using pack_unpack_kind [OF assms, of f] by (simp only: unwrap_udp_layout)

lemma unwrap_kinds:
  "unwrap_udp (pack_ver_flags reliable_arq f # be_bytes 2 seq @ frame)
     = Some (Some \<lparr>ue_kind = reliable_arq, ue_seq = seq, ue_frame = frame, ue_fragmented = f\<rparr>)"
  "unwrap_udp (pack_ver_flags best_effort f # be_bytes 2 seq @ frame)
     = Some (Some \<lparr>ue_kind = best_effort, ue_seq = seq, ue_frame = frame, ue_fragmented = f\<rparr>)"
  by (rule unwrap_wrapped, simp add: reliable_arq_def best_effort_def)+

lemma kinds_differ: "best_effort \<noteq> reliable_arq"
  by (simp add: reliable_arq_def best_effort_def)

lemma arq_emit_segments: "arq_emit ev = Some out \<Longrightarrow> event_ok ev \<Longrightarrow> data_segments out = transmitted ev"
  by (cases ev) (auto simp: udp_layout encode_udp_ack_into_layout unwrap_kinds decode_udp_segment_eq split: if_splits)

lemma arq_emits_segments: "arq_emits evs = Some out \<Longrightarrow> list_all event_ok evs \<Longrightarrow> data_segments out = transmits evs"
  by (induction evs arbitrary: out) (auto simp: arq_emit_segments split: Option.bind_splits)

section \<open>The channel's window as a run of the sender\<close>

definition window_run :: "udp_channel \<Rightarrow> (bytes \<times> bool) list \<Rightarrow> arq_event list \<Rightarrow> bool" where
  "window_run c acc evs \<longleftrightarrow> (case uc_arq c of
     None \<Rightarrow> acc = [] \<and> evs = [] \<and> bq_queue (uc_backpressure c) = []
   | Some a \<Rightarrow> \<exists>log. arq_run (uc_arq_cfg c) (uc_initial_seq c) a log evs \<and> acc = log @ bq_queue (uc_backpressure c))"

definition in_line :: "udp_channel \<Rightarrow> bool" where
  "in_line c \<longleftrightarrow> (bq_queue (uc_backpressure c) = [] \<or> (case uc_arq c of None \<Rightarrow> False | Some a \<Rightarrow> \<not> window_has_room a))"

definition same_engine :: "udp_channel \<Rightarrow> udp_channel \<Rightarrow> bool" where
  "same_engine c c' \<longleftrightarrow> uc_arq_cfg c' = uc_arq_cfg c \<and> uc_initial_seq c' = uc_initial_seq c"

lemma same_engine_refl [simp]: "same_engine c c"
  by (simp add: same_engine_def)

lemma same_engine_trans: "same_engine a b \<Longrightarrow> same_engine b c \<Longrightarrow> same_engine a c"
  by (simp add: same_engine_def)

text \<open>What a step of the channel may do to the window: grow the history, keep the line.\<close>

definition window_step :: "udp_channel \<Rightarrow> (bytes \<times> bool) list \<Rightarrow> arq_event list \<Rightarrow> udp_channel \<Rightarrow> channel_event list \<Rightarrow> (bytes \<times> bool) list \<Rightarrow> bool" where
  "window_step c acc evs c' out new \<longleftrightarrow> same_engine c c' \<and> in_line c'
     \<and> (\<exists>evs'. window_run c' (acc @ new) (evs @ evs') \<and> data_segments out = transmits evs')"

lemma window_step_trans:
  assumes "window_step c acc evs c1 out1 m1" and "\<And>evs'. window_run c1 (acc @ m1) (evs @ evs') \<Longrightarrow> window_step c1 (acc @ m1) (evs @ evs') c2 out2 m2"
  shows "window_step c acc evs c2 (out1 @ out2) (m1 @ m2)"
proof -
  obtain e1 where e1: "window_run c1 (acc @ m1) (evs @ e1)" "data_segments out1 = transmits e1" "same_engine c c1"
    using assms(1) by (auto simp: window_step_def)
  obtain e2 where e2: "window_run c2 ((acc @ m1) @ m2) ((evs @ e1) @ e2)" "data_segments out2 = transmits e2" "same_engine c1 c2" "in_line c2"
    using assms(2) [OF e1(1)] by (auto simp: window_step_def)
  have "\<exists>evs'. window_run c2 (acc @ m1 @ m2) (evs @ evs') \<and> data_segments (out1 @ out2) = transmits evs'"
    using e1 e2 by (intro exI [of _ "e1 @ e2"]) simp
  with e1(3) e2(3,4) show ?thesis by (auto simp: window_step_def intro: same_engine_trans)
qed

lemma window_step_quiet:
  "window_run c acc evs \<Longrightarrow> in_line c \<Longrightarrow> uc_arq c' = uc_arq c \<Longrightarrow> uc_backpressure c' = uc_backpressure c \<Longrightarrow> same_engine c c' \<Longrightarrow>
   data_segments out = [] \<Longrightarrow> window_step c acc evs c' out []"
proof -
  assume a: "window_run c acc evs" "in_line c" "uc_arq c' = uc_arq c" "uc_backpressure c' = uc_backpressure c" "same_engine c c'"
    "data_segments out = []"
  have "window_run c' acc evs" "in_line c'"
    using a(1-5) by (cases "uc_arq c"; simp add: window_run_def in_line_def same_engine_def)+
  with a(5,6) show ?thesis unfolding window_step_def by (intro conjI exI [of _ "[]"]) simp_all
qed

lemma window_fields [simp]:
  "window_run (c\<lparr>uc_out_msg_id := m\<rparr>) acc evs = window_run c acc evs" "in_line (c\<lparr>uc_out_msg_id := m\<rparr>) = in_line c"
  "window_run (c\<lparr>uc_reassembler := r\<rparr>) acc evs = window_run c acc evs" "in_line (c\<lparr>uc_reassembler := r\<rparr>) = in_line c"
  "window_run (c\<lparr>uc_dedup := w\<rparr>) acc evs = window_run c acc evs" "in_line (c\<lparr>uc_dedup := w\<rparr>) = in_line c"
  "window_run (c\<lparr>uc_open := o'\<rparr>) acc evs = window_run c acc evs" "in_line (c\<lparr>uc_open := o'\<rparr>) = in_line c"
  by (simp_all add: window_run_def in_line_def cong: option.case_cong)

lemma window_step_from: "same_engine c c1 \<Longrightarrow> window_step c1 acc evs c2 out new \<Longrightarrow> window_step c acc evs c2 out new"
  by (auto simp: window_step_def intro: same_engine_trans)

lemma window_step_prefix:
  assumes "window_step c1 acc (evs @ e) c2 o2 new" and "same_engine c c1" and "data_segments o1 = transmits e"
  shows "window_step c acc evs c2 (o1 @ o2) new"
proof -
  obtain e2 where "window_run c2 (acc @ new) (evs @ e @ e2)" "data_segments o2 = transmits e2"
    using assms(1) by (auto simp: window_step_def)
  then have "\<exists>e'. window_run c2 (acc @ new) (evs @ e') \<and> data_segments (o1 @ o2) = transmits e'"
    using assms(3) by (intro exI [of _ "e @ e2"]) simp
  with assms(1,2) show ?thesis by (auto simp: window_step_def intro: same_engine_trans)
qed

lemma ensure_arq_run:
  assumes "window_run c acc evs" and "in_line c"
  shows "window_run (ensure_arq c) acc evs" and "in_line (ensure_arq c)" and "same_engine c (ensure_arq c)"
  using assms by (auto simp: window_run_def in_line_def same_engine_def ensure_arq_def intro: arq_run_init split: option.splits)

lemma push_piece_step:
  assumes run: "window_run c acc evs" and line: "in_line c" and a: "uc_arq c = Some a"
    and push: "push_piece now x c = Some (c', out, r)"
  shows "window_step c acc evs c' out (if r = admitted then [x] else []) \<and> uc_arq c' \<noteq> None"
proof -
  obtain p f where x: "x = (p, f)" by (cases x)
  obtain log where log: "arq_run (uc_arq_cfg c) (uc_initial_seq c) a log evs" "acc = log @ bq_queue (uc_backpressure c)"
    using run a by (auto simp: window_run_def)
  obtain a' e r' where s: "arq_submit now p f a = (a', e, r')" by (cases "arq_submit now p f a")
  have ev: "list_all event_ok e" using step_events_ok(1) [of now p f a] s by simp
  show ?thesis
  proof (cases "window_has_room a")
    case True
    then have q: "bq_queue (uc_backpressure c) = []" using line a by (simp add: in_line_def)
    have r': "r' = admitted" using True s by (auto simp: arq_submit_def window_has_room_def Let_def split: if_splits)
    then have c': "c' = c\<lparr>uc_arq := Some a'\<rparr>" "arq_emits e = Some out" "r = admitted"
      using push x a s by (auto simp: push_piece_def split: Option.bind_splits)
    have "arq_run (uc_arq_cfg c) (uc_initial_seq c) a' (log @ [x]) (evs @ e)"
      using arq_run_submit [OF log(1) s] r' x by simp
    with c' q log(2) arq_emits_segments [OF c'(2) ev] show ?thesis
      by (auto simp: window_step_def window_run_def in_line_def same_engine_def)
  next
    case False
    then have "a' = a" "e = []" "r' = window_full" using s by (auto simp: arq_submit_def window_has_room_def)
    then have "on_window_full p f (c\<lparr>uc_arq := Some a\<rparr>) = (c', out, r)"
      using push x a s by (auto simp: push_piece_def split: prod.splits)
    moreover have "c\<lparr>uc_arq := Some a\<rparr> = c" using a by simp
    ultimately have full: "on_window_full p f c = (c', out, r)" by (simp only:)
    have "uc_arq c' = Some a" "same_engine c c'" "data_segments out = []"
      "bq_queue (uc_backpressure c') = bq_queue (uc_backpressure c) @ (if r = admitted then [x] else [])"
      using full a x by (auto simp: on_window_full_def bq_admit_def same_engine_def split: prod.splits if_splits)
    with log False show ?thesis
      by (auto simp: window_step_def window_run_def in_line_def same_engine_def intro!: exI [of _ "[]"])
  qed
qed


lemma push_pieces_step:
  "window_run c acc evs \<Longrightarrow> in_line c \<Longrightarrow> uc_arq c \<noteq> None \<Longrightarrow> push_pieces now xs c = Some (c', out, rs) \<Longrightarrow>
   window_step c acc evs c' out (taken xs rs)"
proof (induction xs arbitrary: c acc evs out rs)
  case Nil
  then show ?case using window_step_quiet [OF Nil(1,2)] by (simp add: taken_def)
next
  case (Cons x xs)
  obtain c1 o1 r where p: "push_piece now x c = Some (c1, o1, r)"
    and rest: "\<exists>o2 rs'. push_pieces now xs c1 = Some (c', o2, rs') \<and> out = o1 @ o2 \<and> rs = r # rs'"
    using Cons.prems(4) by (auto split: Option.bind_splits)
  then obtain o2 rs' where q: "push_pieces now xs c1 = Some (c', o2, rs')" "out = o1 @ o2" "rs = r # rs'" by blast
  have s: "window_step c acc evs c1 o1 (if r = admitted then [x] else [])" "uc_arq c1 \<noteq> None"
    using push_piece_step [OF Cons.prems(1,2) _ p] Cons.prems(3) by auto
  have "in_line c1" using s(1) by (simp add: window_step_def)
  then have "window_step c acc evs c' (o1 @ o2) ((if r = admitted then [x] else []) @ taken xs rs')"
    using window_step_trans [OF s(1)] Cons.IH [OF _ _ s(2) q(1)] by blast
  then show ?case by (cases "r = admitted") (simp_all add: q taken_def)
qed

lemma submit_fragments_push:
  "submit_fragments now msg_id fs r c =
     map_option (\<lambda>(c, out, rs). (c, out, List.last (r # rs)))
       (push_pieces now (map (\<lambda>(i, n, p). (fragment_layout msg_id i n p, True)) fs) c)"
proof (induction fs arbitrary: c r)
  case (Cons x fs)
  then show ?case by (cases x) (auto simp: submit_reliable_fragment_push split: Option.bind_splits)
qed simp

lemma push_piece_msg_id:
  "push_piece now x (c\<lparr>uc_out_msg_id := m\<rparr>) = map_option (\<lambda>(c, out, r). (c\<lparr>uc_out_msg_id := m\<rparr>, out, r)) (push_piece now x c)"
  by (cases x) (auto simp: push_piece_def on_window_full_def Let_def split: Option.bind_splits prod.splits option.splits)

lemma push_pieces_msg_id:
  "push_pieces now xs (c\<lparr>uc_out_msg_id := m\<rparr>) = map_option (\<lambda>(c, out, r). (c\<lparr>uc_out_msg_id := m\<rparr>, out, r)) (push_pieces now xs c)"
  by (induction xs arbitrary: c) (auto simp: push_piece_msg_id split: Option.bind_splits option.splits)

lemma send_reliable_step:
  assumes run: "window_run c acc evs" and line: "in_line c" and send: "send_reliable now p c = Some (c', out, r)"
  shows "window_step c acc evs c' out (accepted_by now p c)"
proof -
  note en = ensure_arq_run [OF run line]
  have arq: "uc_arq (ensure_arq c) \<noteq> None" by (simp add: ensure_arq_def split: option.splits)
  have en_step: "window_step c acc evs (ensure_arq c) [] []"
    using en unfolding window_step_def by (intro conjI exI [of _ "[]"]) simp_all
  consider (shut) "\<not> uc_open c" | (small) "uc_open c" "length p + udp_envelope_overhead + 1 \<le> uc_max_payload c"
    | (big) "uc_open c" "\<not> length p + udp_envelope_overhead + 1 \<le> uc_max_payload c" "exceeds_max_message c (length p)"
    | (large) "uc_open c" "\<not> length p + udp_envelope_overhead + 1 \<le> uc_max_payload c" "length p \<le> uc_max_message_bytes c"
    by (force simp: exceeds_max_message_def)
  then show ?thesis
  proof cases
    case shut
    with send window_step_quiet [OF run line] show ?thesis
      by (simp add: send_reliable_def accepted_by_def reliable_pieces_def taken_def)
  next
    case small
    with send have "push_piece now (p, False) (ensure_arq c) = Some (c', out, r)" by (simp add: send_reliable_small)
    then have "push_pieces now [(p, False)] (ensure_arq c) = Some (c', out, [r])" by simp
    from push_pieces_step [OF en(1,2) arq this] this small
    have "window_step (ensure_arq c) acc evs c' out (accepted_by now p c)" by (simp add: accepted_by_def reliable_pieces_def)
    with en(3) show ?thesis by (rule window_step_from)
  next
    case big
    with send window_step_quiet [OF run line] show ?thesis
      by (auto simp: send_reliable_def send_reliable_large_def reject_oversize_def accepted_by_def reliable_pieces_def taken_def)
  next
    case large
    let ?xs = "map (\<lambda>(i, n, q). (fragment_layout (uc_out_msg_id c) i n q, True)) (fragments p (uc_max_payload c))"
    have "send_reliable now p c = submit_fragments now (uc_out_msg_id c) (fragments p (uc_max_payload c)) admitted
        ((ensure_arq c)\<lparr>uc_out_msg_id := uc_out_msg_id c + 1\<rparr>)"
      using large by (intro send_reliable_fragmented) simp_all
    with send obtain c1 rs where c1: "push_pieces now ?xs (ensure_arq c) = Some (c1, out, rs)" "c' = c1\<lparr>uc_out_msg_id := uc_out_msg_id c + 1\<rparr>"
      by (auto simp: submit_fragments_push push_pieces_msg_id)
    have "accepted_by now p c = taken ?xs rs"
      using large c1(1) by (simp add: accepted_by_def reliable_pieces_def exceeds_max_message_def)
    with push_pieces_step [OF en(1,2) arq c1(1)] have "window_step (ensure_arq c) acc evs c1 out (accepted_by now p c)" by simp
    then have "window_step (ensure_arq c) acc evs c' out (accepted_by now p c)"
      by (simp add: window_step_def c1(2)) (simp add: same_engine_def)
    with en(3) show ?thesis by (rule window_step_from)
  qed
qed


section \<open>Acknowledgements, timers and arrivals\<close>

lemma drain_backpressure_step:
  "window_run c acc evs \<Longrightarrow> channel_ok c \<Longrightarrow> drain_backpressure now c = Some (c', out) \<Longrightarrow> window_step c acc evs c' out []"
proof (induction now c arbitrary: evs out rule: drain_backpressure.induct)
  case (1 now c)
  note run = 1(2) and ok = 1(3) and drain = 1(4)
  show ?case
  proof (cases "\<exists>x q a. bq_queue (uc_backpressure c) = x # q \<and> uc_arq c = Some a \<and> window_has_room a")
    case False
    then have c': "c' = c" "out = []"
      using drain by (auto simp: drain_backpressure.simps [of now c] split: list.splits option.splits prod.splits if_splits)
    moreover have "in_line c"
      using False run by (cases "bq_queue (uc_backpressure c)"; cases "uc_arq c") (auto simp: in_line_def window_run_def)
    ultimately show ?thesis using window_step_quiet [OF run] by simp
  next
    case True
    then obtain p f q a where q: "bq_queue (uc_backpressure c) = (p, f) # q" and a: "uc_arq c = Some a" and room: "window_has_room a"
      by auto
    obtain a' e r where s: "arq_submit now p f a = (a', e, r)" by (cases "arq_submit now p f a")
    have r: "r = admitted" using room s by (auto simp: arq_submit_def window_has_room_def Let_def split: if_splits)
    have ev: "list_all event_ok e" using step_events_ok(1) [of now p f a] s by simp
    obtain o1 where o1: "arq_emits e = Some o1" using arq_emits_ok [OF ev] by blast
    obtain b where b: "bq_pop_front (uc_backpressure c) = Some b" "bq_inv b" "bq_queue b = q"
      using bq_pop_front_ok [OF _ q] ok by (auto simp: channel_ok_def)
    let ?c = "c\<lparr>uc_arq := Some a', uc_backpressure := b\<rparr>"
    obtain o2 where o2: "drain_backpressure now ?c = Some (c', o2)" "out = o1 @ o2"
      using drain q a room s r o1 b(1) by (auto simp: drain_backpressure.simps [of now c] Let_def)
    obtain log where log: "arq_run (uc_arq_cfg c) (uc_initial_seq c) a log evs" "acc = log @ bq_queue (uc_backpressure c)"
      using run a by (auto simp: window_run_def)
    have "arq_run (uc_arq_cfg c) (uc_initial_seq c) a' (log @ [(p, f)]) (evs @ e)" using arq_run_submit [OF log(1) s] r by simp
    then have run': "window_run ?c acc (evs @ e)" using log(2) q b(3) by (simp add: window_run_def)
    have ok': "channel_ok ?c" using ok b(2) a arq_ok_steps(1) [of now p f a] s by (simp add: channel_ok_def)
    have "window_step ?c acc (evs @ e) c' o2 []" using 1(1) q a room s r o1 b(1) run' ok' o2(1) by fastforce
    moreover have "same_engine c ?c" by (simp add: same_engine_def)
    ultimately show ?thesis unfolding o2(2) by (rule window_step_prefix [OF _ _ arq_emits_segments [OF o1 ev]])
  qed
qed


text \<open>Room in the window depends on its edges only.\<close>

lemma room_cong: "aq_base a' = aq_base a \<Longrightarrow> aq_next a' = aq_next a \<Longrightarrow> aq_window a' = aq_window a \<Longrightarrow> window_has_room a' = window_has_room a"
  by (simp add: window_has_room_def in_flight_def)

lemma slide_loop_next [simp]: "aq_next (slide_loop now nb s) = aq_next s"
proof (induction now nb s rule: slide_loop.induct)
  case (1 now nb s)
  then show ?case by (cases "nb - aq_base s \<noteq> 0 \<and> nb - aq_base s < half_space \<and> aq_base s \<noteq> aq_next s")
      (simp_all add: slide_loop.simps [of now nb s] Let_def)
qed

lemma ack_hole_edges [simp]: "aq_base (ack_hole now q s) = aq_base s" "aq_next (ack_hole now q s) = aq_next s"
  by (simp_all add: ack_hole_def Let_def)

lemma ack_holes_room [simp]: "window_has_room (ack_holes now ack a) = window_has_room a"
proof -
  have "window_has_room (fold (\<lambda>i s. if h i then ack_hole now (q i) s else s) xs s) = window_has_room s" for h q and xs :: "nat list" and s
    by (induction xs arbitrary: s) (simp_all add: window_has_room_def in_flight_def)
  then show ?thesis by (simp add: ack_holes_def)
qed

lemma window_run_holes:
  assumes "window_run c acc evs"
  shows "window_run (c\<lparr>uc_arq := map_option (ack_holes now ack) (uc_arq c)\<rparr>) acc evs"
    and "in_line (c\<lparr>uc_arq := map_option (ack_holes now ack) (uc_arq c)\<rparr>) = in_line c"
proof -
  have "arq_run cfg isn s log evs \<Longrightarrow> arq_run cfg isn (ack_holes now ack s) log evs" for cfg isn s log
    unfolding ack_holes_def by (rule arq_run_holes)
  with assms show "window_run (c\<lparr>uc_arq := map_option (ack_holes now ack) (uc_arq c)\<rparr>) acc evs"
    by (cases "uc_arq c") (auto simp: window_run_def)
  show "in_line (c\<lparr>uc_arq := map_option (ack_holes now ack) (uc_arq c)\<rparr>) = in_line c"
    by (cases "uc_arq c") (simp_all add: in_line_def)
qed

lemma channel_on_ack_step:
  assumes run: "window_run c acc evs" and line: "in_line c" and ok: "channel_ok c" and ack: "channel_on_ack now ack c = Some (c', out)"
  shows "window_step c acc evs c' out []"
proof (cases "uc_arq c")
  case None
  with ack window_step_quiet [OF run line] show ?thesis by (simp add: channel_on_ack_def)
next
  case (Some a)
  obtain a1 e where s: "slide_to now (ack_cumulative ack + 1) a = (a1, e)" by fastforce
  let ?c = "c\<lparr>uc_arq := Some a1\<rparr>"
  obtain log where log: "arq_run (uc_arq_cfg c) (uc_initial_seq c) a log evs" "acc = log @ bq_queue (uc_backpressure c)"
    using run Some by (auto simp: window_run_def)
  have run1: "window_run ?c acc (evs @ e)" using arq_run_slide [OF log(1) s] log(2) by (simp add: window_run_def)
  have ok1: "channel_ok ?c" using ok Some s by (auto simp: channel_ok_def slide_to_def Let_def)
  have e: "e = [] \<or> e = [Window_advance]" and e0: "e = [] \<Longrightarrow> aq_base a1 = aq_base a"
    using s by (auto simp: slide_to_def Let_def split: if_splits)
  obtain c1 where c1: "arq_callbacks now e ?c = Some (c1, out)" "c' = c1\<lparr>uc_arq := map_option (ack_holes now ack) (uc_arq c1)\<rparr>"
    using ack Some s by (auto simp: channel_on_ack_def split: Option.bind_splits)
  have "window_step ?c acc (evs @ e) c1 out []"
    using e
  proof
    assume "e = []"
    then have "window_has_room a1 = window_has_room a" using s e0 by (intro room_cong) (auto simp: slide_to_def Let_def)
    then have "in_line ?c" using line Some by (simp add: in_line_def)
    with \<open>e = []\<close> c1(1) window_step_quiet [OF run1] show ?thesis by simp
  next
    assume "e = [Window_advance]"
    with c1(1) show ?thesis using drain_backpressure_step [OF run1 ok1] by (auto split: Option.bind_splits)
  qed
  then have "window_step c acc evs c1 ([] @ out) []"
    by (rule window_step_prefix) (use e in \<open>auto simp: same_engine_def\<close>)
  then obtain e1 where "window_run c1 acc (evs @ e1)" "data_segments out = transmits e1" "in_line c1" "same_engine c c1"
    by (auto simp: window_step_def)
  then show ?thesis unfolding c1(2) window_step_def using window_run_holes [of c1 acc "evs @ e1" now ack]
    by (auto simp: same_engine_def)
qed

lemma callback_segments: "data_segments (map reassembler_callback es) = []"
proof (induction es)
  case (Cons ev es)
  then show ?case by (cases ev) simp_all
qed simp

lemma feed_fragment_quiet:
  "feed_fragment frame c = Some (c', out) \<Longrightarrow> uc_arq c' = uc_arq c \<and> uc_backpressure c' = uc_backpressure c \<and> same_engine c c' \<and> data_segments out = []"
proof -
  have e: "uc_arq (ensure_reassembler c) = uc_arq c" "uc_backpressure (ensure_reassembler c) = uc_backpressure c"
    "same_engine c (ensure_reassembler c)"
    by (simp_all add: ensure_reassembler_def same_engine_def split: option.splits)
  assume "feed_fragment frame c = Some (c', out)"
  then show ?thesis
    by (auto simp: feed_fragment_def Let_def bind_eq_Some_conv e callback_segments split: option.splits)
      (use e(3) in \<open>simp add: same_engine_def\<close>)
qed

lemma on_segment_shape:
  assumes "on_segment q f p s = Some (s', e)"
  shows "transmits e = [] \<and> Window_advance \<notin> set e \<and> Exhausted \<notin> set e"
proof -
  have a: "send_ack s = Some acks \<Longrightarrow> \<exists>ack. acks = [Send_ack ack]" for s acks
    by (simp only: send_ack_def bind_eq_Some_conv option.inject) blast
  have d: "transmits (map (\<lambda>(q, f, b). Deliver q f b) xs) = []" for xs by (induction xs) auto
  from assms show ?thesis
    by (auto simp: on_segment_def Let_def bind_eq_Some_conv d dest!: a)
qed

lemma callbacks_quiet:
  "arq_callbacks now e c = Some (c', out) \<Longrightarrow> list_all event_ok e \<Longrightarrow> Window_advance \<notin> set e \<Longrightarrow>
   uc_arq c' = uc_arq c \<and> uc_backpressure c' = uc_backpressure c \<and> same_engine c c' \<and> data_segments out = transmits e"
proof (induction e arbitrary: c out)
  case (Cons ev e)
  obtain c1 o1 o2 where c1: "arq_callback now ev c = Some (c1, o1)" "arq_callbacks now e c1 = Some (c', o2)" "out = o1 @ o2"
    using Cons.prems(1) by (auto split: Option.bind_splits)
  have "uc_arq c1 = uc_arq c \<and> uc_backpressure c1 = uc_backpressure c \<and> same_engine c c1 \<and> data_segments o1 = transmitted ev"
  proof (cases ev)
    case (Deliver q f p)
    then show ?thesis using c1(1) feed_fragment_quiet [of p c c1 o1] by (auto simp: deliver_reliable_inorder_def split: if_splits)
  next
    case Window_advance
    then show ?thesis using Cons.prems(3) by simp
  qed (use c1(1) Cons.prems(2) arq_emit_segments [of ev o1] in \<open>auto simp del: arq_emit.simps\<close>)
  with Cons.IH [OF c1(2)] Cons.prems(2,3) c1(3) show ?case by (auto intro: same_engine_trans)
qed simp


lemma deliver_reliable_step:
  assumes run: "window_run c acc evs" and line: "in_line c" and ok: "channel_ok c"
    and arrive: "deliver_reliable now seq f inner c = Some (c', out)"
  shows "window_step c acc evs c' out []"
proof -
  note en = ensure_arq_run [OF run line] and quiet = window_step_quiet [OF run line]
  obtain kind where kind: "peek_udp_arq_kind inner = Some kind" using arrive by (auto simp: deliver_reliable_def bind_eq_Some_conv)
  obtain ack where dack: "decode_udp_ack inner = Some ack" using udp_ack_total by blast
  obtain seg where seg: "decode_udp_segment inner = Some seg" by (cases "decode_udp_segment inner") (auto simp: decode_udp_segment_eq)
  consider (drop) "c' = c" "out = []" | (ack) a where "channel_on_ack now a c = Some (c', out)"
    | (segment) p a a' e o' where "uc_arq (ensure_arq c) = Some a" "on_segment seq f p a = Some (a', e)"
        "arq_callbacks now e ((ensure_arq c)\<lparr>uc_arq := Some a'\<rparr>) = Some (c', o')" "out = Reliable_segment seq p # o'"
  proof (cases kind)
    case None
    then show thesis using drop arrive kind by (simp add: deliver_reliable_def)
  next
    case (Some k)
    show thesis
    proof (cases k)
      case arq_ack
      then show thesis using drop that(2) arrive kind Some dack by (cases ack) (simp_all add: deliver_reliable_def)
    next
      case arq_segment
      then show thesis
      proof (cases seg)
        case None
        then show thesis using drop arrive kind Some arq_segment seg by (simp add: deliver_reliable_def)
      next
        case (Some p)
        then show thesis using that(3) [of _ p] arrive kind \<open>kind = Some k\<close> arq_segment seg
          by (auto simp: deliver_reliable_def Let_def bind_eq_Some_conv)
      qed
    qed
  qed
  then show ?thesis
  proof cases
    case drop
    then show ?thesis using quiet by simp
  next
    case ack
    then show ?thesis by (rule channel_on_ack_step [OF run line ok])
  next
    case segment
    let ?c = "(ensure_arq c)\<lparr>uc_arq := Some a'\<rparr>"
    have ok': "list_all event_ok e"
      using on_segment_ok [of a seq f p] ensure_arq_ok [OF ok] segment(1,2) by (auto simp: channel_ok_def)
    note sh = on_segment_shape [OF segment(2)]
    obtain r where r: "a' = a\<lparr>aq_recv := r\<rparr>" using on_segment_fields [OF segment(2)] by blast
    have "window_run ?c acc (evs @ e)"
      using en(1) segment(1) arq_run_segment [OF _ segment(2)] by (auto simp: window_run_def)
    moreover have "in_line ?c" using en(2) segment(1) r by (auto simp: in_line_def window_has_room_def in_flight_def)
    moreover note q = callbacks_quiet [OF segment(3) ok']
    ultimately have "window_step ?c acc (evs @ e) c' o' []" using sh by (intro window_step_quiet) simp_all
    moreover have "same_engine c ?c" using en(3) by (simp add: same_engine_def)
    ultimately have "window_step c acc evs c' ([Reliable_segment seq p] @ o') []"
      by (rule window_step_prefix) (use sh in simp)
    then show ?thesis using segment(4) by simp
  qed
qed

lemma deliver_inbound_step:
  assumes run: "window_run c acc evs" and line: "in_line c" and ok: "channel_ok c"
    and arrive: "deliver_inbound now datagram c = Some (c', out)"
  shows "window_step c acc evs c' out []"
proof -
  obtain dec where dec: "unwrap_udp datagram = Some dec" using unwrap_udp_total by blast
  have feed: "window_step c acc evs c' out []" if "feed_fragment x (c\<lparr>uc_dedup := w\<rparr>) = Some (c', out)" for x w
    using feed_fragment_quiet [OF that] by (intro window_step_quiet [OF run line]) (auto simp: same_engine_def)
  have quiet: "window_step c acc evs (c\<lparr>uc_dedup := w\<rparr>) o' []" if "data_segments o' = []" for w o'
    using that by (intro window_step_quiet [OF run line]) (auto simp: same_engine_def)
  show ?thesis
    using arrive feed quiet deliver_reliable_step [OF run line ok] window_step_quiet [OF run line, of c "[]"]
    by (auto simp: deliver_inbound_def dec Let_def split: option.splits prod.splits if_splits)
qed

lemma arq_expire_room: "arq_expire i a = (a', e) \<Longrightarrow> window_has_room a' = window_has_room a"
  by (auto simp: arq_expire_def arq_timer_def on_rto_def exhausted_def arm_segment_def set_slot_def Let_def
      window_has_room_def in_flight_def split: option.splits prod.splits if_splits)

lemma expire_step:
  assumes run: "window_run c acc evs" and line: "in_line c" and ok: "channel_ok c"
    and fire: "channel_rto (arq_expire i) c = Some (c', out)"
  shows "window_step c acc evs c' out []"
proof (cases "uc_arq c")
  case None
  then show ?thesis using fire window_step_quiet [OF run line] by (simp add: channel_rto_def)
next
  case (Some a)
  obtain a' e where e: "arq_expire i a = (a', e)" by fastforce
  have c': "c' = c\<lparr>uc_arq := Some a'\<rparr>" "arq_emits e = Some out" using fire Some e by (auto simp: channel_rto_def)
  have "list_all event_ok e" using step_events_ok(3) [of i a] e by simp
  note seg = arq_emits_segments [OF c'(2) this]
  have "window_run c' acc (evs @ e)" using run Some arq_run_expire [OF _ e] by (auto simp: window_run_def c'(1))
  moreover have "in_line c'" using line Some arq_expire_room [OF e] by (simp add: in_line_def c'(1))
  ultimately have "window_step c' acc (evs @ e) c' [] []" by (intro window_step_quiet) simp_all
  then have "window_step c acc evs c' (out @ []) []"
    by (rule window_step_prefix) (use seg c'(1) in \<open>simp_all add: same_engine_def\<close>)
  then show ?thesis by simp
qed

lemma send_fragments_quiet:
  "send_fragments m fs c = Some (c', out) \<Longrightarrow> uc_arq c' = uc_arq c \<and> uc_backpressure c' = uc_backpressure c \<and> same_engine c c' \<and> data_segments out = []"
proof (induction m fs c arbitrary: out rule: send_fragments.induct)
  case (2 m idx cnt piece fs c)
  obtain d o' where d: "wrap_udp_fragment_into [] best_effort (uc_out_seq c) m idx cnt piece = Some d"
    "send_fragments m fs (c\<lparr>uc_out_seq := uc_out_seq c + 1\<rparr>) = Some (c', o')" "out = Send_to d # o'"
    using 2(2) by (auto simp: bind_eq_Some_conv)
  have "data_segment (Send_to d) = []"
    using d(1) by (auto simp: udp_layout unwrap_kinds kinds_differ)
  with 2(1) [OF d(1,2)] d(3) show ?case by (auto simp: same_engine_def)
qed simp

lemma channel_send_step:
  assumes run: "window_run c acc evs" and line: "in_line c" and send: "channel_send now p c = Some (c', out)"
  shows "window_step c acc evs c' out (channel_accepts c (Op_send now p))"
proof (cases "uc_mode c = mode_reliable_datagram")
  case True
  then show ?thesis using send send_reliable_step [OF run line] by (auto simp: channel_send_def)
next
  case False
  let ?c = "c\<lparr>uc_out_msg_id := uc_out_msg_id c + 1\<rparr>"
  consider (same) "c' = c" "data_segments out = []" | (one) "c' = c\<lparr>uc_out_seq := uc_out_seq c + 1\<rparr>" "data_segments out = []"
    | (many) fs where "send_fragments (uc_out_msg_id c) fs ?c = Some (c', out)"
  proof (cases "uc_open c \<and> length p + udp_envelope_overhead > uc_max_payload c")
    case True
    then have "send_best_effort_large p c = Some (c', out)" using send False by (simp add: channel_send_def)
    then show thesis
    proof (cases "exceeds_max_message c (length p)")
      case False
      with \<open>send_best_effort_large p c = Some (c', out)\<close> obtain fs where "send_fragments (uc_out_msg_id c) fs ?c = Some (c', out)"
        unfolding send_best_effort_large_def Let_def if_not_P [OF False] by (auto simp: bind_eq_Some_conv)
      then show thesis by (rule many)
    qed (use same in \<open>auto simp: send_best_effort_large_def reject_oversize_def\<close>)
  next
    case no: False
    show thesis
    proof (cases "uc_open c")
      case True
      with send False no have "c' = c\<lparr>uc_out_seq := uc_out_seq c + 1\<rparr>" "data_segments out = []"
        by (auto simp: channel_send_def udp_layout)
      then show thesis by (rule one)
    qed (use same send False in \<open>simp add: channel_send_def\<close>)
  qed
  then have "uc_arq c' = uc_arq c \<and> uc_backpressure c' = uc_backpressure c \<and> same_engine c c' \<and> data_segments out = []"
  proof cases
    case many
    from send_fragments_quiet [OF many] show ?thesis by (simp add: same_engine_def)
  qed (simp_all add: same_engine_def)
  then show ?thesis using False by (auto intro: window_step_quiet [OF run line])
qed


fun slot_timed :: "channel_op \<Rightarrow> bool" where
  "slot_timed (Op_arq_completion _ _) = False"
| "slot_timed _ = True"

lemma channel_step_window:
  assumes run: "window_run c acc evs" and line: "in_line c" and ok: "channel_ok c"
    and step: "channel_step c op = Some (c', out)" and "slot_timed op"
  shows "window_step c acc evs c' out (channel_accepts c op)"
proof (cases op)
  case (Op_send now p)
  then show ?thesis using step channel_send_step [OF run line] by (simp only: channel_step.simps)
next
  case (Op_send_reliable now p)
  then show ?thesis using step send_reliable_step [OF run line] by auto
next
  case (Op_inbound now d)
  then show ?thesis using step deliver_inbound_step [OF run line ok] by simp
next
  case (Op_arq_expire i)
  then show ?thesis using step expire_step [OF run line ok] by simp
next
  case (Op_partial_timeout m ec)
  then have "uc_arq c' = uc_arq c \<and> uc_backpressure c' = uc_backpressure c \<and> same_engine c c' \<and> data_segments out = []"
    using step by (auto simp: channel_partial_timeout_def callback_segments same_engine_def split: option.splits)
  then show ?thesis using Op_partial_timeout by (auto intro: window_step_quiet [OF run line])
next
  case Op_close
  then have "uc_arq c' = uc_arq c \<and> uc_backpressure c' = uc_backpressure c \<and> same_engine c c' \<and> data_segments out = []"
    using step by (auto simp: channel_close_def same_engine_def split: if_splits)
  then show ?thesis using Op_close by (auto intro: window_step_quiet [OF run line])
next
  case Op_teardown
  have c': "c' = fst (channel_teardown c)" "data_segments out = []" using step Op_teardown by (auto simp: channel_teardown_def)
  have "window_run c' acc evs" "in_line c'"
    using run line arq_run_cancel unfolding c'(1)
    by (auto simp: channel_teardown_def window_run_def in_line_def arq_cancel_def window_has_room_def in_flight_def split: option.splits)
  then show ?thesis using c'(2) Op_teardown unfolding window_step_def
    by (intro conjI exI [of _ "[]"]) (simp_all add: c'(1) channel_teardown_def same_engine_def)
qed (use assms(5) in simp)

lemma channel_run_window:
  "window_run c acc evs \<Longrightarrow> in_line c \<Longrightarrow> channel_ok c \<Longrightarrow> list_all slot_timed ops \<Longrightarrow>
   run_safe channel_step c ops = Some (c', out) \<Longrightarrow> window_step c acc evs c' out (accepted_run c ops)"
proof (induction ops arbitrary: c acc evs out)
  case Nil
  then show ?case using window_step_quiet [OF Nil.prems(1,2)] by simp
next
  case (Cons op ops)
  obtain c1 o1 o2 where c1: "channel_step c op = Some (c1, o1)" "run_safe channel_step c1 ops = Some (c', o2)" "out = o1 @ o2"
    using Cons.prems(5) by (auto simp: bind_eq_Some_conv)
  have ok: "channel_ok c1" using channel_step_ok [OF Cons.prems(3), of op] c1(1) by simp
  have step: "window_step c acc evs c1 o1 (channel_accepts c op)"
    using channel_step_window [OF Cons.prems(1-3) c1(1)] Cons.prems(4) by simp
  have "window_step c1 (acc @ channel_accepts c op) (evs @ e) c' o2 (accepted_run c1 ops)"
    if "window_run c1 (acc @ channel_accepts c op) (evs @ e)" for e
    using Cons.IH [OF that _ ok _ c1(2)] step Cons.prems(4) by (simp add: window_step_def)
  from window_step_trans [OF step this] c1 show ?case by simp
qed

section \<open>In order\<close>

lemma arq_run_sent:
  assumes "arq_run cfg isn s log evs" and "0 < ac_window cfg" and "ac_window cfg \<le> 32768" and "ac_window cfg dvd 65536"
  shows "\<forall>k<length log. Transmit (isn + of_nat k) (fst (log ! k)) (snd (log ! k)) \<in> set evs"
  using assms(1)
proof induction
  case (arq_run_submit s log evs now p f s' e r)
  obtain b where "arq_inv (unat isn) log b s" using arq_run_inv [OF arq_run_submit(1) assms(2-4)] by blast
  from arq_submit_inv [OF this arq_run_submit(2)] arq_run_submit.IH show ?case
    by (cases "r = admitted") (auto simp: nth_append less_Suc_eq)
qed auto

text \<open>
  C17. The reliable datagram channel keeps the order of acceptance: over every sequence of sends,
  inbound datagrams, expired waits, closing and teardown, the frames and fragments it accepted are
  numbered consecutively from the initial sequence number, whether they went to the window at once or
  waited in the backpressure queue. Every data segment on the wire is an accepted piece under its own
  number, what has not been sent yet is exactly the backpressure queue in its order, everything
  before it has been sent, and pieces wait only while the window is full. The waits that expire are
  those armed at the time: a completion that arrives after its wait was cancelled is left out.
\<close>

theorem udp_reliable_in_order:
  assumes "0 < ac_window cfg" and "ac_window cfg \<le> 32768" and "ac_window cfg dvd 65536" and "list_all slot_timed ops"
    and run: "run_safe channel_step (udp_channel_init mp cfg cg bp mode isn mm rb rt) ops = Some (c, out)"
  shows "\<exists>n. let acc = accepted_run (udp_channel_init mp cfg cg bp mode isn mm rb rt) ops in
     n \<le> length acc \<and> bq_queue (uc_backpressure c) = drop n acc
     \<and> set (data_segments out) = (\<lambda>k. (isn + of_nat k, acc ! k)) ` {..<n}
     \<and> (n < length acc \<longrightarrow> (\<exists>a. uc_arq c = Some a \<and> \<not> window_has_room a))"
proof -
  let ?c = "udp_channel_init mp cfg cg bp mode isn mm rb rt"
  define acc where "acc = accepted_run ?c ops"
  have init: "window_run ?c [] []" "in_line ?c" "uc_arq_cfg ?c = cfg" "uc_initial_seq ?c = isn"
    by (simp_all add: window_run_def in_line_def udp_channel_init_def udp_backpressure_queue_init_def)
  from channel_run_window [OF init(1,2) channel_ok_init assms(4) run] obtain evs where
    w: "window_run c acc evs" "in_line c" "uc_arq_cfg c = cfg" "uc_initial_seq c = isn" "data_segments out = transmits evs"
    using init(3,4) by (auto simp: window_step_def same_engine_def acc_def)
  obtain log where log: "acc = log @ bq_queue (uc_backpressure c)"
    and tx: "Transmit q p f \<in> set evs \<Longrightarrow> \<exists>k<length log. q = isn + of_nat k \<and> log ! k = (p, f)"
      "k < length log \<Longrightarrow> Transmit (isn + of_nat k) (fst (log ! k)) (snd (log ! k)) \<in> set evs" for q p f k
  proof (cases "uc_arq c")
    case None
    then show thesis using w(1) that [of "[]"] by (simp add: window_run_def)
  next
    case (Some a)
    then obtain log where "arq_run cfg isn a log evs" "acc = log @ bq_queue (uc_backpressure c)"
      using w by (auto simp: window_run_def)
    with arq_run_inv [OF _ assms(1-3)] arq_run_sent [OF _ assms(1-3)] show thesis by (intro that [of log]) auto
  qed
  have a: "acc ! k = log ! k" if "k < length log" for k using that log by (simp add: nth_append)
  have "set (data_segments out) \<subseteq> (\<lambda>k. (isn + of_nat k, acc ! k)) ` {..<length log}"
    unfolding w(5) using tx(1) a by (force simp: transmits_iff)
  moreover have "(\<lambda>k. (isn + of_nat k, acc ! k)) ` {..<length log} \<subseteq> set (data_segments out)"
    unfolding w(5) using tx(2) a by (auto simp: transmits_iff) (metis prod.collapse transmits_iff)
  moreover have "length log < length acc \<longrightarrow> (\<exists>a. uc_arq c = Some a \<and> \<not> window_has_room a)"
    using w(2) log by (auto simp: in_line_def split: option.splits)
  ultimately show ?thesis using log unfolding acc_def [symmetric] Let_def by (intro exI [of _ "length log"]) simp
qed

theorem udp_reliable_in_order_witness:
  "\<exists>c out n. run_safe channel_step tiny_channel [Op_send_reliable 0 [1], Op_send_reliable 0 [2], Op_arq_expire 0] = Some (c, out)
     \<and> set (data_segments out) = (\<lambda>k. (of_nat k, accepted_run tiny_channel
          [Op_send_reliable 0 [1], Op_send_reliable 0 [2], Op_arq_expire 0] ! k)) ` {..<n}"
proof -
  let ?ops = "[Op_send_reliable 0 [1], Op_send_reliable 0 [2], Op_arq_expire 0]"
  obtain c out where r: "run_safe channel_step tiny_channel ?ops = Some (c, out)"
    unfolding tiny_channel_def using channel.safe_run [OF channel_ok_init] by blast
  from udp_reliable_in_order [OF _ _ _ _ r [unfolded tiny_channel_def], folded tiny_channel_def] r show ?thesis
    by (fastforce simp: default_arq_config_def Let_def)
qed

end
