(* ===== verification/Ring.thy ===== *)
theory Ring
  imports Prelude
begin

text \<open>
  A ring of slots read from its oldest element: what the band queues and the history ring store, as
  a list. Both implementations keep a start index, a count and a vector that is reused in place.
\<close>

definition ring_view :: "'a list \<Rightarrow> nat \<Rightarrow> nat \<Rightarrow> 'a list" where
  "ring_view slots start count = map (\<lambda>i. slots ! ((start + i) mod length slots)) [0..<count]"

lemma length_ring_view [simp]: "length (ring_view slots start count) = count"
  by (simp add: ring_view_def)

lemma ring_view_0 [simp]: "ring_view slots start 0 = []"
  by (simp add: ring_view_def)

lemma ring_view_nth: "i < count \<Longrightarrow> ring_view slots start count ! i = slots ! ((start + i) mod length slots)"
  by (simp add: ring_view_def)

lemma ring_view_mod [simp]: "ring_view slots (start mod length slots) count = ring_view slots start count"
  by (simp add: ring_view_def mod_simps)

lemma mod_window_inj:
  assumes "i < j" and "j < i + n"
  shows "(s + i) mod n \<noteq> (s + j) mod (n :: nat)"
proof
  assume "(s + i) mod n = (s + j) mod n"
  then have "n dvd (s + j) - (s + i)" using assms(1) mod_eq_dvd_iff_nat [of "s + i" "s + j" n] by simp
  then have "n dvd j - i" by simp
  with assms show False using dvd_imp_le [of n "j - i"] by simp
qed

text \<open>Writing behind the newest element appends it; a full ring must first give up its oldest.\<close>

lemma ring_view_append:
  assumes "count < length slots"
  shows "ring_view (slots[(start + count) mod length slots := x]) start (Suc count) = ring_view slots start count @ [x]"
proof (rule nth_equalityI)
  fix i assume "i < length (ring_view (slots[(start + count) mod length slots := x]) start (Suc count))"
  then have i: "i \<le> count" by simp
  show "ring_view (slots[(start + count) mod length slots := x]) start (Suc count) ! i = (ring_view slots start count @ [x]) ! i"
  proof (cases "i = count")
    case True
    moreover have "(start + count) mod length slots < length slots" using assms by (intro mod_less_divisor) linarith
    ultimately show ?thesis by (simp add: ring_view_nth nth_append)
  next
    case False
    then have "(start + i) mod length slots \<noteq> (start + count) mod length slots"
      using mod_window_inj [of i count "length slots" start] i assms by simp
    then show ?thesis using False i by (simp add: ring_view_nth nth_append)
  qed
qed simp

lemma ring_view_Cons:
  "0 < count \<Longrightarrow> ring_view slots start count = slots ! (start mod length slots) # ring_view slots (start + 1) (count - 1)"
  by (cases count) (simp_all add: ring_view_def upt_rec [of 0] map_Suc_upt [symmetric] del: upt_Suc)

lemma ring_view_forget:
  assumes "count < length slots"
  shows "ring_view (slots[start mod length slots := x]) (start + 1) count = ring_view slots (start + 1) count"
proof (rule nth_equalityI)
  fix i assume "i < length (ring_view (slots[start mod length slots := x]) (start + 1) count)"
  then have i: "i < count" by simp
  then have "start mod length slots \<noteq> (start + Suc i) mod length slots"
    using mod_window_inj [of 0 "Suc i" "length slots" start] assms by simp
  with i show "ring_view (slots[start mod length slots := x]) (start + 1) count ! i = ring_view slots (start + 1) count ! i"
    by (simp add: ring_view_nth)
qed simp

end
