(* ===== verification/Egress.thy ===== *)
theory Egress
  imports Ring Qos Fragmentation Send_Queue
begin

text \<open>
  The egress scheduler between the fan-out and a channel: four bands of frames per destination, the
  highest drained first while the channel has room, each band a bounded ring with a congestion policy
  (\<open>priority_band_queue.h\<close>, \<open>egress_scheduler.h\<close>). The channel is a template parameter of the source;
  here it is a record of the verbs the scheduler probes for, and the stream channel over
  \<open>stream_send_queue\<close> provides them.
\<close>

section \<open>Bands\<close>

definition k_egress_bands :: nat where "k_egress_bands = 4"
definition k_band_depth :: nat where "k_band_depth = 256"

fun priority_value :: "priority \<Rightarrow> nat" where
  "priority_value background = 0"
| "priority_value normal = 1"
| "priority_value high = 2"
| "priority_value realtime = 3"

definition band_of :: "priority \<Rightarrow> nat" where
  "band_of p = (let inverted = k_egress_bands - 1 - priority_value p in min inverted (k_egress_bands - 1))"

text \<open>A slot holds a shared frame owner; the empty owner is the empty byte string.\<close>

record band =
  bd_slots :: "bytes list"
  bd_head :: nat
  bd_count :: nat
  bd_dropped_oldest :: nat
  bd_dropped_newest :: nat
  bd_blocked :: nat

definition band_init :: band where
  "band_init = \<lparr>bd_slots = [], bd_head = 0, bd_count = 0, bd_dropped_oldest = 0, bd_dropped_newest = 0, bd_blocked = 0\<rparr>"

definition band_front :: "band \<Rightarrow> bytes option" where
  "band_front b = (if bd_head b < length (bd_slots b) then Some (bd_slots b ! bd_head b) else None)"

definition band_pop :: "band \<Rightarrow> band option" where
  "band_pop b = (if bd_head b < length (bd_slots b) \<and> 0 < bd_count b
     then Some (b\<lparr>bd_slots := (bd_slots b)[bd_head b := []], bd_head := (bd_head b + 1) mod k_band_depth, bd_count := bd_count b - 1\<rparr>)
     else None)"

definition evict_oldest_or_refuse_cause :: "congestion \<Rightarrow> band \<Rightarrow> (band \<times> drop_cause) option" where
  "evict_oldest_or_refuse_cause cong b =
     (case cong of
        block \<Rightarrow> Some (b\<lparr>bd_blocked := bd_blocked b + 1\<rparr>, dc_blocked)
      | drop_newest \<Rightarrow> Some (b\<lparr>bd_dropped_newest := bd_dropped_newest b + 1\<rparr>, dc_drop_newest)
      | drop_oldest \<Rightarrow> do {
          b \<leftarrow> band_pop b;
          Some (b\<lparr>bd_dropped_oldest := bd_dropped_oldest b + 1\<rparr>, dc_drop_oldest)
        })"

text \<open>The admitting tail of \<open>push_with_verdict\<close>: grow the slots once, write behind the newest frame.\<close>

definition band_store :: "bytes \<Rightarrow> band \<Rightarrow> band" where
  "band_store frame b =
     (let slots = (if length (bd_slots b) \<noteq> k_band_depth
                   then take k_band_depth (bd_slots b) @ replicate (k_band_depth - length (bd_slots b)) [] else bd_slots b);
          tail = (bd_head b + bd_count b) mod k_band_depth
      in b\<lparr>bd_slots := slots[tail := frame], bd_count := bd_count b + 1\<rparr>)"

definition push_with_verdict :: "congestion \<Rightarrow> bytes \<Rightarrow> band \<Rightarrow> (band \<times> drop_cause) option" where
  "push_with_verdict cong frame b = do {
     (b, cause) \<leftarrow> (if bd_count b = k_band_depth then evict_oldest_or_refuse_cause cong b else Some (b, dc_none));
     if cause = dc_drop_newest \<or> cause = dc_blocked then Some (b, cause) else Some (band_store frame b, cause)
   }"

definition band_push :: "congestion \<Rightarrow> bytes \<Rightarrow> band \<Rightarrow> (band \<times> bool) option" where
  "band_push cong frame b =
     map_option (\<lambda>(b, cause). (b, cause \<noteq> dc_drop_newest \<and> cause \<noteq> dc_blocked)) (push_with_verdict cong frame b)"

type_synonym priority_band_queue = "band list"

definition priority_band_queue_init :: priority_band_queue where
  "priority_band_queue_init = replicate k_egress_bands band_init"

definition has_work :: "priority_band_queue \<Rightarrow> bool" where
  "has_work q \<longleftrightarrow> list_ex (\<lambda>b. bd_count b \<noteq> 0) q"

definition enqueue_with_verdict :: "nat \<Rightarrow> congestion \<Rightarrow> bytes \<Rightarrow> priority_band_queue \<Rightarrow> (priority_band_queue \<times> drop_cause) option" where
  "enqueue_with_verdict i cong frame q =
     (if i < length q then map_option (\<lambda>(b, cause). (q[i := b], cause)) (push_with_verdict cong frame (q ! i)) else None)"

text \<open>The inner option is the null pointer of \<open>front_highest\<close>.\<close>

fun front_highest :: "priority_band_queue \<Rightarrow> bytes option option" where
  "front_highest [] = Some None"
| "front_highest (b # bs) = (if bd_count b \<noteq> 0 then map_option Some (band_front b) else front_highest bs)"

fun pop_highest :: "priority_band_queue \<Rightarrow> priority_band_queue option" where
  "pop_highest [] = Some []"
| "pop_highest (b # bs) = (if bd_count b \<noteq> 0 then map_option (\<lambda>b. b # bs) (band_pop b) else map_option ((#) b) (pop_highest bs))"

section \<open>The scheduler\<close>

text \<open>The verbs of a channel; \<open>co_capacity\<close> is absent for a channel type without \<open>write_queue_capacity\<close>.\<close>

record 'c channel_ops =
  co_can_poll :: bool
  co_key :: "'c \<Rightarrow> u64"
  co_backpressured :: "'c \<Rightarrow> nat"
  co_capacity :: "('c \<Rightarrow> nat) option"
  co_send :: "bytes \<Rightarrow> 'c \<Rightarrow> 'c"

definition k_low_water :: nat where "k_low_water = max_message_size"

definition low_water_of :: "'c channel_ops \<Rightarrow> 'c \<Rightarrow> nat" where
  "low_water_of ops ch = (case co_capacity ops of Some f \<Rightarrow> f ch | None \<Rightarrow> k_low_water)"

definition egress_admits :: "'c channel_ops \<Rightarrow> 'c \<Rightarrow> nat \<Rightarrow> bool" where
  "egress_admits ops ch n \<longleftrightarrow>
     (if co_can_poll ops then co_backpressured ops ch = 0 \<or> co_backpressured ops ch + n \<le> low_water_of ops ch else True)"

definition backlog :: "priority_band_queue \<Rightarrow> nat" where
  "backlog q = sum_list (map bd_count q)"

lemma pop_highest_backlog: "pop_highest q = Some q' \<Longrightarrow> has_work q \<Longrightarrow> backlog q' < backlog q"
  by (induction q arbitrary: q') (auto simp: has_work_def backlog_def band_pop_def split: if_splits)

function egress_drain :: "'c channel_ops \<Rightarrow> priority_band_queue \<Rightarrow> 'c \<Rightarrow> (priority_band_queue \<times> 'c) option" where
  "egress_drain ops q ch =
     (if has_work q then
        (case front_highest q of
           Some (Some node) \<Rightarrow>
             if \<not> egress_admits ops ch (length node) then Some (q, ch)
             else (case pop_highest q of None \<Rightarrow> None | Some q' \<Rightarrow> egress_drain ops q' (co_send ops node ch))
         | _ \<Rightarrow> None)
      else Some (q, ch))"
  by pat_completeness auto
termination
  by (relation "measure (\<lambda>(_, q, _). backlog q)") (simp_all add: pop_highest_backlog)

declare egress_drain.simps [simp del]

type_synonym egress_scheduler = "u64 \<rightharpoonup> priority_band_queue"

definition queue_at :: "u64 \<Rightarrow> egress_scheduler \<Rightarrow> priority_band_queue" where
  "queue_at k m = (case m k of Some q \<Rightarrow> q | None \<Rightarrow> priority_band_queue_init)"

definition egress_enqueue ::
  "'c channel_ops \<Rightarrow> 'c \<Rightarrow> nat \<Rightarrow> congestion \<Rightarrow> bytes \<Rightarrow> egress_scheduler \<Rightarrow> (egress_scheduler \<times> 'c \<times> drop_cause) option" where
  "egress_enqueue ops ch i cong frame m =
     (if \<not> co_can_poll ops then Some (m, co_send ops frame ch, dc_none)
      else let k = co_key ops ch in do {
        (q, cause) \<leftarrow> enqueue_with_verdict i cong frame (queue_at k m);
        (q, ch) \<leftarrow> egress_drain ops q ch;
        Some (m(k \<mapsto> q), ch, cause)
      })"

definition egress_remove :: "'c channel_ops \<Rightarrow> 'c \<Rightarrow> egress_scheduler \<Rightarrow> egress_scheduler" where
  "egress_remove ops ch m = m(co_key ops ch := None)"

definition egress_dropped_oldest :: "'c channel_ops \<Rightarrow> 'c \<Rightarrow> nat \<Rightarrow> egress_scheduler \<Rightarrow> nat" where
  "egress_dropped_oldest ops ch i m = (case m (co_key ops ch) of None \<Rightarrow> 0 | Some q \<Rightarrow> bd_dropped_oldest (q ! i))"

definition egress_dropped_newest :: "'c channel_ops \<Rightarrow> 'c \<Rightarrow> nat \<Rightarrow> egress_scheduler \<Rightarrow> nat" where
  "egress_dropped_newest ops ch i m = (case m (co_key ops ch) of None \<Rightarrow> 0 | Some q \<Rightarrow> bd_dropped_newest (q ! i))"

definition egress_blocked :: "'c channel_ops \<Rightarrow> 'c \<Rightarrow> nat \<Rightarrow> egress_scheduler \<Rightarrow> nat" where
  "egress_blocked ops ch i m = (case m (co_key ops ch) of None \<Rightarrow> 0 | Some q \<Rightarrow> bd_blocked (q ! i))"

section \<open>Bands as lists\<close>

definition band_ok :: "band \<Rightarrow> bool" where
  "band_ok b \<longleftrightarrow> bd_head b < k_band_depth \<and> bd_count b \<le> k_band_depth
     \<and> (bd_slots b = [] \<and> bd_count b = 0 \<or> length (bd_slots b) = k_band_depth)"

definition band_frames :: "band \<Rightarrow> bytes list" where
  "band_frames b = ring_view (bd_slots b) (bd_head b) (bd_count b)"

definition queue_ok :: "priority_band_queue \<Rightarrow> bool" where
  "queue_ok q \<longleftrightarrow> length q = k_egress_bands \<and> list_all band_ok q"

abbreviation same_counters :: "band \<Rightarrow> band \<Rightarrow> bool" where
  "same_counters b b' \<equiv> bd_dropped_oldest b' = bd_dropped_oldest b \<and> bd_dropped_newest b' = bd_dropped_newest b \<and> bd_blocked b' = bd_blocked b"

text \<open>What the policy promises of a band that holds at most \<open>k_band_depth\<close> frames.\<close>

definition band_offer :: "congestion \<Rightarrow> bytes \<Rightarrow> bytes list \<Rightarrow> bytes list \<times> drop_cause" where
  "band_offer cong f xs =
     (if length xs < k_band_depth then (xs @ [f], dc_none)
      else case cong of block \<Rightarrow> (xs, dc_blocked) | drop_newest \<Rightarrow> (xs, dc_drop_newest) | drop_oldest \<Rightarrow> (tl xs @ [f], dc_drop_oldest))"

lemma length_band_frames [simp]: "length (band_frames b) = bd_count b"
  by (simp add: band_frames_def)

lemma band_frames_Nil [simp]: "band_frames b = [] \<longleftrightarrow> bd_count b = 0"
  using length_band_frames [of b] by (metis length_0_conv)

lemma band_depth_pos: "0 < k_band_depth"
  by (simp add: k_band_depth_def)

lemma band_init_ok [simp]: "band_ok band_init" "band_frames band_init = []"
  by (simp_all add: band_ok_def band_init_def band_frames_def band_depth_pos)

lemma band_front_eq: "band_ok b \<Longrightarrow> bd_count b \<noteq> 0 \<Longrightarrow> band_front b = Some (hd (band_frames b))"
  by (auto simp: band_ok_def band_front_def band_frames_def ring_view_Cons)

lemma band_pop_eq:
  assumes "band_ok b" and "bd_count b \<noteq> 0"
  shows "\<exists>b'. band_pop b = Some b' \<and> band_ok b' \<and> band_frames b' = tl (band_frames b) \<and> same_counters b b'"
proof -
  have len: "length (bd_slots b) = k_band_depth" and h: "bd_head b < k_band_depth" "bd_count b \<le> k_band_depth"
    using assms by (auto simp: band_ok_def)
  have "ring_view ((bd_slots b)[bd_head b := []]) ((bd_head b + 1) mod k_band_depth) (bd_count b - 1)
      = ring_view (bd_slots b) (bd_head b + 1) (bd_count b - 1)"
    using ring_view_forget [of "bd_count b - 1" "bd_slots b" "bd_head b" "[]"] h len assms(2)
      ring_view_mod [of "(bd_slots b)[bd_head b := []]" "bd_head b + 1" "bd_count b - 1"] by simp
  moreover have "band_frames b = bd_slots b ! bd_head b # ring_view (bd_slots b) (bd_head b + 1) (bd_count b - 1)"
    using ring_view_Cons [of "bd_count b" "bd_slots b" "bd_head b"] assms(2) h len by (simp add: band_frames_def)
  ultimately show ?thesis
    using h len assms(2) band_depth_pos by (simp add: band_pop_def band_ok_def band_frames_def)
qed

lemma band_store_eq:
  assumes "band_ok b" and "bd_count b < k_band_depth"
  shows "band_ok (band_store f b) \<and> band_frames (band_store f b) = band_frames b @ [f] \<and> same_counters b (band_store f b)"
proof -
  define slots where "slots = (if length (bd_slots b) \<noteq> k_band_depth
     then take k_band_depth (bd_slots b) @ replicate (k_band_depth - length (bd_slots b)) [] else bd_slots b)"
  have len: "length slots = k_band_depth" using assms by (auto simp: slots_def band_ok_def)
  have fr: "ring_view slots (bd_head b) (bd_count b) = band_frames b" using assms by (auto simp: slots_def band_ok_def band_frames_def)
  have "ring_view (slots[(bd_head b + bd_count b) mod k_band_depth := f]) (bd_head b) (bd_count b + 1) = band_frames b @ [f]"
    using ring_view_append [of "bd_count b" slots "bd_head b" f] assms(2) len fr by simp
  with len assms show ?thesis unfolding band_store_def slots_def [symmetric] Let_def by (simp add: band_ok_def band_frames_def)
qed

lemma push_with_verdict_eq:
  assumes "band_ok b"
  shows "\<exists>b' cause. push_with_verdict cong f b = Some (b', cause) \<and> band_ok b'
     \<and> (band_frames b', cause) = band_offer cong f (band_frames b)
     \<and> bd_dropped_oldest b' = bd_dropped_oldest b + of_bool (cause = dc_drop_oldest)
     \<and> bd_dropped_newest b' = bd_dropped_newest b + of_bool (cause = dc_drop_newest)
     \<and> bd_blocked b' = bd_blocked b + of_bool (cause = dc_blocked)"
proof (cases "bd_count b = k_band_depth")
  case False
  then have "bd_count b < k_band_depth" using assms by (auto simp: band_ok_def)
  with band_store_eq [OF assms this, of f] False show ?thesis
    by (simp add: push_with_verdict_def band_offer_def)
next
  case full: True
  show ?thesis
  proof (cases "cong = drop_oldest")
    case True
    have "bd_count b \<noteq> 0" using full band_depth_pos by simp
    from band_pop_eq [OF assms this] obtain b1 where b1: "band_pop b = Some b1" "band_ok b1" "band_frames b1 = tl (band_frames b)"
      "same_counters b b1" by blast
    define b2 where "b2 = b1\<lparr>bd_dropped_oldest := bd_dropped_oldest b1 + 1\<rparr>"
    have b2: "band_ok b2" "band_frames b2 = tl (band_frames b)" using b1 by (simp_all add: b2_def band_ok_def band_frames_def)
    have "bd_count b2 < k_band_depth" using b2(2) full \<open>bd_count b \<noteq> 0\<close> by (metis diff_less length_band_frames length_tl less_one neq0_conv zero_less_diff)
    note st = band_store_eq [OF b2(1) this, of f]
    have "push_with_verdict cong f b = Some (band_store f b2, dc_drop_oldest)"
      using full True b1(1) by (simp add: push_with_verdict_def evict_oldest_or_refuse_cause_def b2_def)
    moreover have "same_counters (b\<lparr>bd_dropped_oldest := bd_dropped_oldest b + 1\<rparr>) b2" using b1(4) by (simp add: b2_def)
    ultimately show ?thesis using st b2 full True by (simp add: band_offer_def)
  next
    case False
    then show ?thesis
      using full assms by (cases cong) (auto simp: push_with_verdict_def evict_oldest_or_refuse_cause_def band_offer_def band_ok_def band_frames_def)
  qed
qed

section \<open>The ideal scheduler\<close>

text \<open>
  An offer of a frame to a band with the verdict it received, and a frame handed to the channel from a
  band. The ideal scheduler keeps plain lists and accepts only histories in which every verdict is the
  policy's and every frame handed over is the oldest of the highest band that holds any.
\<close>

datatype egress_event = Offered nat congestion bytes drop_cause | Handed nat bytes

fun ideal_step :: "egress_event \<Rightarrow> (nat \<Rightarrow> bytes list) \<Rightarrow> (nat \<Rightarrow> bytes list) option" where
  "ideal_step (Offered i cong f cause) xs =
     (case band_offer cong f (xs i) of (ys, cause') \<Rightarrow> if cause' = cause then Some (xs(i := ys)) else None)"
| "ideal_step (Handed i f) xs = (if xs i \<noteq> [] \<and> hd (xs i) = f \<and> (\<forall>j<i. xs j = []) then Some (xs(i := tl (xs i))) else None)"

fun ideal_run :: "egress_event list \<Rightarrow> (nat \<Rightarrow> bytes list) \<Rightarrow> (nat \<Rightarrow> bytes list) option" where
  "ideal_run [] xs = Some xs"
| "ideal_run (e # es) xs = do { xs \<leftarrow> ideal_step e xs; ideal_run es xs }"

lemma ideal_run_append: "ideal_run (es @ fs) xs = do { xs \<leftarrow> ideal_run es xs; ideal_run fs xs }"
proof (induction es arbitrary: xs)
  case (Cons e es)
  then show ?case by (cases "ideal_step e xs") auto
qed simp

definition resident :: "priority_band_queue \<Rightarrow> nat \<Rightarrow> bytes list" where
  "resident q i = (if i < length q then band_frames (q ! i) else [])"

fun highest_band :: "priority_band_queue \<Rightarrow> nat" where
  "highest_band [] = 0"
| "highest_band (b # bs) = (if bd_count b \<noteq> 0 then 0 else Suc (highest_band bs))"

definition drop_counts :: "priority_band_queue \<Rightarrow> nat \<Rightarrow> drop_cause \<Rightarrow> nat" where
  "drop_counts q i cause = (case cause of dc_drop_oldest \<Rightarrow> bd_dropped_oldest (q ! i) | dc_drop_newest \<Rightarrow> bd_dropped_newest (q ! i)
     | dc_blocked \<Rightarrow> bd_blocked (q ! i) | _ \<Rightarrow> 0)"

abbreviation counted_cause :: "drop_cause \<Rightarrow> bool" where
  "counted_cause cause \<equiv> cause \<in> {dc_drop_oldest, dc_drop_newest, dc_blocked}"

lemma queue_init_ok [simp]: "queue_ok priority_band_queue_init" "resident priority_band_queue_init = (\<lambda>_. [])"
  by (auto simp: queue_ok_def priority_band_queue_init_def resident_def list_all_iff)

lemma highest_band_work:
  "has_work q \<Longrightarrow> highest_band q < length q \<and> bd_count (q ! highest_band q) \<noteq> 0 \<and> (\<forall>j<highest_band q. bd_count (q ! j) = 0)"
proof (induction q)
  case (Cons b q)
  then show ?case by (cases "bd_count b = 0") (auto simp: has_work_def less_Suc_eq_0_disj)
qed (simp add: has_work_def)

lemma front_highest_eq: "list_all band_ok q \<Longrightarrow> has_work q \<Longrightarrow> front_highest q = Some (Some (hd (band_frames (q ! highest_band q))))"
  by (induction q) (auto simp: has_work_def band_front_eq)

lemma pop_highest_eq:
  "list_all band_ok q \<Longrightarrow> has_work q \<Longrightarrow>
   \<exists>b. pop_highest q = Some (q[highest_band q := b]) \<and> band_ok b \<and> band_frames b = tl (band_frames (q ! highest_band q))
     \<and> same_counters (q ! highest_band q) b"
proof (induction q)
  case (Cons b q)
  show ?case
  proof (cases "bd_count b = 0")
    case True
    then have "has_work q" using Cons.prems(2) by (simp add: has_work_def)
    with Cons True show ?thesis by auto
  next
    case False
    from band_pop_eq [OF _ False] Cons.prems(1) show ?thesis using False by auto
  qed
qed (simp add: has_work_def)

lemma resident_update: "i < length q \<Longrightarrow> resident (q[i := b]) = (resident q)(i := band_frames b)"
  by (auto simp: resident_def)

text \<open>The frames one drain hands over, with the bands they leave.\<close>

function egress_handed :: "'c channel_ops \<Rightarrow> priority_band_queue \<Rightarrow> 'c \<Rightarrow> (nat \<times> bytes) list" where
  "egress_handed ops q ch =
     (if has_work q then
        (case (front_highest q, pop_highest q) of
           (Some (Some node), Some q') \<Rightarrow>
             if egress_admits ops ch (length node) then (highest_band q, node) # egress_handed ops q' (co_send ops node ch) else []
         | _ \<Rightarrow> [])
      else [])"
  by pat_completeness auto
termination
  by (relation "measure (\<lambda>(_, q, _). backlog q)") (auto simp: pop_highest_backlog)

declare egress_handed.simps [simp del]

definition settled :: "'c channel_ops \<Rightarrow> priority_band_queue \<Rightarrow> 'c \<Rightarrow> bool" where
  "settled ops q ch \<longleftrightarrow> (has_work q \<longrightarrow> \<not> egress_admits ops ch (length (hd (resident q (highest_band q)))))"

lemma egress_drain_eq:
  "queue_ok q \<Longrightarrow> \<exists>q'. egress_drain ops q ch = Some (q', fold (\<lambda>(_, f). co_send ops f) (egress_handed ops q ch) ch)
     \<and> queue_ok q' \<and> ideal_run (map (\<lambda>(i, f). Handed i f) (egress_handed ops q ch)) (resident q) = Some (resident q')
     \<and> (\<forall>i cause. i < k_egress_bands \<longrightarrow> drop_counts q' i cause = drop_counts q i cause)
     \<and> settled ops q' (fold (\<lambda>(_, f). co_send ops f) (egress_handed ops q ch) ch)"
proof (induction ops q ch rule: egress_drain.induct)
  case (1 ops q ch)
  have all: "list_all band_ok q" "length q = k_egress_bands" using 1(2) by (simp_all add: queue_ok_def)
  show ?case
  proof (cases "has_work q")
    case False
    then show ?thesis using 1(2) by (simp add: egress_drain.simps [of ops q] egress_handed.simps [of ops q] settled_def)
  next
    case True
    let ?h = "highest_band q" and ?node = "hd (band_frames (q ! highest_band q))"
    note front = front_highest_eq [OF all(1) True] and hi = highest_band_work [OF True]
    obtain b where b: "pop_highest q = Some (q[?h := b])" "band_ok b" "band_frames b = tl (band_frames (q ! ?h))" "same_counters (q ! ?h) b"
      using pop_highest_eq [OF all(1) True] by blast
    show ?thesis
    proof (cases "egress_admits ops ch (length ?node)")
      case False
      then show ?thesis using True front b(1) hi 1(2)
        by (simp add: egress_drain.simps [of ops q] egress_handed.simps [of ops q] settled_def resident_def)
    next
      case admit: True
      have ok: "queue_ok (q[?h := b])" using all b(2) by (auto simp: queue_ok_def list_all_iff dest!: set_update_subset_insert [THEN subsetD])
      have handed: "egress_handed ops q ch = (?h, ?node) # egress_handed ops (q[?h := b]) (co_send ops ?node ch)"
        using True front b(1) admit by (simp add: egress_handed.simps [of ops q])
      have drain: "egress_drain ops q ch = egress_drain ops (q[?h := b]) (co_send ops ?node ch)"
        using True front b(1) admit by (simp add: egress_drain.simps [of ops q])
      have "ideal_step (Handed ?h ?node) (resident q) = Some (resident (q[?h := b]))"
        using hi b(3) by (simp add: resident_update) (auto simp: resident_def)
      moreover have "drop_counts (q[?h := b]) i cause = drop_counts q i cause" for i cause
        using b(4) hi by (cases "i = ?h") (auto simp: drop_counts_def split: drop_cause.splits)
      ultimately show ?thesis
        using 1(1) [OF True front refl _ b(1) ok] admit unfolding handed drain by auto
    qed
  qed
qed

section \<open>The contract of a polled channel\<close>

fun handed_frames :: "egress_event list \<Rightarrow> bytes list" where
  "handed_frames [] = []"
| "handed_frames (Handed _ f # es) = f # handed_frames es"
| "handed_frames (Offered _ _ _ _ # es) = handed_frames es"

lemma handed_frames_append [simp]: "handed_frames (es @ fs) = handed_frames es @ handed_frames fs"
  by (induction es rule: handed_frames.induct) simp_all

lemma handed_frames_map [simp]: "handed_frames (map (\<lambda>(i, f). Handed i f) hs) = map snd hs"
  by (induction hs) auto

fun refused_count :: "nat \<Rightarrow> drop_cause \<Rightarrow> egress_event list \<Rightarrow> nat" where
  "refused_count i cause [] = 0"
| "refused_count i cause (Offered j _ _ cause' # es) = of_bool (j = i \<and> cause' = cause) + refused_count i cause es"
| "refused_count i cause (Handed _ _ # es) = refused_count i cause es"

lemma refused_count_append [simp]: "refused_count i cause (es @ fs) = refused_count i cause es + refused_count i cause fs"
  by (induction i cause es rule: refused_count.induct) simp_all

lemma refused_count_map [simp]: "refused_count i cause (map (\<lambda>(i, f). Handed i f) hs) = 0"
  by (induction hs) auto

text \<open>
  The runs of the scheduler seen from one destination, with their histories: publications to it, the
  channel's own progress, and whatever the scheduler does for other destinations.
\<close>

inductive egress_run :: "'c channel_ops \<Rightarrow> ('c \<Rightarrow> 'c \<Rightarrow> bool) \<Rightarrow> 'c \<Rightarrow> egress_event list \<Rightarrow> egress_scheduler \<Rightarrow> 'c \<Rightarrow> bool"
  for ops progress c0 where
  egress_run_init: "egress_run ops progress c0 [] Map.empty c0"
| egress_run_publish: "egress_run ops progress c0 tr m c \<Longrightarrow> i < k_egress_bands \<Longrightarrow> f \<noteq> [] \<Longrightarrow>
    enqueue_with_verdict i cong f (queue_at (co_key ops c) m) = Some (q, cause) \<Longrightarrow>
    egress_enqueue ops c i cong f m = Some (m', c', cause) \<Longrightarrow>
    egress_run ops progress c0 (tr @ Offered i cong f cause # map (\<lambda>(i, f). Handed i f) (egress_handed ops q c)) m' c'"
| egress_run_progress: "egress_run ops progress c0 tr m c \<Longrightarrow> progress c c' \<Longrightarrow> egress_run ops progress c0 tr m c'"
| egress_run_elsewhere: "egress_run ops progress c0 tr m c \<Longrightarrow> m' (co_key ops c) = m (co_key ops c) \<Longrightarrow>
    egress_run ops progress c0 tr m' c"

lemma in_set_tl: "x \<in> set (tl xs) \<Longrightarrow> x \<in> set xs"
  by (cases xs) auto

lemma ideal_step_frames: "ideal_step e xs = Some ys \<Longrightarrow> (case e of Offered _ _ f _ \<Rightarrow> f \<noteq> [] | _ \<Rightarrow> True) \<Longrightarrow> (\<And>i. [] \<notin> set (xs i)) \<Longrightarrow> [] \<notin> set (ys i)"
  by (cases e) (auto simp: band_offer_def split: if_splits congestion.splits prod.splits, (metis in_set_tl)+)

lemma ideal_handed_frames:
  "ideal_run (map (\<lambda>(i, f). Handed i f) hs) xs = Some ys \<Longrightarrow> (\<And>i. [] \<notin> set (xs i)) \<Longrightarrow> [] \<notin> set (ys i)"
proof (induction hs arbitrary: xs)
  case (Cons h hs)
  obtain zs where "ideal_step (Handed (fst h) (snd h)) xs = Some zs" "ideal_run (map (\<lambda>(i, f). Handed i f) hs) zs = Some ys"
    using Cons.prems(1) by (cases h) (auto simp: bind_eq_Some_conv simp del: ideal_step.simps)
  with Cons.IH [of zs] ideal_step_frames [of _ xs zs] Cons.prems(2) show ?case by fastforce
qed simp

lemma enqueue_with_verdict_eq:
  assumes "queue_ok q" and "i < k_egress_bands"
  shows "\<exists>q' cause. enqueue_with_verdict i cong f q = Some (q', cause) \<and> queue_ok q'
     \<and> ideal_step (Offered i cong f cause) (resident q) = Some (resident q')
     \<and> (\<forall>j c. j < k_egress_bands \<longrightarrow> counted_cause c \<longrightarrow> drop_counts q' j c = drop_counts q j c + of_bool (i = j \<and> cause = c))"
proof -
  have i: "i < length q" "band_ok (q ! i)" using assms by (auto simp: queue_ok_def list_all_length)
  from push_with_verdict_eq [OF i(2), of cong f] obtain b cause where b: "push_with_verdict cong f (q ! i) = Some (b, cause)" "band_ok b"
      "(band_frames b, cause) = band_offer cong f (band_frames (q ! i))"
      "bd_dropped_oldest b = bd_dropped_oldest (q ! i) + of_bool (cause = dc_drop_oldest)"
      "bd_dropped_newest b = bd_dropped_newest (q ! i) + of_bool (cause = dc_drop_newest)"
      "bd_blocked b = bd_blocked (q ! i) + of_bool (cause = dc_blocked)" by blast
  have "queue_ok (q[i := b])" using assms(1) b(2) by (auto simp: queue_ok_def list_all_iff dest!: set_update_subset_insert [THEN subsetD])
  moreover have "ideal_step (Offered i cong f cause) (resident q) = Some (resident (q[i := b]))"
    using i(1) b(3) [symmetric] by (simp add: resident_update) (simp add: resident_def)
  moreover have "drop_counts (q[i := b]) j c = drop_counts q j c + of_bool (i = j \<and> cause = c)" if "counted_cause c" for j c
    using that b(4-6) i(1) by (cases "i = j") (auto simp: drop_counts_def)
  ultimately show ?thesis using i(1) b(1) by (auto simp: enqueue_with_verdict_def)
qed

text \<open>
  What the scheduler relies on: a frame the occupancy poll admits is taken by the channel, behind all
  frames it took before, and the channel keeps its key.
\<close>

locale polled_channel =
  fixes ops :: "'c channel_ops"
    and inv :: "'c \<Rightarrow> bool"
    and accepted :: "'c \<Rightarrow> bytes list"
    and progress :: "'c \<Rightarrow> 'c \<Rightarrow> bool"
  assumes polls: "co_can_poll ops"
    and send_key: "co_key ops (co_send ops f c) = co_key ops c"
    and send_takes: "inv c \<Longrightarrow> f \<noteq> [] \<Longrightarrow> egress_admits ops c (length f) \<Longrightarrow> inv (co_send ops f c) \<and> accepted (co_send ops f c) = accepted c @ [f]"
    and progress_keeps: "inv c \<Longrightarrow> progress c c' \<Longrightarrow> inv c' \<and> co_key ops c' = co_key ops c \<and> accepted c' = accepted c"
begin

lemma handed_taken:
  "queue_ok q \<Longrightarrow> inv c \<Longrightarrow> (\<And>i. i < length q \<Longrightarrow> [] \<notin> set (band_frames (q ! i))) \<Longrightarrow>
   let c' = fold (\<lambda>(_, f). co_send ops f) (egress_handed ops q c) c in
   inv c' \<and> co_key ops c' = co_key ops c \<and> accepted c' = accepted c @ map snd (egress_handed ops q c)"
proof (induction "backlog q" arbitrary: q c rule: less_induct)
  case (less q c)
  note 1 = less
  have all: "list_all band_ok q" "length q = k_egress_bands" using 1(2) by (simp_all add: queue_ok_def)
  show ?case
  proof (cases "has_work q \<and> egress_admits ops c (length (hd (band_frames (q ! highest_band q))))")
    case False
    then show ?thesis using 1(3) front_highest_eq [OF all(1)] pop_highest_eq [OF all(1)]
      by (auto simp: egress_handed.simps [of ops q] split: option.splits)
  next
    case True
    let ?h = "highest_band q" and ?node = "hd (band_frames (q ! highest_band q))"
    note front = front_highest_eq [OF all(1)] and hi = highest_band_work [of q]
    obtain b where b: "pop_highest q = Some (q[?h := b])" "band_ok b" "band_frames b = tl (band_frames (q ! ?h))"
      using pop_highest_eq [OF all(1)] True by blast
    have ok: "queue_ok (q[?h := b])" using all b(2) by (auto simp: queue_ok_def list_all_iff dest!: set_update_subset_insert [THEN subsetD])
    have ne: "?node \<noteq> []" using 1(4) [of ?h] hi True by (metis band_frames_Nil list.set_sel(1))
    have sent: "inv (co_send ops ?node c)" "accepted (co_send ops ?node c) = accepted c @ [?node]"
      using send_takes [OF 1(3) ne] True by simp_all
    have frames: "[] \<notin> set (band_frames (q[?h := b] ! i))" if "i < length (q[?h := b])" for i
      using 1(4) [of i] that b(3) hi True by (cases "i = ?h") (auto dest: in_set_tl)
    have "egress_handed ops q c = (?h, ?node) # egress_handed ops (q[?h := b]) (co_send ops ?node c)"
      using True front b(1) by (simp add: egress_handed.simps [of ops q])
    moreover have "backlog (q[?h := b]) < backlog q" using pop_highest_backlog [OF b(1)] True by simp
    ultimately show ?thesis using 1(1) [OF _ ok sent(1) frames] sent(2) by (simp add: Let_def send_key)
  qed
qed

text \<open>What holds of a destination after any history.\<close>

definition exact :: "'c \<Rightarrow> egress_event list \<Rightarrow> egress_scheduler \<Rightarrow> 'c \<Rightarrow> bool" where
  "exact c0 tr m c \<longleftrightarrow> inv c \<and> co_key ops c = co_key ops c0 \<and> queue_ok (queue_at (co_key ops c0) m)
     \<and> ideal_run tr (\<lambda>_. []) = Some (resident (queue_at (co_key ops c0) m))
     \<and> accepted c = accepted c0 @ handed_frames tr
     \<and> (\<forall>i cause. i < k_egress_bands \<longrightarrow> counted_cause cause \<longrightarrow> drop_counts (queue_at (co_key ops c0) m) i cause = refused_count i cause tr)
     \<and> (\<forall>i. [] \<notin> set (resident (queue_at (co_key ops c0) m) i))"

lemma publish_exact:
  assumes ex: "exact c0 tr m c" and i: "i < k_egress_bands" and f: "f \<noteq> []"
  obtains q cause q' c' where "enqueue_with_verdict i cong f (queue_at (co_key ops c) m) = Some (q, cause)"
    "egress_enqueue ops c i cong f m = Some (m(co_key ops c \<mapsto> q'), c', cause)" "settled ops q' c'"
    "exact c0 (tr @ Offered i cong f cause # map (\<lambda>(i, f). Handed i f) (egress_handed ops q c)) (m(co_key ops c \<mapsto> q')) c'"
proof -
  define k where "k = co_key ops c0"
  have k: "co_key ops c = k" using ex by (simp add: exact_def k_def)
  define q0 where "q0 = queue_at k m"
  have e0: "inv c" "queue_ok q0" "ideal_run tr (\<lambda>_. []) = Some (resident q0)" "accepted c = accepted c0 @ handed_frames tr"
    "\<And>i cause. i < k_egress_bands \<Longrightarrow> counted_cause cause \<Longrightarrow> drop_counts q0 i cause = refused_count i cause tr"
    "\<And>i. [] \<notin> set (resident q0 i)"
    using ex by (auto simp: exact_def k_def q0_def)
  obtain q cause where q: "enqueue_with_verdict i cong f q0 = Some (q, cause)" "queue_ok q"
    "ideal_step (Offered i cong f cause) (resident q0) = Some (resident q)"
    "\<And>j c. j < k_egress_bands \<Longrightarrow> counted_cause c \<Longrightarrow> drop_counts q j c = drop_counts q0 j c + of_bool (i = j \<and> cause = c)"
    using enqueue_with_verdict_eq [OF e0(2) i, of cong f] by blast
  define c' where "c' = fold (\<lambda>(_, f). co_send ops f) (egress_handed ops q c) c"
  obtain q' where q': "egress_drain ops q c = Some (q', c')" "queue_ok q'"
    "ideal_run (map (\<lambda>(i, f). Handed i f) (egress_handed ops q c)) (resident q) = Some (resident q')"
    "\<And>i cause. i < k_egress_bands \<Longrightarrow> drop_counts q' i cause = drop_counts q i cause" "settled ops q' c'"
    using egress_drain_eq [OF q(2), of ops c] by (auto simp: c'_def)
  have fr: "[] \<notin> set (resident q j)" for j using ideal_step_frames [OF q(3), of j] f e0(6) by simp
  have c': "inv c'" "co_key ops c' = co_key ops c" "accepted c' = accepted c @ map snd (egress_handed ops q c)"
    using handed_taken [OF q(2) e0(1)] fr by (auto simp: c'_def Let_def resident_def split: if_splits)
  have "exact c0 (tr @ Offered i cong f cause # map (\<lambda>(i, f). Handed i f) (egress_handed ops q c)) (m(k \<mapsto> q')) c'"
    unfolding exact_def k_def [symmetric]
    using c' k q' q(3,4) e0 ideal_handed_frames [OF q'(3)] fr
    by (auto simp: queue_at_def ideal_run_append)
  moreover have "egress_enqueue ops c i cong f m = Some (m(k \<mapsto> q'), c', cause)"
    using q(1) q'(1) polls k by (simp add: egress_enqueue_def q0_def)
  ultimately show thesis using that q(1) q'(5) k by (simp add: q0_def)
qed

lemma run_exact: "egress_run ops progress c0 tr m c \<Longrightarrow> inv c0 \<Longrightarrow> exact c0 tr m c"
proof (induction rule: egress_run.induct)
  case egress_run_init
  have "drop_counts priority_band_queue_init i cause = 0" if "i < k_egress_bands" "counted_cause cause" for i cause
    using that by (auto simp: drop_counts_def priority_band_queue_init_def band_init_def)
  with egress_run_init show ?case by (simp add: exact_def queue_at_def)
next
  case (egress_run_publish tr m c i f cong q cause m' c')
  from publish_exact [OF egress_run_publish.IH [OF egress_run_publish.prems] egress_run_publish(2,3), of cong]
  show ?case using egress_run_publish(4,5) by (metis Pair_inject option.inject)
next
  case (egress_run_progress tr m c c')
  then show ?case using progress_keeps by (auto simp: exact_def)
next
  case (egress_run_elsewhere tr m c m')
  then have "co_key ops c = co_key ops c0" by (simp add: exact_def)
  with egress_run_elsewhere show ?case by (simp add: exact_def queue_at_def)
qed

end

end
