(* ===== verification/Stream_Channel.thy ===== *)
theory Stream_Channel
  imports Egress Crc_Serial Stream_Inbound
begin

text \<open>
  The asio stream channel (\<open>stream_channel.h\<close>, \<open>stream_channel_io.h\<close>) with the plaintext and the serial
  bootstrap; the serial channel's own read loop is in \<open>Serial_Channel\<close>. Sends go to the gathering
  queue, reads to the framing layer, a framing violation closes the channel without an error, a failed
  read or write raises one error, and the close edge is posted once. The socket's completions are operations; \<open>sc_reads\<close> and \<open>sc_writes\<close> split the outstanding count
  by kind. The mapping of asio's error codes is left to the operations that carry the mapped error.
\<close>

section \<open>The channel\<close>

datatype bootstrap = plaintext_bootstrap | serial_bootstrap

record stream_channel =
  sc_bootstrap :: bootstrap
  sc_inbound :: stream_inbound
  sc_congestion :: congestion
  sc_scheduler_key :: u64
  sc_dropped :: nat
  sc_egress :: stream_send_queue
  sc_reads :: nat
  sc_writes :: nat
  sc_alive :: bool
  sc_closed_fired :: bool
  sc_open :: bool
  sc_reading :: bool
  sc_socket_open :: bool

datatype stream_event =
  Sc_write "bytes list" | Sc_post_data bytes | Sc_post_closed | Sc_error io_error | Sc_protocol_close close_cause

definition stream_channel_init :: "bootstrap \<Rightarrow> stream_inbound_config \<Rightarrow> congestion \<Rightarrow> nat \<Rightarrow> u64 \<Rightarrow> stream_channel" where
  "stream_channel_init bs cfg cong egress key =
     \<lparr>sc_bootstrap = bs, sc_inbound = stream_inbound_init cfg, sc_congestion = cong, sc_scheduler_key = key, sc_dropped = 0,
      sc_egress = stream_send_queue_init egress default_gather_limit, sc_reads = 0, sc_writes = 0, sc_alive = True,
      sc_closed_fired = False, sc_open = False, sc_reading = False, sc_socket_open = True\<rparr>"

definition stream_on_write_queue_full :: "stream_channel \<Rightarrow> stream_channel \<times> stream_event list" where
  "stream_on_write_queue_full c =
     (if sc_congestion c = drop_newest then (c\<lparr>sc_dropped := sc_dropped c + 1\<rparr>, []) else (c, [Sc_error would_block]))"

text \<open>A gather handed to the sink is one asynchronous write.\<close>

definition issue_write :: "bytes list \<Rightarrow> stream_channel \<Rightarrow> stream_channel \<times> stream_event list" where
  "issue_write w c = (if w = [] then (c, []) else (c\<lparr>sc_writes := sc_writes c + 1\<rparr>, [Sc_write w]))"

definition take_submission ::
  "stream_send_queue \<times> bool \<times> bytes list \<Rightarrow> stream_channel \<Rightarrow> stream_channel \<times> stream_event list" where
  "take_submission r c = (case r of (q, ok, w) \<Rightarrow>
     let (c, out) = issue_write w (c\<lparr>sc_egress := q\<rparr>) in
     if ok then (c, out) else let (c, out') = stream_on_write_queue_full c in (c, out @ out'))"

definition enqueue_egress :: "bytes \<Rightarrow> stream_channel \<Rightarrow> stream_channel \<times> stream_event list" where
  "enqueue_egress data c = take_submission (sq_enqueue data (sc_egress c)) c"

definition enqueue_egress_pair :: "bytes \<Rightarrow> bytes \<Rightarrow> stream_channel \<Rightarrow> stream_channel \<times> stream_event list" where
  "enqueue_egress_pair first second c = take_submission (sq_enqueue_both first second (sc_egress c)) c"

text \<open>The trailer's header span must lie inside the frame; \<open>None\<close> is the undefined case.\<close>

definition make_trailer :: "bytes \<Rightarrow> bytes option" where
  "make_trailer framed =
     (if length framed < header_size then None else Some (crc_trailer (take header_size framed) (drop header_size framed)))"

definition bootstrap_submit :: "bytes \<Rightarrow> stream_channel \<Rightarrow> (stream_channel \<times> stream_event list) option" where
  "bootstrap_submit data c =
     (case sc_bootstrap c of
        plaintext_bootstrap \<Rightarrow> Some (enqueue_egress data c)
      | serial_bootstrap \<Rightarrow> do { trailer \<leftarrow> make_trailer data; Some (enqueue_egress_pair data trailer c) })"

definition stream_send :: "bytes \<Rightarrow> stream_channel \<Rightarrow> (stream_channel \<times> stream_event list) option" where
  "stream_send data c = (if \<not> sc_open c then Some (c, []) else bootstrap_submit data c)"

definition shutdown_socket :: "stream_channel \<Rightarrow> stream_channel" where
  "shutdown_socket c =
     (if \<not> sc_socket_open c then c else c\<lparr>sc_socket_open := False, sc_open := False, sc_reading := False\<rparr>)"

definition post_on_closed :: "stream_channel \<Rightarrow> stream_channel \<times> stream_event list" where
  "post_on_closed c = (if sc_closed_fired c then (c, []) else (c\<lparr>sc_closed_fired := True\<rparr>, [Sc_post_closed]))"

definition stream_close :: "stream_channel \<Rightarrow> stream_channel \<times> stream_event list" where
  "stream_close c =
     (if \<not> sc_socket_open c then (c, [])
      else let c = c\<lparr>sc_inbound := inbound_shutdown (sc_inbound c)\<rparr>;
               (q, residual) = sq_close_and_drain (sc_egress c);
               c = c\<lparr>sc_dropped := sc_dropped c + residual, sc_egress := q\<rparr>
           in post_on_closed (shutdown_socket c))"

definition stream_fail :: "io_error \<Rightarrow> stream_channel \<Rightarrow> stream_channel \<times> stream_event list" where
  "stream_fail ec c =
     (if ec = operation_aborted \<or> \<not> sc_open c then (c, [])
      else let c = c\<lparr>sc_open := False, sc_egress := sq_close (sc_egress c), sc_inbound := inbound_shutdown (sc_inbound c)\<rparr>;
               (c, out) = post_on_closed (shutdown_socket c)
           in (c, Sc_error ec # out))"

definition stream_handle_protocol_close :: "close_cause \<Rightarrow> stream_channel \<Rightarrow> stream_channel \<times> stream_event list" where
  "stream_handle_protocol_close cause c = (let (c, out) = stream_close c in (c, Sc_protocol_close cause # out))"

fun inbound_callback :: "inbound_event \<Rightarrow> stream_channel \<Rightarrow> stream_channel \<times> stream_event list" where
  "inbound_callback (On_frame frame) c = (c, [Sc_post_data (cf_payload frame)])"
| "inbound_callback (On_protocol_close cause) c = stream_handle_protocol_close cause c"

fun inbound_callbacks :: "inbound_event list \<Rightarrow> stream_channel \<Rightarrow> stream_channel \<times> stream_event list" where
  "inbound_callbacks [] c = (c, [])"
| "inbound_callbacks (ev # evs) c =
     (let (c, out) = inbound_callback ev c; (c, out') = inbound_callbacks evs c in (c, out @ out'))"

definition stream_do_read :: "stream_channel \<Rightarrow> stream_channel" where
  "stream_do_read c = c\<lparr>sc_reads := sc_reads c + 1\<rparr>"

definition start_read_loop :: "stream_channel \<Rightarrow> stream_channel" where
  "start_read_loop c = (if sc_reading c then c else stream_do_read (c\<lparr>sc_reading := True\<rparr>))"

definition start_read :: "stream_channel \<Rightarrow> stream_channel" where
  "start_read c = start_read_loop (c\<lparr>sc_open := True\<rparr>)"

definition arm_on_accept :: "stream_channel \<Rightarrow> stream_channel" where
  "arm_on_accept c =
     (case sc_bootstrap c of
        plaintext_bootstrap \<Rightarrow> start_read_loop (c\<lparr>sc_open := True\<rparr>)
      | serial_bootstrap \<Rightarrow> c\<lparr>sc_open := True\<rparr>)"

text \<open>The handler of a read that completed with bytes or with an error.\<close>

definition read_completion :: "bytes + io_error \<Rightarrow> stream_channel \<Rightarrow> (stream_channel \<times> stream_event list) option" where
  "read_completion r c =
     (if sc_reads c = 0 then Some (c, [])
      else let c = c\<lparr>sc_reads := sc_reads c - 1\<rparr> in
        if \<not> sc_alive c then Some (c, [])
        else case r of
          Inr ec \<Rightarrow> Some (stream_fail ec c)
        | Inl data \<Rightarrow> do {
            (s, evs) \<leftarrow> inbound_feed (sc_inbound c) data;
            let (c, out) = inbound_callbacks evs (c\<lparr>sc_inbound := s\<rparr>) in
            Some (if sc_open c then stream_do_read c else c, out)
          })"

definition write_completion :: "io_error option \<Rightarrow> stream_channel \<Rightarrow> (stream_channel \<times> stream_event list) option" where
  "write_completion ec c =
     (if sc_writes c = 0 then Some (c, [])
      else let c = c\<lparr>sc_writes := sc_writes c - 1\<rparr> in
        if \<not> sc_alive c then Some (c, [])
        else let (c, out) = (case ec of None \<Rightarrow> (c, []) | Some e \<Rightarrow> stream_fail e c) in do {
          (q, w) \<leftarrow> sq_completion (sc_egress c);
          let (c, out') = issue_write w (c\<lparr>sc_egress := q\<rparr>) in
          Some (c, out @ out')
        })"

definition no_progress_completion :: "u64 \<Rightarrow> bool \<Rightarrow> stream_channel \<Rightarrow> stream_channel \<times> stream_event list" where
  "no_progress_completion gen ec c = inbound_callbacks (timer_completion gen ec (sc_inbound c)) c"

definition stream_destroy :: "stream_channel \<Rightarrow> stream_channel" where
  "stream_destroy c = shutdown_socket (c\<lparr>sc_alive := False, sc_inbound := inbound_shutdown (sc_inbound c)\<rparr>)"

section \<open>Any input\<close>

text \<open>A caller sends whole frames; a shorter byte string is not a call the program makes.\<close>

datatype stream_op =
  Stream_send bytes | Stream_read "bytes + io_error" | Stream_written "io_error option" | Stream_timer u64 bool | Stream_close | Stream_destroy

fun stream_step :: "stream_channel \<Rightarrow> stream_op \<Rightarrow> (stream_channel \<times> stream_event list) option" where
  "stream_step c (Stream_send data) = (if length data < header_size then Some (c, []) else stream_send data c)"
| "stream_step c (Stream_read r) = read_completion r c"
| "stream_step c (Stream_written ec) = write_completion ec c"
| "stream_step c (Stream_timer gen ec) = Some (no_progress_completion gen ec c)"
| "stream_step c Stream_close = Some (stream_close c)"
| "stream_step c Stream_destroy = Some (stream_destroy c, [])"

definition inbound_ok :: "stream_inbound \<Rightarrow> bool" where
  "inbound_ok s \<longleftrightarrow> fr_settled (si_reassembler s) \<and> throughput_ok (si_cfg s)
     \<and> fr_max_payload_size (si_reassembler s) = si_max_payload_size (si_cfg s)"

lemma inbound_feed_ok:
  assumes "inbound_ok s"
  shows "\<exists>s' evs. inbound_feed s data = Some (s', evs) \<and> inbound_ok s'"
proof -
  let ?r = "si_reassembler s"
  obtain r frames e where f: "feed ?r data = Some (r, frames, e)" "fr_settled r" "fr_max_payload_size r = fr_max_payload_size ?r"
    using feed_settled [of ?r data] assms by (auto simp: inbound_ok_def)
  have ok: "inbound_ok (s\<lparr>si_reassembler := r\<rparr>)" using f assms by (simp add: inbound_ok_def)
  then have "deadline_for_current_frame (s\<lparr>si_reassembler := r\<rparr>) = Some (frame_deadline (s\<lparr>si_reassembler := r\<rparr>))"
    by (intro deadline_for_current_frame_eq) (simp_all add: inbound_ok_def)
  with f(1) ok show ?thesis
    by (auto simp: inbound_feed_def reframe_timer_def Let_def inbound_ok_def cancel_timer_def arm_deadline_def)
qed

lemma inbound_ok_shutdown [simp]: "inbound_ok (inbound_shutdown s) = inbound_ok s"
  by (simp add: inbound_ok_def inbound_shutdown_def cancel_timer_def)

text \<open>
  The write queue is sound while it is open, one write is outstanding exactly while it sends, and
  behind the close edge the channel, its queue and its socket are shut.
\<close>

definition stream_ok :: "stream_channel \<Rightarrow> bool" where
  "stream_ok c \<longleftrightarrow> inbound_ok (sc_inbound c)
     \<and> (sq_open (sc_egress c) \<longrightarrow> sq_inv (sc_egress c) \<and> (sc_alive c \<longrightarrow> sc_writes c = of_bool (sq_sending (sc_egress c))))
     \<and> (sc_open c \<longrightarrow> sc_socket_open c) \<and> (sc_socket_open c \<longrightarrow> sq_open (sc_egress c) \<and> sc_alive c)
     \<and> (sc_closed_fired c \<longrightarrow> \<not> sc_socket_open c \<and> \<not> sq_open (sc_egress c))"

definition stream_quiet :: "stream_event \<Rightarrow> bool" where
  "stream_quiet ev \<longleftrightarrow> (case ev of Sc_post_data _ \<Rightarrow> True | Sc_protocol_close _ \<Rightarrow> True | _ \<Rightarrow> False)"

text \<open>
  A reader of the outputs that tracks the close edge: it refuses a second edge, and anything but
  inbound events behind the first.
\<close>

fun close_edge :: "bool \<Rightarrow> stream_event list \<Rightarrow> bool option" where
  "close_edge fired [] = Some fired"
| "close_edge fired (ev # evs) =
     (if ev = Sc_post_closed then if fired then None else close_edge True evs
      else if fired \<and> \<not> stream_quiet ev then None else close_edge fired evs)"

abbreviation stream_out :: "stream_channel \<Rightarrow> stream_channel \<Rightarrow> stream_event list \<Rightarrow> bool" where
  "stream_out c c' out \<equiv> close_edge (sc_closed_fired c) out = Some (sc_closed_fired c')"

lemma close_edge_append: "close_edge fired (o1 @ o2) = Option.bind (close_edge fired o1) (\<lambda>fired. close_edge fired o2)"
  by (induction fired o1 rule: close_edge.induct) auto

lemma stream_out_trans: "stream_out c c1 o1 \<Longrightarrow> stream_out c1 c2 o2 \<Longrightarrow> stream_out c c2 (o1 @ o2)"
  by (simp add: close_edge_append)

lemma stream_quiet_simps [simp]:
  "stream_quiet (Sc_post_data d)" "stream_quiet (Sc_protocol_close cc)" "\<not> stream_quiet (Sc_write w)" "\<not> stream_quiet (Sc_error e)"
  by (simp_all add: stream_quiet_def)

lemma stream_close_ok: "stream_ok c \<Longrightarrow> stream_close c = (c', out) \<Longrightarrow> stream_ok c' \<and> stream_out c c' out \<and> \<not> sc_socket_open c'"
  by (auto simp: stream_close_def stream_ok_def sq_close_and_drain_def sq_close_def shutdown_socket_def post_on_closed_def Let_def
      split: if_splits)

lemma stream_fail_ok: "stream_ok c \<Longrightarrow> stream_fail ec c = (c', out) \<Longrightarrow> stream_ok c' \<and> stream_out c c' out"
  by (auto simp: stream_fail_def stream_ok_def sq_close_def shutdown_socket_def post_on_closed_def Let_def
      split: if_splits)

lemma inbound_callbacks_ok: "stream_ok c \<Longrightarrow> inbound_callbacks evs c = (c', out) \<Longrightarrow> stream_ok c' \<and> stream_out c c' out"
proof (induction evs arbitrary: c out)
  case (Cons ev evs)
  obtain c1 o1 o2 where c1: "inbound_callback ev c = (c1, o1)" "inbound_callbacks evs c1 = (c', o2)" "out = o1 @ o2"
    using Cons.prems(2) by (auto simp: Let_def split: prod.splits)
  have "stream_ok c1 \<and> stream_out c c1 o1"
  proof (cases ev)
    case (On_frame f)
    then show ?thesis using c1(1) Cons.prems(1) by auto
  next
    case (On_protocol_close cause)
    then obtain o' where o': "stream_close c = (c1, o')" "o1 = Sc_protocol_close cause # o'"
      using c1(1) by (auto simp: stream_handle_protocol_close_def split: prod.splits)
    with stream_close_ok [OF Cons.prems(1) o'(1)] show ?thesis by simp
  qed
  with Cons.IH [OF _ c1(2)] c1(3) stream_out_trans show ?case by blast
qed simp

lemma issue_write_fields [simp]:
  "sc_closed_fired (fst (issue_write w c)) = sc_closed_fired c" "sc_egress (fst (issue_write w c)) = sc_egress c"
  "sc_writes (fst (issue_write w c)) = sc_writes c + of_bool (w \<noteq> [])" "sc_open (fst (issue_write w c)) = sc_open c"
  "sc_inbound (fst (issue_write w c)) = sc_inbound c" "sc_socket_open (fst (issue_write w c)) = sc_socket_open c"
  "sc_alive (fst (issue_write w c)) = sc_alive c" "close_edge False (snd (issue_write w c)) = Some False"
  by (simp_all add: issue_write_def)

lemma take_submission_ok:
  assumes ok: "stream_ok c" and op: "sc_open c" and push: "sq_push p (sc_egress c) = r" and t: "take_submission r c = (c', out)"
  shows "stream_ok c' \<and> stream_out c c' out"
proof -
  obtain q b w where r: "r = (q, b, w)" by (cases r)
  have st: "sc_socket_open c" "sc_alive c" "\<not> sc_closed_fired c" "sq_open (sc_egress c)" "sq_inv (sc_egress c)"
    "sc_writes c = of_bool (sq_sending (sc_egress c))" "inbound_ok (sc_inbound c)"
    using ok op by (auto simp: stream_ok_def)
  note law = sq_push_law [OF st(5) push [unfolded r]]
  have send: "of_bool (sq_sending q) = of_bool (sq_sending (sc_egress c)) + (of_bool (w \<noteq> []) :: nat)"
  proof -
    have ne: "sq_started x \<noteq> [] \<longleftrightarrow> sq_sending x" if "sq_inv x" for x
      using that by (auto simp: sq_inv_def sq_started_def)
    have w: "sq_sending (sc_egress c) \<Longrightarrow> w = []"
      using push r by (cases p) (auto simp: sq_enqueue_def sq_enqueue_both_def sq_admit_def sq_drive_if_idle_def sq_stash_def split: if_splits)
    show ?thesis using law ne [of q] ne [OF st(5)] w by auto
  qed
  obtain c1 o1 where i: "issue_write w (c\<lparr>sc_egress := q\<rparr>) = (c1, o1)" by fastforce
  note f = issue_write_fields [of w "c\<lparr>sc_egress := q\<rparr>", unfolded i fst_conv snd_conv]
  have "sq_inv q" "sq_open q" using law by (auto simp: sq_inv_def)
  then have ok1: "stream_ok c1" using st(1-3,6,7) send f by (simp add: stream_ok_def)
  have o1: "close_edge False o1 = Some False" "\<not> sc_closed_fired c1" using f(1,8) st(3) by simp_all
  have full: "stream_ok (fst (stream_on_write_queue_full c1))" "sc_closed_fired (fst (stream_on_write_queue_full c1)) = False"
      "close_edge False (snd (stream_on_write_queue_full c1)) = Some False"
    using ok1 o1(2) by (auto simp: stream_on_write_queue_full_def stream_ok_def)
  show ?thesis
    using t ok1 o1 full st(3) unfolding r take_submission_def
    by (auto simp: i Let_def split_beta close_edge_append split: if_splits)
qed

lemma write_completion_eq:
  assumes "sc_writes c \<noteq> 0" and "sc_alive c" and "c0 = c\<lparr>sc_writes := sc_writes c - 1\<rparr>"
    and "(case ec of None \<Rightarrow> (c0, []) | Some e \<Rightarrow> stream_fail e c0) = (c1, o1)"
  shows "write_completion ec c = do { (q, w) \<leftarrow> sq_completion (sc_egress c1);
      let (c, out') = issue_write w (c1\<lparr>sc_egress := q\<rparr>) in Some (c, o1 @ out') }"
proof -
  have "sc_alive c0" using assms(2,3) by simp
  with assms(1,4) show ?thesis
    unfolding write_completion_def assms(3) [symmetric] by (simp add: assms(3) [symmetric] del: One_nat_def)
qed

lemma write_completion_ok:
  assumes "stream_ok c"
  shows "safely (\<lambda>(c', out). stream_ok c' \<and> stream_out c c' out) (write_completion ec c)"
proof (cases "sc_writes c = 0 \<or> \<not> sc_alive c")
  case True
  then show ?thesis using assms by (auto simp: write_completion_def stream_ok_def)
next
  case False
  define c0 where "c0 = c\<lparr>sc_writes := sc_writes c - 1\<rparr>"
  obtain c1 o1 where c1: "(case ec of None \<Rightarrow> (c0, []) | Some e \<Rightarrow> stream_fail e c0) = (c1, o1)" by fastforce
  note wc = write_completion_eq [OF _ _ c0_def c1]
  show ?thesis
  proof (cases "sq_open (sc_egress c1)")
    case closed: False
    have "stream_ok c1 \<and> stream_out c c1 o1"
      using c1 assms False closed
      by (cases ec) (auto simp: c0_def stream_fail_def stream_ok_def sq_close_def shutdown_socket_def post_on_closed_def Let_def split: if_splits)
    moreover have "sq_completion (sc_egress c1) = Some (sc_egress c1, [])" using closed by (simp add: sq_completion_def)
    ultimately show ?thesis using wc False by (simp add: issue_write_def)
  next
    case True
    then have same: "c1 = c0" "o1 = []"
      using c1 by (cases ec; auto simp: stream_fail_def sq_close_def shutdown_socket_def post_on_closed_def Let_def split: if_splits)+
    have q: "sq_inv (sc_egress c)" "sq_sending (sc_egress c)" "sc_writes c = 1" "\<not> sc_closed_fired c" "sc_egress c1 = sc_egress c"
      using assms False True same by (auto simp: stream_ok_def c0_def)
    obtain q' w where q': "sq_completion (sc_egress c) = Some (q', w)" "sq_inv q'" "sq_started q' = w"
      using sq_pop_law [OF q(1,2)] by (auto simp: sq_pop_def)
    have w: "w \<noteq> [] \<longleftrightarrow> sq_sending q'" and op: "sq_open q'" using q'(2,3) by (auto simp: sq_inv_def sq_started_def)
    have "stream_ok (fst (issue_write w (c1\<lparr>sc_egress := q'\<rparr>)))"
      using assms q q'(2) w op False same by (auto simp: stream_ok_def c0_def)
    moreover have "sc_closed_fired c1 = False" using q(4) same by (simp add: c0_def)
    ultimately show ?thesis using q'(1) q(4,5) same(2) wc False by (simp add: split_beta)
  qed
qed

lemma stream_step_ok: "stream_ok c \<Longrightarrow> safely (\<lambda>(c', out). stream_ok c' \<and> stream_out c c' out) (stream_step c op)"
proof (cases op)
  case (Stream_send data)
  assume ok: "stream_ok c"
  have one: "sq_push (One data) (sc_egress c) = sq_enqueue data (sc_egress c)" "sq_push (Both data t) (sc_egress c) = sq_enqueue_both data t (sc_egress c)" for t
    by simp_all
  show ?thesis
  proof (cases "sc_open c \<and> header_size \<le> length data")
    case True
    then show ?thesis
      using Stream_send take_submission_ok [OF ok _ one(1)] take_submission_ok [OF ok _ one(2)]
      by (cases "sc_bootstrap c") (auto simp: stream_send_def bootstrap_submit_def enqueue_egress_def enqueue_egress_pair_def make_trailer_def
          simp del: sq_push.simps)
  qed (use ok Stream_send in \<open>auto simp: stream_send_def\<close>)
next
  case (Stream_read r)
  assume ok: "stream_ok c"
  let ?c = "c\<lparr>sc_reads := sc_reads c - 1\<rparr>"
  have ok': "stream_ok ?c" using ok by (simp add: stream_ok_def)
  show ?thesis
  proof (cases "sc_reads c = 0 \<or> \<not> sc_alive c")
    case True
    then show ?thesis using ok ok' Stream_read by (auto simp: read_completion_def)
  next
    case False
    show ?thesis
    proof (cases r)
      case (Inr ec)
      then show ?thesis using False Stream_read stream_fail_ok [OF ok'] by (auto simp: read_completion_def)
    next
      case (Inl data)
      obtain s evs where s: "inbound_feed (sc_inbound c) data = Some (s, evs)" "inbound_ok s"
        using inbound_feed_ok [of "sc_inbound c" data] ok by (auto simp: stream_ok_def)
      obtain c1 o1 where c1: "inbound_callbacks evs (?c\<lparr>sc_inbound := s\<rparr>) = (c1, o1)" by fastforce
      have "stream_ok (?c\<lparr>sc_inbound := s\<rparr>)" using ok' s(2) by (simp add: stream_ok_def)
      from inbound_callbacks_ok [OF this c1] show ?thesis
        using False Stream_read Inl s(1) c1 by (auto simp: read_completion_def stream_do_read_def stream_ok_def)
    qed
  qed
next
  case (Stream_written ec)
  assume "stream_ok c"
  then show ?thesis using Stream_written write_completion_ok by simp
next
  case (Stream_timer gen ec)
  assume "stream_ok c"
  then show ?thesis using Stream_timer inbound_callbacks_ok by (auto simp: no_progress_completion_def)
next
  case Stream_close
  assume "stream_ok c"
  then show ?thesis using Stream_close stream_close_ok by auto
next
  case Stream_destroy
  assume "stream_ok c"
  then show ?thesis using Stream_destroy by (auto simp: stream_destroy_def shutdown_socket_def stream_ok_def)
qed

interpretation stream: safe_machine stream_step stream_ok
  by unfold_locales (use stream_step_ok in \<open>fastforce simp: safely_def\<close>)

lemma stream_ok_start: "throughput_ok cfg \<Longrightarrow> stream_ok (start_read (stream_channel_init bs cfg cong cap key))"
  by (simp add: stream_ok_def start_read_def start_read_loop_def stream_do_read_def stream_channel_init_def inbound_ok_def
      stream_inbound_init_def stream_send_queue_init_def sq_inv_def default_gather_limit_def)

lemma close_edge_quiet: "close_edge True out = Some b \<Longrightarrow> b \<and> list_all stream_quiet out"
  by (induction out) (auto split: if_splits)

lemma close_edge_meaning:
  "close_edge False out = Some b \<Longrightarrow>
   count_list out Sc_post_closed \<le> 1 \<and> (\<forall>h1 h2. out = h1 @ Sc_post_closed # h2 \<longrightarrow> list_all stream_quiet h2)"
proof (induction out)
  case (Cons ev out)
  show ?case
  proof (cases "ev = Sc_post_closed")
    case True
    then have q: "list_all stream_quiet out" using Cons.prems close_edge_quiet by auto
    then have "Sc_post_closed \<notin> set out" by (auto simp: list_all_iff stream_quiet_def)
    with True q show ?thesis by (auto simp: Cons_eq_append_conv count_notin)
  next
    case False
    with Cons show ?thesis by (auto simp: Cons_eq_append_conv split: if_splits)
  qed
qed simp

lemma callbacks_no_error: "inbound_callbacks evs c = (c', out) \<Longrightarrow> Sc_error e \<notin> set out"
proof (induction evs arbitrary: c out)
  case (Cons ev evs)
  obtain c1 o1 o2 where c1: "inbound_callback ev c = (c1, o1)" "inbound_callbacks evs c1 = (c', o2)" "out = o1 @ o2"
    using Cons.prems by (auto simp: Let_def split: prod.splits)
  have "Sc_error e \<notin> set o1"
    using c1(1) by (cases ev) (auto simp: stream_handle_protocol_close_def stream_close_def post_on_closed_def Let_def split: prod.splits if_splits)
  with Cons.IH [OF c1(2)] c1(3) show ?case by simp
qed simp



end
