(* ===== verification/Stream_Egress.thy ===== *)
theory Stream_Egress
  imports Stream_Channel
begin

text \<open>
  The egress scheduler over the stream channel: the channel's occupancy and capacity are those of its
  write queue, so a frame the scheduler hands over is one the queue admits. The type-erased channel
  (\<open>polymorphic_byte_channel.h\<close>) publishes no capacity, and the serial bootstrap adds a trailer the poll
  does not see; both break the agreement.
\<close>

section \<open>The stream channel as a polled channel\<close>

text \<open>The second component records the frames whose writes have completed.\<close>

definition stream_channel_ops :: "(stream_channel \<times> bytes list) channel_ops" where
  "stream_channel_ops = \<lparr>co_can_poll = True, co_key = \<lambda>(c, _). sc_scheduler_key c, co_backpressured = \<lambda>(c, _). sq_bytes (sc_egress c),
     co_capacity = Some (\<lambda>(c, _). sq_byte_cap (sc_egress c)),
     co_send = \<lambda>f (c, d). (case stream_send f c of Some (c', _) \<Rightarrow> (c', d) | None \<Rightarrow> (c, d))\<rparr>"

text \<open>The erased channel forwards every verb but \<open>write_queue_capacity\<close>.\<close>

definition erased_channel_ops :: "(stream_channel \<times> bytes list) channel_ops" where
  "erased_channel_ops = stream_channel_ops\<lparr>co_capacity := None\<rparr>"

fun channel_taken :: "stream_channel \<times> bytes list \<Rightarrow> bytes list" where
  "channel_taken (c, d) = d @ sq_queue (sc_egress c)"

fun frames_written :: "stream_op \<Rightarrow> stream_channel \<Rightarrow> bytes list" where
  "frames_written (Stream_written _) c = (if sc_writes c = 0 then [] else take (sq_in_flight (sc_egress c)) (sq_queue (sc_egress c)))"
| "frames_written _ c = []"

fun channel_progress :: "stream_channel \<times> bytes list \<Rightarrow> stream_channel \<times> bytes list \<Rightarrow> bool" where
  "channel_progress (c, d) (c', d') \<longleftrightarrow>
     (\<exists>op out. (\<forall>f. op \<noteq> Stream_send f) \<and> stream_step c op = Some (c', out) \<and> sc_open c' \<and> d' = d @ frames_written op c)"

fun polled_ok :: "stream_channel \<times> bytes list \<Rightarrow> bool" where
  "polled_ok (c, d) \<longleftrightarrow> stream_ok c \<and> sc_open c \<and> sc_bootstrap c = plaintext_bootstrap"

lemma shut_fields:
  "stream_close c = (c', out) \<Longrightarrow> sc_open c' \<Longrightarrow> sc_socket_open c \<or> c' = c"
  "stream_fail ec c = (c', out) \<Longrightarrow> sc_open c' \<Longrightarrow> c' = c"
  by (auto simp: stream_close_def stream_fail_def shutdown_socket_def post_on_closed_def Let_def split: if_splits prod.splits)

lemma callbacks_open:
  "stream_ok c \<Longrightarrow> inbound_callbacks evs c = (c', out) \<Longrightarrow> sc_open c' \<Longrightarrow> c' = c"
proof (induction evs arbitrary: c out)
  case (Cons ev evs)
  obtain c1 o1 o2 where c1: "inbound_callback ev c = (c1, o1)" "inbound_callbacks evs c1 = (c', o2)"
    using Cons.prems(2) by (auto simp: Let_def split: prod.splits)
  have "inbound_callbacks [ev] c = (c1, o1)" using c1(1) by simp
  note ok = inbound_callbacks_ok [OF Cons.prems(1) this]
  then have same: "c' = c1" using Cons.IH [OF _ c1(2) Cons.prems(3)] by simp
  show ?case
  proof (cases ev)
    case (On_frame f)
    then show ?thesis using c1(1) same by simp
  next
    case (On_protocol_close cause)
    then obtain o' where "stream_close c = (c1, o')" using c1(1) by (auto simp: stream_handle_protocol_close_def split: prod.splits)
    then have "\<not> sc_open c1" using stream_close_ok [OF Cons.prems(1)] ok by (auto simp: stream_ok_def)
    with same Cons.prems(3) show ?thesis by simp
  qed
qed simp

lemma progress_fields:
  assumes ok: "stream_ok c" and step: "stream_step c op = Some (c', out)" and op: "sc_open c'" and no: "\<And>f. op \<noteq> Stream_send f"
  shows "sc_scheduler_key c' = sc_scheduler_key c \<and> sc_bootstrap c' = sc_bootstrap c
     \<and> frames_written op c @ sq_queue (sc_egress c') = sq_queue (sc_egress c)"
proof (cases op)
  case (Stream_read r)
  let ?c = "c\<lparr>sc_reads := sc_reads c - 1\<rparr>"
  show ?thesis
  proof (cases "sc_reads c = 0 \<or> \<not> sc_alive c")
    case True
    then have "c' = c \<or> c' = ?c" using step Stream_read by (cases "sc_reads c = 0") (simp_all add: read_completion_def)
    then show ?thesis using Stream_read by auto
  next
    case live: False
    show ?thesis
    proof (cases r)
      case (Inr ec)
      then show ?thesis using live step Stream_read op shut_fields(2) [of ec ?c c' out] by (auto simp: read_completion_def)
    next
      case (Inl data)
      then obtain s evs c1 where s: "inbound_feed (sc_inbound c) data = Some (s, evs)" "inbound_callbacks evs (?c\<lparr>sc_inbound := s\<rparr>) = (c1, out)"
          "c' = (if sc_open c1 then stream_do_read c1 else c1)"
        using live step Stream_read by (auto simp: read_completion_def Let_def split_beta bind_eq_Some_conv prod_eq_iff)
      have "sc_open c1" using s(3) op by (auto split: if_splits)
      moreover have "stream_ok (?c\<lparr>sc_inbound := s\<rparr>)"
        using ok inbound_feed_ok [of "sc_inbound c" data] s(1) by (auto simp: stream_ok_def)
      ultimately have "c1 = ?c\<lparr>sc_inbound := s\<rparr>" using callbacks_open s(2) by blast
      then show ?thesis using s(3) \<open>sc_open c1\<close> Stream_read by (simp add: stream_do_read_def)
    qed
  qed
next
  case (Stream_written ec)
  show ?thesis
  proof (cases "sc_writes c = 0 \<or> \<not> sc_alive c")
    case True
    moreover have "sc_writes c = 0" if "\<not> sc_alive c"
      using that step Stream_written op ok by (cases "sc_writes c = 0") (auto simp: write_completion_def stream_ok_def)
    ultimately show ?thesis using step Stream_written by (auto simp: write_completion_def)
  next
    case live: False
    define c0 where "c0 = c\<lparr>sc_writes := sc_writes c - 1\<rparr>"
    obtain c1 o1 where c1: "(case ec of None \<Rightarrow> (c0, []) | Some e \<Rightarrow> stream_fail e c0) = (c1, o1)" by fastforce
    obtain q w where q: "sq_completion (sc_egress c1) = Some (q, w)" "c' = fst (issue_write w (c1\<lparr>sc_egress := q\<rparr>))"
      using step Stream_written live write_completion_eq [OF _ _ c0_def c1]
      by (cases "sq_completion (sc_egress c1)") (auto simp: Let_def split_beta)
    then have "c1 = c0" using c1 op shut_fields(2) [of _ c0 c1 o1] by (cases ec) auto
    moreover have "sc_socket_open c0" using op q(2) \<open>c1 = c0\<close> ok by (simp add: stream_ok_def c0_def)
    then have "sq_inv (sc_egress c)" "sq_sending (sc_egress c)" using ok live by (auto simp: stream_ok_def c0_def)
    note sq_pop_law [OF this]
    ultimately show ?thesis using q live Stream_written
      by (auto simp: c0_def sq_pop_def issue_write_def)
  qed
next
  case (Stream_timer gen ec)
  then show ?thesis using step callbacks_open [OF ok] op by (auto simp: no_progress_completion_def)
next
  case Stream_close
  then show ?thesis using step stream_close_ok [OF ok] op by (auto simp: stream_ok_def)
next
  case Stream_destroy
  then show ?thesis using step op ok by (auto simp: stream_destroy_def shutdown_socket_def stream_ok_def)
qed (use no in simp)

lemma plain_send:
  assumes "polled_ok (c, d)"
  shows "stream_send f c = Some (take_submission (sq_push (One f) (sc_egress c)) c)"
  using assms by (simp add: stream_send_def bootstrap_submit_def enqueue_egress_def)

lemma take_submission_fields:
  "take_submission (q, ok, w) c = (c', out) \<Longrightarrow>
   sc_egress c' = q \<and> sc_scheduler_key c' = sc_scheduler_key c \<and> sc_bootstrap c' = sc_bootstrap c \<and> sc_open c' = sc_open c"
  by (auto simp: take_submission_def issue_write_def stream_on_write_queue_full_def Let_def split: if_splits)

lemma submission_key: "sc_scheduler_key (fst (take_submission r c)) = sc_scheduler_key c"
  by (cases r) (metis prod.collapse take_submission_fields)

lemma stream_send_key: "stream_send f c = Some r \<Longrightarrow> sc_scheduler_key (fst r) = sc_scheduler_key c"
  by (auto simp: stream_send_def bootstrap_submit_def enqueue_egress_def enqueue_egress_pair_def bind_eq_Some_conv submission_key
      split: if_splits bootstrap.splits)

interpretation stream_dest: polled_channel stream_channel_ops polled_ok channel_taken channel_progress
proof unfold_locales
  show "co_can_poll stream_channel_ops" by (simp add: stream_channel_ops_def)
  show "co_key stream_channel_ops (co_send stream_channel_ops f x) = co_key stream_channel_ops x" for f x
    by (cases x) (auto simp: stream_channel_ops_def dest!: stream_send_key split: option.splits)
  show "polled_ok (co_send stream_channel_ops f x) \<and> channel_taken (co_send stream_channel_ops f x) = channel_taken x @ [f]"
    if inv: "polled_ok x" and "f \<noteq> []" and adm: "egress_admits stream_channel_ops x (length f)" for f x
  proof -
    obtain c d where x: "x = (c, d)" by (cases x)
    have ok: "stream_ok c" "sc_open c" "sc_bootstrap c = plaintext_bootstrap" using inv x by simp_all
    then have q: "sq_inv (sc_egress c)" by (auto simp: stream_ok_def)
    obtain q b w where p: "sq_push (One f) (sc_egress c) = (q, b, w)" by (cases "sq_push (One f) (sc_egress c)")
    obtain c' out where t: "take_submission (q, b, w) c = (c', out)" by fastforce
    have "sq_bytes (sc_egress c) = 0 \<or> sq_bytes (sc_egress c) < sq_byte_cap (sc_egress c) \<and> sq_bytes (sc_egress c) + length f \<le> sq_byte_cap (sc_egress c)"
      using adm x \<open>f \<noteq> []\<close> by (cases f) (auto simp: egress_admits_def stream_channel_ops_def low_water_of_def)
    with sq_push_law [OF q p] have b: "b" "sq_queue q = sq_queue (sc_egress c) @ [f]" by auto
    have "co_send stream_channel_ops f x = (c', d)"
      using plain_send [of c d f] inv p t unfolding x by (simp add: stream_channel_ops_def)
    with take_submission_ok [OF ok(1,2) p t] take_submission_fields [OF t] ok b x show ?thesis by simp
  qed
  show "polled_ok y \<and> co_key stream_channel_ops y = co_key stream_channel_ops x \<and> channel_taken y = channel_taken x"
    if inv: "polled_ok x" and pr: "channel_progress x y" for x y
  proof -
    obtain c d c' d' where x: "x = (c, d)" and y: "y = (c', d')" by (cases x, cases y)
    from pr obtain op out where op: "\<And>f. op \<noteq> Stream_send f" "stream_step c op = Some (c', out)" "sc_open c'" "d' = d @ frames_written op c"
      unfolding x y by auto
    have ok: "stream_ok c" using inv x by simp
    have "stream_ok c'" using stream_step_ok [OF ok, of op] op(2) by (simp add: safely_def)
    with progress_fields [OF ok op(2,3,1)] op(3,4) inv show ?thesis by (simp add: x y stream_channel_ops_def)
  qed
qed

text \<open>
  C19. Priority egress over a stream channel, for every interleaving of publications, the channel's own
  completions and work for other destinations: the frames handed to the channel are exactly those of
  an ideal scheduler that keeps one list per priority band and always hands over the oldest frame of
  the highest band that holds any; every verdict, refusal and eviction is the congestion policy's and
  is counted once; and the channel takes every frame handed to it, in that order. A further
  publication never faults and leaves only frames the channel has no room for.
\<close>

theorem egress_priority_exact:
  assumes "egress_run stream_channel_ops channel_progress (c0, []) tr m (c, d)" and "polled_ok (c0, [])" and "sq_queue (sc_egress c0) = []"
    and "i < k_egress_bands" and "f \<noteq> []"
  shows "ideal_run tr (\<lambda>_. []) = Some (resident (queue_at (sc_scheduler_key c) m))
     \<and> d @ sq_queue (sc_egress c) = handed_frames tr
     \<and> (\<forall>j cause. j < k_egress_bands \<and> counted_cause cause \<longrightarrow>
          drop_counts (queue_at (sc_scheduler_key c) m) j cause = refused_count j cause tr)
     \<and> (\<exists>q c' cause. egress_enqueue stream_channel_ops (c, d) i cong f m = Some (m(sc_scheduler_key c \<mapsto> q), c', cause)
          \<and> settled stream_channel_ops q c')"
proof -
  have ex: "stream_dest.exact (c0, []) tr m (c, d)" using stream_dest.run_exact [OF assms(1,2)] .
  have k: "co_key stream_channel_ops (c, d) = sc_scheduler_key c" by (simp add: stream_channel_ops_def)
  from stream_dest.publish_exact [OF ex assms(4,5), of cong] have
    "\<exists>q c' cause. egress_enqueue stream_channel_ops (c, d) i cong f m = Some (m(sc_scheduler_key c \<mapsto> q), c', cause)
       \<and> settled stream_channel_ops q c'" unfolding k by metis
  moreover have "co_key stream_channel_ops (c0, []) = sc_scheduler_key c" using ex k by (simp add: stream_dest.exact_def)
  ultimately show ?thesis using ex assms(3) by (auto simp: stream_dest.exact_def)
qed

definition small_stream :: "bootstrap \<Rightarrow> nat \<Rightarrow> stream_channel" where
  "small_stream bs cap = start_read (stream_channel_init bs default_stream_inbound_config block cap 1)"

lemma default_throughput_ok: "throughput_ok default_stream_inbound_config"
  by (simp add: throughput_ok_def default_stream_inbound_config_def k_max_reassembler_payload_bytes_def)

lemma small_stream_fields:
  "sc_open (small_stream bs cap)" "sc_bootstrap (small_stream bs cap) = bs" "sq_queue (sc_egress (small_stream bs cap)) = []"
  "sq_bytes (sc_egress (small_stream bs cap)) = 0" "sq_byte_cap (sc_egress (small_stream bs cap)) = cap"
  by (simp_all add: small_stream_def start_read_def start_read_loop_def stream_do_read_def stream_channel_init_def stream_send_queue_init_def)

lemma small_stream_ok: "stream_ok (small_stream bs cap)"
  unfolding small_stream_def by (rule stream_ok_start [OF default_throughput_ok])

theorem egress_priority_exact_witness:
  "\<exists>tr m c d. egress_run stream_channel_ops channel_progress (small_stream plaintext_bootstrap 100, []) tr m (c, d) \<and> tr \<noteq> []
     \<and> d @ sq_queue (sc_egress c) = handed_frames tr"
proof -
  let ?c = "small_stream plaintext_bootstrap 100"
  have ok: "polled_ok (?c, [])" by (simp add: small_stream_ok small_stream_fields)
  have run: "egress_run stream_channel_ops channel_progress (?c, []) [] Map.empty (?c, [])" by (rule egress_run_init)
  obtain q cause q' c' where p: "enqueue_with_verdict 0 block [7] (queue_at (co_key stream_channel_ops (?c, [])) Map.empty) = Some (q, cause)"
    "egress_enqueue stream_channel_ops (?c, []) 0 block [7] Map.empty = Some ([co_key stream_channel_ops (?c, []) \<mapsto> q'], c', cause)"
    by (rule stream_dest.publish_exact [OF stream_dest.run_exact [OF run ok], of 0 "[7]" block]) (auto simp: k_egress_bands_def)
  obtain c1 d1 where c': "c' = (c1, d1)" by (cases c')
  let ?tr = "[] @ Offered 0 block [7] cause # map (\<lambda>(i, f). Handed i f) (egress_handed stream_channel_ops q (?c, []))"
  have run': "egress_run stream_channel_ops channel_progress (?c, []) ?tr [co_key stream_channel_ops (?c, []) \<mapsto> q'] (c1, d1)"
    using egress_run_publish [OF run _ _ p] c' by (simp add: k_egress_bands_def)
  from egress_priority_exact [OF run' ok, of 0 "[7]"] have "d1 @ sq_queue (sc_egress c1) = handed_frames ?tr"
    by (simp add: small_stream_fields k_egress_bands_def)
  with run' show ?thesis by blast
qed

section \<open>Where the agreement breaks\<close>

lemma resident_work: "has_work q \<Longrightarrow> \<exists>i. resident q i \<noteq> []"
  using highest_band_work [of q] by (auto simp: resident_def intro!: exI [of _ "highest_band q"])

text \<open>A frame published to an idle destination whose poll admits it is handed over at once.\<close>

lemma enqueue_idle:
  assumes polls: "co_can_poll ops" and i: "i < k_egress_bands" and adm: "egress_admits ops c (length f)"
    and key: "\<And>c. co_key ops (co_send ops f c) = co_key ops c"
  shows "\<exists>q. egress_enqueue ops c i cong f Map.empty = Some ([co_key ops c \<mapsto> q], co_send ops f c, dc_none) \<and> resident q = (\<lambda>_. [])"
proof -
  obtain q cause where q: "enqueue_with_verdict i cong f priority_band_queue_init = Some (q, cause)" "queue_ok q"
    "ideal_step (Offered i cong f cause) (\<lambda>_. []) = Some (resident q)"
    using enqueue_with_verdict_eq [OF queue_init_ok(1) i, of cong f] by auto
  then have r: "resident q = (\<lambda>_. [])(i := [f])" and cause: "cause = dc_none"
    by (auto simp: band_offer_def band_depth_pos split: if_splits)
  have all: "list_all band_ok q" "length q = k_egress_bands" using q(2) by (simp_all add: queue_ok_def)
  have "band_frames (q ! i) = [f]" using fun_cong [OF r, of i] all(2) i by (simp add: resident_def)
  then have work: "has_work q" using all(2) i length_band_frames [of "q ! i"] by (auto simp: has_work_def list_ex_length)
  note hi = highest_band_work [OF work]
  then have h: "highest_band q = i" using fun_cong [OF r, of "highest_band q"] by (auto simp: resident_def split: if_splits)
  obtain b where b: "pop_highest q = Some (q[i := b])" "band_frames b = []"
    using pop_highest_eq [OF all(1) work] h \<open>band_frames (q ! i) = [f]\<close> by auto
  have r': "resident (q[i := b]) = (\<lambda>_. [])" using resident_update [of i q b] b(2) r i all(2) by auto
  then have idle: "\<not> has_work (q[i := b])" using resident_work by metis
  have "egress_drain ops q c = Some (q[i := b], co_send ops f c)"
    using work front_highest_eq [OF all(1) work] h \<open>band_frames (q ! i) = [f]\<close> adm b(1) idle
    by (simp add: egress_drain.simps [of ops q] egress_drain.simps [of ops "q[i := b]"])
  with q(1) cause polls r' show ?thesis by (auto simp: egress_enqueue_def queue_at_def)
qed

lemma refused_submission:
  assumes "sq_push p (sc_egress c) = (q, False, w)" and "sq_inv (sc_egress c)" and "take_submission (q, False, w) c = (c', out)"
  shows "sq_queue (sc_egress c') = sq_queue (sc_egress c)"
  using sq_push_law [OF assms(2,1)] take_submission_fields [OF assms(3)] by simp

lemma over_capacity_refused:
  assumes "sq_inv (sc_egress c)" and "sq_bytes (sc_egress c) \<noteq> 0"
    and "sq_byte_cap (sc_egress c) < sq_bytes (sc_egress c) + sum_list (map length (sq_frames p))"
  shows "sq_queue (sc_egress (fst (take_submission (sq_push p (sc_egress c)) c))) = sq_queue (sc_egress c)"
proof -
  obtain q b w where p: "sq_push p (sc_egress c) = (q, b, w)" by (cases "sq_push p (sc_egress c)")
  with sq_push_law [OF assms(1) p] assms(2,3) have "\<not> b" by auto
  with p refused_submission [OF _ assms(1)] show ?thesis by (metis (full_types) prod.collapse)
qed

text \<open>
  C20. The hand-over loses frames on two channels whose poll and admission disagree: the type-erased
  channel, whose gate is the fixed low-water mark rather than the write queue's capacity, and the
  serial channel, which queues a four-byte trailer with every frame. In both a published frame is
  reported as admitted, leaves its band, and never reaches the write queue.
\<close>

theorem egress_handover_loses:
  assumes "stream_ok c" and "sc_open c" and "sq_bytes (sc_egress c) \<noteq> 0" and "header_size \<le> length f" and "i < k_egress_bands"
    and "sc_bootstrap c = plaintext_bootstrap \<and> ops = erased_channel_ops \<and> sq_bytes (sc_egress c) + length f \<le> k_low_water
           \<and> sq_byte_cap (sc_egress c) < sq_bytes (sc_egress c) + length f
       \<or> sc_bootstrap c = serial_bootstrap \<and> ops = stream_channel_ops \<and> sq_bytes (sc_egress c) + length f \<le> sq_byte_cap (sc_egress c)
           \<and> sq_byte_cap (sc_egress c) < sq_bytes (sc_egress c) + length f + crc_trailer_size"
  shows "\<exists>q c'. egress_enqueue ops (c, d) i cong f Map.empty = Some ([sc_scheduler_key c \<mapsto> q], (c', d), dc_none)
     \<and> resident q = (\<lambda>_. []) \<and> sq_queue (sc_egress c') = sq_queue (sc_egress c)"
proof -
  have inv: "sq_inv (sc_egress c)" using assms(1,2) by (auto simp: stream_ok_def)
  have ops: "co_can_poll ops" "co_send ops = co_send stream_channel_ops" "co_key ops = co_key stream_channel_ops"
    using assms(6) by (auto simp: erased_channel_ops_def stream_channel_ops_def)
  have key: "co_key ops (co_send ops f x) = co_key ops x" for x using stream_dest.send_key ops(2,3) by simp
  have adm: "egress_admits ops (c, d) (length f)"
    using assms(6) by (auto simp: egress_admits_def erased_channel_ops_def stream_channel_ops_def low_water_of_def)
  obtain p where p: "stream_send f c = Some (take_submission (sq_push p (sc_egress c)) c)"
    "sq_byte_cap (sc_egress c) < sq_bytes (sc_egress c) + sum_list (map length (sq_frames p))"
  proof (cases "sc_bootstrap c")
    case plaintext_bootstrap
    then show thesis using that [of "One f"] assms(2,6) by (auto simp: stream_send_def bootstrap_submit_def enqueue_egress_def)
  next
    case serial_bootstrap
    then show thesis
      using that [of "Both f (crc_trailer (take header_size f) (drop header_size f))"] assms(2,4,6)
      by (auto simp: stream_send_def bootstrap_submit_def enqueue_egress_pair_def make_trailer_def crc_trailer_def crc_trailer_size_def Let_def)
  qed
  have "co_send ops f (c, d) = (fst (take_submission (sq_push p (sc_egress c)) c), d)"
    using p(1) ops(2) by (simp add: stream_channel_ops_def split_beta)
  moreover have "co_key ops (c, d) = sc_scheduler_key c" using ops(3) by (simp add: stream_channel_ops_def)
  ultimately show ?thesis
    using enqueue_idle [OF ops(1) assms(5) adm key, of cong] over_capacity_refused [OF inv assms(3) p(2)] by auto
qed

theorem egress_handover_loses_witness:
  "\<exists>c out q c'. stream_send (replicate 40 7) (small_stream serial_bootstrap 100) = Some (c, out)
     \<and> egress_enqueue stream_channel_ops (c, []) 0 block (replicate 56 9) Map.empty = Some ([sc_scheduler_key c \<mapsto> q], (c', []), dc_none)
     \<and> resident q = (\<lambda>_. []) \<and> sq_queue (sc_egress c') = sq_queue (sc_egress c)"
proof -
  let ?c = "small_stream serial_bootstrap 100"
  obtain c out where c: "stream_send (replicate 40 7) ?c = Some (c, out)"
    by (simp add: stream_send_def bootstrap_submit_def small_stream_fields make_trailer_def header_size_def) fastforce
  let ?p = "Both (replicate 40 7) (crc_trailer (take header_size (replicate 40 7)) (drop header_size (replicate 40 7)))"
  have t: "take_submission (sq_push ?p (sc_egress ?c)) ?c = (c, out)"
    using c by (simp add: stream_send_def bootstrap_submit_def small_stream_fields make_trailer_def header_size_def enqueue_egress_pair_def)
  obtain q b w where p: "sq_push ?p (sc_egress ?c) = (q, b, w)" by (cases "sq_push ?p (sc_egress ?c)")
  have inv: "sq_inv (sc_egress ?c)" using small_stream_ok by (auto simp: stream_ok_def small_stream_fields)
  note law = sq_push_law [OF inv p] and ok = take_submission_ok [OF small_stream_ok small_stream_fields(1) p t [unfolded p]]
  note f = take_submission_fields [OF t [unfolded p]]
  have "sq_bytes (sc_egress c) = 44" "sq_byte_cap (sc_egress c) = 100"
    using law f by (simp_all add: sq_inv_def small_stream_fields crc_trailer_def Let_def)
  with egress_handover_loses [of c "replicate 56 9" 0 stream_channel_ops "[]" block] ok f c show ?thesis
    by (simp add: small_stream_fields header_size_def k_egress_bands_def crc_trailer_size_def)
qed

end
