(* ===== verification/Serial_Channel.thy ===== *)
theory Serial_Channel
  imports Stream_Egress
begin

text \<open>
  The serial channel (\<open>serial_channel.h\<close>, \<open>serial_channel_io.h\<close>): the stream channel's egress with the
  checksum trailer, and a read loop of its own that feeds the resynchronising decorator. That loop's
  handler holds a plain reference to the channel: a completion that runs after the destructor reads
  freed memory, the fault \<open>None\<close>, unless it reports the abort, which is tested first.
\<close>

section \<open>The channel\<close>

record serial_channel =
  sr_base :: stream_channel
  sr_decorator :: crc_serial_inbound
  sr_reads :: nat

datatype serial_event = Sr_stream stream_event | Sr_frame_dropped close_cause

definition serial_channel_init :: "stream_inbound_config \<Rightarrow> congestion \<Rightarrow> nat \<Rightarrow> u64 \<Rightarrow> serial_channel" where
  "serial_channel_init cfg cong egress key =
     \<lparr>sr_base = stream_channel_init serial_bootstrap cfg cong egress key,
      sr_decorator = crc_serial_init (si_max_payload_size cfg), sr_reads = 0\<rparr>"

definition serial_do_read :: "serial_channel \<Rightarrow> serial_channel" where
  "serial_do_read s = s\<lparr>sr_reads := sr_reads s + 1\<rparr>"

definition serial_start_read :: "serial_channel \<Rightarrow> serial_channel" where
  "serial_start_read s =
     (if sc_reading (sr_base s) then s
      else serial_do_read (s\<lparr>sr_base := (sr_base s)\<lparr>sc_reading := True, sc_open := True\<rparr>\<rparr>))"

fun decorator_callback :: "crc_event \<Rightarrow> serial_event" where
  "decorator_callback (On_match f) = Sr_stream (Sc_post_data f)"
| "decorator_callback (On_drop cause) = Sr_frame_dropped cause"

definition serial_read_completion :: "bytes + io_error \<Rightarrow> serial_channel \<Rightarrow> (serial_channel \<times> serial_event list) option" where
  "serial_read_completion r s =
     (if sr_reads s = 0 then Some (s, [])
      else let s = s\<lparr>sr_reads := sr_reads s - 1\<rparr> in
        if \<not> sc_alive (sr_base s) then if r = Inr operation_aborted then Some (s, []) else None
        else case r of
          Inr ec \<Rightarrow> (case stream_fail ec (sr_base s) of (c, out) \<Rightarrow> Some (s\<lparr>sr_base := c\<rparr>, map Sr_stream out))
        | Inl data \<Rightarrow> do {
            (d, evs) \<leftarrow> crc_feed (sr_decorator s) data;
            let s = s\<lparr>sr_decorator := d\<rparr> in
            Some (if sc_socket_open (sr_base s) then serial_do_read s else s, map decorator_callback evs)
          })"

text \<open>Everything but reading is the base channel's.\<close>

fun serial_step :: "serial_channel \<Rightarrow> stream_op \<Rightarrow> (serial_channel \<times> serial_event list) option" where
  "serial_step s (Stream_read r) = serial_read_completion r s"
| "serial_step s op = map_option (\<lambda>(c, out). (s\<lparr>sr_base := c\<rparr>, map Sr_stream out)) (stream_step (sr_base s) op)"

section \<open>Line noise\<close>

fun line_op :: "stream_op \<Rightarrow> bool" where
  "line_op (Stream_send _) = True"
| "line_op (Stream_read (Inl _)) = True"
| "line_op (Stream_written None) = True"
| "line_op _ = False"

fun line_bytes :: "stream_op list \<Rightarrow> bytes list" where
  "line_bytes [] = []"
| "line_bytes (Stream_read (Inl data) # ops) = data # line_bytes ops"
| "line_bytes (_ # ops) = line_bytes ops"

fun delivered_frames :: "serial_event list \<Rightarrow> bytes list" where
  "delivered_frames [] = []"
| "delivered_frames (Sr_stream (Sc_post_data f) # es) = f # delivered_frames es"
| "delivered_frames (_ # es) = delivered_frames es"

fun matched_frames :: "crc_event list \<Rightarrow> bytes list" where
  "matched_frames [] = []"
| "matched_frames (On_match f # es) = f # matched_frames es"
| "matched_frames (On_drop _ # es) = matched_frames es"

fun fatal :: "serial_event \<Rightarrow> bool" where
  "fatal (Sr_stream Sc_post_closed) = True"
| "fatal (Sr_stream (Sc_protocol_close _)) = True"
| "fatal (Sr_stream (Sc_error e)) = (e \<noteq> would_block)"
| "fatal _ = False"

definition serial_ok :: "serial_channel \<Rightarrow> bool" where
  "serial_ok s \<longleftrightarrow> stream_ok (sr_base s) \<and> sc_open (sr_base s) \<and> sr_reads s = 1 \<and> crc_settled (cs_max_payload (sr_decorator s)) (sr_decorator s)"

lemma delivered_append [simp]: "delivered_frames (xs @ ys) = delivered_frames xs @ delivered_frames ys"
  by (induction xs rule: delivered_frames.induct) simp_all

lemma matched_append [simp]: "matched_frames (xs @ ys) = matched_frames xs @ matched_frames ys"
  by (induction xs rule: matched_frames.induct) simp_all

lemma delivered_decorator [simp]: "delivered_frames (map decorator_callback evs) = matched_frames evs"
  by (induction evs rule: matched_frames.induct) simp_all

lemma fatal_decorator: "\<not> list_ex fatal (map decorator_callback evs)"
  by (induction evs rule: matched_frames.induct) simp_all

lemma submission_events:
  assumes "take_submission r c = (c', out)"
  shows "sc_open c' = sc_open c" and "\<not> list_ex fatal (map Sr_stream out)" and "delivered_frames (map Sr_stream out) = []"
proof -
  obtain q b w where r: "r = (q, b, w)" by (cases r)
  show "sc_open c' = sc_open c" using take_submission_fields assms r by blast
  show "\<not> list_ex fatal (map Sr_stream out)" "delivered_frames (map Sr_stream out) = []"
    using assms by (auto simp: r take_submission_def issue_write_def stream_on_write_queue_full_def Let_def split: if_splits)
qed

lemma stream_send_events:
  assumes "stream_send f c = Some (c', out)"
  shows "sc_open c' = sc_open c \<and> \<not> list_ex fatal (map Sr_stream out) \<and> delivered_frames (map Sr_stream out) = []"
proof (cases "sc_open c")
  case False
  then show ?thesis using assms by (simp add: stream_send_def)
next
  case True
  obtain r where "take_submission r c = (c', out)"
  proof (cases "sc_bootstrap c")
    case plaintext_bootstrap
    then show thesis using assms True that by (simp add: stream_send_def bootstrap_submit_def enqueue_egress_def)
  next
    case serial_bootstrap
    then show thesis using assms True that
      by (cases "make_trailer f") (simp_all add: stream_send_def bootstrap_submit_def enqueue_egress_pair_def)
  qed
  with submission_events show ?thesis by blast
qed

lemma write_done_events:
  assumes "write_completion None c = Some (c', out)"
  shows "sc_open c' = sc_open c \<and> \<not> list_ex fatal (map Sr_stream out) \<and> delivered_frames (map Sr_stream out) = []"
  using assms by (auto simp: write_completion_def issue_write_def Let_def bind_eq_Some_conv split: if_splits)

lemma line_step:
  assumes ok: "serial_ok s" and op: "line_op op"
  shows "\<exists>s' out. serial_step s op = Some (s', out) \<and> serial_ok s' \<and> \<not> list_ex fatal out
     \<and> cs_max_payload (sr_decorator s') = cs_max_payload (sr_decorator s)
     \<and> (\<exists>evs. crc_feed_all (sr_decorator s) (line_bytes [op]) = Some (sr_decorator s', evs) \<and> delivered_frames out = matched_frames evs)"
proof (cases "\<exists>data. op = Stream_read (Inl data)")
  case True
  then obtain data where d: "op = Stream_read (Inl data)" by blast
  let ?d = "sr_decorator s"
  have set: "crc_settled (cs_max_payload ?d) ?d" using ok by (simp add: serial_ok_def)
  obtain d' evs where f: "crc_feed ?d data = Some (d', evs)" "crc_settled (cs_max_payload ?d) d'"
    using crc_feed_settled [OF set, of data] by blast
  then have m: "cs_max_payload d' = cs_max_payload ?d" by (simp add: crc_settled_def)
  have st: "sc_alive (sr_base s)" "sc_socket_open (sr_base s)" using ok by (auto simp: serial_ok_def stream_ok_def)
  with f m ok show ?thesis
    by (auto simp: d serial_read_completion_def serial_do_read_def Let_def serial_ok_def fatal_decorator)
next
  case False
  have base: "stream_ok (sr_base s)" "sc_open (sr_base s)" using ok by (simp_all add: serial_ok_def)
  obtain c out where c: "stream_step (sr_base s) op = Some (c, out)" "stream_ok c"
    using stream_step_ok [OF base(1), of op] by (auto simp: safely_def)
  have ev: "sc_open c = sc_open (sr_base s) \<and> \<not> list_ex fatal (map Sr_stream out) \<and> delivered_frames (map Sr_stream out) = []"
  proof (cases op)
    case (Stream_send f)
    then show ?thesis using c(1) stream_send_events by (auto split: if_splits)
  next
    case (Stream_written ec)
    then show ?thesis using c(1) op write_done_events by (cases ec) auto
  qed (use op False in \<open>auto elim!: line_op.elims\<close>)
  have "serial_step s op = Some (s\<lparr>sr_base := c\<rparr>, map Sr_stream out)" and nb: "line_bytes [op] = []"
    using c(1) op False by (cases op; auto elim!: line_op.elims)+
  with ev c(2) ok base show ?thesis by (auto simp: serial_ok_def)
qed

lemma crc_feed_all_append:
  "crc_feed_all s (xs @ ys) = do { (s1, e1) \<leftarrow> crc_feed_all s xs; (s2, e2) \<leftarrow> crc_feed_all s1 ys; Some (s2, e1 @ e2) }"
proof (induction xs arbitrary: s)
  case (Cons x xs)
  then show ?case by (cases "crc_feed s x") (auto split: Option.bind_splits)
qed (auto split: Option.bind_splits)

lemma line_run:
  "serial_ok s \<Longrightarrow> list_all line_op ops \<Longrightarrow> \<exists>s' out. run_safe serial_step s ops = Some (s', out) \<and> serial_ok s' \<and> \<not> list_ex fatal out
     \<and> (\<exists>evs. crc_feed_all (sr_decorator s) (line_bytes ops) = Some (sr_decorator s', evs) \<and> delivered_frames out = matched_frames evs)"
proof (induction ops arbitrary: s)
  case (Cons op ops)
  obtain s1 o1 e1 where s1: "serial_step s op = Some (s1, o1)" "serial_ok s1" "\<not> list_ex fatal o1"
    "crc_feed_all (sr_decorator s) (line_bytes [op]) = Some (sr_decorator s1, e1)" "delivered_frames o1 = matched_frames e1"
    using line_step [OF Cons.prems(1), of op] Cons.prems(2) by auto
  obtain s2 o2 e2 where s2: "run_safe serial_step s1 ops = Some (s2, o2)" "serial_ok s2" "\<not> list_ex fatal o2"
    "crc_feed_all (sr_decorator s1) (line_bytes ops) = Some (sr_decorator s2, e2)" "delivered_frames o2 = matched_frames e2"
    using Cons.IH [OF s1(2)] Cons.prems(2) by auto
  have "line_bytes (op # ops) = line_bytes [op] @ line_bytes ops" by (cases op rule: line_op.cases) simp_all
  moreover have "crc_feed_all (sr_decorator s) (line_bytes [op] @ line_bytes ops) = Some (sr_decorator s2, e1 @ e2)"
    using s1(4) s2(4) by (simp add: crc_feed_all_append)
  ultimately show ?case using s1 s2 by auto
qed simp

lemma serial_ok_start: "throughput_ok cfg \<Longrightarrow> serial_ok (serial_start_read (serial_channel_init cfg cong cap key))"
  using stream_ok_start [of cfg serial_bootstrap cong cap key] crc_settled_init [of "si_max_payload_size cfg"]
  by (simp add: serial_ok_def serial_start_read_def serial_channel_init_def serial_do_read_def start_read_def start_read_loop_def
      stream_do_read_def stream_channel_init_def stream_ok_def crc_settled_def crc_serial_init_def)

text \<open>
  C21. A serial link survives its line: over any interleaving of sends, finished writes and reads of
  arbitrary bytes the channel neither faults nor closes nor raises a fatal error, and delivers exactly
  the verified frames of the byte stream it read. A read that completed before the channel was
  destroyed and is handled after it, however, touches the destroyed channel.
\<close>

theorem serial_link_survives_noise:
  assumes "throughput_ok cfg" and "list_all line_op ops" and "r \<noteq> Inr operation_aborted"
  shows "\<exists>s out. run_safe serial_step (serial_start_read (serial_channel_init cfg cong cap key)) ops = Some (s, out)
     \<and> sc_open (sr_base s) \<and> \<not> list_ex fatal out
     \<and> delivered_frames out = matched_frames (fst (scan (si_max_payload_size cfg) (concat (line_bytes ops))))
     \<and> run_safe serial_step s [Stream_destroy, Stream_read r] = None"
proof -
  let ?s = "serial_start_read (serial_channel_init cfg cong cap key)"
  have d: "sr_decorator ?s = crc_serial_init (si_max_payload_size cfg)"
    by (simp add: serial_start_read_def serial_channel_init_def serial_do_read_def)
  obtain s out evs where s: "run_safe serial_step ?s ops = Some (s, out)" "serial_ok s" "\<not> list_ex fatal out"
    "crc_feed_all (sr_decorator ?s) (line_bytes ops) = Some (sr_decorator s, evs)" "delivered_frames out = matched_frames evs"
    using line_run [OF serial_ok_start [OF assms(1)] assms(2)] by blast
  have "evs = fst (scan (si_max_payload_size cfg) (concat (line_bytes ops)))"
    using s(4) crc_feed_all_spec [OF crc_settled_init, of "si_max_payload_size cfg" "line_bytes ops"] unfolding d
    by (auto simp: crc_serial_init_def)
  moreover have "run_safe serial_step s [Stream_destroy, Stream_read r] = None"
    using s(2) assms(3) by (auto simp: serial_read_completion_def serial_ok_def stream_destroy_def shutdown_socket_def Let_def)
  ultimately show ?thesis using s(1-3,5) by (auto simp: serial_ok_def)
qed

theorem serial_link_survives_noise_witness:
  "\<exists>s out. run_safe serial_step (serial_start_read (serial_channel_init default_stream_inbound_config block 100 1))
       [Stream_read (Inl [0x56, 0, 7]), Stream_send (replicate 28 0), Stream_written None] = Some (s, out)
     \<and> sc_open (sr_base s) \<and> run_safe serial_step s [Stream_destroy, Stream_read (Inl [])] = None"
proof -
  have "list_all line_op [Stream_read (Inl [0x56, 0, 7]), Stream_send (replicate 28 0), Stream_written None]" by simp
  from serial_link_survives_noise [OF default_throughput_ok this, of "Inl []"] show ?thesis by blast
qed

end
