(* ===== verification/Attach.thy ===== *)
theory Attach
  imports Handshake_Codec
begin

text \<open>
  The attach decision and its inputs (\<open>io/security/ct_equal.h\<close>, \<open>cookie_secret.h\<close>, \<open>attach_facts.h\<close>,
  \<open>attach_policy.h\<close>, \<open>io/detail/attach_resolve.h\<close>, \<open>io/attach_negotiator.h\<close>). The keyed MAC, the transcript
  digest and the random source are injected into the program; here they are arguments. A MAC or digest
  that fails is \<open>None\<close>; a failed draw leaves the buffer as it was.
\<close>

section \<open>Constant-time comparison\<close>

definition ct_equal :: "bytes \<Rightarrow> bytes \<Rightarrow> bool" where
  "ct_equal a b = (if length a \<noteq> length b then False
     else fold (\<lambda>(x, y) diff. diff OR (x XOR y)) (zip a b) 0 = 0)"

lemma ct_fold_zero:
  "length a = length b \<Longrightarrow> fold (\<lambda>(x, y) diff. diff OR (x XOR y)) (zip a b) d = (0 :: u8) \<longleftrightarrow> d = 0 \<and> a = b"
proof (induction a b arbitrary: d rule: list_induct2)
  case (Cons x xs y ys)
  have "d OR (x XOR y) = 0 \<longleftrightarrow> d = 0 \<and> x = y"
    by (auto simp: bit_eq_iff bit_or_iff bit_xor_iff)
  with Cons.IH show ?case by auto
qed simp

lemma ct_equal_eq: "ct_equal a b \<longleftrightarrow> a = b"
  using ct_fold_zero [of a b 0] by (auto simp: ct_equal_def)

section \<open>The source-address cookie\<close>

type_synonym hmac_fn = "bytes \<Rightarrow> bytes \<Rightarrow> bytes option"

record cookie_secret =
  ck_key :: bytes
  ck_cur :: bytes
  ck_prev :: bytes
  ck_last_rotate :: int

definition k_cookie_len :: nat where "k_cookie_len = 32"

text \<open>60 seconds, in nanoseconds.\<close>

definition k_default_rotation :: int where "k_default_rotation = 60 * 1000000000"

text \<open>The outer \<open>None\<close> is the refusal to construct on a degraded random source.\<close>

definition cookie_secret_init :: "bytes option \<Rightarrow> bytes option \<Rightarrow> bytes option \<Rightarrow> int \<Rightarrow> cookie_secret option" where
  "cookie_secret_init rand_key rand_cur rand_prev now = do {
     key \<leftarrow> rand_key; cur \<leftarrow> rand_cur; prev \<leftarrow> rand_prev;
     Some \<lparr>ck_key = key, ck_cur = cur, ck_prev = prev, ck_last_rotate = now\<rparr>
   }"

definition maybe_rotate :: "int \<Rightarrow> bytes option \<Rightarrow> cookie_secret \<Rightarrow> cookie_secret" where
  "maybe_rotate now rand c =
     (if now - ck_last_rotate c < k_default_rotation then c
      else case rand of None \<Rightarrow> c
           | Some next \<Rightarrow> c\<lparr>ck_prev := ck_cur c, ck_cur := next, ck_last_rotate := now\<rparr>)"

definition cookie_mac :: "hmac_fn \<Rightarrow> bytes \<Rightarrow> bytes \<Rightarrow> cookie_secret \<Rightarrow> bytes option" where
  "cookie_mac hmac peer_addr nonce c = hmac (ck_key c) (peer_addr @ nonce)"

definition cookie_mint :: "hmac_fn \<Rightarrow> bytes \<Rightarrow> cookie_secret \<Rightarrow> bytes option" where
  "cookie_mint hmac peer_addr c = cookie_mac hmac peer_addr (ck_cur c) c"

definition mac_matches :: "hmac_fn \<Rightarrow> bytes \<Rightarrow> bytes \<Rightarrow> bytes \<Rightarrow> cookie_secret \<Rightarrow> bool" where
  "mac_matches hmac peer_addr nonce cookie c =
     (case cookie_mac hmac peer_addr nonce c of None \<Rightarrow> False | Some expected \<Rightarrow> ct_equal expected cookie)"

definition cookie_validate :: "hmac_fn \<Rightarrow> bytes \<Rightarrow> bytes \<Rightarrow> cookie_secret \<Rightarrow> bool" where
  "cookie_validate hmac peer_addr cookie c =
     (if length cookie \<noteq> k_cookie_len then False
      else if mac_matches hmac peer_addr (ck_cur c) cookie c then True
      else if mac_matches hmac peer_addr (ck_prev c) cookie c then True
      else False)"

fun rotations :: "(int \<times> bytes option) list \<Rightarrow> cookie_secret \<Rightarrow> cookie_secret" where
  "rotations [] c = c"
| "rotations ((now, rand) # rs) c = rotations rs (maybe_rotate now rand c)"

lemma maybe_rotate_key [simp]: "ck_key (maybe_rotate now rand c) = ck_key c"
  by (simp add: maybe_rotate_def split: option.splits)

lemma rotations_key [simp]: "ck_key (rotations rs c) = ck_key c"
  by (induction rs c rule: rotations.induct) simp_all

text \<open>A nonce stays current or previous until twice the period after the rotation that installed it.\<close>

lemma nonce_lives:
  "list_all (\<lambda>(now, _). now < t) rs \<Longrightarrow>
   (n = ck_cur c \<and> t \<le> ck_last_rotate c + 2 * k_default_rotation) \<or> (n = ck_prev c \<and> t \<le> ck_last_rotate c + k_default_rotation) \<Longrightarrow>
   n = ck_cur (rotations rs c) \<or> n = ck_prev (rotations rs c)"
proof (induction rs c rule: rotations.induct)
  case (2 now rand rs c)
  have "(n = ck_cur (maybe_rotate now rand c) \<and> t \<le> ck_last_rotate (maybe_rotate now rand c) + 2 * k_default_rotation)
      \<or> (n = ck_prev (maybe_rotate now rand c) \<and> t \<le> ck_last_rotate (maybe_rotate now rand c) + k_default_rotation)"
    using 2(2,3) by (auto simp: maybe_rotate_def split: option.splits)
  with 2 show ?case by simp
qed auto

text \<open>
  C22. Source-address cookies: a cookie is accepted exactly when it is the MAC of the very address under
  the current or the previous nonce, and a minted cookie is accepted at every time before twice the
  rotation period has passed since the nonce it was minted under was installed, however often
  rotation is attempted in between and whether or not the random source fails.
\<close>

theorem cookie_window:
  assumes "\<And>k m t. hmac k m = Some t \<Longrightarrow> length t = k_cookie_len"
    and "cookie_mint hmac peer_addr c = Some cookie"
    and "list_all (\<lambda>(now, _). now < ck_last_rotate c + 2 * k_default_rotation) rs"
  shows "cookie_validate hmac peer_addr cookie (rotations rs c)
     \<and> (\<forall>a m. cookie_validate hmac a m c \<longleftrightarrow> hmac (ck_key c) (a @ ck_cur c) = Some m \<or> hmac (ck_key c) (a @ ck_prev c) = Some m)"
proof -
  have v: "cookie_validate hmac a m s \<longleftrightarrow> hmac (ck_key s) (a @ ck_cur s) = Some m \<or> hmac (ck_key s) (a @ ck_prev s) = Some m" for a m s
    using assms(1) by (auto simp: cookie_validate_def mac_matches_def cookie_mac_def ct_equal_eq split: option.splits)
  have "ck_cur c = ck_cur (rotations rs c) \<or> ck_cur c = ck_prev (rotations rs c)"
    using nonce_lives [OF assms(3), of "ck_cur c"] by simp
  with assms(2) show ?thesis unfolding v by (auto simp: cookie_mint_def cookie_mac_def)
qed

text \<open>A function with the shape of a MAC, for concrete runs.\<close>

definition toy_hmac :: hmac_fn where
  "toy_hmac k m = Some (replicate 31 1 @ [of_nat (length k) + 3 * sum_list m])"

lemma toy_hmac_length: "toy_hmac k m = Some t \<Longrightarrow> length t = 32"
  by (auto simp: toy_hmac_def)

theorem cookie_window_witness:
  "cookie_validate toy_hmac [1, 2] (replicate 31 1 @ [12])
     (rotations [(59, Some [5]), (60000000000, Some [6]), (70000000000, None)] \<lparr>ck_key = [], ck_cur = [1], ck_prev = [2], ck_last_rotate = 0\<rparr>)"
  using cookie_window [of toy_hmac "[1, 2]" "\<lparr>ck_key = [], ck_cur = [1], ck_prev = [2], ck_last_rotate = 0\<rparr>" "replicate 31 1 @ [12]"
      "[(59, Some [5]), (60000000000, Some [6]), (70000000000, None)]"] toy_hmac_length
  by (simp add: k_cookie_len_def cookie_mint_def cookie_mac_def toy_hmac_def k_default_rotation_def)

section \<open>Facts and proofs\<close>

type_synonym node_id = bytes

datatype attach_role = initiator | responder

fun role_byte :: "attach_role \<Rightarrow> u8" where
  "role_byte initiator = 0"
| "role_byte responder = 1"

record attach_facts =
  af_key_id :: bytes
  af_initiator_id :: node_id
  af_responder_id :: node_id
  af_peer_nonce :: bytes
  af_own_nonce :: bytes
  af_transcript_digest :: bytes
  af_role :: attach_role
  af_proof :: bytes

definition zero_facts :: attach_facts where
  "zero_facts = \<lparr>af_key_id = replicate 8 0, af_initiator_id = replicate 16 0, af_responder_id = replicate 16 0, af_peer_nonce = replicate 16 0,
     af_own_nonce = replicate 16 0, af_transcript_digest = replicate 32 0, af_role = initiator, af_proof = []\<rparr>"

definition proof_label :: bytes where
  "proof_label = [0x70, 0x6C, 0x65, 0x78, 0x75, 0x73, 0x2D, 0x61, 0x74, 0x74, 0x61, 0x63, 0x68]"

definition attach_proof_input :: "attach_facts \<Rightarrow> bytes" where
  "attach_proof_input f = proof_label @ [role_byte (af_role f)] @ af_initiator_id f @ af_responder_id f @ af_peer_nonce f
     @ af_own_nonce f @ af_transcript_digest f"

record keyed_psk =
  kp_key_id :: bytes
  kp_material :: bytes

definition k_min_psk_len :: nat where "k_min_psk_len = 16"

text \<open>Construction fails closed on short key material.\<close>

definition psk_keystore_init :: "keyed_psk list \<Rightarrow> keyed_psk list option" where
  "psk_keystore_init ks = (if list_ex (\<lambda>k. length (kp_material k) < k_min_psk_len) ks then None else Some ks)"

definition psk_lookup :: "keyed_psk list \<Rightarrow> bytes \<Rightarrow> keyed_psk option" where
  "psk_lookup ks ident = List.find (\<lambda>k. kp_key_id k = ident) ks"

definition psk_decide :: "hmac_fn \<Rightarrow> keyed_psk list \<Rightarrow> attach_facts \<Rightarrow> bool" where
  "psk_decide hmac ks facts =
     (case psk_lookup ks (af_key_id facts) of
        None \<Rightarrow> False
      | Some key \<Rightarrow> (case hmac (kp_material key) (attach_proof_input facts) of
          None \<Rightarrow> False
        | Some expected \<Rightarrow> ct_equal expected (af_proof facts)))"

definition accept_any :: "attach_facts \<Rightarrow> bool" where
  "accept_any facts = True"

text \<open>A disengaged prover holds no key.\<close>

type_synonym attach_prover = "keyed_psk option"

definition prove :: "hmac_fn \<Rightarrow> keyed_psk \<Rightarrow> attach_facts \<Rightarrow> bytes option" where
  "prove hmac key facts = hmac (kp_material key) (attach_proof_input facts)"

definition authenticated_peer_id :: "attach_facts \<Rightarrow> node_id" where
  "authenticated_peer_id facts = (if af_role facts = initiator then af_responder_id facts else af_initiator_id facts)"

section \<open>The negotiator\<close>

record security_negotiation =
  sn_key_id :: bytes
  sn_initiator_nonce :: bytes
  sn_responder_nonce :: bytes
  sn_transcript_digest :: bytes
  sn_role :: attach_role
  sn_chosen_cipher :: u8

text \<open>A seam is engaged when it carries a digest function; the outer option is the borrowed pointer.\<close>

type_synonym security_seam = "(bytes \<Rightarrow> bytes option) option"

record pending_attach =
  pa_facts :: attach_facts
  pa_negotiation :: security_negotiation
  pa_engaged :: bool

definition zero_negotiation :: security_negotiation where
  "zero_negotiation = \<lparr>sn_key_id = replicate 8 0, sn_initiator_nonce = replicate 16 0, sn_responder_nonce = replicate 16 0,
     sn_transcript_digest = replicate 32 0, sn_role = initiator, sn_chosen_cipher = 0\<rparr>"

record attach_negotiator =
  an_install_hook :: bool
  an_seam :: "security_seam option"
  an_pending :: pending_attach
  an_identity :: "node_id option"
  an_own_nonce :: bytes
  an_key_id :: bytes
  an_peer_proof :: bytes
  an_prover :: attach_prover

definition attach_negotiator_init :: attach_negotiator where
  "attach_negotiator_init = \<lparr>an_install_hook = False, an_seam = None,
     an_pending = \<lparr>pa_facts = zero_facts, pa_negotiation = zero_negotiation, pa_engaged = False\<rparr>,
     an_identity = None, an_own_nonce = replicate 16 0, an_key_id = replicate 8 0, an_peer_proof = replicate 32 0, an_prover = None\<rparr>"

text \<open>\<open>rand\<close> is the outcome of the draw, \<open>None\<close> also when no source is installed.\<close>

definition prime_negotiator :: "bytes option \<Rightarrow> attach_negotiator \<Rightarrow> attach_negotiator" where
  "prime_negotiator rand n =
     (let n = (case rand of Some nonce \<Rightarrow> n\<lparr>an_own_nonce := nonce\<rparr> | None \<Rightarrow> n) in
      case an_prover n of Some key \<Rightarrow> n\<lparr>an_key_id := kp_key_id key\<rparr> | None \<Rightarrow> n)"

definition seam_engaged :: "attach_negotiator \<Rightarrow> bool" where
  "seam_engaged n = (case an_seam n of Some (Some _) \<Rightarrow> True | _ \<Rightarrow> False)"

definition cipher_chacha20_poly1305 :: u8 where "cipher_chacha20_poly1305 = 0x01"

definition cipher_offer :: "attach_negotiator \<Rightarrow> u8" where
  "cipher_offer n = (if seam_engaged n then cipher_chacha20_poly1305 else 0)"

datatype security_kind = unauthorized_attach | downgrade_refused | posture_mismatch | stream_tamper_teardown | rekey

definition classify_unauthorized :: "attach_negotiator \<Rightarrow> security_kind" where
  "classify_unauthorized n = (if pa_engaged (an_pending n) then downgrade_refused else unauthorized_attach)"

definition transcript_of :: "'a handshake_request_scheme \<Rightarrow> security_negotiation \<Rightarrow> bytes" where
  "transcript_of frame neg = [hs_cipher_offer frame, hs_chosen_cipher frame, k_protocol_version] @ sn_initiator_nonce neg @ sn_responder_nonce neg"

definition compute_transcript ::
  "(bytes \<Rightarrow> bytes option) \<Rightarrow> attach_facts \<Rightarrow> security_negotiation \<Rightarrow> 'a handshake_request_scheme \<Rightarrow> attach_facts" where
  "compute_transcript seam facts neg frame =
     (case seam (transcript_of frame neg) of Some digest \<Rightarrow> facts\<lparr>af_transcript_digest := digest\<rparr> | None \<Rightarrow> facts)"

definition assemble_pending ::
  "bytes \<Rightarrow> (bytes \<Rightarrow> bytes option) option \<Rightarrow> 'a handshake_request_scheme \<Rightarrow> attach_role \<Rightarrow> node_id \<Rightarrow> node_id \<Rightarrow> pending_attach" where
  "assemble_pending own_nonce engaged frame local_role peer_id self_id =
     (let init = (local_role = initiator);
          neg = zero_negotiation\<lparr>sn_key_id := hs_key_id frame, sn_role := local_role, sn_chosen_cipher := hs_chosen_cipher frame,
                  sn_initiator_nonce := if init then own_nonce else hs_own_nonce frame,
                  sn_responder_nonce := if init then hs_own_nonce frame else own_nonce\<rparr>;
          facts = zero_facts\<lparr>af_key_id := hs_key_id frame, af_initiator_id := if init then self_id else peer_id,
                  af_responder_id := if init then peer_id else self_id, af_peer_nonce := hs_own_nonce frame,
                  af_own_nonce := own_nonce, af_role := local_role\<rparr>;
          facts = (case engaged of Some seam \<Rightarrow> compute_transcript seam facts neg frame | None \<Rightarrow> facts)
      in \<lparr>pa_facts = facts, pa_negotiation = neg\<lparr>sn_transcript_digest := af_transcript_digest facts\<rparr>, pa_engaged = engaged \<noteq> None\<rparr>)"

definition assemble ::
  "'a handshake_request_scheme \<Rightarrow> attach_role \<Rightarrow> node_id \<Rightarrow> node_id \<Rightarrow> bool \<Rightarrow> attach_negotiator \<Rightarrow> attach_negotiator" where
  "assemble frame local_role peer_id self_id policy_engaged n =
     n\<lparr>an_pending := assemble_pending (an_own_nonce n)
         (if policy_engaged then case an_seam n of Some s \<Rightarrow> s | None \<Rightarrow> None else None) frame local_role peer_id self_id\<rparr>"

definition latch_peer_proof :: "'a handshake_request_scheme \<Rightarrow> attach_negotiator \<Rightarrow> attach_negotiator" where
  "latch_peer_proof frame n =
     n\<lparr>an_peer_proof := hs_proof frame, an_pending := (an_pending n)\<lparr>pa_facts := (pa_facts (an_pending n))\<lparr>af_proof := hs_proof frame\<rparr>\<rparr>\<rparr>"

definition posture_mismatched :: "'a handshake_request_scheme \<Rightarrow> attach_negotiator \<Rightarrow> bool" where
  "posture_mismatched frame n \<longleftrightarrow> seam_engaged n \<noteq> (hs_cipher_offer frame \<noteq> 0)"

definition response_proof :: "hmac_fn \<Rightarrow> attach_negotiator \<Rightarrow> bytes" where
  "response_proof hmac n =
     (case an_prover n of None \<Rightarrow> replicate k_handshake_proof_len 0
      | Some key \<Rightarrow>
          let facts = pa_facts (an_pending n);
              view = facts\<lparr>af_role := initiator, af_peer_nonce := af_own_nonce facts, af_own_nonce := af_peer_nonce facts\<rparr>
          in case prove hmac key view of Some proof \<Rightarrow> proof | None \<Rightarrow> replicate k_handshake_proof_len 0)"

text \<open>The second component tells whether the accept stands, the third what is handed to the decorator.\<close>

definition install_on_accept :: "bool \<Rightarrow> attach_negotiator \<Rightarrow> attach_negotiator \<times> bool \<times> security_negotiation option" where
  "install_on_accept self_securing n =
     (if \<not> pa_engaged (an_pending n) then (n, True, None)
      else let n = n\<lparr>an_identity := Some (authenticated_peer_id (pa_facts (an_pending n)))\<rparr> in
        if self_securing then (n, True, None)
        else if \<not> an_install_hook n then (n, False, None)
        else (n, True, Some (pa_negotiation (an_pending n))))"

definition clear_identity :: "attach_negotiator \<Rightarrow> attach_negotiator" where
  "clear_identity n = n\<lparr>an_identity := None\<rparr>"

section \<open>What a proof binds\<close>

definition facts_wf :: "attach_facts \<Rightarrow> bool" where
  "facts_wf f \<longleftrightarrow> length (af_initiator_id f) = 16 \<and> length (af_responder_id f) = 16 \<and> length (af_peer_nonce f) = 16
     \<and> length (af_own_nonce f) = 16 \<and> length (af_transcript_digest f) = 32"

lemma attach_proof_input_inject:
  assumes "facts_wf f" and "facts_wf g"
  shows "attach_proof_input f = attach_proof_input g \<longleftrightarrow> af_role f = af_role g \<and> af_initiator_id f = af_initiator_id g
     \<and> af_responder_id f = af_responder_id g \<and> af_peer_nonce f = af_peer_nonce g \<and> af_own_nonce f = af_own_nonce g
     \<and> af_transcript_digest f = af_transcript_digest g"
proof -
  have "role_byte r = role_byte r' \<longleftrightarrow> r = r'" for r r' by (cases r; cases r') simp_all
  with assms show ?thesis by (auto simp: attach_proof_input_def facts_wf_def)
qed

lemma transcript_inject:
  fixes frame :: "'a handshake_request_scheme" and frame' :: "'b handshake_request_scheme"
  assumes "length (sn_initiator_nonce n) = length (sn_initiator_nonce m)"
  shows "transcript_of frame n = transcript_of frame' m \<longleftrightarrow> hs_cipher_offer frame = hs_cipher_offer frame'
     \<and> hs_chosen_cipher frame = hs_chosen_cipher frame' \<and> sn_initiator_nonce n = sn_initiator_nonce m \<and> sn_responder_nonce n = sn_responder_nonce m"
  using assms by (auto simp: transcript_of_def)

lemma psk_decide_iff:
  "psk_decide hmac ks f \<longleftrightarrow> (\<exists>key. psk_lookup ks (af_key_id f) = Some key \<and> hmac (kp_material key) (attach_proof_input f) = Some (af_proof f))"
  by (auto simp: psk_decide_def ct_equal_eq split: option.splits)

text \<open>The facts a responder proves: its own view seen from the dialer.\<close>

definition dialer_view :: "attach_facts \<Rightarrow> attach_facts" where
  "dialer_view f = f\<lparr>af_role := initiator, af_peer_nonce := af_own_nonce f, af_own_nonce := af_peer_nonce f\<rparr>"

lemma response_proof_engaged:
  "an_prover n = Some key \<Longrightarrow> hmac (kp_material key) (attach_proof_input (dialer_view (pa_facts (an_pending n)))) = Some mac \<Longrightarrow>
   response_proof hmac n = mac"
  by (simp add: response_proof_def prove_def dialer_view_def Let_def)

text \<open>What the two ends of one exchange assemble: the dialer from the response, the responder from the request.\<close>

definition dialer_facts :: "(bytes \<Rightarrow> bytes option) option \<Rightarrow> bytes \<Rightarrow> node_id \<Rightarrow> handshake_response \<Rightarrow> attach_facts" where
  "dialer_facts seam nonce self resp = (pa_facts (assemble_pending nonce seam resp initiator (hs_id resp) self))\<lparr>af_proof := hs_proof resp\<rparr>"

definition responder_facts :: "(bytes \<Rightarrow> bytes option) option \<Rightarrow> bytes \<Rightarrow> node_id \<Rightarrow> handshake_request \<Rightarrow> attach_facts" where
  "responder_facts seam nonce self req = pa_facts (assemble_pending nonce seam req responder (hs_id req) self)"

lemma dialer_facts_fields:
  "af_key_id (dialer_facts seam nonce self resp) = hs_key_id resp" "af_role (dialer_facts seam nonce self resp) = initiator"
  "af_initiator_id (dialer_facts seam nonce self resp) = self" "af_responder_id (dialer_facts seam nonce self resp) = hs_id resp"
  "af_peer_nonce (dialer_facts seam nonce self resp) = hs_own_nonce resp" "af_own_nonce (dialer_facts seam nonce self resp) = nonce"
  "af_proof (dialer_facts seam nonce self resp) = hs_proof resp"
  by (auto simp: dialer_facts_def assemble_pending_def compute_transcript_def zero_facts_def Let_def split: option.splits)

lemma responder_facts_fields:
  "af_role (dialer_view (responder_facts seam nonce self req)) = initiator"
  "af_initiator_id (dialer_view (responder_facts seam nonce self req)) = hs_id req"
  "af_responder_id (dialer_view (responder_facts seam nonce self req)) = self"
  "af_peer_nonce (dialer_view (responder_facts seam nonce self req)) = nonce"
  "af_own_nonce (dialer_view (responder_facts seam nonce self req)) = hs_own_nonce req"
  by (auto simp: responder_facts_def dialer_view_def assemble_pending_def compute_transcript_def zero_facts_def Let_def split: option.splits)

text \<open>The bytes a secured end digests: the offer and choice it saw and both nonces.\<close>

definition exchange_transcript :: "u8 \<Rightarrow> u8 \<Rightarrow> bytes \<Rightarrow> bytes \<Rightarrow> bytes" where
  "exchange_transcript offer chosen initiator_nonce responder_nonce = [offer, chosen, k_protocol_version] @ initiator_nonce @ responder_nonce"

lemma digests_of_exchange:
  "seam (exchange_transcript (hs_cipher_offer resp) (hs_chosen_cipher resp) nonce (hs_own_nonce resp)) = Some d \<Longrightarrow>
   af_transcript_digest (dialer_facts (Some seam) nonce self resp) = d"
  "seam (exchange_transcript (hs_cipher_offer req) (hs_chosen_cipher req) (hs_own_nonce req) nonce') = Some d' \<Longrightarrow>
   af_transcript_digest (dialer_view (responder_facts (Some seam) nonce' self' req)) = d'"
  by (auto simp: dialer_facts_def responder_facts_def dialer_view_def assemble_pending_def compute_transcript_def zero_negotiation_def
    transcript_of_def exchange_transcript_def Let_def)

definition same_exchange :: "node_id \<Rightarrow> bytes \<Rightarrow> handshake_response \<Rightarrow> handshake_request \<Rightarrow> node_id \<Rightarrow> bytes \<Rightarrow> bool" where
  "same_exchange self nonce resp req self' nonce' \<longleftrightarrow> self = hs_id req \<and> hs_id resp = self' \<and> nonce = hs_own_nonce req
     \<and> hs_own_nonce resp = nonce' \<and> hs_cipher_offer resp = hs_cipher_offer req \<and> hs_chosen_cipher resp = hs_chosen_cipher req"

definition collides :: "('a \<Rightarrow> 'b option) \<Rightarrow> 'a \<Rightarrow> 'a \<Rightarrow> bool" where
  "collides h x y \<longleftrightarrow> x \<noteq> y \<and> h x = h y \<and> h x \<noteq> None"

text \<open>
  C26. The pre-shared-key attach. A dialer with a key store admits a response exactly when its key is
  known and its proof is the MAC, under that key, of the label, the role, both node ids, both nonces
  and the digest. When the proof was made by a holder of the key for some request and its own
  nonce, then either the two ends saw the same ids, nonces, cipher offer and cipher choice, or the
  MAC or the digest collides on two different inputs, which are named. With nothing changed in
  transit the dialer admits.
\<close>

theorem psk_attach_binds:
  fixes resp :: handshake_response and req :: handshake_request
  defines "f \<equiv> \<lambda>seam nonce self. dialer_facts (Some seam) nonce self resp"
    and "g \<equiv> \<lambda>seam nonce' self'. dialer_view (responder_facts (Some seam) nonce' self' req)"
    and "seen \<equiv> \<lambda>nonce. exchange_transcript (hs_cipher_offer resp) (hs_chosen_cipher resp) nonce (hs_own_nonce resp)"
    and "proved \<equiv> \<lambda>nonce'. exchange_transcript (hs_cipher_offer req) (hs_chosen_cipher req) (hs_own_nonce req) nonce'"
  assumes key: "psk_lookup ks (hs_key_id resp) = Some key"
    and mac: "hmac (kp_material key) (attach_proof_input (g seam nonce' self')) = Some (hs_proof resp)"
    and dig: "seam (seen nonce) = Some d" "length d = 32" "seam (proved nonce') = Some d'" "length d' = 32"
    and lens: "length self = 16" "length self' = 16" "length nonce = 16" "length nonce' = 16" "length (hs_id req) = 16"
      "length (hs_own_nonce req) = 16" "length (hs_id resp) = 16" "length (hs_own_nonce resp) = 16"
  shows "(same_exchange self nonce resp req self' nonce' \<longrightarrow> psk_decide hmac ks (f seam nonce self))
     \<and> (psk_decide hmac ks (f seam nonce self) \<longrightarrow> same_exchange self nonce resp req self' nonce'
        \<or> collides (hmac (kp_material key)) (attach_proof_input (f seam nonce self)) (attach_proof_input (g seam nonce' self'))
        \<or> collides seam (seen nonce) (proved nonce'))"
proof -
  have d: "af_transcript_digest (f seam nonce self) = d" "af_transcript_digest (g seam nonce' self') = d'"
    using dig digests_of_exchange unfolding f_def g_def seen_def proved_def by simp_all
  have wf: "facts_wf (f seam nonce self)" "facts_wf (g seam nonce' self')" using dig lens d
    by (simp_all add: facts_wf_def f_def g_def dialer_facts_fields responder_facts_fields)
  have dec: "psk_decide hmac ks (f seam nonce self)
      \<longleftrightarrow> hmac (kp_material key) (attach_proof_input (f seam nonce self)) = hmac (kp_material key) (attach_proof_input (g seam nonce' self'))"
    using key mac by (auto simp: psk_decide_iff f_def dialer_facts_fields)
  have inj: "attach_proof_input (f seam nonce self) = attach_proof_input (g seam nonce' self') \<longleftrightarrow> self = hs_id req \<and> hs_id resp = self'
      \<and> hs_own_nonce resp = nonce' \<and> nonce = hs_own_nonce req \<and> d = d'"
    using attach_proof_input_inject [OF wf] by (auto simp: f_def g_def dialer_facts_fields responder_facts_fields d [unfolded f_def g_def])
  have tr: "seen nonce = proved nonce' \<longleftrightarrow> hs_cipher_offer resp = hs_cipher_offer req \<and> hs_chosen_cipher resp = hs_chosen_cipher req
      \<and> nonce = hs_own_nonce req \<and> hs_own_nonce resp = nonce'"
    using lens by (simp add: seen_def proved_def exchange_transcript_def)
  have same: "same_exchange self nonce resp req self' nonce'
      \<longleftrightarrow> attach_proof_input (f seam nonce self) = attach_proof_input (g seam nonce' self') \<and> seen nonce = proved nonce'"
    using dig(1,3) unfolding inj same_exchange_def tr by (metis option.inject tr)
  show ?thesis unfolding dec same using mac dig inj by (auto simp: collides_def)
qed

definition demo_response :: handshake_response where
  "demo_response = \<lparr>hs_id = replicate 16 2, hs_version_major = 1, hs_version_minor = 0, hs_compatible_version_major = 1,
     hs_compatible_version_minor = 0, hs_protocol_version = k_protocol_version, hs_fingerprint = 0, hs_key_id = replicate 8 7,
     hs_own_nonce = replicate 16 5, hs_cipher_offer = 1, hs_chosen_cipher = 1, hs_proof = replicate 32 9, hs_status = hs_accepted\<rparr>"

definition demo_request :: handshake_request where
  "demo_request = \<lparr>hs_id = replicate 16 1, hs_version_major = 1, hs_version_minor = 0, hs_compatible_version_major = 1,
     hs_compatible_version_minor = 0, hs_protocol_version = k_protocol_version, hs_fingerprint = 0, hs_key_id = replicate 8 7,
     hs_own_nonce = replicate 16 4, hs_cipher_offer = 1, hs_chosen_cipher = 1, hs_proof = replicate 32 0\<rparr>"

theorem psk_attach_binds_witness:
  "psk_decide (\<lambda>k m. Some (replicate 32 9)) [\<lparr>kp_key_id = replicate 8 7, kp_material = replicate 16 1\<rparr>]
     (dialer_facts (Some (\<lambda>t. Some (replicate 32 (hd t)))) (replicate 16 4) (replicate 16 1) demo_response)"
  using psk_attach_binds [of "[\<lparr>kp_key_id = replicate 8 7, kp_material = replicate 16 1\<rparr>]" demo_response
      "\<lparr>kp_key_id = replicate 8 7, kp_material = replicate 16 1\<rparr>" "\<lambda>k m. Some (replicate 32 9)" "\<lambda>t. Some (replicate 32 (hd t))"
      "replicate 16 5" "replicate 16 2" demo_request "replicate 16 4" "replicate 32 1" "replicate 32 1" "replicate 16 1"]
  by (simp add: psk_lookup_def demo_response_def demo_request_def exchange_transcript_def same_exchange_def)

end
