(* ===== verification/Handshake_Fsm.thy ===== *)
theory Handshake_Fsm
  imports Attach
begin

text \<open>
  The handshake state machine (\<open>io/handshake_protocol.h\<close>, \<open>io/handshake_fsm.h\<close>): pure steps that return an
  action for the session to execute. The attach policy is the decision function behind the borrowed
  pointer. Node ids compare as unsigned bytes, first difference first.
\<close>

section \<open>Vocabulary\<close>

datatype peer_fsm_state = not_connected | dialing | handshaking | handshake_resolved

datatype fsm_action = act_none | act_send_request | act_send_response | act_complete | act_retry | act_abort

datatype handshake_outcome = ho_none | accept_outbound | accept_inbound | reject_version | reject_identity | reject_unauthorized

datatype dedup_decision = dd_none | keep_outbound | keep_inbound

record fsm_step_result =
  fr_action :: fsm_action
  fr_outcome :: handshake_outcome
  fr_dedup :: dedup_decision

definition step_none :: fsm_step_result where
  "step_none = \<lparr>fr_action = act_none, fr_outcome = ho_none, fr_dedup = dd_none\<rparr>"

definition is_same_host :: "u64 \<Rightarrow> u64 \<Rightarrow> bool" where
  "is_same_host peer local \<longleftrightarrow> peer \<noteq> 0 \<and> peer = local"

record handshake_fsm_config =
  hc_self_id :: node_id
  hc_version_major :: u8
  hc_version_minor :: u8
  hc_compatible_version_major :: u8
  hc_compatible_version_minor :: u8
  hc_local_fingerprint :: u64
  hc_attach_policy :: "(attach_facts \<Rightarrow> bool) option"
  hc_handshake_retry :: u32

record handshake_fsm =
  hf_peer_id :: node_id
  hf_inbound_pending :: bool
  hf_state :: peer_fsm_state
  hf_complete_emitted :: bool
  hf_cfg :: handshake_fsm_config
  hf_peer_fingerprint :: u64
  hf_last_seen_version :: u8
  hf_retry_remaining :: u32

definition handshake_fsm_init :: "handshake_fsm_config \<Rightarrow> handshake_fsm" where
  "handshake_fsm_init cfg =
     \<lparr>hf_peer_id = replicate 16 0, hf_inbound_pending = False, hf_state = not_connected, hf_complete_emitted = False, hf_cfg = cfg,
      hf_peer_fingerprint = 0, hf_last_seen_version = 0, hf_retry_remaining = hc_handshake_retry cfg\<rparr>"

fun id_greater :: "bytes \<Rightarrow> bytes \<Rightarrow> bool" where
  "id_greater (a # as) (b # bs) = (if a = b then id_greater as bs else a > b)"
| "id_greater as bs = (as \<noteq> [] \<and> bs = [])"

section \<open>Steps\<close>

definition on_dial_started :: "handshake_fsm \<Rightarrow> handshake_fsm \<times> fsm_step_result" where
  "on_dial_started m = (if hf_state m = not_connected \<or> hf_state m = dialing then m\<lparr>hf_state := dialing\<rparr> else m, step_none)"

definition on_outbound_connected :: "handshake_fsm \<Rightarrow> handshake_fsm \<times> fsm_step_result" where
  "on_outbound_connected m =
     (if hf_state m = handshaking \<or> hf_state m = handshake_resolved then (m, step_none)
      else (m\<lparr>hf_state := handshaking\<rparr>, step_none\<lparr>fr_action := act_send_request\<rparr>))"

definition abort_result :: "handshake_outcome \<Rightarrow> handshake_fsm \<Rightarrow> handshake_fsm \<times> fsm_step_result" where
  "abort_result reason m = (m\<lparr>hf_state := not_connected\<rparr>, step_none\<lparr>fr_action := act_abort, fr_outcome := reason\<rparr>)"

definition arbitrate_dedup :: "handshake_fsm \<Rightarrow> dedup_decision" where
  "arbitrate_dedup m = (if id_greater (hc_self_id (hf_cfg m)) (hf_peer_id m) then keep_outbound else keep_inbound)"

definition is_version_compatible :: "u8 \<Rightarrow> u8 \<Rightarrow> handshake_fsm \<Rightarrow> bool" where
  "is_version_compatible peer_major peer_minor m \<longleftrightarrow>
     peer_major > hc_compatible_version_major (hf_cfg m)
     \<or> peer_major = hc_compatible_version_major (hf_cfg m) \<and> peer_minor \<ge> hc_compatible_version_minor (hf_cfg m)"

definition reject_version_result :: "handshake_fsm \<Rightarrow> handshake_fsm \<times> fsm_step_result" where
  "reject_version_result = abort_result reject_version"

definition identity_conflict_result :: "handshake_fsm \<Rightarrow> handshake_fsm \<times> fsm_step_result" where
  "identity_conflict_result = abort_result reject_identity"

definition reject_unauthorized_result :: "handshake_fsm \<Rightarrow> handshake_fsm \<times> fsm_step_result" where
  "reject_unauthorized_result = abort_result reject_unauthorized"

text \<open>The aborting result, if the frame's version, identity or attach facts refuse it.\<close>

definition refused :: "handshake_fsm \<times> fsm_step_result \<Rightarrow> handshake_fsm \<times> fsm_step_result option" where
  "refused mr = (fst mr, Some (snd mr))"

definition validate :: "u8 \<Rightarrow> node_id \<Rightarrow> u64 \<Rightarrow> attach_facts \<Rightarrow> handshake_fsm \<Rightarrow> handshake_fsm \<times> fsm_step_result option" where
  "validate version peer_id fingerprint facts m =
     (let m = m\<lparr>hf_peer_id := peer_id, hf_peer_fingerprint := fingerprint\<rparr> in
      if version \<noteq> k_protocol_version then refused (reject_version_result m)
      else if peer_id = hc_self_id (hf_cfg m) then refused (identity_conflict_result m)
      else if (case hc_attach_policy (hf_cfg m) of None \<Rightarrow> False | Some decide \<Rightarrow> \<not> decide facts)
           then refused (reject_unauthorized_result m)
      else (m, None))"

definition racing_outbound :: "handshake_fsm \<Rightarrow> bool" where
  "racing_outbound m \<longleftrightarrow> hf_state m = handshaking \<or> hf_state m = handshake_resolved"

definition complete_inbound :: "dedup_decision \<Rightarrow> handshake_fsm \<Rightarrow> handshake_fsm \<times> fsm_step_result" where
  "complete_inbound d m = (m\<lparr>hf_state := handshake_resolved, hf_complete_emitted := True\<rparr>,
     \<lparr>fr_action = act_complete, fr_outcome = accept_inbound, fr_dedup = d\<rparr>)"

definition accept_inbound_no_complete :: fsm_step_result where
  "accept_inbound_no_complete = step_none\<lparr>fr_action := act_send_response, fr_outcome := accept_inbound\<rparr>"

definition resolve_inbound :: "bool \<Rightarrow> handshake_fsm \<Rightarrow> handshake_fsm \<times> fsm_step_result" where
  "resolve_inbound inbound_is_bootstrap m =
     (let m = m\<lparr>hf_inbound_pending := True\<rparr> in
      if racing_outbound m then
        if hf_complete_emitted m then (m, accept_inbound_no_complete) else complete_inbound (arbitrate_dedup m) m
      else if inbound_is_bootstrap then complete_inbound dd_none m
      else (m\<lparr>hf_state := handshake_resolved\<rparr>, accept_inbound_no_complete))"

definition resolve_outbound :: "handshake_fsm \<Rightarrow> handshake_fsm \<times> fsm_step_result" where
  "resolve_outbound m =
     (if hf_state m \<noteq> handshaking \<and> hf_state m \<noteq> handshake_resolved then (m, step_none)
      else if hf_complete_emitted m then (m, step_none)
      else let d = (if hf_inbound_pending m then arbitrate_dedup m else dd_none) in
        (m\<lparr>hf_state := handshake_resolved, hf_complete_emitted := True\<rparr>,
         \<lparr>fr_action = act_complete, fr_outcome = accept_outbound, fr_dedup = d\<rparr>))"

definition on_request :: "handshake_request \<Rightarrow> bool \<Rightarrow> attach_facts \<Rightarrow> handshake_fsm \<Rightarrow> handshake_fsm \<times> fsm_step_result" where
  "on_request req inbound_is_bootstrap facts m =
     (let m = m\<lparr>hf_last_seen_version := hs_protocol_version req\<rparr> in
      case validate (hs_protocol_version req) (hs_id req) (hs_fingerprint req) facts m of
        (m, Some gate) \<Rightarrow> (m, gate)
      | (m, None) \<Rightarrow>
          if \<not> is_version_compatible (hs_version_major req) (hs_version_minor req) m then reject_version_result m
          else resolve_inbound inbound_is_bootstrap m)"

definition on_response :: "handshake_response \<Rightarrow> attach_facts \<Rightarrow> handshake_fsm \<Rightarrow> handshake_fsm \<times> fsm_step_result" where
  "on_response resp facts m =
     (let m = m\<lparr>hf_last_seen_version := hs_protocol_version resp\<rparr> in
      case validate (hs_protocol_version resp) (hs_id resp) (hs_fingerprint resp) facts m of
        (m, Some gate) \<Rightarrow> (m, gate)
      | (m, None) \<Rightarrow>
          if hs_status resp = hs_identity_conflict then identity_conflict_result m
          else if hs_status resp \<noteq> hs_accepted then reject_version_result m
          else if \<not> is_version_compatible (hs_version_major resp) (hs_version_minor resp) m then reject_version_result m
          else resolve_outbound m)"

definition on_timeout :: "handshake_fsm \<Rightarrow> handshake_fsm \<times> fsm_step_result" where
  "on_timeout m =
     (if hf_state m = handshaking then
        if hf_retry_remaining m > 0
        then (m\<lparr>hf_retry_remaining := hf_retry_remaining m - 1\<rparr>, step_none\<lparr>fr_action := act_send_request\<rparr>)
        else (m\<lparr>hf_state := not_connected\<rparr>, step_none\<lparr>fr_action := act_abort\<rparr>)
      else if hf_state m = dialing then (m, step_none\<lparr>fr_action := act_retry\<rparr>)
      else (m, step_none))"

definition on_external_complete :: "handshake_fsm \<Rightarrow> handshake_fsm \<times> fsm_step_result" where
  "on_external_complete m =
     (if hf_complete_emitted m then (m, step_none)
      else (m\<lparr>hf_state := handshake_resolved, hf_complete_emitted := True\<rparr>,
            step_none\<lparr>fr_action := act_complete, fr_outcome := accept_outbound\<rparr>))"

definition on_torn_down :: "handshake_fsm \<Rightarrow> handshake_fsm \<times> fsm_step_result" where
  "on_torn_down m =
     (m\<lparr>hf_state := not_connected, hf_inbound_pending := False, hf_complete_emitted := False,
        hf_retry_remaining := hc_handshake_retry (hf_cfg m)\<rparr>, step_none)"

lemmas fsm_defs = on_dial_started_def on_outbound_connected_def on_request_def on_response_def on_timeout_def on_external_complete_def
  on_torn_down_def abort_result_def reject_version_result_def identity_conflict_result_def
  reject_unauthorized_result_def refused_def validate_def resolve_inbound_def resolve_outbound_def complete_inbound_def accept_inbound_no_complete_def
  step_none_def racing_outbound_def Let_def

section \<open>Runs\<close>

datatype fsm_event =
  Ev_dial_started | Ev_outbound_connected | Ev_request handshake_request bool attach_facts | Ev_response handshake_response attach_facts
  | Ev_timeout | Ev_external_complete | Ev_torn_down

fun fsm_step :: "handshake_fsm \<Rightarrow> fsm_event \<Rightarrow> handshake_fsm \<times> fsm_step_result" where
  "fsm_step m Ev_dial_started = on_dial_started m"
| "fsm_step m Ev_outbound_connected = on_outbound_connected m"
| "fsm_step m (Ev_request req boot facts) = on_request req boot facts m"
| "fsm_step m (Ev_response resp facts) = on_response resp facts m"
| "fsm_step m Ev_timeout = on_timeout m"
| "fsm_step m Ev_external_complete = on_external_complete m"
| "fsm_step m Ev_torn_down = on_torn_down m"

fun fsm_run :: "handshake_fsm \<Rightarrow> fsm_event list \<Rightarrow> handshake_fsm \<times> (fsm_event \<times> fsm_step_result) list" where
  "fsm_run m [] = (m, [])"
| "fsm_run m (e # es) = (let (m, r) = fsm_step m e; (m, rs) = fsm_run m es in (m, (e, r) # rs))"

text \<open>The completions since the cycle began; an abort or a teardown ends the cycle.\<close>

fun cycle_completions :: "nat \<Rightarrow> (fsm_event \<times> fsm_step_result) list \<Rightarrow> nat list" where
  "cycle_completions n [] = [n]"
| "cycle_completions n ((e, r) # rs) =
     (if fr_action r = act_abort \<or> e = Ev_torn_down then n # cycle_completions 0 rs
      else cycle_completions (if fr_action r = act_complete then n + 1 else n) rs)"

definition fsm_ok :: "handshake_fsm \<Rightarrow> nat \<Rightarrow> bool" where
  "fsm_ok m n \<longleftrightarrow> n \<le> 1 \<and> (n = 1 \<longrightarrow> hf_complete_emitted m \<and> hf_state m = handshake_resolved)"

text \<open>The peer that an admitted frame of a run may come from.\<close>

definition admissible :: "handshake_fsm_config \<Rightarrow> 'a handshake_request_scheme \<Rightarrow> attach_facts \<Rightarrow> bool" where
  "admissible cfg frame facts \<longleftrightarrow> hs_protocol_version frame = k_protocol_version \<and> hs_id frame \<noteq> hc_self_id cfg
     \<and> (case hc_attach_policy cfg of None \<Rightarrow> True | Some decide \<Rightarrow> decide facts)
     \<and> (hs_version_major frame > hc_compatible_version_major cfg
        \<or> hs_version_major frame = hc_compatible_version_major cfg \<and> hs_version_minor frame \<ge> hc_compatible_version_minor cfg)"

fun admitted_by :: "handshake_fsm_config \<Rightarrow> fsm_event \<Rightarrow> bool" where
  "admitted_by cfg (Ev_request req _ facts) = admissible cfg req facts"
| "admitted_by cfg (Ev_response resp facts) = (admissible cfg resp facts \<and> hs_status resp = hs_accepted)"
| "admitted_by cfg e = (e = Ev_external_complete)"

lemma fsm_step_cfg: "fsm_step m e = (m', r) \<Longrightarrow> hf_cfg m' = hf_cfg m"
  by (cases e) (auto simp: fsm_defs split: if_splits prod.splits option.splits)

lemma fsm_step_admits:
  "fsm_step m e = (m', r) \<Longrightarrow> fr_action r \<in> {act_complete, act_send_response} \<Longrightarrow> admitted_by (hf_cfg m) e"
  by (cases e) (auto simp: fsm_defs admissible_def is_version_compatible_def split: if_splits prod.splits option.splits)

lemma fsm_step_ok:
  assumes "fsm_step m e = (m', r)" and "fsm_ok m n" and "fr_action r \<noteq> act_abort" and "e \<noteq> Ev_torn_down"
  shows "fsm_ok m' (if fr_action r = act_complete then n + 1 else n)"
  using assms by (cases e) (auto simp: fsm_ok_def fsm_defs split: if_splits prod.splits option.splits)

lemma fsm_ok_fresh: "fsm_ok m 0"
  by (simp add: fsm_ok_def)

lemma fsm_run_cycles: "fsm_ok m n \<Longrightarrow> list_all (\<lambda>k. k \<le> 1) (cycle_completions n (snd (fsm_run m es)))"
proof (induction es arbitrary: m n)
  case (Cons e es)
  obtain m' r where s: "fsm_step m e = (m', r)" by fastforce
  show ?case
  proof (cases "fr_action r = act_abort \<or> e = Ev_torn_down")
    case True
    then show ?thesis using s Cons.IH [OF fsm_ok_fresh] Cons.prems by (auto simp: Let_def split_beta fsm_ok_def)
  next
    case False
    then show ?thesis using s Cons.IH [OF fsm_step_ok [OF s Cons.prems]] by (auto simp: Let_def split_beta)
  qed
qed (simp add: fsm_ok_def)

lemma fsm_run_admits: "(e, r) \<in> set (snd (fsm_run m es)) \<Longrightarrow> fr_action r \<in> {act_complete, act_send_response} \<Longrightarrow> admitted_by (hf_cfg m) e"
proof (induction es arbitrary: m)
  case (Cons e' es)
  obtain m' r' where s: "fsm_step m e' = (m', r')" by fastforce
  then show ?case using Cons.prems Cons.IH [of m'] fsm_step_admits [OF s] fsm_step_cfg [OF s] by (auto simp: Let_def split_beta)
qed simp

definition demo_cfg :: "u8 \<Rightarrow> handshake_fsm_config" where
  "demo_cfg i = \<lparr>hc_self_id = replicate 16 i, hc_version_major = 1, hc_version_minor = 0, hc_compatible_version_major = 1,
     hc_compatible_version_minor = 0, hc_local_fingerprint = 7, hc_attach_policy = Some accept_any, hc_handshake_retry = 0\<rparr>"

definition demo_frame :: "u8 \<Rightarrow> handshake_response" where
  "demo_frame i = \<lparr>hs_id = replicate 16 i, hs_version_major = 1, hs_version_minor = 2, hs_compatible_version_major = 1,
     hs_compatible_version_minor = 0, hs_protocol_version = k_protocol_version, hs_fingerprint = 9, hs_key_id = replicate 8 0,
     hs_own_nonce = replicate 16 3, hs_cipher_offer = 0, hs_chosen_cipher = 0, hs_proof = replicate 32 0, hs_status = hs_accepted\<rparr>"

lemma demo_admissible: "a \<noteq> b \<Longrightarrow> admissible (demo_cfg a) (demo_frame b) f" "a \<noteq> b \<Longrightarrow> admissible (demo_cfg a) (handshake_request.truncate (demo_frame b)) f"
  by (simp_all add: admissible_def demo_cfg_def demo_frame_def accept_any_def handshake_request.truncate_def)

text \<open>
  C23. The handshake machine, over every sequence of dials, connections, requests, responses, timeouts
  and teardowns with any content: it completes or answers a peer only after a frame of the right
  protocol version and a compatible library version, from another node than itself, whose facts the
  attach policy accepts (and, for a response, that the peer accepted), or after the transport's own
  authenticated handshake; and it completes at most once between aborts and teardowns.
\<close>

theorem handshake_fsm_sound:
  "list_all (\<lambda>k. k \<le> 1) (cycle_completions 0 (snd (fsm_run (handshake_fsm_init cfg) es)))
   \<and> (\<forall>(e, r) \<in> set (snd (fsm_run (handshake_fsm_init cfg) es)). fr_action r \<in> {act_complete, act_send_response} \<longrightarrow> admitted_by cfg e)"
  using fsm_run_cycles [OF fsm_ok_fresh] fsm_run_admits [of _ _ "handshake_fsm_init cfg" es] by (auto simp: handshake_fsm_init_def)

theorem handshake_fsm_sound_witness:
  "list_all (\<lambda>k. k \<le> 1) (cycle_completions 0 (snd (fsm_run (handshake_fsm_init (demo_cfg 1))
     [Ev_request (handshake_request.truncate (demo_frame 2)) True zero_facts, Ev_response (demo_frame 2) zero_facts])))
   \<and> admitted_by (demo_cfg 1) (Ev_request (handshake_request.truncate (demo_frame 2)) True zero_facts)"
proof -
  let ?e = "Ev_request (handshake_request.truncate (demo_frame 2)) True zero_facts"
  have "(?e, snd (fsm_step (handshake_fsm_init (demo_cfg 1)) ?e))
      \<in> set (snd (fsm_run (handshake_fsm_init (demo_cfg 1)) [?e, Ev_response (demo_frame 2) zero_facts]))"
    by (simp add: split_beta Let_def)
  moreover have "fr_action (snd (fsm_step (handshake_fsm_init (demo_cfg 1)) ?e)) = act_complete"
    by (simp add: fsm_defs handshake_fsm_init_def demo_cfg_def demo_frame_def accept_any_def is_version_compatible_def handshake_request.truncate_def)
  ultimately show ?thesis
    using handshake_fsm_sound [of "demo_cfg 1" "[?e, Ev_response (demo_frame 2) zero_facts]"] by fastforce
qed

section \<open>Timeouts\<close>

lemma timeout_retries:
  "hf_state m = handshaking \<Longrightarrow> hf_retry_remaining m = of_nat k \<Longrightarrow> k < 2 ^ 32 \<Longrightarrow>
   map (\<lambda>er. fr_action (snd er)) (snd (fsm_run m (replicate (k + 1 + j) Ev_timeout)))
   = replicate k act_send_request @ act_abort # replicate j act_none"
proof (induction k arbitrary: m)
  case 0
  have idle: "hf_state n = not_connected \<Longrightarrow> map (\<lambda>er. fr_action (snd er)) (snd (fsm_run n (replicate j Ev_timeout))) = replicate j act_none" for n
    by (induction j) (auto simp: Let_def split_beta on_timeout_def step_none_def)
  show ?case using 0 idle [of "m\<lparr>hf_state := not_connected\<rparr>"] by (simp add: Let_def split_beta on_timeout_def step_none_def)
next
  case (Suc k)
  have pos: "hf_retry_remaining m > 0" using Suc.prems by (simp add: word_less_nat_alt unat_of_nat del: of_nat_Suc)
  let ?m = "m\<lparr>hf_retry_remaining := of_nat k\<rparr>"
  have step: "fsm_step m Ev_timeout = (?m, step_none\<lparr>fr_action := act_send_request\<rparr>)"
    using Suc.prems pos by (simp add: on_timeout_def)
  have rest: "map (\<lambda>er. fr_action (snd er)) (snd (fsm_run ?m (replicate (k + 1 + j) Ev_timeout)))
      = replicate k act_send_request @ act_abort # replicate j act_none"
    by (rule Suc.IH) (use Suc.prems in simp_all)
  have cons: "replicate (Suc k + 1 + j) Ev_timeout = Ev_timeout # replicate (k + 1 + j) Ev_timeout" by simp
  show ?case unfolding cons fsm_run.simps step using rest by (simp add: split_beta Let_def del: replicate_Suc add_Suc_right) simp
qed

text \<open>
  C24. A dialed handshake that nobody answers ends: the request is sent, then once more per timeout
  for exactly the configured number of retries, the next timeout aborts, and no later timeout sends
  anything. This holds for every retry budget, up to the largest 32-bit one.
\<close>

theorem handshake_timeouts_terminate:
  "map (\<lambda>er. fr_action (snd er)) (snd (fsm_run (handshake_fsm_init cfg)
     (Ev_dial_started # Ev_outbound_connected # replicate (unat (hc_handshake_retry cfg) + 1 + j) Ev_timeout)))
   = act_none # act_send_request # replicate (unat (hc_handshake_retry cfg)) act_send_request @ act_abort # replicate j act_none"
proof -
  let ?m = "fst (on_outbound_connected (fst (on_dial_started (handshake_fsm_init cfg))))"
  have "map (\<lambda>er. fr_action (snd er)) (snd (fsm_run ?m (replicate (unat (hc_handshake_retry cfg) + 1 + j) Ev_timeout)))
    = replicate (unat (hc_handshake_retry cfg)) act_send_request @ act_abort # replicate j act_none"
    by (rule timeout_retries) (use unsigned_less [of "hc_handshake_retry cfg", where 'a = nat] in
      \<open>simp_all add: on_outbound_connected_def on_dial_started_def handshake_fsm_init_def\<close>)
  then show ?thesis
    by (simp add: Let_def split_beta on_dial_started_def on_outbound_connected_def handshake_fsm_init_def step_none_def
      del: replicate_Suc replicate_add add_Suc_right)
qed

section \<open>Simultaneous connect\<close>

lemma id_greater_asym: "length a = length b \<Longrightarrow> a \<noteq> b \<Longrightarrow> id_greater a b = (\<not> id_greater b a)"
  by (induction a b rule: list_induct2) auto

fun mirrored :: "dedup_decision \<Rightarrow> dedup_decision" where
  "mirrored keep_outbound = keep_inbound"
| "mirrored keep_inbound = keep_outbound"
| "mirrored dd_none = dd_none"

definition completion_dedup :: "handshake_fsm \<times> (fsm_event \<times> fsm_step_result) list \<Rightarrow> dedup_decision option" where
  "completion_dedup res = (case filter (\<lambda>(e, r). fr_action r = act_complete) (snd res) of [(e, r)] \<Rightarrow> Some (fr_dedup r) | _ \<Rightarrow> None)"

text \<open>A machine that dialed, whose dial connected, and that then hears the peer's request and response in either order.\<close>

definition both_dialed :: "handshake_fsm_config \<Rightarrow> handshake_request \<Rightarrow> handshake_response \<Rightarrow> bool \<Rightarrow> attach_facts \<Rightarrow> attach_facts
    \<Rightarrow> handshake_fsm \<times> (fsm_event \<times> fsm_step_result) list" where
  "both_dialed cfg req resp request_first f1 f2 = fsm_run (handshake_fsm_init cfg)
     (Ev_outbound_connected # (if request_first then [Ev_request req False f1, Ev_response resp f2] else [Ev_response resp f2, Ev_request req False f1]))"

lemma both_dialed_request_first:
  assumes "admissible cfg req f1" and "admissible cfg resp f2" and "hs_status resp = hs_accepted"
  shows "completion_dedup (both_dialed cfg req resp True f1 f2) = Some (if id_greater (hc_self_id cfg) (hs_id req) then keep_outbound else keep_inbound)"
  using assms by (auto simp: both_dialed_def completion_dedup_def admissible_def fsm_defs handshake_fsm_init_def is_version_compatible_def
    arbitrate_dedup_def split: option.splits)

lemma both_dialed_response_first:
  assumes "admissible cfg req f1" and "admissible cfg resp f2" and "hs_status resp = hs_accepted"
  shows "completion_dedup (both_dialed cfg req resp False f1 f2) = Some dd_none"
  using assms by (auto simp: both_dialed_def completion_dedup_def admissible_def fsm_defs handshake_fsm_init_def is_version_compatible_def
    arbitrate_dedup_def split: option.splits)

text \<open>
  C25. Two nodes that dial each other at once: each hears the other's request before its own dial is
  answered. Each completes exactly once, and the two agree on which connection to keep: the node with
  the greater id its outbound one, the other its inbound one. Distinct ids are enough; an equal id is
  refused by the identity check. A node that hears the answer to its own dial before the other's
  request completes as well, but without a decision.
\<close>

theorem simultaneous_connect_agrees:
  assumes "admissible ca req_b fa1" and "admissible ca resp_b fa2" and "hs_status resp_b = hs_accepted" and "hs_id req_b = hc_self_id cb"
    and "admissible cb req_a fb1" and "admissible cb resp_a fb2" and "hs_status resp_a = hs_accepted" and "hs_id req_a = hc_self_id ca"
    and "length (hc_self_id ca) = length (hc_self_id cb)"
  shows "\<exists>d. d \<noteq> dd_none \<and> completion_dedup (both_dialed ca req_b resp_b True fa1 fa2) = Some d
           \<and> completion_dedup (both_dialed cb req_a resp_a True fb1 fb2) = Some (mirrored d)
           \<and> completion_dedup (both_dialed ca req_b resp_b False fa1 fa2) = Some dd_none"
proof -
  have "hc_self_id cb \<noteq> hc_self_id ca" using assms by (simp add: admissible_def)
  then show ?thesis using id_greater_asym [OF assms(9)] assms by (auto simp: both_dialed_request_first both_dialed_response_first)
qed

theorem simultaneous_connect_witness:
  "\<exists>d. d \<noteq> dd_none
     \<and> completion_dedup (both_dialed (demo_cfg 1) (handshake_request.truncate (demo_frame 2)) (demo_frame 2) True zero_facts zero_facts) = Some d
     \<and> completion_dedup (both_dialed (demo_cfg 2) (handshake_request.truncate (demo_frame 1)) (demo_frame 1) True zero_facts zero_facts) = Some (mirrored d)
     \<and> completion_dedup (both_dialed (demo_cfg 1) (handshake_request.truncate (demo_frame 2)) (demo_frame 2) False zero_facts zero_facts) = Some dd_none"
  by (rule simultaneous_connect_agrees) (simp_all add: demo_admissible, simp_all add: demo_cfg_def demo_frame_def handshake_request.truncate_def)

end
