(* ===== verification/Subscriber_Registry.thy ===== *)
theory Subscriber_Registry
  imports Ring Qos Checksum Egress
begin

text \<open>
  The passive state behind the forwarders: the nested reference counts (\<open>io/detail/keyed_refcount.h\<close>),
  the ring of retained frames (\<open>io/detail/history_ring.h\<close>) and the subscriber registry
  (\<open>io/subscriber_registry.h\<close>, \<open>io/detail/subscriber_dispatch.h\<close>). A channel is referred to by a
  number, its identity as an object; \<open>scheme\<close> gives the scheme of its remote endpoint. Names are byte
  strings.
\<close>

section \<open>Reference counts\<close>

type_synonym keyed_refcount = "bytes \<rightharpoonup> (bytes \<rightharpoonup> u32)"

definition k_no_entry :: u32 where "k_no_entry = NOT 0"

definition rc_bump :: "bytes \<Rightarrow> bytes \<Rightarrow> keyed_refcount \<Rightarrow> keyed_refcount \<times> u32" where
  "rc_bump k1 k2 m =
     (let inner = (case m k1 of None \<Rightarrow> Map.empty | Some inner \<Rightarrow> inner);
          n = (case inner k2 of None \<Rightarrow> 0 | Some n \<Rightarrow> n) + 1
      in (m(k1 \<mapsto> inner(k2 \<mapsto> n)), n))"

definition rc_drop :: "bytes \<Rightarrow> bytes \<Rightarrow> keyed_refcount \<Rightarrow> keyed_refcount \<times> u32" where
  "rc_drop k1 k2 m =
     (case m k1 of
        None \<Rightarrow> (m, k_no_entry)
      | Some inner \<Rightarrow> (case inner k2 of
          None \<Rightarrow> (m, k_no_entry)
        | Some n \<Rightarrow>
            let remaining = n - 1 in
            if remaining = 0 then
              let inner = inner(k2 := None) in
              (if inner = Map.empty then m(k1 := None) else m(k1 \<mapsto> inner), remaining)
            else (m(k1 \<mapsto> inner(k2 \<mapsto> remaining)), remaining)))"

definition rc_holds :: "bytes \<Rightarrow> bytes \<Rightarrow> keyed_refcount \<Rightarrow> bool" where
  "rc_holds k1 k2 m = (case m k1 of None \<Rightarrow> False | Some inner \<Rightarrow> (case inner k2 of None \<Rightarrow> False | Some n \<Rightarrow> n > 0))"

definition rc_forget :: "bytes \<Rightarrow> keyed_refcount \<Rightarrow> keyed_refcount" where
  "rc_forget k1 m = m(k1 := None)"

text \<open>The count of a pair, absent pairs counting as zero.\<close>

definition rc_count :: "keyed_refcount \<Rightarrow> bytes \<Rightarrow> bytes \<Rightarrow> u32" where
  "rc_count m k1 k2 = (case m k1 of None \<Rightarrow> 0 | Some inner \<Rightarrow> (case inner k2 of None \<Rightarrow> 0 | Some n \<Rightarrow> n))"

text \<open>No empty inner map and no zero count is kept.\<close>

definition rc_ok :: "keyed_refcount \<Rightarrow> bool" where
  "rc_ok m \<longleftrightarrow> (\<forall>k1 inner. m k1 = Some inner \<longrightarrow> inner \<noteq> Map.empty \<and> (\<forall>k2. inner k2 \<noteq> Some 0))"

lemma rc_empty_ok [simp]: "rc_ok Map.empty"
  by (simp add: rc_ok_def)

lemma rc_bump_ok: "rc_ok m \<Longrightarrow> rc_count m k1 k2 \<noteq> - 1 \<Longrightarrow> rc_ok (fst (rc_bump k1 k2 m))"
  by (auto simp: rc_ok_def rc_bump_def rc_count_def Let_def add_eq_0_iff2 split: option.splits if_splits)

lemma rc_drop_ok: "rc_ok m \<Longrightarrow> rc_ok (fst (rc_drop k1 k2 m))"
  by (auto simp: rc_ok_def rc_drop_def Let_def split: option.splits if_splits)

lemma rc_forget_ok: "rc_ok m \<Longrightarrow> rc_ok (rc_forget k1 m)"
  by (auto simp: rc_ok_def rc_forget_def split: if_splits)

lemma rc_count_bump [simp]:
  "snd (rc_bump k1 k2 m) = rc_count m k1 k2 + 1"
  "rc_count (fst (rc_bump k1 k2 m)) a b = (if a = k1 \<and> b = k2 then rc_count m k1 k2 + 1 else rc_count m a b)"
  by (auto simp: rc_bump_def rc_count_def Let_def split: option.splits)

lemma rc_count_drop:
  "rc_ok m \<Longrightarrow> snd (rc_drop k1 k2 m) = (if rc_count m k1 k2 = 0 then k_no_entry else rc_count m k1 k2 - 1)"
  "rc_ok m \<Longrightarrow> rc_count (fst (rc_drop k1 k2 m)) a b = (if a = k1 \<and> b = k2 \<and> rc_count m k1 k2 \<noteq> 0 then rc_count m k1 k2 - 1 else rc_count m a b)"
  by (auto simp: rc_drop_def rc_count_def rc_ok_def Let_def fun_eq_iff split: option.splits if_splits)

lemma rc_holds_count: "rc_ok m \<Longrightarrow> rc_holds k1 k2 m \<longleftrightarrow> rc_count m k1 k2 \<noteq> 0"
  by (auto simp: rc_holds_def rc_count_def rc_ok_def word_gt_0 split: option.splits)

lemma rc_count_forget [simp]: "rc_count (rc_forget k1 m) a b = (if a = k1 then 0 else rc_count m a b)"
  by (simp add: rc_forget_def rc_count_def)

section \<open>The ring of retained frames\<close>

record history_ring =
  hr_slots :: "bytes list"
  hr_head :: nat
  hr_count :: nat

definition history_ring_init :: history_ring where
  "history_ring_init = \<lparr>hr_slots = [], hr_head = 0, hr_count = 0\<rparr>"

text \<open>\<open>std::vector::resize\<close>: cut off at the back or extended with empty frames.\<close>

definition hr_resize_to :: "nat \<Rightarrow> history_ring \<Rightarrow> history_ring" where
  "hr_resize_to capacity r =
     (let n = (if capacity = 0 then 1 else capacity) in
      if length (hr_slots r) \<noteq> n then r\<lparr>hr_slots := take n (hr_slots r) @ replicate (n - length (hr_slots r)) []\<rparr> else r)"

definition hr_push :: "bytes \<Rightarrow> history_ring \<Rightarrow> history_ring option" where
  "hr_push frame r =
     (if hr_head r < length (hr_slots r)
      then Some \<lparr>hr_slots = (hr_slots r)[hr_head r := frame], hr_head = (hr_head r + 1) mod length (hr_slots r),
                 hr_count = min (hr_count r + 1) (length (hr_slots r))\<rparr>
      else None)"

definition hr_newest :: "history_ring \<Rightarrow> bytes option" where
  "hr_newest r = (if hr_slots r \<noteq> [] then Some (hr_slots r ! ((hr_head r + length (hr_slots r) - 1) mod length (hr_slots r))) else None)"

definition hr_oldest_to_newest :: "nat \<Rightarrow> history_ring \<Rightarrow> bytes option" where
  "hr_oldest_to_newest i r =
     (if hr_slots r \<noteq> [] then Some (hr_slots r ! ((hr_head r + length (hr_slots r) - hr_count r + i) mod length (hr_slots r))) else None)"

text \<open>What the ring holds, oldest first, and the states a ring of a fixed capacity reaches.\<close>

definition hr_start :: "history_ring \<Rightarrow> nat" where
  "hr_start r = hr_head r + length (hr_slots r) - hr_count r"

definition hr_frames :: "history_ring \<Rightarrow> bytes list" where
  "hr_frames r = ring_view (hr_slots r) (hr_start r) (hr_count r)"

definition hr_ok :: "nat \<Rightarrow> history_ring \<Rightarrow> bool" where
  "hr_ok n r \<longleftrightarrow> (if hr_slots r = [] then hr_head r = 0 \<and> hr_count r = 0 else length (hr_slots r) = n \<and> hr_head r < n \<and> hr_count r \<le> n)"

definition last_n :: "nat \<Rightarrow> 'a list \<Rightarrow> 'a list" where
  "last_n n xs = drop (length xs - n) xs"

lemma last_n_append: "last_n n (last_n n xs @ ys) = last_n n (xs @ ys)"
proof (cases "length xs \<le> n")
  case False
  then show ?thesis by (simp add: last_n_def add.commute)
qed (simp add: last_n_def)

lemma length_last_n [simp]: "length (last_n n xs) = min n (length xs)"
  by (simp add: last_n_def min_def)

lemma hr_resize_fresh: "0 < n \<Longrightarrow> hr_ok n r \<Longrightarrow> hr_ok n (hr_resize_to n r) \<and> hr_slots (hr_resize_to n r) \<noteq> []
  \<and> length (hr_slots (hr_resize_to n r)) = n \<and> hr_frames (hr_resize_to n r) = hr_frames r"
  by (cases "hr_slots r = []") (auto simp: hr_ok_def hr_resize_to_def hr_frames_def)

lemma hr_push_ok:
  assumes "hr_ok n r" and "hr_slots r \<noteq> []"
  shows "\<exists>r'. hr_push f r = Some r' \<and> hr_ok n r' \<and> hr_slots r' \<noteq> [] \<and> hr_frames r' = last_n n (hr_frames r @ [f])"
proof -
  have n: "length (hr_slots r) = n" "hr_head r < n" "hr_count r \<le> n" using assms by (auto simp: hr_ok_def)
  let ?s = "(hr_slots r)[hr_head r := f]"
  define r' where "r' = \<lparr>hr_slots = ?s, hr_head = (hr_head r + 1) mod n, hr_count = min (hr_count r + 1) n\<rparr>"
  have r': "hr_push f r = Some r'" "hr_slots r' = ?s" "hr_head r' = (hr_head r + 1) mod n" "hr_count r' = min (hr_count r + 1) n"
    using n by (simp_all add: hr_push_def r'_def)
  have pos: "(hr_start r + hr_count r) mod n = hr_head r" using n by (simp add: hr_start_def)
  have view: "hr_frames r' = last_n n (hr_frames r @ [f])"
  proof (cases "hr_count r < n")
    case True
    have "hr_start r' mod n = hr_start r mod n"
    proof -
      have "hr_start r' mod n = ((hr_head r + 1) mod n + (n - (hr_count r + 1))) mod n"
        using True n by (simp add: hr_start_def r')
      also have "\<dots> = (hr_head r + 1 + (n - (hr_count r + 1))) mod n" by (simp add: mod_simps)
      also have "hr_head r + 1 + (n - (hr_count r + 1)) = hr_start r" using True n by (simp add: hr_start_def)
      finally show ?thesis .
    qed
    then have "hr_frames r' = ring_view ?s (hr_start r) (Suc (hr_count r))"
      unfolding hr_frames_def r' using True n ring_view_mod [of ?s "hr_start r'"] ring_view_mod [of ?s "hr_start r"] by (simp add: min_def)
    also have "\<dots> = hr_frames r @ [f]" using ring_view_append [of "hr_count r" "hr_slots r" "hr_start r" f] True n pos by (simp add: hr_frames_def)
    finally show ?thesis using True by (simp add: last_n_def hr_frames_def)
  next
    case False
    then have c: "hr_count r = n" using n by simp
    have start: "hr_start r = hr_head r" "hr_start r' = (hr_head r + 1) mod n" using c n by (simp_all add: hr_start_def r')
    have "hr_frames r' = ring_view ?s (hr_head r + 1) n"
      unfolding hr_frames_def r' start using c n ring_view_mod [of ?s "hr_head r + 1"] by simp
    also have "\<dots> = tl (hr_frames r) @ [f]"
    proof -
      have hd: "hr_frames r = hr_slots r ! hr_head r # ring_view (hr_slots r) (hr_head r + 1) (n - 1)"
        using ring_view_Cons [of n "hr_slots r" "hr_head r"] n c by (simp add: hr_frames_def start)
      have "ring_view ((hr_slots r)[(hr_head r + 1 + (n - 1)) mod length (hr_slots r) := f]) (hr_head r + 1) (Suc (n - 1))
          = ring_view (hr_slots r) (hr_head r + 1) (n - 1) @ [f]"
        by (rule ring_view_append) (use n in simp)
      then show ?thesis using n hd by simp
    qed
    also have "\<dots> = last_n n (hr_frames r @ [f])" using c n by (cases "hr_frames r") (auto simp: last_n_def hr_frames_def dest: arg_cong [of _ _ length])
    finally show ?thesis .
  qed
  have "hr_ok n r'" "hr_slots r' \<noteq> []" using n assms(2) by (auto simp: hr_ok_def r')
  with r'(1) view show ?thesis by blast
qed

section \<open>Topics\<close>

record registry_subscriber =
  sb_tier :: locality
  sb_node_name :: bytes
  sb_qos :: subscriber_qos
  sb_type_id :: "u64 option"
  sb_channel :: nat

record band_drop_counters =
  bc_blocked :: nat
  bc_dropped_oldest :: nat
  bc_dropped_newest :: nat

record registry_topic_entry =
  te_qos :: topic_qos
  te_fqn :: bytes
  te_emit_source_identity :: bool
  te_any_subscriber_wants_info :: bool
  te_producer_type_id :: "u64 option"
  te_producer_type_name :: bytes
  te_producer_schema_hint :: u64
  te_endpoint_counter :: "u64 option"
  te_subscribers :: "registry_subscriber list"
  te_drops :: "band_drop_counters list"

definition new_topic_entry :: registry_topic_entry where
  "new_topic_entry = \<lparr>te_qos = default_topic_qos, te_fqn = [], te_emit_source_identity = False, te_any_subscriber_wants_info = True,
     te_producer_type_id = None, te_producer_type_name = [], te_producer_schema_hint = 0, te_endpoint_counter = None, te_subscribers = [],
     te_drops = replicate k_egress_bands \<lparr>bc_blocked = 0, bc_dropped_oldest = 0, bc_dropped_newest = 0\<rparr>\<rparr>"

definition recompute_wants_info :: "registry_topic_entry \<Rightarrow> registry_topic_entry" where
  "recompute_wants_info e =
     (if te_subscribers e = [] then e\<lparr>te_any_subscriber_wants_info := True\<rparr>
      else e\<lparr>te_any_subscriber_wants_info := list_ex (\<lambda>s. uq_wants_message_info (sb_qos s)) (te_subscribers e)\<rparr>)"

definition bump_band_drop :: "drop_cause \<Rightarrow> band_drop_counters \<Rightarrow> band_drop_counters" where
  "bump_band_drop cause c =
     (case cause of
        dc_drop_oldest \<Rightarrow> c\<lparr>bc_dropped_oldest := bc_dropped_oldest c + 1\<rparr>
      | dc_drop_newest \<Rightarrow> c\<lparr>bc_dropped_newest := bc_dropped_newest c + 1\<rparr>
      | dc_blocked \<Rightarrow> c\<lparr>bc_blocked := bc_blocked c + 1\<rparr>
      | _ \<Rightarrow> c)"

definition read_band_drop :: "drop_cause \<Rightarrow> band_drop_counters \<Rightarrow> nat" where
  "read_band_drop cause c =
     (case cause of dc_drop_oldest \<Rightarrow> bc_dropped_oldest c | dc_drop_newest \<Rightarrow> bc_dropped_newest c | dc_blocked \<Rightarrow> bc_blocked c | _ \<Rightarrow> 0)"

type_synonym topic_map = "u64 \<rightharpoonup> registry_topic_entry"

definition entry_or_new :: "u64 \<Rightarrow> topic_map \<Rightarrow> registry_topic_entry" where
  "entry_or_new h m = (case m h of None \<Rightarrow> new_topic_entry | Some e \<Rightarrow> e)"

definition add_topic_subscriber ::
  "(nat \<Rightarrow> string) \<Rightarrow> u64 \<Rightarrow> bytes \<Rightarrow> nat \<Rightarrow> bytes \<Rightarrow> subscriber_qos \<Rightarrow> u64 option \<Rightarrow> topic_map \<Rightarrow> topic_map" where
  "add_topic_subscriber scheme h fqn ch node_name qos type_id m =
     (let e = entry_or_new h m;
          e = (if te_fqn e = [] then e\<lparr>te_fqn := fqn\<rparr> else e)
      in if list_ex (\<lambda>s. sb_channel s = ch) (te_subscribers e) then m(h \<mapsto> e)
         else m(h \<mapsto> recompute_wants_info (e\<lparr>te_subscribers := te_subscribers e
                @ [\<lparr>sb_tier = tier_of (scheme ch), sb_node_name = node_name, sb_qos = qos, sb_type_id = type_id, sb_channel = ch\<rparr>]\<rparr>)))"

definition erase_channel :: "nat \<Rightarrow> registry_topic_entry \<Rightarrow> registry_topic_entry" where
  "erase_channel ch e = recompute_wants_info (e\<lparr>te_subscribers := filter (\<lambda>s. sb_channel s \<noteq> ch) (te_subscribers e)\<rparr>)"

definition remove_topic_subscriber :: "u64 \<Rightarrow> nat \<Rightarrow> topic_map \<Rightarrow> topic_map" where
  "remove_topic_subscriber h ch m = (case m h of None \<Rightarrow> m | Some e \<Rightarrow> m(h \<mapsto> erase_channel ch e))"

definition remove_peer_subscribers :: "nat \<Rightarrow> topic_map \<Rightarrow> topic_map" where
  "remove_peer_subscribers ch m = (\<lambda>h. map_option (erase_channel ch) (m h))"

section \<open>The registry\<close>

text \<open>\<open>rg_last_fqn\<close> is the memoised pointer into the entry of that hash.\<close>

record subscriber_registry =
  rg_topics :: topic_map
  rg_last_fqn :: "u64 option"
  rg_refcount :: keyed_refcount
  rg_next_endpoint_counter :: u64

definition subscriber_registry_init :: subscriber_registry where
  "subscriber_registry_init = \<lparr>rg_topics = Map.empty, rg_last_fqn = None, rg_refcount = Map.empty, rg_next_endpoint_counter = 1\<rparr>"

definition bump_refcount :: "bytes \<Rightarrow> bytes \<Rightarrow> subscriber_registry \<Rightarrow> subscriber_registry \<times> u32" where
  "bump_refcount node_name fqn r = (case rc_bump node_name fqn (rg_refcount r) of (m, n) \<Rightarrow> (r\<lparr>rg_refcount := m\<rparr>, n))"

definition drop_refcount :: "bytes \<Rightarrow> bytes \<Rightarrow> subscriber_registry \<Rightarrow> subscriber_registry \<times> u32" where
  "drop_refcount node_name fqn r = (case rc_drop node_name fqn (rg_refcount r) of (m, n) \<Rightarrow> (r\<lparr>rg_refcount := m\<rparr>, n))"

definition add_subscriber ::
  "(nat \<Rightarrow> string) \<Rightarrow> u64 \<Rightarrow> bytes \<Rightarrow> nat \<Rightarrow> bytes \<Rightarrow> subscriber_qos \<Rightarrow> u64 option \<Rightarrow> subscriber_registry \<Rightarrow> subscriber_registry" where
  "add_subscriber scheme h fqn ch node_name qos type_id r =
     r\<lparr>rg_topics := add_topic_subscriber scheme h fqn ch node_name qos type_id (rg_topics r)\<rparr>"

definition qos_for_subscriber :: "u64 \<Rightarrow> nat \<Rightarrow> subscriber_registry \<Rightarrow> subscriber_qos" where
  "qos_for_subscriber h ch r =
     (case rg_topics r h of
        None \<Rightarrow> default_subscriber_qos
      | Some e \<Rightarrow> (case List.find (\<lambda>s. sb_channel s = ch) (te_subscribers e) of Some s \<Rightarrow> sb_qos s | None \<Rightarrow> default_subscriber_qos))"

definition registry_declare ::
  "u64 \<Rightarrow> bytes \<Rightarrow> topic_qos \<Rightarrow> u64 option \<Rightarrow> bool \<Rightarrow> bytes \<Rightarrow> u64 \<Rightarrow> subscriber_registry \<Rightarrow> subscriber_registry" where
  "registry_declare h fqn qos producer_type_id emit_source_identity producer_type_name schema_hint r =
     (let e = entry_or_new h (rg_topics r);
          e = (if te_fqn e = [] then e\<lparr>te_fqn := fqn\<rparr> else e);
          e = e\<lparr>te_qos := qos, te_producer_type_id := producer_type_id, te_producer_type_name := producer_type_name,
                te_producer_schema_hint := schema_hint, te_emit_source_identity := emit_source_identity\<rparr>
      in if emit_source_identity \<and> te_endpoint_counter e = None
         then r\<lparr>rg_topics := (rg_topics r)(h \<mapsto> e\<lparr>te_endpoint_counter := Some (rg_next_endpoint_counter r)\<rparr>),
                rg_next_endpoint_counter := rg_next_endpoint_counter r + 1\<rparr>
         else r\<lparr>rg_topics := (rg_topics r)(h \<mapsto> e)\<rparr>)"

definition qos_for :: "u64 \<Rightarrow> subscriber_registry \<Rightarrow> topic_qos" where
  "qos_for h r = (case rg_topics r h of None \<Rightarrow> default_topic_qos | Some e \<Rightarrow> te_qos e)"

definition producer_type_id :: "u64 \<Rightarrow> subscriber_registry \<Rightarrow> u64 option" where
  "producer_type_id h r = (case rg_topics r h of None \<Rightarrow> None | Some e \<Rightarrow> te_producer_type_id e)"

definition offers_source_identity :: "u64 \<Rightarrow> subscriber_registry \<Rightarrow> bool" where
  "offers_source_identity h r = (case rg_topics r h of None \<Rightarrow> False | Some e \<Rightarrow> te_emit_source_identity e)"

definition remove_subscriber :: "u64 \<Rightarrow> nat \<Rightarrow> subscriber_registry \<Rightarrow> subscriber_registry" where
  "remove_subscriber h ch r = r\<lparr>rg_topics := remove_topic_subscriber h ch (rg_topics r)\<rparr>"

definition remove_peer :: "bytes \<Rightarrow> nat \<Rightarrow> subscriber_registry \<Rightarrow> subscriber_registry" where
  "remove_peer node_name ch r = r\<lparr>rg_topics := remove_peer_subscribers ch (rg_topics r), rg_refcount := rc_forget node_name (rg_refcount r)\<rparr>"

definition any_subscriber_wants_info :: "u64 \<Rightarrow> subscriber_registry \<Rightarrow> bool" where
  "any_subscriber_wants_info h r = (case rg_topics r h of None \<Rightarrow> True | Some e \<Rightarrow> te_any_subscriber_wants_info e)"

definition record_drop :: "u64 \<Rightarrow> nat \<Rightarrow> drop_cause \<Rightarrow> subscriber_registry \<Rightarrow> subscriber_registry" where
  "record_drop h i cause r =
     (if cause = dc_none \<or> i \<ge> k_egress_bands then r
      else case rg_topics r h of None \<Rightarrow> r
        | Some e \<Rightarrow> r\<lparr>rg_topics := (rg_topics r)(h \<mapsto> e\<lparr>te_drops := (te_drops e)[i := bump_band_drop cause (te_drops e ! i)]\<rparr>)\<rparr>)"

definition dropped :: "u64 \<Rightarrow> nat \<Rightarrow> drop_cause \<Rightarrow> subscriber_registry \<Rightarrow> nat" where
  "dropped h i cause r =
     (case rg_topics r h of None \<Rightarrow> 0 | Some e \<Rightarrow> if i \<ge> k_egress_bands then 0 else read_band_drop cause (te_drops e ! i))"

text \<open>The outer option is the dereference of the memoised pointer.\<close>

definition fqn_for :: "u64 \<Rightarrow> subscriber_registry \<Rightarrow> (subscriber_registry \<times> bytes) option" where
  "fqn_for h r =
     (if rg_last_fqn r = Some h then map_option (\<lambda>e. (r, te_fqn e)) (rg_topics r h)
      else case rg_topics r h of None \<Rightarrow> Some (r, []) | Some e \<Rightarrow> Some (r\<lparr>rg_last_fqn := Some h\<rparr>, te_fqn e))"

section \<open>The registry's invariant\<close>

definition entry_ok :: "registry_topic_entry \<Rightarrow> bool" where
  "entry_ok e \<longleftrightarrow> distinct (map sb_channel (te_subscribers e)) \<and> length (te_drops e) = k_egress_bands
     \<and> te_any_subscriber_wants_info e = (te_subscribers e = [] \<or> list_ex (\<lambda>s. uq_wants_message_info (sb_qos s)) (te_subscribers e))
     \<and> (te_emit_source_identity e \<longrightarrow> te_endpoint_counter e \<noteq> None)"

definition registry_ok :: "subscriber_registry \<Rightarrow> bool" where
  "registry_ok r \<longleftrightarrow> (\<forall>h e. rg_topics r h = Some e \<longrightarrow> entry_ok e) \<and> (\<forall>h. rg_last_fqn r = Some h \<longrightarrow> rg_topics r h \<noteq> None)"

lemma new_entry_ok [simp]: "entry_ok new_topic_entry"
  by (simp add: entry_ok_def new_topic_entry_def)

lemma entry_or_new_ok: "registry_ok r \<Longrightarrow> entry_ok (entry_or_new h (rg_topics r))"
  by (auto simp: registry_ok_def entry_or_new_def split: option.splits)

lemma recompute_ok [simp]:
  "te_any_subscriber_wants_info (recompute_wants_info e) = (te_subscribers e = [] \<or> list_ex (\<lambda>s. uq_wants_message_info (sb_qos s)) (te_subscribers e))"
  "te_subscribers (recompute_wants_info e) = te_subscribers e" "te_drops (recompute_wants_info e) = te_drops e" "te_fqn (recompute_wants_info e) = te_fqn e"
  "te_qos (recompute_wants_info e) = te_qos e" "te_emit_source_identity (recompute_wants_info e) = te_emit_source_identity e"
  "te_endpoint_counter (recompute_wants_info e) = te_endpoint_counter e" "te_producer_type_id (recompute_wants_info e) = te_producer_type_id e"
  by (simp_all add: recompute_wants_info_def)

lemma erase_channel_ok: "entry_ok e \<Longrightarrow> entry_ok (erase_channel ch e)"
  by (auto simp: entry_ok_def erase_channel_def distinct_map_filter)

lemma registry_init_ok [simp]: "registry_ok subscriber_registry_init"
  by (simp add: registry_ok_def subscriber_registry_init_def)

lemma add_subscriber_ok: "registry_ok r \<Longrightarrow> registry_ok (add_subscriber scheme h fqn ch nm q t r)"
  using entry_or_new_ok [of r h]
  by (auto simp: registry_ok_def add_subscriber_def add_topic_subscriber_def Let_def entry_ok_def list_ex_iff split: if_splits)

lemma declare_ok: "registry_ok r \<Longrightarrow> registry_ok (registry_declare h fqn q t em nm sh r)"
  using entry_or_new_ok [of r h]
  by (auto simp: registry_ok_def registry_declare_def Let_def entry_ok_def split: if_splits)

lemma remove_subscriber_ok: "registry_ok r \<Longrightarrow> registry_ok (remove_subscriber h ch r)"
  by (auto simp: registry_ok_def remove_subscriber_def remove_topic_subscriber_def erase_channel_ok split: option.splits if_splits)

lemma remove_peer_ok: "registry_ok r \<Longrightarrow> registry_ok (remove_peer nm ch r)"
  by (auto simp: registry_ok_def remove_peer_def remove_peer_subscribers_def erase_channel_ok)

lemma record_drop_ok: "registry_ok r \<Longrightarrow> registry_ok (record_drop h i c r)"
  by (auto simp: registry_ok_def record_drop_def entry_ok_def split: option.splits if_splits)

lemma refcount_ok:
  "registry_ok r \<Longrightarrow> registry_ok (fst (bump_refcount nm fqn r))" "registry_ok r \<Longrightarrow> registry_ok (fst (drop_refcount nm fqn r))"
  by (auto simp: registry_ok_def bump_refcount_def drop_refcount_def split: prod.splits)

text \<open>The memo never changes an answer and never dangles.\<close>

lemma fqn_for_eq:
  "registry_ok r \<Longrightarrow> \<exists>r'. fqn_for h r = Some (r', case rg_topics r h of None \<Rightarrow> [] | Some e \<Rightarrow> te_fqn e) \<and> registry_ok r'
     \<and> rg_topics r' = rg_topics r \<and> rg_refcount r' = rg_refcount r"
  by (auto simp: fqn_for_def registry_ok_def split: option.splits)

lemmas registry_keeps = add_subscriber_ok declare_ok remove_subscriber_ok remove_peer_ok record_drop_ok refcount_ok

end
