(* ===== verification/Subscription_Endpoint.thy ===== *)
theory Subscription_Endpoint
  imports Subscriber_Registry Data_Frame
begin

text \<open>
  What both forwarders share (\<open>io/subscription_endpoint.h\<close>): the registry, the sequence numbers and the
  control frames. Channels live in a store indexed by their identity; a send updates the store through
  the verbs of the channel type. The clock is an argument.
\<close>

section \<open>The channel store\<close>

record 'c transport_env =
  ev_ops :: "'c channel_ops"
  ev_scheme :: "nat \<Rightarrow> string"

type_synonym 'c channel_store = "nat \<Rightarrow> 'c"

definition store_send :: "'c transport_env \<Rightarrow> nat \<Rightarrow> bytes \<Rightarrow> 'c channel_store \<Rightarrow> 'c channel_store" where
  "store_send env ch frame cs = cs(ch := co_send (ev_ops env) frame (cs ch))"

record peer_ref =
  pr_channel :: nat
  pr_node_name :: bytes

section \<open>The endpoint\<close>

record subscription_endpoint =
  ep_registry :: subscriber_registry
  ep_control_scratch :: bytes
  ep_next_sequence :: u64

definition subscription_endpoint_init :: subscription_endpoint where
  "subscription_endpoint_init = \<lparr>ep_registry = subscriber_registry_init, ep_control_scratch = [], ep_next_sequence = 0\<rparr>"

definition next_sequence :: "subscription_endpoint \<Rightarrow> subscription_endpoint \<times> u64" where
  "next_sequence ep = (ep\<lparr>ep_next_sequence := ep_next_sequence ep + 1\<rparr>, ep_next_sequence ep)"

definition attach_gate :: "bytes \<Rightarrow> bytes \<Rightarrow> subscription_endpoint \<Rightarrow> subscription_endpoint \<times> bool" where
  "attach_gate node_name fqn ep =
     (case bump_refcount node_name fqn (ep_registry ep) of (r, n) \<Rightarrow> (ep\<lparr>ep_registry := r\<rparr>, n = 1))"

definition detach_gate :: "bytes \<Rightarrow> bytes \<Rightarrow> subscription_endpoint \<Rightarrow> subscription_endpoint \<times> bool" where
  "detach_gate node_name fqn ep =
     (case drop_refcount node_name fqn (ep_registry ep) of (r, n) \<Rightarrow> (ep\<lparr>ep_registry := r\<rparr>, n = 0))"

definition endpoint_remove_peer :: "peer_ref \<Rightarrow> subscription_endpoint \<Rightarrow> subscription_endpoint" where
  "endpoint_remove_peer p ep = ep\<lparr>ep_registry := remove_peer (pr_node_name p) (pr_channel p) (ep_registry ep)\<rparr>"

definition endpoint_send_control ::
  "'c transport_env \<Rightarrow> u64 \<Rightarrow> nat \<Rightarrow> msg_type \<Rightarrow> bytes \<Rightarrow> subscription_endpoint \<times> 'c channel_store \<Rightarrow> (subscription_endpoint \<times> 'c channel_store) option" where
  "endpoint_send_control env now ch type inner = (\<lambda>(ep, cs).
     let fhdr = \<lparr>fh_type = type, fh_flags = 0, fh_session_id = 0, fh_timestamp_ns = now, fh_payload_len = of_nat (length inner)\<rparr> in do {
       frame \<leftarrow> encode_frame_into (ep_control_scratch ep) fhdr inner;
       Some (ep\<lparr>ep_control_scratch := frame\<rparr>, store_send env ch frame cs)
     })"

definition endpoint_send_subscribe ::
  "'c transport_env \<Rightarrow> u64 \<Rightarrow> nat \<Rightarrow> subscribe_request \<Rightarrow> subscription_endpoint \<times> 'c channel_store \<Rightarrow> (subscription_endpoint \<times> 'c channel_store) option" where
  "endpoint_send_subscribe env now ch req s = do {
     body \<leftarrow> encode_subscribe_request req;
     endpoint_send_control env now ch msg_subscribe body s
   }"

section \<open>What control frames carry\<close>

definition control_frame :: "u64 \<Rightarrow> msg_type \<Rightarrow> bytes \<Rightarrow> bytes" where
  "control_frame now type inner =
     frame_layout \<lparr>fh_type = type, fh_flags = 0, fh_session_id = 0, fh_timestamp_ns = now, fh_payload_len = of_nat (length inner)\<rparr> inner"

lemma send_control_eq:
  "endpoint_send_control env now ch type inner (ep, cs) =
     Some (ep\<lparr>ep_control_scratch := control_frame now type inner\<rparr>, store_send env ch (control_frame now type inner) cs)"
  by (simp add: endpoint_send_control_def control_frame_def wire_layout Let_def)

lemma control_frame_header:
  "header_view (control_frame now type inner) =
     Some \<lparr>fh_type = type, fh_flags = 0, fh_session_id = 0, fh_timestamp_ns = now, fh_payload_len = of_nat (length inner)\<rparr>"
  "drop header_size (control_frame now type inner) = inner"
  by (simp_all add: control_frame_def frame_layout_def)

end
