(* ===== verification/Message_Forwarder.thy ===== *)
theory Message_Forwarder
  imports Subscription_Endpoint Attach
begin

text \<open>
  The publish and subscribe forwarder (\<open>io/message_forwarder.h\<close>, \<open>io/detail/forwarder_fanout.h\<close>): attach
  and detach gated by reference counts, the fan-out of a publication over the egress scheduler, the
  retained frames of a latched topic and their replay, and the delivery of received data. A hook that
  the node installs is an output event; the companion route and the capture test are functions of the
  environment.
\<close>

section \<open>Vocabulary\<close>

datatype demand_transition = demand_up | demand_down
datatype demand_role = role_publisher | role_subscriber
datatype qos_edge = qe_accepted | qe_degraded | qe_refused | qe_unsubscribed

record qos_change_event =
  qc_edge :: qos_edge
  qc_topic_hash :: u64
  qc_peer :: node_id
  qc_requested :: subscriber_qos
  qc_verdict :: rxo_verdict
  qc_type_id :: "u64 option"

type_synonym publisher_gid = "node_id \<times> u64"

record message_info =
  mi_source_identity :: "publisher_gid option"
  mi_publication_sequence :: u64
  mi_source_timestamp :: u64
  mi_reception_timestamp :: u64
  mi_from_intra_process :: bool

definition default_message_info :: message_info where
  "default_message_info = \<lparr>mi_source_identity = None, mi_publication_sequence = 0, mi_source_timestamp = 0,
     mi_reception_timestamp = 0, mi_from_intra_process = False\<rparr>"

record remembered_demand =
  rd_fqn :: bytes
  rd_qos :: subscriber_qos
  rd_type_id :: "u64 option"

record object_carrier =
  oc_topic_hash :: u64
  oc_type_tag :: u64
  oc_native_key :: nat
  oc_sequence :: u64
  oc_source_timestamp :: u64
  oc_slot :: "nat option"

datatype forwarder_output =
  Out_drop drop_event | Out_published u64 bytes bytes | Out_delivered u64 bytes message_info bytes | Out_qos_change qos_change_event
  | Out_demand bytes bytes demand_transition demand_role | Out_stamp node_id u64 | Out_message bytes bytes "message_info option"
  | Out_warn string | Out_encode | Out_release object_carrier

definition k_history_depth_cap :: nat where "k_history_depth_cap = 1024"
definition k_fetch_cap :: nat where "k_fetch_cap = 1024"

definition source_publisher :: endpoint_source_type where "source_publisher = 0x01"

record 'c forwarder_env = "'c transport_env" +
  ev_companion :: "bytes \<Rightarrow> bytes \<Rightarrow> nat \<Rightarrow> nat option"
  ev_wants_payload :: "u64 \<Rightarrow> bool"
  ev_send_object :: "(object_carrier \<Rightarrow> 'c \<Rightarrow> 'c) option"

record 'c message_forwarder =
  mf_global_default :: nat
  mf_endpoint :: subscription_endpoint
  mf_egress :: egress_scheduler
  mf_retained :: "u64 \<rightharpoonup> history_ring"
  mf_remote_topics :: "bytes \<rightharpoonup> remembered_demand list"
  mf_channels :: "'c channel_store"

definition message_forwarder_init :: "nat \<Rightarrow> 'c channel_store \<Rightarrow> 'c message_forwarder" where
  "message_forwarder_init global_default cs = \<lparr>mf_global_default = global_default, mf_endpoint = subscription_endpoint_init,
     mf_egress = Map.empty, mf_retained = Map.empty, mf_remote_topics = Map.empty, mf_channels = cs\<rparr>"

abbreviation mf_registry :: "'c message_forwarder \<Rightarrow> subscriber_registry" where
  "mf_registry f \<equiv> ep_registry (mf_endpoint f)"

definition on_registry :: "(subscriber_registry \<Rightarrow> subscriber_registry) \<Rightarrow> 'c message_forwarder \<Rightarrow> 'c message_forwarder" where
  "on_registry g f = f\<lparr>mf_endpoint := (mf_endpoint f)\<lparr>ep_registry := g (mf_registry f)\<rparr>\<rparr>"

definition mf_send :: "('c, 'x) forwarder_env_scheme \<Rightarrow> nat \<Rightarrow> bytes \<Rightarrow> 'c message_forwarder \<Rightarrow> 'c message_forwarder" where
  "mf_send env ch frame f = f\<lparr>mf_channels := (mf_channels f)(ch := co_send (ev_ops env) frame (mf_channels f ch))\<rparr>"

definition mf_send_control :: "('c, 'x) forwarder_env_scheme \<Rightarrow> u64 \<Rightarrow> nat \<Rightarrow> msg_type \<Rightarrow> bytes \<Rightarrow> 'c message_forwarder \<Rightarrow> 'c message_forwarder option" where
  "mf_send_control env now ch type inner f =
     map_option (\<lambda>(ep, cs). f\<lparr>mf_endpoint := ep, mf_channels := cs\<rparr>)
       (endpoint_send_control (transport_env.truncate env) now ch type inner (mf_endpoint f, mf_channels f))"

section \<open>Remembered demand\<close>

definition record_remote_topic :: "bytes \<Rightarrow> bytes \<Rightarrow> subscriber_qos \<Rightarrow> u64 option \<Rightarrow> 'c message_forwarder \<Rightarrow> 'c message_forwarder" where
  "record_remote_topic node_name fqn qos type_id f =
     (let topics = (case mf_remote_topics f node_name of None \<Rightarrow> [] | Some ts \<Rightarrow> ts);
          topics = (if list_ex (\<lambda>d. rd_fqn d = fqn) topics then topics else topics @ [\<lparr>rd_fqn = fqn, rd_qos = qos, rd_type_id = type_id\<rparr>])
      in f\<lparr>mf_remote_topics := (mf_remote_topics f)(node_name \<mapsto> topics)\<rparr>)"

definition forget_remote_topic :: "bytes \<Rightarrow> bytes \<Rightarrow> 'c message_forwarder \<Rightarrow> 'c message_forwarder" where
  "forget_remote_topic node_name fqn f =
     (case mf_remote_topics f node_name of
        None \<Rightarrow> f
      | Some ts \<Rightarrow> let ts = filter (\<lambda>d. rd_fqn d \<noteq> fqn) ts in
          f\<lparr>mf_remote_topics := (if ts = [] then (mf_remote_topics f)(node_name := None) else (mf_remote_topics f)(node_name \<mapsto> ts))\<rparr>)"

definition remembered_topics :: "bytes \<Rightarrow> 'c message_forwarder \<Rightarrow> remembered_demand list" where
  "remembered_topics node_name f = (case mf_remote_topics f node_name of None \<Rightarrow> [] | Some ts \<Rightarrow> ts)"

section \<open>Retained frames\<close>

definition retain_if_latched :: "u64 \<Rightarrow> topic_qos \<Rightarrow> bytes \<Rightarrow> 'c message_forwarder \<Rightarrow> 'c message_forwarder option" where
  "retain_if_latched h qos framed f =
     (if \<not> tq_latch qos then Some f
      else let ring = (case mf_retained f h of None \<Rightarrow> history_ring_init | Some r \<Rightarrow> r);
               ring = hr_resize_to (max 1 (min (unat (tq_depth qos)) k_history_depth_cap)) ring
           in map_option (\<lambda>ring. f\<lparr>mf_retained := (mf_retained f)(h \<mapsto> ring)\<rparr>) (hr_push framed ring))"

fun replay_from :: "('c, 'x) forwarder_env_scheme \<Rightarrow> nat \<Rightarrow> history_ring \<Rightarrow> nat list \<Rightarrow> 'c message_forwarder \<Rightarrow> 'c message_forwarder option" where
  "replay_from env ch ring [] f = Some f"
| "replay_from env ch ring (i # is) f = do { frame \<leftarrow> hr_oldest_to_newest i ring; replay_from env ch ring is (mf_send env ch frame f) }"

definition replay_window :: "('c, 'x) forwarder_env_scheme \<Rightarrow> peer_ref \<Rightarrow> history_ring \<Rightarrow> nat \<Rightarrow> 'c message_forwarder \<Rightarrow> 'c message_forwarder option" where
  "replay_window env p ring limit f = replay_from env (pr_channel p) ring [hr_count ring - limit..<hr_count ring] f"

text \<open>A durability byte outside the three enumerators matches no case.\<close>

definition replay_if_latched :: "('c, 'x) forwarder_env_scheme \<Rightarrow> peer_ref \<Rightarrow> u64 \<Rightarrow> 'c message_forwarder \<Rightarrow> 'c message_forwarder option" where
  "replay_if_latched env p h f =
     (if \<not> tq_latch (qos_for h (mf_registry f)) then Some f
      else case mf_retained f h of
        None \<Rightarrow> Some f
      | Some ring \<Rightarrow>
          if hr_count ring = 0 then Some f
          else let sub = qos_for_subscriber h (pr_channel p) (mf_registry f) in
            if uq_durability_mode sub = dur_none then Some f
            else if uq_durability_mode sub = dur_latest then map_option (\<lambda>frame. mf_send env (pr_channel p) frame f) (hr_newest ring)
            else if uq_durability_mode sub = dur_all then
              let count = hr_count ring;
                  limit = (if uq_replay_depth sub \<noteq> 0 then min count (unat (uq_replay_depth sub)) else count)
              in replay_window env p ring limit f
            else Some f)"

definition fetch_latched :: "('c, 'x) forwarder_env_scheme \<Rightarrow> peer_ref \<Rightarrow> u64 \<Rightarrow> u32 \<Rightarrow> 'c message_forwarder \<Rightarrow> 'c message_forwarder option" where
  "fetch_latched env p h max_samples f =
     (case mf_retained f h of
        None \<Rightarrow> Some f
      | Some ring \<Rightarrow> if hr_count ring = 0 then Some f
          else replay_window env p ring (min (unat max_samples) (min (hr_count ring) k_fetch_cap)) f)"

section \<open>Attach and detach\<close>

definition type_id_mismatch :: "u64 \<Rightarrow> u64 option \<Rightarrow> 'c message_forwarder \<Rightarrow> bool" where
  "type_id_mismatch h subscriber_type_id f =
     (case (producer_type_id h (mf_registry f), subscriber_type_id) of (Some p, Some s) \<Rightarrow> p \<noteq> s | _ \<Rightarrow> False)"

definition status_of :: "rxo_verdict \<Rightarrow> subscribe_status" where
  "status_of v = (if v = v_source_identity_incompatible then ss_source_identity_incompatible else ss_incompatible_qos)"

definition qos_change :: "qos_edge \<Rightarrow> u64 \<Rightarrow> subscriber_qos \<Rightarrow> rxo_verdict \<Rightarrow> u64 option \<Rightarrow> forwarder_output" where
  "qos_change edge h requested verdict type_id = Out_qos_change \<lparr>qc_edge = edge, qc_topic_hash = h, qc_peer = replicate 16 0,
     qc_requested = requested, qc_verdict = verdict, qc_type_id = type_id\<rparr>"

definition send_subscribe :: "('c, 'x) forwarder_env_scheme \<Rightarrow> u64 \<Rightarrow> nat \<Rightarrow> bytes \<Rightarrow> u64 \<Rightarrow> u64 option \<Rightarrow> subscriber_qos \<Rightarrow> 'c message_forwarder
    \<Rightarrow> 'c message_forwarder option" where
  "send_subscribe env now ch fqn h type_id sub_qos f =
     (let req = \<lparr>sr_fqn = fqn, sr_type_name = [], sr_topic_hash = h, sr_type_hash = (case type_id of None \<Rightarrow> 0 | Some t \<Rightarrow> t),
                 sr_source = source_publisher, sr_has_qos = False, sr_qos = default_qos_region\<rparr>;
          req = (if sub_qos \<noteq> default_subscriber_qos then req\<lparr>sr_has_qos := True, sr_qos := to_wire_region sub_qos\<rparr> else req)
      in map_option (\<lambda>(ep, cs). f\<lparr>mf_endpoint := ep, mf_channels := cs\<rparr>)
           (endpoint_send_subscribe (transport_env.truncate env) now ch req (mf_endpoint f, mf_channels f)))"

definition mf_attach :: "('c, 'x) forwarder_env_scheme \<Rightarrow> u64 \<Rightarrow> peer_ref \<Rightarrow> bytes \<Rightarrow> subscriber_qos \<Rightarrow> u64 option \<Rightarrow> 'c message_forwarder
    \<Rightarrow> ('c message_forwarder \<times> bool \<times> forwarder_output list) option" where
  "mf_attach env now p fqn qos type_id f =
     (let (ep, gate) = attach_gate (pr_node_name p) fqn (mf_endpoint f); f = f\<lparr>mf_endpoint := ep\<rparr> in
      if \<not> gate then Some (f, False, [])
      else let h = fqn_topic_hash fqn;
               f = on_registry (add_subscriber (ev_scheme env) h fqn (pr_channel p) (pr_node_name p) qos type_id) f;
               f = record_remote_topic (pr_node_name p) fqn qos type_id f in do {
        f \<leftarrow> send_subscribe env now (pr_channel p) fqn h type_id qos f;
        Some (f, True, [qos_change qe_accepted h qos v_compatible type_id, Out_demand (pr_node_name p) fqn demand_up role_subscriber])
      })"

definition send_subscribe_response :: "('c, 'x) forwarder_env_scheme \<Rightarrow> u64 \<Rightarrow> peer_ref \<Rightarrow> subscribe_response \<Rightarrow> 'c message_forwarder \<Rightarrow> 'c message_forwarder option" where
  "send_subscribe_response env now p resp f = do {
     body \<leftarrow> encode_subscribe_response resp;
     mf_send_control env now (pr_channel p) msg_subscribe_response body f
   }"

definition plain_response :: "u64 \<Rightarrow> subscribe_status \<Rightarrow> subscribe_response" where
  "plain_response h status = \<lparr>sp_topic_hash = h, sp_status = status, sp_has_degraded = False, sp_degraded_flags = 0\<rparr>"

definition attach_for_fanout :: "('c, 'x) forwarder_env_scheme \<Rightarrow> u64 \<Rightarrow> peer_ref \<Rightarrow> bytes \<Rightarrow> u64 option \<Rightarrow> subscriber_qos \<Rightarrow> 'c message_forwarder
    \<Rightarrow> ('c message_forwarder \<times> bool \<times> forwarder_output list) option" where
  "attach_for_fanout env now p fqn subscriber_type_id sub_qos f =
     (let h = fqn_topic_hash fqn in
      if type_id_mismatch h subscriber_type_id f
      then map_option (\<lambda>f. (f, False, [])) (send_subscribe_response env now p (plain_response h ss_type_mismatch) f)
      else if uq_posture sub_qos = posture_strict \<and> subscriber_type_id \<noteq> None \<and> producer_type_id h (mf_registry f) = None
      then map_option (\<lambda>f. (f, False, [])) (send_subscribe_response env now p (plain_response h ss_type_undeclared) f)
      else
        let rxo = rxo_check (qos_for h (mf_registry f)) (offers_source_identity h (mf_registry f)) (mf_global_default f) sub_qos;
            v = rx_verdict rxo in
        if v = v_incompatible_qos \<or> v = v_source_identity_incompatible
        then map_option (\<lambda>f. (f, False, [qos_change qe_refused h sub_qos v subscriber_type_id]))
               (send_subscribe_response env now p (plain_response h (status_of v)) f)
        else
          let (r, n) = bump_refcount (pr_node_name p) fqn (mf_registry f); f = on_registry (\<lambda>_. r) f in
          if n \<noteq> 1 then Some (f, False, [])
          else
            let f = on_registry (add_subscriber (ev_scheme env) h fqn (pr_channel p) (pr_node_name p) sub_qos subscriber_type_id) f;
                resp = (if v = v_degraded
                        then \<lparr>sp_topic_hash = h, sp_status = ss_subscribed_degraded, sp_has_degraded = True, sp_degraded_flags = rx_degraded_fields rxo\<rparr>
                        else plain_response h ss_subscribed) in do {
              f \<leftarrow> send_subscribe_response env now p resp f;
              f \<leftarrow> replay_if_latched env p h f;
              Some (f, True, [qos_change (if v = v_degraded then qe_degraded else qe_accepted) h sub_qos v subscriber_type_id,
                              Out_demand (pr_node_name p) fqn demand_up role_publisher])
            })"

definition attach_local :: "('c, 'x) forwarder_env_scheme \<Rightarrow> bytes \<Rightarrow> nat \<Rightarrow> bytes \<Rightarrow> subscriber_qos \<Rightarrow> u64 option \<Rightarrow> 'c message_forwarder
    \<Rightarrow> 'c message_forwarder option" where
  "attach_local env fqn ch self_name qos type_id f =
     (let h = fqn_topic_hash fqn;
          f = on_registry (add_subscriber (ev_scheme env) h fqn ch self_name qos type_id) f
      in replay_if_latched env \<lparr>pr_channel = ch, pr_node_name = self_name\<rparr> h f)"

definition drop_channel_egress :: "('c, 'x) forwarder_env_scheme \<Rightarrow> nat \<Rightarrow> 'c message_forwarder \<Rightarrow> 'c message_forwarder" where
  "drop_channel_egress env ch f = f\<lparr>mf_egress := egress_remove (ev_ops env) (mf_channels f ch) (mf_egress f)\<rparr>"

definition detach_local :: "('c, 'x) forwarder_env_scheme \<Rightarrow> bytes \<Rightarrow> nat \<Rightarrow> 'c message_forwarder \<Rightarrow> 'c message_forwarder" where
  "detach_local env fqn ch f = drop_channel_egress env ch (on_registry (remove_subscriber (fqn_topic_hash fqn) ch) f)"

definition mf_declare :: "bytes \<Rightarrow> topic_qos \<Rightarrow> u64 option \<Rightarrow> bool \<Rightarrow> bytes \<Rightarrow> u64 \<Rightarrow> 'c message_forwarder \<Rightarrow> 'c message_forwarder" where
  "mf_declare fqn qos producer_type emit producer_type_name schema_hint =
     on_registry (registry_declare (fqn_topic_hash fqn) fqn qos producer_type emit producer_type_name schema_hint)"

definition mf_latch :: "bytes \<Rightarrow> 'c message_forwarder \<Rightarrow> 'c message_forwarder" where
  "mf_latch fqn = mf_declare fqn (default_topic_qos\<lparr>tq_latch := True, tq_depth := 1\<rparr>) None False [] 0"

definition mf_detach :: "('c, 'x) forwarder_env_scheme \<Rightarrow> u64 \<Rightarrow> peer_ref \<Rightarrow> bytes \<Rightarrow> 'c message_forwarder
    \<Rightarrow> ('c message_forwarder \<times> bool \<times> forwarder_output list) option" where
  "mf_detach env now p fqn f =
     (let (ep, gate) = detach_gate (pr_node_name p) fqn (mf_endpoint f); f = f\<lparr>mf_endpoint := ep\<rparr> in
      if \<not> gate then Some (f, False, [])
      else let h = fqn_topic_hash fqn;
               f = on_registry (remove_subscriber h (pr_channel p)) f;
               f = drop_channel_egress env (pr_channel p) f;
               f = forget_remote_topic (pr_node_name p) fqn f in do {
        req \<leftarrow> encode_unsubscribe_request h;
        f \<leftarrow> mf_send_control env now (pr_channel p) msg_unsubscribe req f;
        Some (f, True, [qos_change qe_unsubscribed h default_subscriber_qos v_compatible None,
                        Out_demand (pr_node_name p) fqn demand_down role_subscriber])
      })"

definition mf_detach_all :: "('c, 'x) forwarder_env_scheme \<Rightarrow> peer_ref \<Rightarrow> 'c message_forwarder \<Rightarrow> 'c message_forwarder" where
  "mf_detach_all env p f = drop_channel_egress env (pr_channel p) (f\<lparr>mf_endpoint := endpoint_remove_peer p (mf_endpoint f)\<rparr>)"

section \<open>Publishing\<close>

definition frame_owned :: "frame_header \<Rightarrow> unidirectional_header \<Rightarrow> bytes \<Rightarrow> u64 option \<Rightarrow> bytes option" where
  "frame_owned fhdr uhdr payload counter = encode_unidirectional_frame_into [] fhdr uhdr payload counter"

definition frame_flags :: "u64 option \<Rightarrow> u8" where
  "frame_flags counter = (if counter \<noteq> None then k_flag_source_identity else 0)"

definition frame_publish :: "u64 \<Rightarrow> u64 \<Rightarrow> bytes \<Rightarrow> u64 option \<Rightarrow> u64 \<Rightarrow> 'c message_forwarder \<Rightarrow> ('c message_forwarder \<times> bytes \<times> message_info) option" where
  "frame_publish now h payload counter session_id f =
     (let (ep, seqno) = next_sequence (mf_endpoint f);
          uhdr = \<lparr>uh_source = source_publisher, uh_sequence = seqno, uh_topic_hash = h\<rparr>;
          fhdr = \<lparr>fh_type = msg_unidirectional, fh_flags = frame_flags counter, fh_session_id = session_id, fh_timestamp_ns = now, fh_payload_len = 0\<rparr>;
          info = default_message_info\<lparr>mi_publication_sequence := seqno, mi_source_timestamp := now\<rparr>
      in map_option (\<lambda>framed. (f\<lparr>mf_endpoint := ep\<rparr>, framed, info)) (frame_owned fhdr uhdr payload counter))"

definition frame_object :: "object_carrier \<Rightarrow> u64 \<Rightarrow> u64 option \<Rightarrow> u64 \<Rightarrow> bytes \<Rightarrow> bytes option" where
  "frame_object carrier h counter session_id payload =
     (let uhdr = \<lparr>uh_source = source_publisher, uh_sequence = oc_sequence carrier, uh_topic_hash = h\<rparr>;
          fhdr = \<lparr>fh_type = msg_unidirectional, fh_flags = frame_flags counter, fh_session_id = session_id,
                  fh_timestamp_ns = oc_source_timestamp carrier, fh_payload_len = 0\<rparr>
      in frame_owned fhdr uhdr payload counter)"

text \<open>\<open>subspan\<close> past the end is a fault.\<close>

definition bare_of :: "bytes \<Rightarrow> u64 option \<Rightarrow> bytes option" where
  "bare_of framed counter =
     (let prefix = header_size + unidirectional_header_size + (case counter of None \<Rightarrow> 0 | Some c \<Rightarrow> varint_size c)
      in if prefix \<le> length framed then Some (drop prefix framed) else None)"

definition mf_enqueue :: "('c, 'x) forwarder_env_scheme \<Rightarrow> nat \<Rightarrow> nat \<Rightarrow> congestion \<Rightarrow> bytes \<Rightarrow> 'c message_forwarder
    \<Rightarrow> ('c message_forwarder \<times> drop_cause) option" where
  "mf_enqueue env route i cong framed f =
     map_option (\<lambda>(m, ch, cause). (f\<lparr>mf_egress := m, mf_channels := (mf_channels f)(route := ch)\<rparr>, cause))
       (egress_enqueue (ev_ops env) (mf_channels f route) i cong framed (mf_egress f))"

definition shed :: "u64 \<Rightarrow> nat \<Rightarrow> drop_cause \<Rightarrow> locality \<Rightarrow> 'c message_forwarder \<Rightarrow> 'c message_forwarder \<times> forwarder_output list" where
  "shed h i cause tier f =
     (on_registry (record_drop h i cause) f,
      [Out_drop (default_drop_event\<lparr>de_cause := cause, de_transport := tier, de_band := of_nat i, de_topic_hash := h\<rparr>)])"

definition shed_if :: "u64 \<Rightarrow> nat \<Rightarrow> drop_cause \<Rightarrow> locality \<Rightarrow> 'c message_forwarder \<Rightarrow> 'c message_forwarder \<times> forwarder_output list" where
  "shed_if h i cause tier f = (if cause \<noteq> dc_none then shed h i cause tier f else (f, []))"

fun fan_published :: "('c, 'x) forwarder_env_scheme \<Rightarrow> registry_subscriber list \<Rightarrow> u64 \<Rightarrow> bytes \<Rightarrow> topic_qos \<Rightarrow> bytes \<Rightarrow> bytes \<Rightarrow> message_info
    \<Rightarrow> 'c message_forwarder \<Rightarrow> ('c message_forwarder \<times> forwarder_output list) option" where
  "fan_published env [] h fqn qos framed bare info f = Some (f, [])"
| "fan_published env (sub # subs) h fqn qos framed bare info f =
     (if \<not> locality_any_set (tq_reach qos) (sb_tier sub) then fan_published env subs h fqn qos framed bare info f
      else
        let route = (case ev_companion env (sb_node_name sub) fqn (length framed) of Some companion \<Rightarrow> companion | None \<Rightarrow> sb_channel sub) in do {
          (f, cause) \<leftarrow> mf_enqueue env route (band_of (tq_priority qos)) (tq_congestion qos) framed f;
          let (f, outs) = shed_if h (band_of (tq_priority qos)) cause (sb_tier sub) f in
          map_option (\<lambda>(f, outs'). (f, outs @ Out_delivered h fqn info bare # outs')) (fan_published env subs h fqn qos framed bare info f)
        })"

definition publish :: "('c, 'x) forwarder_env_scheme \<Rightarrow> u64 \<Rightarrow> bytes \<Rightarrow> bytes \<Rightarrow> u64 \<Rightarrow> 'c message_forwarder
    \<Rightarrow> ('c message_forwarder \<times> forwarder_output list) option" where
  "publish env now fqn payload session_id f =
     (let h = fqn_topic_hash fqn in
      case rg_topics (mf_registry f) h of
        None \<Rightarrow> Some (f, [])
      | Some topic \<Rightarrow>
          let qos = te_qos topic in
          if te_subscribers topic = [] \<and> \<not> tq_latch qos then Some (f, [])
          else let counter = (if te_emit_source_identity topic then te_endpoint_counter topic else None) in do {
            (f, framed, info) \<leftarrow> frame_publish now h payload counter session_id f;
            bare \<leftarrow> bare_of framed counter;
            (f, outs) \<leftarrow> fan_published env (te_subscribers topic) h fqn qos framed bare info f;
            f \<leftarrow> retain_if_latched h qos framed f;
            Some (f, Out_published h fqn bare # outs)
          })"

definition eligible_for_object :: "('c, 'x) forwarder_env_scheme \<Rightarrow> registry_subscriber \<Rightarrow> object_carrier \<Rightarrow> bool" where
  "eligible_for_object env sub carrier \<longleftrightarrow> ev_send_object env \<noteq> None \<and> sb_tier sub = loc_process \<and> sb_type_id sub = Some (oc_type_tag carrier)"

text \<open>The frame is encoded when the first subscriber needs bytes; \<open>framed\<close> is what was encoded so far.\<close>

definition encode_once :: "bytes option \<Rightarrow> bytes option \<Rightarrow> (bytes \<times> forwarder_output list) option" where
  "encode_once frame framed = (case framed of Some fr \<Rightarrow> Some (fr, []) | None \<Rightarrow> map_option (\<lambda>fr. (fr, [Out_encode])) frame)"

fun fan_object :: "('c, 'x) forwarder_env_scheme \<Rightarrow> registry_subscriber list \<Rightarrow> u64 \<Rightarrow> bytes \<Rightarrow> topic_qos \<Rightarrow> object_carrier \<Rightarrow> bytes option
    \<Rightarrow> bytes \<Rightarrow> message_info \<Rightarrow> bytes option \<Rightarrow> 'c message_forwarder \<Rightarrow> ('c message_forwarder \<times> bytes option \<times> forwarder_output list) option" where
  "fan_object env [] h fqn qos carrier frame bare info framed f = Some (f, framed, [])"
| "fan_object env (sub # subs) h fqn qos carrier frame bare info framed f =
     (if \<not> locality_any_set (tq_reach qos) (sb_tier sub) then fan_object env subs h fqn qos carrier frame bare info framed f
      else case (if eligible_for_object env sub carrier then ev_send_object env else None) of
        Some send_object \<Rightarrow>
          let f = f\<lparr>mf_channels := (mf_channels f)(sb_channel sub := send_object carrier (mf_channels f (sb_channel sub)))\<rparr> in
          map_option (\<lambda>(f, framed, outs). (f, framed, Out_delivered h fqn info bare # outs))
            (fan_object env subs h fqn qos carrier frame bare info framed f)
      | None \<Rightarrow> do {
          (fr, outs0) \<leftarrow> encode_once frame framed;
          (f, cause) \<leftarrow> mf_enqueue env (sb_channel sub) (band_of (tq_priority qos)) (tq_congestion qos) fr f;
          let (f, outs) = shed_if h (band_of (tq_priority qos)) cause (sb_tier sub) f in
          map_option (\<lambda>(f, framed, outs'). (f, framed, outs0 @ outs @ Out_delivered h fqn info bare # outs'))
            (fan_object env subs h fqn qos carrier frame bare info (Some fr) f)
        })"

definition publish_object :: "('c, 'x) forwarder_env_scheme \<Rightarrow> u64 \<Rightarrow> bytes \<Rightarrow> object_carrier \<Rightarrow> bytes \<Rightarrow> u64 \<Rightarrow> 'c message_forwarder
    \<Rightarrow> ('c message_forwarder \<times> forwarder_output list) option" where
  "publish_object env now fqn carrier payload session_id f =
     (let h = fqn_topic_hash fqn;
          topic = rg_topics (mf_registry f) h;
          subs = (case topic of None \<Rightarrow> [] | Some t \<Rightarrow> te_subscribers t);
          qos = (case topic of None \<Rightarrow> default_topic_qos | Some t \<Rightarrow> te_qos t);
          (ep, seqno) = next_sequence (mf_endpoint f);
          f = f\<lparr>mf_endpoint := ep\<rparr>;
          carrier = carrier\<lparr>oc_topic_hash := h, oc_sequence := seqno\<rparr>;
          carrier = (if oc_source_timestamp carrier = 0 \<and> (case topic of None \<Rightarrow> True | Some t \<Rightarrow> te_any_subscriber_wants_info t)
                     then carrier\<lparr>oc_source_timestamp := now\<rparr> else carrier);
          counter = (case topic of None \<Rightarrow> None | Some t \<Rightarrow> if te_emit_source_identity t then te_endpoint_counter t else None);
          frame = frame_object carrier h counter session_id payload;
          info = default_message_info\<lparr>mi_publication_sequence := oc_sequence carrier, mi_source_timestamp := oc_source_timestamp carrier\<rparr>
      in do {
        (framed, bare, outs0) \<leftarrow> (if ev_wants_payload env h
           then do { (fr, o0) \<leftarrow> encode_once frame None; bare \<leftarrow> bare_of fr counter; Some (Some fr, bare, o0) }
           else Some (None, [], []));
        (f, framed, outs) \<leftarrow> fan_object env subs h fqn qos carrier frame bare info framed f;
        (f, outs1) \<leftarrow> (if tq_latch qos
           then do { (fr, o1) \<leftarrow> encode_once frame framed; f \<leftarrow> retain_if_latched h qos fr f; Some (f, o1) }
           else Some (f, []));
        Some (f, outs0 @ Out_published h fqn bare # outs @ outs1 @ [Out_release carrier])
      })"

section \<open>Receiving\<close>

definition mf_fqn_for :: "u64 \<Rightarrow> 'c message_forwarder \<Rightarrow> ('c message_forwarder \<times> bytes) option" where
  "mf_fqn_for h f = map_option (\<lambda>(r, fqn). (on_registry (\<lambda>_. r) f, fqn)) (fqn_for h (mf_registry f))"

definition deliver :: "bytes \<Rightarrow> node_id \<Rightarrow> bool \<Rightarrow> 'c message_forwarder \<Rightarrow> ('c message_forwarder \<times> forwarder_output list) option" where
  "deliver inner source has_source_identity f = do {
     decoded \<leftarrow> decode_unidirectional inner has_source_identity;
     (case decoded of
        None \<Rightarrow> Some (f, [Out_warn ''plexus: forwarder unidirectional_decode_failed''])
      | Some d \<Rightarrow> do {
          (f, fqn) \<leftarrow> mf_fqn_for (uh_topic_hash (ud_header d)) f;
          if fqn = [] then Some (f, [Out_warn ''plexus: forwarder topic_unknown_for_data''])
          else Some (f, [Out_stamp source (uh_topic_hash (ud_header d)), Out_message fqn (ud_data d) None])
        })
   }"

definition deliver_with_info :: "bytes \<Rightarrow> message_info \<Rightarrow> node_id \<Rightarrow> bool \<Rightarrow> 'c message_forwarder \<Rightarrow> ('c message_forwarder \<times> forwarder_output list) option" where
  "deliver_with_info inner info source has_source_identity f = do {
     decoded \<leftarrow> decode_unidirectional inner has_source_identity;
     (case decoded of
        None \<Rightarrow> Some (f, [Out_warn ''plexus: forwarder unidirectional_decode_failed''])
      | Some d \<Rightarrow> do {
          (f, fqn) \<leftarrow> mf_fqn_for (uh_topic_hash (ud_header d)) f;
          if fqn = [] then Some (f, [Out_warn ''plexus: forwarder topic_unknown_for_data''])
          else
            let info = info\<lparr>mi_publication_sequence := uh_sequence (ud_header d)\<rparr>;
                info = (case ud_endpoint_counter d of Some c \<Rightarrow> info\<lparr>mi_source_identity := Some (source, c)\<rparr> | None \<Rightarrow> info)
            in Some (f, [Out_stamp source (uh_topic_hash (ud_header d)), Out_message fqn (ud_data d) (Some info)])
        })
   }"

end
