(* ===== verification/Message_Fanout.thy ===== *)
theory Message_Fanout
  imports Message_Forwarder Stream_Egress
begin

text \<open>
  What the forwarder promises: a publication is offered once to every subscriber its reach allows and
  to nobody else, over destinations that keep the scheduler's contract; late subscribers of a latched
  topic receive exactly the retained frames; and where the bookkeeping breaks.
\<close>

section \<open>Fan-out over polled channels\<close>

definition fan_targets :: "topic_qos \<Rightarrow> registry_subscriber list \<Rightarrow> nat set" where
  "fan_targets qos subs = sb_channel ` {s \<in> set subs. locality_any_set (tq_reach qos) (sb_tier s)}"

lemma fan_targets_simps [simp]:
  "fan_targets qos [] = {}"
  "fan_targets qos (s # subs) = (if locality_any_set (tq_reach qos) (sb_tier s) then insert (sb_channel s) (fan_targets qos subs) else fan_targets qos subs)"
  by (auto simp: fan_targets_def)

lemma fan_targets_subset: "fan_targets qos subs \<subseteq> sb_channel ` set subs"
  by (auto simp: fan_targets_def)

text \<open>What a fan-out leaves alone.\<close>

definition same_books :: "'c message_forwarder \<Rightarrow> 'c message_forwarder \<Rightarrow> bool" where
  "same_books f f' \<longleftrightarrow> mf_retained f' = mf_retained f \<and> mf_remote_topics f' = mf_remote_topics f
     \<and> ep_next_sequence (mf_endpoint f') = ep_next_sequence (mf_endpoint f)
     \<and> (\<forall>h. map_option te_subscribers (rg_topics (mf_registry f') h) = map_option te_subscribers (rg_topics (mf_registry f) h))"

lemma same_books_refl [simp]: "same_books f f"
  by (simp add: same_books_def)

lemma same_books_trans: "same_books f g \<Longrightarrow> same_books g h \<Longrightarrow> same_books f h"
  by (simp add: same_books_def)

lemma shed_if_fields:
  "mf_egress (fst (shed_if h i cause tier f)) = mf_egress f" "mf_channels (fst (shed_if h i cause tier f)) = mf_channels f"
  "same_books f (fst (shed_if h i cause tier f))"
  by (auto simp: shed_if_def shed_def on_registry_def same_books_def record_drop_def split: option.splits)

lemma band_of_less: "band_of p < k_egress_bands"
  by (simp add: band_of_def k_egress_bands_def Let_def)

context polled_channel
begin

lemma fan_tracks:
  fixes env :: "('c, 'x) forwarder_env_scheme" and W :: "nat set"
  assumes env: "ev_ops env = ops" "ev_companion env = (\<lambda>_ _ _. None)" and framed: "framed \<noteq> []"
  shows "distinct (map sb_channel subs) \<Longrightarrow> sb_channel ` set subs \<subseteq> W \<Longrightarrow> inj_on (\<lambda>ch. co_key ops (mf_channels f ch)) W \<Longrightarrow>
    (\<And>ch. ch \<in> W \<Longrightarrow> inv (c0 ch) \<and> egress_run ops progress (c0 ch) (tr ch) (mf_egress f) (mf_channels f ch)) \<Longrightarrow>
    \<exists>f' outs. fan_published env subs h fqn qos framed bare info f = Some (f', outs) \<and> same_books f f'
      \<and> (\<forall>ch\<in>W. co_key ops (mf_channels f' ch) = co_key ops (mf_channels f ch))
      \<and> (\<forall>ch\<in>W. if ch \<in> fan_targets qos subs
           then \<exists>cause hs. egress_run ops progress (c0 ch) (tr ch @ Offered (band_of (tq_priority qos)) (tq_congestion qos) framed cause # map (\<lambda>(i, x). Handed i x) hs)
                  (mf_egress f') (mf_channels f' ch)
           else egress_run ops progress (c0 ch) (tr ch) (mf_egress f') (mf_channels f' ch) \<and> mf_channels f' ch = mf_channels f ch)"
proof (induction subs arbitrary: f tr)
  case Nil
  then show ?case by simp
next
  case (Cons s subs)
  show ?case
  proof (cases "locality_any_set (tq_reach qos) (sb_tier s)")
    case False
    then show ?thesis using Cons by simp
  next
    case True
    let ?ch = "sb_channel s" and ?i = "band_of (tq_priority qos)" and ?cong = "tq_congestion qos"
    let ?c = "mf_channels f ?ch"
    have W: "?ch \<in> W" using Cons.prems(2) by simp
    have ex: "exact (c0 ?ch) (tr ?ch) (mf_egress f) ?c" using run_exact Cons.prems(4) [OF W] by blast
    obtain q cause q' c' where p: "enqueue_with_verdict ?i ?cong framed (queue_at (co_key ops ?c) (mf_egress f)) = Some (q, cause)"
      "egress_enqueue ops ?c ?i ?cong framed (mf_egress f) = Some ((mf_egress f)(co_key ops ?c \<mapsto> q'), c', cause)"
      "exact (c0 ?ch) (tr ?ch @ Offered ?i ?cong framed cause # map (\<lambda>(i, f). Handed i f) (egress_handed ops q ?c)) ((mf_egress f)(co_key ops ?c \<mapsto> q')) c'"
      using publish_exact [OF ex band_of_less framed, of "tq_priority qos" ?cong] by metis
    let ?m = "(mf_egress f)(co_key ops ?c \<mapsto> q')"
    define tr' where "tr' = tr(?ch := tr ?ch @ Offered ?i ?cong framed cause # map (\<lambda>(i, f). Handed i f) (egress_handed ops q ?c))"
    define f1 where "f1 = f\<lparr>mf_egress := ?m, mf_channels := (mf_channels f)(?ch := c')\<rparr>"
    define f2 where "f2 = fst (shed_if h ?i cause (sb_tier s) f1)"
    have key: "co_key ops c' = co_key ops ?c" using p(3) ex by (simp add: exact_def)
    have f2: "mf_egress f2 = ?m" "mf_channels f2 = (mf_channels f)(?ch := c')" "same_books f f2"
      using shed_if_fields [where h = h and i = ?i and cause = cause and tier = "sb_tier s" and f = f1] by (auto simp: f2_def f1_def same_books_def)
    have keys: "co_key ops (mf_channels f2 ch) = co_key ops (mf_channels f ch)" for ch using key by (simp add: f2)
    have runs: "inv (c0 ch) \<and> egress_run ops progress (c0 ch) (tr' ch) (mf_egress f2) (mf_channels f2 ch)" if "ch \<in> W" for ch
    proof (cases "ch = ?ch")
      case True
      then show ?thesis using egress_run_publish [OF _ band_of_less framed p(1,2)] Cons.prems(4) [OF W] by (simp add: f2 tr'_def)
    next
      case False
      then have "co_key ops (mf_channels f ch) \<noteq> co_key ops ?c" using Cons.prems(3) that W by (auto dest: inj_onD)
      then show ?thesis using egress_run_elsewhere [of ops progress "c0 ch" "tr ch" "mf_egress f" "mf_channels f ch" ?m] Cons.prems(4) [OF that] False
        by (simp add: f2 tr'_def)
    qed
    have inj: "inj_on (\<lambda>ch. co_key ops (mf_channels f2 ch)) W" using Cons.prems(3) by (simp add: keys)
    have sub: "distinct (map sb_channel subs)" "sb_channel ` set subs \<subseteq> W" using Cons.prems(1,2) by simp_all
    from Cons.IH [OF sub inj runs] obtain f' outs where f': "fan_published env subs h fqn qos framed bare info f2 = Some (f', outs)" "same_books f2 f'"
      "\<And>ch. ch \<in> W \<Longrightarrow> co_key ops (mf_channels f' ch) = co_key ops (mf_channels f2 ch)"
      "\<And>ch. ch \<in> W \<Longrightarrow> if ch \<in> fan_targets qos subs
           then \<exists>cause hs. egress_run ops progress (c0 ch) (tr' ch @ Offered ?i ?cong framed cause # map (\<lambda>(i, x). Handed i x) hs) (mf_egress f') (mf_channels f' ch)
           else egress_run ops progress (c0 ch) (tr' ch) (mf_egress f') (mf_channels f' ch) \<and> mf_channels f' ch = mf_channels f2 ch"
      by blast
    have res: "fan_published env (s # subs) h fqn qos framed bare info f
        = Some (f', snd (shed_if h ?i cause (sb_tier s) f1) @ Out_delivered h fqn info bare # outs)"
      using True p(2) f'(1) by (simp add: env mf_enqueue_def f1_def [symmetric] f2_def split_beta Let_def)
    have fresh: "?ch \<notin> fan_targets qos subs" using Cons.prems(1) fan_targets_subset [of qos subs] by auto
    have fin: "if ch \<in> fan_targets qos (s # subs)
           then \<exists>cause hs. egress_run ops progress (c0 ch) (tr ch @ Offered ?i ?cong framed cause # map (\<lambda>(i, x). Handed i x) hs) (mf_egress f') (mf_channels f' ch)
           else egress_run ops progress (c0 ch) (tr ch) (mf_egress f') (mf_channels f' ch) \<and> mf_channels f' ch = mf_channels f ch" if "ch \<in> W" for ch
    proof (cases "ch = ?ch")
      case True
      then have "\<exists>cause hs. egress_run ops progress (c0 ch) (tr ch @ Offered ?i ?cong framed cause # map (\<lambda>(i, x). Handed i x) hs) (mf_egress f') (mf_channels f' ch)"
        using conjunct1 [OF f'(4) [OF W, unfolded if_not_P [OF fresh]]] by (intro exI [of _ cause] exI [of _ "egress_handed ops q ?c"]) (simp add: tr'_def)
      then show ?thesis using True \<open>locality_any_set (tq_reach qos) (sb_tier s)\<close> by simp
    next
      case False
      then have e: "tr' ch = tr ch" "mf_channels f2 ch = mf_channels f ch" "ch \<in> fan_targets qos (s # subs) \<longleftrightarrow> ch \<in> fan_targets qos subs"
        by (simp_all add: tr'_def f2)
      show ?thesis using f'(4) [OF that] by (simp only: e)
    qed
    have "\<forall>ch\<in>W. co_key ops (mf_channels f' ch) = co_key ops (mf_channels f ch)" using f'(3) keys by simp
    with fin show ?thesis
      by (intro exI conjI) (rule res, rule same_books_trans [OF f2(3) f'(2)], assumption, rule ballI, blast)
  qed
qed

end

section \<open>What a published frame carries\<close>

definition publication_frame :: "u64 \<Rightarrow> u64 \<Rightarrow> u64 \<Rightarrow> u64 \<Rightarrow> u64 option \<Rightarrow> bytes \<Rightarrow> bytes" where
  "publication_frame now session_id seqno h counter payload =
     frame_layout \<lparr>fh_type = msg_unidirectional, fh_flags = frame_flags counter, fh_session_id = session_id, fh_timestamp_ns = now, fh_payload_len = 0\<rparr>
       (unidirectional_layout \<lparr>uh_source = source_publisher, uh_sequence = seqno, uh_topic_hash = h\<rparr> counter @ payload)"

definition topic_counter :: "registry_topic_entry \<Rightarrow> u64 option" where
  "topic_counter t = (if te_emit_source_identity t then te_endpoint_counter t else None)"

lemma publication_frame_decodes:
  "\<exists>hdr. header_view (publication_frame now session_id seqno h counter payload) = Some hdr \<and> fh_type hdr = msg_unidirectional
     \<and> fh_session_id hdr = session_id \<and> fh_timestamp_ns hdr = now \<and> (fh_flags hdr AND k_flag_source_identity \<noteq> 0) = (counter \<noteq> None)
     \<and> decode_unidirectional (drop header_size (publication_frame now session_id seqno h counter payload)) (counter \<noteq> None)
       = Some (Some \<lparr>ud_header = \<lparr>uh_source = source_publisher, uh_sequence = seqno, uh_topic_hash = h\<rparr>, ud_endpoint_counter = counter, ud_data = payload\<rparr>)"
  by (simp add: publication_frame_def frame_layout_def decode_unidirectional_layout frame_flags_def k_flag_source_identity_def del: not_None_eq)

lemma publication_frame_nonempty: "publication_frame now session_id seqno h counter payload \<noteq> []"
  by (auto simp: publication_frame_def frame_layout_def unidirectional_layout_def)

lemma length_unidirectional_layout:
  "length (unidirectional_layout uhdr counter) = unidirectional_header_size + (case counter of None \<Rightarrow> 0 | Some c \<Rightarrow> varint_size c)"
  by (cases counter) (simp_all add: unidirectional_layout_def unidirectional_header_size_def length_varint_bytes)

lemma bare_of_publication: "bare_of (publication_frame now session_id seqno h counter payload) counter = Some payload"
  by (simp add: bare_of_def publication_frame_def frame_layout_def length_unidirectional_layout Let_def add.assoc)

lemma frame_publish_eq:
  "frame_publish now h payload counter session_id f =
     Some (f\<lparr>mf_endpoint := (mf_endpoint f)\<lparr>ep_next_sequence := ep_next_sequence (mf_endpoint f) + 1\<rparr>\<rparr>,
           publication_frame now session_id (ep_next_sequence (mf_endpoint f)) h counter payload,
           default_message_info\<lparr>mi_publication_sequence := ep_next_sequence (mf_endpoint f), mi_source_timestamp := now\<rparr>)"
  by (simp add: frame_publish_def next_sequence_def frame_owned_def wire_layout publication_frame_def)

section \<open>Retention\<close>

definition retention :: "topic_qos \<Rightarrow> nat" where
  "retention qos = max 1 (min (unat (tq_depth qos)) k_history_depth_cap)"

definition ring_fits :: "topic_qos \<Rightarrow> u64 \<Rightarrow> 'c message_forwarder \<Rightarrow> bool" where
  "ring_fits qos h f \<longleftrightarrow> (case mf_retained f h of None \<Rightarrow> True | Some r \<Rightarrow> hr_ok (retention qos) r)"

definition retained_frames :: "u64 \<Rightarrow> 'c message_forwarder \<Rightarrow> bytes list" where
  "retained_frames h f = (case mf_retained f h of None \<Rightarrow> [] | Some r \<Rightarrow> hr_frames r)"

lemma retention_bounds: "0 < retention qos" "retention qos \<le> k_history_depth_cap"
  by (simp_all add: retention_def k_history_depth_cap_def)

lemma history_ring_init_ok: "hr_ok n history_ring_init" "hr_frames history_ring_init = []"
  by (simp_all add: hr_ok_def history_ring_init_def hr_frames_def)

lemma retain_if_latched_alt:
  "retain_if_latched h qos framed f = (if tq_latch qos
     then map_option (\<lambda>ring. f\<lparr>mf_retained := (mf_retained f)(h \<mapsto> ring)\<rparr>)
       (hr_push framed (hr_resize_to (retention qos) (case mf_retained f h of None \<Rightarrow> history_ring_init | Some r \<Rightarrow> r)))
     else Some f)"
  by (simp add: retain_if_latched_def retention_def Let_def)

lemma retain_eq:
  assumes "tq_latch qos \<Longrightarrow> ring_fits qos h f"
  shows "\<exists>ring. retain_if_latched h qos framed f = Some (if tq_latch qos then f\<lparr>mf_retained := (mf_retained f)(h \<mapsto> ring)\<rparr> else f)
     \<and> hr_ok (retention qos) ring \<and> (tq_latch qos \<longrightarrow> hr_frames ring = last_n (retention qos) (retained_frames h f @ [framed]) \<and> hr_slots ring \<noteq> [])"
proof (cases "tq_latch qos")
  case False
  then show ?thesis using history_ring_init_ok(1) by (auto simp: retain_if_latched_def)
next
  case True
  define r where "r = (case mf_retained f h of None \<Rightarrow> history_ring_init | Some r \<Rightarrow> r)"
  have r: "hr_ok (retention qos) r" "hr_frames r = retained_frames h f" using assms [OF True] history_ring_init_ok
    by (auto simp: r_def ring_fits_def retained_frames_def split: option.splits)
  note fresh = hr_resize_fresh [OF retention_bounds(1) r(1)]
  then obtain r' where "hr_push framed (hr_resize_to (retention qos) r) = Some r'" "hr_ok (retention qos) r'" "hr_slots r' \<noteq> []"
    "hr_frames r' = last_n (retention qos) (retained_frames h f @ [framed])"
    using hr_push_ok [of "retention qos" "hr_resize_to (retention qos) r" framed] r(2) by auto
  moreover have "retain_if_latched h qos framed f
      = map_option (\<lambda>ring. f\<lparr>mf_retained := (mf_retained f)(h \<mapsto> ring)\<rparr>) (hr_push framed (hr_resize_to (retention qos) r))"
    using True by (simp add: retain_if_latched_def Let_def r_def retention_def)
  ultimately show ?thesis using True by auto
qed

text \<open>A publication nobody could receive leaves the forwarder as it is.\<close>

lemma publish_nobody:
  "(\<And>t. rg_topics (mf_registry f) (fqn_topic_hash fqn) = Some t \<Longrightarrow> te_subscribers t = [] \<and> \<not> tq_latch (te_qos t)) \<Longrightarrow>
   publish env now fqn payload session_id f = Some (f, [])"
  by (auto simp: publish_def Let_def split: option.splits)

lemma publish_eq:
  fixes f :: "'c message_forwarder" and env :: "('c, 'x) forwarder_env_scheme" and now session_id :: u64 and payload :: bytes
  assumes "rg_topics (mf_registry f) (fqn_topic_hash fqn) = Some t" and "te_subscribers t \<noteq> [] \<or> tq_latch (te_qos t)"
  defines "framed \<equiv> publication_frame now session_id (ep_next_sequence (mf_endpoint f)) (fqn_topic_hash fqn) (topic_counter t) payload"
    and "info \<equiv> default_message_info\<lparr>mi_publication_sequence := ep_next_sequence (mf_endpoint f), mi_source_timestamp := now\<rparr>"
    and "f1 \<equiv> f\<lparr>mf_endpoint := (mf_endpoint f)\<lparr>ep_next_sequence := ep_next_sequence (mf_endpoint f) + 1\<rparr>\<rparr>"
  shows "publish env now fqn payload session_id f = do {
     (f2, outs) \<leftarrow> fan_published env (te_subscribers t) (fqn_topic_hash fqn) fqn (te_qos t) framed payload info f1;
     f3 \<leftarrow> retain_if_latched (fqn_topic_hash fqn) (te_qos t) framed f2;
     Some (f3, Out_published (fqn_topic_hash fqn) fqn payload # outs) }"
  using assms(1,2)
  by (auto simp: publish_def frame_publish_eq bare_of_publication topic_counter_def [symmetric] framed_def info_def f1_def Let_def
    split: option.splits cong: if_cong)

text \<open>
  C27. A publication to stream subscribers. For a topic with subscribers, whose channels are
  destinations of the egress scheduler with any history, a publish never faults: the frame it builds
  decodes at the receiver to the topic, the next sequence number, the publisher's identity if the
  topic emits one, and the payload; every subscriber within the topic's reach is offered exactly that
  frame once, in the topic's band and under its congestion policy, and every other destination keeps
  its history and its channel; a latched topic retains the frame behind the earlier ones, up to its
  depth.
\<close>

theorem publish_fans_out:
  fixes f :: "(stream_channel \<times> bytes list) message_forwarder"
  assumes env: "ev_ops env = stream_channel_ops" "ev_companion env = (\<lambda>_ _ _. None)"
    and topic: "rg_topics (mf_registry f) (fqn_topic_hash fqn) = Some t" "te_subscribers t \<noteq> []" "distinct (map sb_channel (te_subscribers t))"
    and ring: "ring_fits (te_qos t) (fqn_topic_hash fqn) f"
    and W: "sb_channel ` set (te_subscribers t) \<subseteq> W" "inj_on (\<lambda>ch. sc_scheduler_key (fst (mf_channels f ch))) W"
    and runs: "\<And>ch. ch \<in> W \<Longrightarrow> polled_ok (c0 ch) \<and> egress_run stream_channel_ops channel_progress (c0 ch) (tr ch) (mf_egress f) (mf_channels f ch)"
  shows "\<exists>f' outs framed hdr. publish env now fqn payload session_id f = Some (f', outs)
     \<and> header_view framed = Some hdr \<and> fh_type hdr = msg_unidirectional \<and> fh_session_id hdr = session_id
     \<and> decode_unidirectional (drop header_size framed) (fh_flags hdr AND k_flag_source_identity \<noteq> 0)
       = Some (Some \<lparr>ud_header = \<lparr>uh_source = source_publisher, uh_sequence = ep_next_sequence (mf_endpoint f), uh_topic_hash = fqn_topic_hash fqn\<rparr>,
                     ud_endpoint_counter = topic_counter t, ud_data = payload\<rparr>)
     \<and> ep_next_sequence (mf_endpoint f') = ep_next_sequence (mf_endpoint f) + 1
     \<and> (\<forall>ch\<in>W. if ch \<in> fan_targets (te_qos t) (te_subscribers t)
          then \<exists>cause hs. egress_run stream_channel_ops channel_progress (c0 ch)
                 (tr ch @ Offered (band_of (tq_priority (te_qos t))) (tq_congestion (te_qos t)) framed cause # map (\<lambda>(i, x). Handed i x) hs)
                 (mf_egress f') (mf_channels f' ch)
          else egress_run stream_channel_ops channel_progress (c0 ch) (tr ch) (mf_egress f') (mf_channels f' ch) \<and> mf_channels f' ch = mf_channels f ch)
     \<and> retained_frames (fqn_topic_hash fqn) f' = (if tq_latch (te_qos t)
          then last_n (retention (te_qos t)) (retained_frames (fqn_topic_hash fqn) f @ [framed]) else retained_frames (fqn_topic_hash fqn) f)"
proof -
  let ?h = "fqn_topic_hash fqn"
  define framed where "framed = publication_frame now session_id (ep_next_sequence (mf_endpoint f)) ?h (topic_counter t) payload"
  define info where "info = default_message_info\<lparr>mi_publication_sequence := ep_next_sequence (mf_endpoint f), mi_source_timestamp := now\<rparr>"
  define f1 where "f1 = f\<lparr>mf_endpoint := (mf_endpoint f)\<lparr>ep_next_sequence := ep_next_sequence (mf_endpoint f) + 1\<rparr>\<rparr>"
  have f1: "mf_egress f1 = mf_egress f" "mf_channels f1 = mf_channels f" "mf_retained f1 = mf_retained f" by (simp_all add: f1_def)
  have key: "co_key stream_channel_ops c = sc_scheduler_key (fst c)" for c by (cases c) (simp add: stream_channel_ops_def)
  have inj: "inj_on (\<lambda>ch. co_key stream_channel_ops (mf_channels f1 ch)) W" using W(2) by (simp add: f1 key)
  have ne: "framed \<noteq> []" unfolding framed_def by (rule publication_frame_nonempty)
  from stream_dest.fan_tracks [OF env ne topic(3) W(1) inj, of c0 tr ?h fqn "te_qos t" payload info] runs
  obtain f2 outs where f2: "fan_published env (te_subscribers t) ?h fqn (te_qos t) framed payload info f1 = Some (f2, outs)" "same_books f1 f2"
    "\<forall>ch\<in>W. if ch \<in> fan_targets (te_qos t) (te_subscribers t)
          then \<exists>cause hs. egress_run stream_channel_ops channel_progress (c0 ch)
                 (tr ch @ Offered (band_of (tq_priority (te_qos t))) (tq_congestion (te_qos t)) framed cause # map (\<lambda>(i, x). Handed i x) hs)
                 (mf_egress f2) (mf_channels f2 ch)
          else egress_run stream_channel_ops channel_progress (c0 ch) (tr ch) (mf_egress f2) (mf_channels f2 ch) \<and> mf_channels f2 ch = mf_channels f1 ch"
    unfolding f1 by blast
  have books: "mf_retained f2 = mf_retained f" "ep_next_sequence (mf_endpoint f2) = ep_next_sequence (mf_endpoint f) + 1"
    using f2(2) by (simp_all add: same_books_def f1_def)
  then have fits: "ring_fits (te_qos t) ?h f2" using ring by (simp add: ring_fits_def)
  obtain r where r: "retain_if_latched ?h (te_qos t) framed f2 = Some (if tq_latch (te_qos t) then f2\<lparr>mf_retained := (mf_retained f2)(?h \<mapsto> r)\<rparr> else f2)"
    "tq_latch (te_qos t) \<longrightarrow> hr_frames r = last_n (retention (te_qos t)) (retained_frames ?h f2 @ [framed])"
    using retain_eq [of "te_qos t" ?h f2 framed] fits by blast
  define f3 where "f3 = (if tq_latch (te_qos t) then f2\<lparr>mf_retained := (mf_retained f2)(?h \<mapsto> r)\<rparr> else f2)"
  have res: "publish env now fqn payload session_id f = Some (f3, Out_published ?h fqn payload # outs)"
    using publish_eq [OF topic(1), of env now payload session_id] topic(2) f2(1) r(1)
    unfolding framed_def [symmetric] info_def [symmetric] f1_def [symmetric] f3_def [symmetric] by simp
  have f3: "mf_egress f3 = mf_egress f2" "mf_channels f3 = mf_channels f2" "mf_endpoint f3 = mf_endpoint f2" by (simp_all add: f3_def)
  have kept: "retained_frames ?h f3 = (if tq_latch (te_qos t) then last_n (retention (te_qos t)) (retained_frames ?h f @ [framed]) else retained_frames ?h f)"
    using r(2) books(1) by (simp add: f3_def retained_frames_def)
  obtain hdr where hdr: "header_view framed = Some hdr" "fh_type hdr = msg_unidirectional" "fh_session_id hdr = session_id"
      "(fh_flags hdr AND k_flag_source_identity \<noteq> 0) = (topic_counter t \<noteq> None)"
      "decode_unidirectional (drop header_size framed) (topic_counter t \<noteq> None)
        = Some (Some \<lparr>ud_header = \<lparr>uh_source = source_publisher, uh_sequence = ep_next_sequence (mf_endpoint f), uh_topic_hash = ?h\<rparr>,
                      ud_endpoint_counter = topic_counter t, ud_data = payload\<rparr>)"
    unfolding framed_def using publication_frame_decodes by blast
  show ?thesis
    by (rule exI [of _ f3], rule exI [of _ "Out_published ?h fqn payload # outs"], rule exI [of _ framed], rule exI [of _ hdr], intro conjI)
      (rule res hdr(1-3) hdr(5) [folded hdr(4)] books(2) [folded f3(3)] f2(3) [folded f3(1,2), unfolded f1(2)] kept)+
qed

definition demo_env :: "(stream_channel \<times> bytes list) forwarder_env" where
  "demo_env = \<lparr>ev_ops = stream_channel_ops, ev_scheme = (\<lambda>_. ''tcp''), ev_companion = (\<lambda>_ _ _. None), ev_wants_payload = (\<lambda>_. False),
     ev_send_object = None\<rparr>"

definition demo_forwarder :: "(stream_channel \<times> bytes list) message_forwarder" where
  "demo_forwarder = on_registry (add_subscriber (\<lambda>_. ''tcp'') (fqn_topic_hash [1]) [1] 0 [2] default_subscriber_qos None)
     (message_forwarder_init 0 (\<lambda>_. (small_stream plaintext_bootstrap 100, [])))"

theorem publish_fans_out_witness:
  "\<exists>f' outs cause hs framed. publish demo_env 5 [1] [9, 9] 0 demo_forwarder = Some (f', outs)
     \<and> egress_run stream_channel_ops channel_progress (small_stream plaintext_bootstrap 100, [])
         (Offered 2 block framed cause # map (\<lambda>(i, x). Handed i x) hs) (mf_egress f') (mf_channels f' 0)"
proof -
  let ?c = "(small_stream plaintext_bootstrap 100, [] :: bytes list)"
  define t where "t = recompute_wants_info (new_topic_entry\<lparr>te_fqn := [1], te_subscribers := [\<lparr>sb_tier = loc_remote, sb_node_name = [2],
     sb_qos = default_subscriber_qos, sb_type_id = None, sb_channel = 0\<rparr>]\<rparr>)"
  have q: "te_qos t = default_topic_qos" by (simp add: t_def new_topic_entry_def)
  have subs: "te_subscribers t = [\<lparr>sb_tier = loc_remote, sb_node_name = [2], sb_qos = default_subscriber_qos, sb_type_id = None, sb_channel = 0\<rparr>]"
    by (simp add: t_def)
  have t: "rg_topics (mf_registry demo_forwarder) (fqn_topic_hash [1]) = Some t"
    by (simp add: demo_forwarder_def on_registry_def message_forwarder_init_def add_subscriber_def add_topic_subscriber_def entry_or_new_def
      subscription_endpoint_init_def subscriber_registry_init_def t_def new_topic_entry_def tier_of_def Let_def)
  have f: "mf_egress demo_forwarder = Map.empty" "mf_channels demo_forwarder = (\<lambda>_. ?c)" "mf_retained demo_forwarder = Map.empty"
    by (simp_all add: demo_forwarder_def on_registry_def message_forwarder_init_def)
  have reach: "locality_any_set (tq_reach default_topic_qos) loc_remote"
    by (simp add: locality_any_set_def default_topic_qos_def loc_any_def loc_process_def loc_local_def loc_remote_def)
  have i: "band_of (tq_priority default_topic_qos) = 2" "tq_congestion default_topic_qos = block"
    by (simp_all add: band_of_def k_egress_bands_def default_topic_qos_def Let_def)
  have run: "polled_ok ?c \<and> egress_run stream_channel_ops channel_progress ?c [] (mf_egress demo_forwarder) (mf_channels demo_forwarder ch)" for ch
    using egress_run_init [of stream_channel_ops channel_progress ?c] by (simp add: f small_stream_ok small_stream_fields)
  from publish_fans_out [of demo_env demo_forwarder "[1]" t "{0}" "\<lambda>_. ?c" "\<lambda>_. []" 5 "[9, 9]" 0] t run
  show ?thesis unfolding q subs by (auto simp: demo_env_def reach i ring_fits_def f)
qed

section \<open>Late subscribers\<close>

lemma mf_send_control_eq:
  "mf_send_control env now ch type inner f = Some (f\<lparr>mf_endpoint := (mf_endpoint f)\<lparr>ep_control_scratch := control_frame now type inner\<rparr>,
     mf_channels := (mf_channels f)(ch := co_send (ev_ops env) (control_frame now type inner) (mf_channels f ch))\<rparr>)"
  by (simp add: mf_send_control_def send_control_eq store_send_def transport_env.truncate_def)

lemma hr_reads:
  assumes "hr_ok n r" and "hr_slots r \<noteq> []" and "i < hr_count r"
  shows "hr_oldest_to_newest i r = Some (hr_frames r ! i)"
  using assms ring_view_nth [of i "hr_count r" "hr_slots r" "hr_start r"]
  by (auto simp: hr_oldest_to_newest_def hr_frames_def hr_start_def hr_ok_def)

lemma hr_newest_eq:
  assumes "hr_ok n r" and "hr_slots r \<noteq> []" and "0 < hr_count r"
  shows "hr_newest r = Some (last (hr_frames r))"
proof -
  have "hr_frames r \<noteq> []" using assms(3) by (auto simp: hr_frames_def dest: arg_cong [of _ _ length])
  then have "last (hr_frames r) = hr_frames r ! (hr_count r - 1)" by (simp add: last_conv_nth hr_frames_def)
  moreover have "hr_start r + (hr_count r - 1) = hr_head r + length (hr_slots r) - 1" using assms by (auto simp: hr_start_def hr_ok_def)
  ultimately show ?thesis using assms(2,3) ring_view_nth [of "hr_count r - 1" "hr_count r" "hr_slots r" "hr_start r"]
    by (simp add: hr_newest_def hr_frames_def)
qed

definition sends :: "('c, 'x) forwarder_env_scheme \<Rightarrow> nat \<Rightarrow> bytes list \<Rightarrow> 'c message_forwarder \<Rightarrow> 'c message_forwarder" where
  "sends env ch frames f = f\<lparr>mf_channels := (mf_channels f)(ch := fold (co_send (ev_ops env)) frames (mf_channels f ch))\<rparr>"

lemma sends_simps: "sends env ch [] f = f" "sends env ch (x # xs) f = sends env ch xs (mf_send env ch x f)"
  by (simp_all add: sends_def mf_send_def)

lemma replay_from_eq:
  assumes "hr_ok n r" and "hr_slots r \<noteq> []"
  shows "list_all (\<lambda>i. i < hr_count r) is \<Longrightarrow> replay_from env ch r is f = Some (sends env ch (map ((!) (hr_frames r)) is) f)"
  by (induction "is" arbitrary: f) (simp_all add: sends_simps hr_reads [OF assms])

lemma replay_window_eq:
  assumes "hr_ok n r" and "hr_slots r \<noteq> []" and "limit \<le> hr_count r"
  shows "replay_window env p r limit f = Some (sends env (pr_channel p) (last_n limit (hr_frames r)) f)"
proof -
  have "map ((!) (hr_frames r)) [hr_count r - limit..<hr_count r] = last_n limit (hr_frames r)"
    by (rule nth_equalityI) (use assms(3) in \<open>simp_all add: last_n_def hr_frames_def\<close>)
  then show ?thesis unfolding replay_window_def by (simp add: replay_from_eq [OF assms(1,2)] list_all_iff)
qed

text \<open>What a durability choice asks for.\<close>

definition wanted_history :: "subscriber_qos \<Rightarrow> 'a list \<Rightarrow> 'a list" where
  "wanted_history q xs =
     (if uq_durability_mode q = dur_latest then last_n 1 xs
      else if uq_durability_mode q = dur_all then (if uq_replay_depth q = 0 then xs else last_n (unat (uq_replay_depth q)) xs)
      else [])"

lemma last_n_all: "length xs \<le> n \<Longrightarrow> last_n n xs = xs"
  by (simp add: last_n_def)

lemma last_n_min: "last_n (min (length xs) n) xs = last_n n xs"
  by (simp add: last_n_def min_def)

lemma last_n_1: "xs \<noteq> [] \<Longrightarrow> last_n (Suc 0) xs = [last xs]"
  by (cases xs rule: rev_cases) (simp_all add: last_n_def)

lemma replay_if_latched_eq:
  assumes "tq_latch (qos_for h (mf_registry f))" and "mf_retained f h = None \<or> (\<exists>r. mf_retained f h = Some r \<and> hr_ok n r \<and> hr_slots r \<noteq> [])"
    and "qos_for_subscriber h (pr_channel p) (mf_registry f) = q"
  shows "replay_if_latched env p h f = Some (sends env (pr_channel p) (wanted_history q (retained_frames h f)) f)"
proof (cases "mf_retained f h")
  case None
  then show ?thesis using assms by (simp add: replay_if_latched_def retained_frames_def wanted_history_def sends_simps last_n_def)
next
  case (Some r)
  then have r: "hr_ok n r" "hr_slots r \<noteq> []" using assms(2) by auto
  have len: "length (hr_frames r) = hr_count r" by (simp add: hr_frames_def)
  show ?thesis
  proof (cases "hr_count r = 0")
    case True
    then show ?thesis using assms Some len by (simp add: replay_if_latched_def retained_frames_def wanted_history_def sends_simps last_n_def)
  next
    case False
    then have ne: "hr_frames r \<noteq> []" using len by auto
    have "mf_send env (pr_channel p) x f = sends env (pr_channel p) [x] f" for x by (simp add: sends_simps)
    moreover have "replay_window env p r (min (hr_count r) k) f = Some (sends env (pr_channel p) (last_n k (hr_frames r)) f)" for k
      using replay_window_eq [OF r, of "min (hr_count r) k"] last_n_min [of "hr_frames r" k] len by simp
    moreover have "replay_window env p r (hr_count r) f = Some (sends env (pr_channel p) (hr_frames r) f)"
      using replay_window_eq [OF r, of "hr_count r"] last_n_all [of "hr_frames r" "hr_count r"] len by simp
    ultimately show ?thesis using assms Some False hr_newest_eq [OF r] ne
      by (auto simp: replay_if_latched_def retained_frames_def wanted_history_def sends_simps(1) last_n_1 dur_none_def dur_latest_def dur_all_def Let_def)
  qed
qed

text \<open>Publications of one topic in order, each with its time.\<close>

fun publish_all :: "('c, 'x) forwarder_env_scheme \<Rightarrow> bytes \<Rightarrow> u64 \<Rightarrow> (u64 \<times> bytes) list \<Rightarrow> 'c message_forwarder \<Rightarrow> 'c message_forwarder option" where
  "publish_all env fqn session_id [] f = Some f"
| "publish_all env fqn session_id ((now, payload) # ps) f = do {
     (f, _) \<leftarrow> publish env now fqn payload session_id f;
     publish_all env fqn session_id ps f
   }"

fun published_frames :: "bytes \<Rightarrow> u64 \<Rightarrow> u64 option \<Rightarrow> u64 \<Rightarrow> (u64 \<times> bytes) list \<Rightarrow> bytes list" where
  "published_frames fqn session_id counter seqno [] = []"
| "published_frames fqn session_id counter seqno ((now, payload) # ps) =
     publication_frame now session_id seqno (fqn_topic_hash fqn) counter payload # published_frames fqn session_id counter (seqno + 1) ps"

lemma length_published_frames: "length (published_frames fqn session_id counter seqno ps) = length ps"
  by (induction fqn session_id counter seqno ps rule: published_frames.induct) simp_all

text \<open>The ring a latched topic without subscribers has: its frames, and where the next one goes.\<close>

definition ring_state :: "nat \<Rightarrow> u64 \<Rightarrow> bytes list \<Rightarrow> 'c message_forwarder \<Rightarrow> bool" where
  "ring_state n h fs f \<longleftrightarrow> (case mf_retained f h of
     None \<Rightarrow> fs = []
   | Some r \<Rightarrow> hr_ok n r \<and> hr_slots r \<noteq> [] \<and> hr_frames r = last_n n fs \<and> hr_head r = length fs mod n)"

lemma publish_silent:
  fixes f :: "'c message_forwarder" and env :: "('c, 'x) forwarder_env_scheme" and now session_id :: u64 and payload :: bytes
  assumes t: "rg_topics (mf_registry f) (fqn_topic_hash fqn) = Some t" "te_subscribers t = []" "tq_latch (te_qos t)"
    and ring: "ring_state (retention (te_qos t)) (fqn_topic_hash fqn) fs f"
  defines "fr \<equiv> publication_frame now session_id (ep_next_sequence (mf_endpoint f)) (fqn_topic_hash fqn) (topic_counter t) payload"
  shows "\<exists>ring outs. publish env now fqn payload session_id f
       = Some (f\<lparr>mf_endpoint := (mf_endpoint f)\<lparr>ep_next_sequence := ep_next_sequence (mf_endpoint f) + 1\<rparr>,
                 mf_retained := (mf_retained f)(fqn_topic_hash fqn \<mapsto> ring)\<rparr>, outs)
     \<and> hr_ok (retention (te_qos t)) ring \<and> hr_slots ring \<noteq> [] \<and> hr_frames ring = last_n (retention (te_qos t)) (fs @ [fr])
     \<and> hr_head ring = Suc (length fs) mod retention (te_qos t)"
proof -
  let ?h = "fqn_topic_hash fqn" and ?n = "retention (te_qos t)"
  define f1 where "f1 = f\<lparr>mf_endpoint := (mf_endpoint f)\<lparr>ep_next_sequence := ep_next_sequence (mf_endpoint f) + 1\<rparr>\<rparr>"
  define r where "r = (case mf_retained f ?h of None \<Rightarrow> history_ring_init | Some r \<Rightarrow> r)"
  have r: "hr_ok ?n r" "hr_frames r = last_n ?n fs" "hr_head r = length fs mod ?n"
    using ring history_ring_init_ok by (auto simp: r_def ring_state_def last_n_def history_ring_init_def split: option.splits)
  let ?r = "hr_resize_to ?n r"
  note fresh = hr_resize_fresh [OF retention_bounds(1) r(1)]
  then obtain r' where r': "hr_push fr ?r = Some r'" "hr_ok ?n r'" "hr_slots r' \<noteq> []" "hr_frames r' = last_n ?n (last_n ?n fs @ [fr])"
    using hr_push_ok [of ?n ?r fr] r(2) by auto
  have "hr_head ?r = hr_head r" by (simp add: hr_resize_to_def Let_def)
  then have "hr_head r' = Suc (length fs) mod ?n" using r'(1) fresh r(3) by (auto simp: hr_push_def mod_simps split: if_splits)
  moreover have "retain_if_latched ?h (te_qos t) fr f1 = Some (f1\<lparr>mf_retained := (mf_retained f)(?h \<mapsto> r')\<rparr>)"
    using t(3) r'(1) by (simp add: retain_if_latched_def f1_def Let_def r_def retention_def)
  then have "publish env now fqn payload session_id f = Some (f1\<lparr>mf_retained := (mf_retained f)(?h \<mapsto> r')\<rparr>, [Out_published ?h fqn payload])"
    using publish_eq [OF t(1), of env now payload session_id] t(2,3) unfolding fr_def [symmetric] f1_def [symmetric] by simp
  ultimately show ?thesis using r' by (auto simp: last_n_append f1_def)
qed

lemma publish_all_silent:
  fixes f :: "'c message_forwarder" and env :: "('c, 'x) forwarder_env_scheme"
  assumes t: "rg_topics (mf_registry f) (fqn_topic_hash fqn) = Some t" "te_subscribers t = []" "tq_latch (te_qos t)"
    and ring: "ring_state (retention (te_qos t)) (fqn_topic_hash fqn) fs f"
  shows "\<exists>f'. publish_all env fqn session_id ps f = Some f' \<and> mf_registry f' = mf_registry f \<and> mf_channels f' = mf_channels f
     \<and> mf_global_default f' = mf_global_default f
     \<and> ring_state (retention (te_qos t)) (fqn_topic_hash fqn) (fs @ published_frames fqn session_id (topic_counter t) (ep_next_sequence (mf_endpoint f)) ps) f'"
  using assms
proof (induction ps arbitrary: f fs)
  case Nil
  then show ?case by simp
next
  case (Cons np ps)
  obtain now payload where np: "np = (now, payload)" by fastforce
  let ?h = "fqn_topic_hash fqn" and ?n = "retention (te_qos t)"
  let ?fr = "publication_frame now session_id (ep_next_sequence (mf_endpoint f)) ?h (topic_counter t) payload"
  obtain ring outs where p: "publish env now fqn payload session_id f
       = Some (f\<lparr>mf_endpoint := (mf_endpoint f)\<lparr>ep_next_sequence := ep_next_sequence (mf_endpoint f) + 1\<rparr>,
                 mf_retained := (mf_retained f)(?h \<mapsto> ring)\<rparr>, outs)"
     "hr_ok ?n ring" "hr_slots ring \<noteq> []" "hr_frames ring = last_n ?n (fs @ [?fr])" "hr_head ring = Suc (length fs) mod ?n"
    using publish_silent [OF Cons.prems, of env now payload session_id] by blast
  let ?f = "f\<lparr>mf_endpoint := (mf_endpoint f)\<lparr>ep_next_sequence := ep_next_sequence (mf_endpoint f) + 1\<rparr>, mf_retained := (mf_retained f)(?h \<mapsto> ring)\<rparr>"
  have "ring_state ?n ?h (fs @ [?fr]) ?f" using p by (simp add: ring_state_def)
  from Cons.IH [OF _ Cons.prems(2,3) this] Cons.prems(1) p(1) show ?case by (simp add: np)
qed

definition compatible_subscription :: "bytes \<Rightarrow> u64 option \<Rightarrow> subscriber_qos \<Rightarrow> 'c message_forwarder \<Rightarrow> bool" where
  "compatible_subscription fqn type_id q f \<longleftrightarrow> \<not> type_id_mismatch (fqn_topic_hash fqn) type_id f
     \<and> \<not> (uq_posture q = posture_strict \<and> type_id \<noteq> None \<and> producer_type_id (fqn_topic_hash fqn) (mf_registry f) = None)
     \<and> rx_verdict (rxo_check (qos_for (fqn_topic_hash fqn) (mf_registry f)) (offers_source_identity (fqn_topic_hash fqn) (mf_registry f))
         (mf_global_default f) q) \<in> {v_compatible, v_degraded}"

definition accept_response :: "u64 \<Rightarrow> rxo_result \<Rightarrow> subscribe_response" where
  "accept_response h rxo = (if rx_verdict rxo = v_degraded
     then \<lparr>sp_topic_hash = h, sp_status = ss_subscribed_degraded, sp_has_degraded = True, sp_degraded_flags = rx_degraded_fields rxo\<rparr>
     else plain_response h ss_subscribed)"

definition response_frame :: "u64 \<Rightarrow> subscribe_response \<Rightarrow> bytes" where
  "response_frame now resp = control_frame now msg_subscribe_response (the (encode_subscribe_response resp))"

lemma send_response_eq: "send_subscribe_response env now p resp f = mf_send_control env now (pr_channel p) msg_subscribe_response (the (encode_subscribe_response resp)) f"
  by (simp add: send_subscribe_response_def wire_layout)

lemma find_appended: "List.find P xs = None \<Longrightarrow> P y \<Longrightarrow> List.find P (xs @ [y]) = Some y"
  by (induction xs) (auto split: if_splits)

text \<open>The registry a first attach leaves.\<close>

lemma attach_registry:
  assumes "rg_topics r h = Some t" and "\<not> list_ex (\<lambda>s. sb_channel s = ch) (te_subscribers t)"
  shows "qos_for h (add_subscriber scheme h fqn ch nm q ty r) = te_qos t" "qos_for_subscriber h ch (add_subscriber scheme h fqn ch nm q ty r) = q"
proof -
  have "List.find (\<lambda>s. sb_channel s = ch) (te_subscribers t) = None" using assms(2) by (auto simp: find_None_iff list_ex_iff)
  from find_appended [OF this] assms
  show "qos_for h (add_subscriber scheme h fqn ch nm q ty r) = te_qos t" "qos_for_subscriber h ch (add_subscriber scheme h fqn ch nm q ty r) = q"
    by (auto simp: qos_for_def qos_for_subscriber_def add_subscriber_def add_topic_subscriber_def entry_or_new_def Let_def)
qed

text \<open>
  C28. History for late subscribers. A topic is declared latched and published to before anybody
  subscribes; then a peer with a compatible request subscribes for the first time. It is answered and
  then sent, in order of publication, exactly the frames its durability asks for out of the last
  published ones that the topic's depth retains; no other channel is touched. The depth is the
  declared one, between one and the cap.
\<close>

theorem late_subscriber_history:
  fixes f :: "'c message_forwarder" and env :: "('c, 'x) forwarder_env_scheme"
  assumes t: "rg_topics (mf_registry f) (fqn_topic_hash fqn) = Some t" "te_subscribers t = []" "tq_latch (te_qos t)"
    and fresh: "mf_retained f (fqn_topic_hash fqn) = None" "rc_count (rg_refcount (mf_registry f)) (pr_node_name p) fqn = 0"
    and compat: "compatible_subscription fqn type_id q f"
  shows "\<exists>f1 f2 outs. publish_all env fqn session_id ps f = Some f1 \<and> attach_for_fanout env now p fqn type_id q f1 = Some (f2, True, outs)
     \<and> mf_channels f2 = (mf_channels f)(pr_channel p := fold (co_send (ev_ops env))
         (response_frame now (accept_response (fqn_topic_hash fqn) (rxo_check (te_qos t) (te_emit_source_identity t) (mf_global_default f) q))
          # wanted_history q (last_n (retention (te_qos t)) (published_frames fqn session_id (topic_counter t) (ep_next_sequence (mf_endpoint f)) ps)))
         (mf_channels f (pr_channel p)))
     \<and> 1 \<le> retention (te_qos t) \<and> retention (te_qos t) \<le> k_history_depth_cap"
proof -
  let ?h = "fqn_topic_hash fqn" and ?n = "retention (te_qos t)"
  let ?fs = "published_frames fqn session_id (topic_counter t) (ep_next_sequence (mf_endpoint f)) ps"
  let ?rxo = "rxo_check (te_qos t) (te_emit_source_identity t) (mf_global_default f) q"
  have "ring_state ?n ?h [] f" using fresh(1) by (simp add: ring_state_def)
  from publish_all_silent [OF t this, of env session_id ps] obtain f1 where f1: "publish_all env fqn session_id ps f = Some f1"
    "mf_registry f1 = mf_registry f" "mf_channels f1 = mf_channels f" "mf_global_default f1 = mf_global_default f" "ring_state ?n ?h ?fs f1" by auto
  have offer: "qos_for ?h (mf_registry f) = te_qos t" "offers_source_identity ?h (mf_registry f) = te_emit_source_identity t"
    using t(1) by (simp_all add: qos_for_def offers_source_identity_def)
  define r1 where "r1 = fst (bump_refcount (pr_node_name p) fqn (mf_registry f))"
  define r2 where "r2 = add_subscriber (ev_scheme env) ?h fqn (pr_channel p) (pr_node_name p) q type_id r1"
  have bump: "bump_refcount (pr_node_name p) fqn (mf_registry f) = (r1, 1)"
    using fresh(2) by (simp add: r1_def bump_refcount_def split_beta)
  have top: "rg_topics r1 ?h = Some t" using t(1) by (simp add: r1_def bump_refcount_def split_beta)
  have noch: "\<not> list_ex (\<lambda>s. sb_channel s = pr_channel p) (te_subscribers t)" using t(2) by simp
  note reg = attach_registry [OF top noch, of "ev_scheme env" fqn "pr_node_name p" q type_id, folded r2_def]
  define resp where "resp = accept_response ?h ?rxo"
  define g where "g = (let f = on_registry (\<lambda>_. r2) f1 in f\<lparr>mf_endpoint := (mf_endpoint f)\<lparr>ep_control_scratch := response_frame now resp\<rparr>,
     mf_channels := (mf_channels f)(pr_channel p := co_send (ev_ops env) (response_frame now resp) (mf_channels f (pr_channel p)))\<rparr>)"
  have g: "mf_registry g = r2" "mf_retained g = mf_retained f1" "mf_channels g = (mf_channels f)(pr_channel p := co_send (ev_ops env) (response_frame now resp) (mf_channels f (pr_channel p)))"
    by (simp_all add: g_def on_registry_def Let_def f1)
  have sent: "send_subscribe_response env now p resp (on_registry (\<lambda>_. r2) f1) = Some g"
    by (simp add: send_response_eq mf_send_control_eq g_def response_frame_def Let_def)
  have frames: "retained_frames ?h g = last_n ?n ?fs" and ring: "mf_retained g ?h = None \<or> (\<exists>r. mf_retained g ?h = Some r \<and> hr_ok ?n r \<and> hr_slots r \<noteq> [])"
    using f1(5) by (auto simp: g ring_state_def retained_frames_def last_n_def split: option.splits)
  have replay: "replay_if_latched env p ?h g = Some (sends env (pr_channel p) (wanted_history q (last_n ?n ?fs)) g)"
    using replay_if_latched_eq [of ?h g ?n p q env] ring frames reg t(3) by (simp add: g)
  have verdict: "rx_verdict ?rxo = v_compatible \<or> rx_verdict ?rxo = v_degraded"
    and tm: "\<not> type_id_mismatch ?h type_id f1" and po: "\<not> (uq_posture q = posture_strict \<and> type_id \<noteq> None \<and> producer_type_id ?h (mf_registry f1) = None)"
    using compat by (auto simp: compatible_subscription_def offer type_id_mismatch_def f1)
  have two: "on_registry (add_subscriber (ev_scheme env) ?h fqn (pr_channel p) (pr_node_name p) q type_id) (on_registry (\<lambda>_. r1) f1) = on_registry (\<lambda>_. r2) f1"
    by (simp add: on_registry_def r2_def)
  have att: "\<exists>outs. attach_for_fanout env now p fqn type_id q f1 = Some (sends env (pr_channel p) (wanted_history q (last_n ?n ?fs)) g, True, outs)"
    using tm po verdict bump sent replay offer two
    by (auto simp: attach_for_fanout_def f1 resp_def accept_response_def)
  then show ?thesis using f1(1) retention_bounds [of "te_qos t"] by (auto simp: sends_def g resp_def)
qed

definition latched_qos :: "u32 \<Rightarrow> topic_qos" where
  "latched_qos depth = default_topic_qos\<lparr>tq_latch := True, tq_depth := depth\<rparr>"

definition logged_env :: "bytes list forwarder_env" where
  "logged_env = \<lparr>ev_ops = \<lparr>co_can_poll = False, co_key = (\<lambda>_. 0), co_backpressured = (\<lambda>_. 0), co_capacity = None, co_send = (\<lambda>f c. c @ [f])\<rparr>,
     ev_scheme = (\<lambda>_. ''tcp''), ev_companion = (\<lambda>_ _ _. None), ev_wants_payload = (\<lambda>_. False), ev_send_object = None\<rparr>"

definition latched_forwarder :: "u32 \<Rightarrow> bytes list message_forwarder" where
  "latched_forwarder depth = mf_declare [1] (latched_qos depth) None False [] 0 (message_forwarder_init 0 (\<lambda>_. []))"

definition latched_entry :: "u32 \<Rightarrow> registry_topic_entry" where
  "latched_entry depth = new_topic_entry\<lparr>te_fqn := [1], te_qos := latched_qos depth\<rparr>"

lemma latched_forwarder_fields:
  "rg_topics (mf_registry (latched_forwarder d)) = [fqn_topic_hash [1] \<mapsto> latched_entry d]" "mf_retained (latched_forwarder d) = Map.empty"
  "mf_global_default (latched_forwarder d) = 0" "rg_refcount (mf_registry (latched_forwarder d)) = Map.empty"
  "mf_channels (latched_forwarder d) = (\<lambda>_. [])" "ep_next_sequence (mf_endpoint (latched_forwarder d)) = 0"
  by (simp_all add: latched_forwarder_def latched_entry_def mf_declare_def on_registry_def registry_declare_def message_forwarder_init_def
    subscription_endpoint_init_def subscriber_registry_init_def entry_or_new_def new_topic_entry_def Let_def)

lemma latched_entry_fields:
  "te_subscribers (latched_entry d) = []" "tq_latch (te_qos (latched_entry d))" "te_qos (latched_entry d) = latched_qos d"
  "te_emit_source_identity (latched_entry d) = False" "te_producer_type_id (latched_entry d) = None" "topic_counter (latched_entry d) = None"
  by (simp_all add: latched_entry_def new_topic_entry_def latched_qos_def topic_counter_def)

lemma latched_offer:
  "qos_for (fqn_topic_hash [1]) (mf_registry (latched_forwarder d)) = latched_qos d"
  "producer_type_id (fqn_topic_hash [1]) (mf_registry (latched_forwarder d)) = None"
  "offers_source_identity (fqn_topic_hash [1]) (mf_registry (latched_forwarder d)) = False"
  by (simp_all add: qos_for_def producer_type_id_def offers_source_identity_def latched_forwarder_fields latched_entry_fields)

definition demo_peer :: peer_ref where
  "demo_peer = \<lparr>pr_channel = 0, pr_node_name = [2]\<rparr>"

definition replay_two :: subscriber_qos where
  "replay_two = default_subscriber_qos\<lparr>uq_durability_mode := dur_all, uq_replay_depth := 2\<rparr>"

lemma replay_two_compatible: "compatible_subscription [1] None replay_two (latched_forwarder 5)"
  by (simp add: compatible_subscription_def type_id_mismatch_def latched_offer latched_forwarder_fields replay_two_def default_subscriber_qos_def rxo_check_def source_identity_compatible_def reliability_compatible_def
    durability_compatible_def deadline_compatible_def lease_compatible_def max_message_bytes_compatible_def latched_qos_def Let_def)

theorem late_subscriber_history_witness:
  "\<exists>f1 f2 outs resp. publish_all logged_env [1] 0 [(1, [10]), (2, [20]), (3, [30])] (latched_forwarder 5) = Some f1
     \<and> attach_for_fanout logged_env 4 demo_peer [1] None replay_two f1 = Some (f2, True, outs)
     \<and> mf_channels f2 0 = [resp, publication_frame 2 0 1 (fqn_topic_hash [1]) None [20], publication_frame 3 0 2 (fqn_topic_hash [1]) None [30]]"
  using late_subscriber_history [of "latched_forwarder 5" "[1]" "latched_entry 5" demo_peer None replay_two logged_env 0
      "[(1, [10]), (2, [20]), (3, [30])]" 4] replay_two_compatible
  by (auto simp: latched_forwarder_fields latched_entry_fields rc_count_def demo_peer_def wanted_history_def replay_two_def
    dur_all_def dur_latest_def last_n_def retention_def latched_qos_def k_history_depth_cap_def logged_env_def)

section \<open>Where the bookkeeping breaks\<close>

lemma declare_topic:
  "rg_topics r h = Some t \<Longrightarrow> \<exists>t'. rg_topics (registry_declare h fqn q ty em nm sh r) h = Some t' \<and> te_qos t' = q \<and> te_subscribers t' = te_subscribers t"
  by (simp add: registry_declare_def entry_or_new_def Let_def)

text \<open>
  C29. Declaring a latched topic again with a smaller depth corrupts memory: after as many publications
  as the new depth, fewer than the old one, the ring's write position lies outside the shrunk vector,
  and the next publication writes there.
\<close>

theorem redeclared_depth_faults:
  fixes f :: "'c message_forwarder" and env :: "('c, 'x) forwarder_env_scheme"
  assumes t: "rg_topics (mf_registry f) (fqn_topic_hash fqn) = Some t" "te_subscribers t = []" "tq_latch (te_qos t)" "fqn \<noteq> []"
    and fresh: "mf_retained f (fqn_topic_hash fqn) = None"
    and smaller: "tq_latch qos" "retention qos = length ps" "length ps < retention (te_qos t)"
  shows "\<exists>f1. publish_all env fqn session_id ps f = Some f1 \<and> publish env now fqn payload session_id (mf_declare fqn qos type_id emit nm sh f1) = None"
proof -
  let ?h = "fqn_topic_hash fqn" and ?n = "retention (te_qos t)"
  let ?fs = "published_frames fqn session_id (topic_counter t) (ep_next_sequence (mf_endpoint f)) ps"
  have "ring_state ?n ?h [] f" using fresh by (simp add: ring_state_def)
  from publish_all_silent [OF t(1-3) this, of env session_id ps] obtain f1 where f1: "publish_all env fqn session_id ps f = Some f1"
    "mf_registry f1 = mf_registry f" "ring_state ?n ?h ?fs f1" by auto
  define g where "g = mf_declare fqn qos type_id emit nm sh f1"
  obtain t' where t': "rg_topics (mf_registry g) ?h = Some t'" "te_qos t' = qos" "te_subscribers t' = []"
    using declare_topic [of "mf_registry f1" ?h t fqn qos type_id emit nm sh] t(1,2) by (auto simp: g_def mf_declare_def on_registry_def f1(2))
  have g: "mf_retained g = mf_retained f1" by (simp add: g_def mf_declare_def on_registry_def)
  have len: "length ?fs = length ps" by (rule length_published_frames)
  moreover have "length ps \<noteq> 0" using smaller(2) retention_bounds(1) [of qos] by simp
  ultimately have "?fs \<noteq> []" by auto
  then obtain r where r: "mf_retained g ?h = Some r" "length (hr_slots r) = ?n" "hr_head r = length ps"
    using f1(3) len smaller(3) by (auto simp: g ring_state_def hr_ok_def split: option.splits)
  have "retain_if_latched ?h qos fr (g\<lparr>mf_endpoint := ep\<rparr>) = None" for fr ep
    using r smaller \<open>?fs \<noteq> []\<close> len by (cases ps) (simp_all add: retain_if_latched_alt hr_push_def hr_resize_to_def Let_def)
  then have "publish env now fqn payload session_id g = None"
    using publish_eq [OF t'(1), of env now payload session_id] t'(2,3) smaller(1) by simp
  then show ?thesis using f1(1) by (auto simp: g_def)
qed

theorem redeclared_depth_faults_witness:
  "\<exists>f1. publish_all logged_env [1] 0 [(1, [10]), (2, [20])] (latched_forwarder 5) = Some f1
     \<and> publish logged_env 3 [1] [30] 0 (mf_declare [1] (latched_qos 2) None False [] 0 f1) = None"
  by (rule redeclared_depth_faults [of "latched_forwarder 5" "[1]" "latched_entry 5"])
    (simp_all add: latched_forwarder_fields latched_entry_fields retention_def latched_qos_def k_history_depth_cap_def)

text \<open>The registry after the first attach of a pair.\<close>

lemma attach_counts:
  assumes "mf_attach env now p fqn q ty f = Some (f', True, outs)"
  shows "rc_count (rg_refcount (mf_registry f')) (pr_node_name p) fqn = 1"
    "\<exists>t s. rg_topics (mf_registry f') (fqn_topic_hash fqn) = Some t \<and> s \<in> set (te_subscribers t) \<and> sb_channel s = pr_channel p"
proof -
  define b where "b = rc_bump (pr_node_name p) fqn (rg_refcount (mf_registry f))"
  have one: "snd b = 1" and reg: "mf_registry f' = add_subscriber (ev_scheme env) (fqn_topic_hash fqn) fqn (pr_channel p) (pr_node_name p) q ty
      ((mf_registry f)\<lparr>rg_refcount := fst b\<rparr>)"
    using assms by (auto simp: mf_attach_def attach_gate_def bump_refcount_def b_def split_beta Let_def send_subscribe_def
      endpoint_send_subscribe_def wire_layout send_control_eq on_registry_def record_remote_topic_def split: if_splits)
  show "rc_count (rg_refcount (mf_registry f')) (pr_node_name p) fqn = 1"
    using one by (simp add: reg add_subscriber_def b_def)
  show "\<exists>t s. rg_topics (mf_registry f') (fqn_topic_hash fqn) = Some t \<and> s \<in> set (te_subscribers t) \<and> sb_channel s = pr_channel p"
    by (auto simp: reg add_subscriber_def add_topic_subscriber_def Let_def list_ex_iff)
qed

text \<open>
  C30. Two nodes that subscribe to each other's copy of a topic. Once this node has attached to the
  peer's topic, the peer's own subscription to the same topic, compatible as it may be, only raises
  the shared reference count: the peer is sent nothing, neither an answer nor history, so its pending
  subscription is never resolved. And attaching alone already makes the peer's channel a fan-out
  target of the topic, before the peer asked for anything.
\<close>

theorem mutual_subscription_unanswered:
  assumes att: "mf_attach env now p fqn q ty f = Some (f1, True, outs)" and compat: "compatible_subscription fqn ty' q' f1"
  shows "\<exists>f2. attach_for_fanout env now' p fqn ty' q' f1 = Some (f2, False, []) \<and> mf_channels f2 = mf_channels f1 \<and> mf_egress f2 = mf_egress f1
     \<and> (\<exists>t s. rg_topics (mf_registry f1) (fqn_topic_hash fqn) = Some t \<and> s \<in> set (te_subscribers t) \<and> sb_channel s = pr_channel p)"
proof -
  let ?r = "bump_refcount (pr_node_name p) fqn (mf_registry f1)"
  have n: "snd ?r = 2" using attach_counts(1) [OF att] by (simp add: bump_refcount_def split_beta)
  have tm: "\<not> type_id_mismatch (fqn_topic_hash fqn) ty' f1"
    and po: "\<not> (uq_posture q' = posture_strict \<and> ty' \<noteq> None \<and> producer_type_id (fqn_topic_hash fqn) (mf_registry f1) = None)"
    and ve: "rx_verdict (rxo_check (qos_for (fqn_topic_hash fqn) (mf_registry f1)) (offers_source_identity (fqn_topic_hash fqn) (mf_registry f1))
         (mf_global_default f1) q') \<in> {v_compatible, v_degraded}"
    using compat by (auto simp: compatible_subscription_def)
  have "attach_for_fanout env now' p fqn ty' q' f1 = Some (on_registry (\<lambda>_. fst ?r) f1, False, [])"
    using tm po ve n by (auto simp: attach_for_fanout_def Let_def split_beta)
  with attach_counts(2) [OF att] show ?thesis by (auto simp: on_registry_def)
qed

theorem mutual_subscription_unanswered_witness:
  "\<exists>f1 outs f2. mf_attach logged_env 1 demo_peer [1] default_subscriber_qos None (latched_forwarder 5) = Some (f1, True, outs)
     \<and> attach_for_fanout logged_env 2 demo_peer [1] None replay_two f1 = Some (f2, False, []) \<and> mf_channels f2 = mf_channels f1"
proof -
  obtain f1 outs where att: "mf_attach logged_env 1 demo_peer [1] default_subscriber_qos None (latched_forwarder 5) = Some (f1, True, outs)"
    by (simp add: mf_attach_def attach_gate_def bump_refcount_def rc_bump_def latched_forwarder_fields Let_def split_beta send_subscribe_def
      endpoint_send_subscribe_def wire_layout send_control_eq)
  then have reg: "mf_registry f1 = add_subscriber (ev_scheme logged_env) (fqn_topic_hash [1]) [1] 0 [2] default_subscriber_qos None
      (fst (bump_refcount [2] [1] (mf_registry (latched_forwarder 5))))" and gd: "mf_global_default f1 = 0"
    by (auto simp: mf_attach_def attach_gate_def rc_bump_def latched_forwarder_fields Let_def split_beta send_subscribe_def
      endpoint_send_subscribe_def wire_layout send_control_eq on_registry_def record_remote_topic_def demo_peer_def split: if_splits)
  have top: "rg_topics (fst (bump_refcount [2] [1] (mf_registry (latched_forwarder 5)))) (fqn_topic_hash [1]) = Some (latched_entry 5)"
    by (simp add: bump_refcount_def latched_forwarder_fields split_beta)
  have q: "qos_for (fqn_topic_hash [1]) (mf_registry f1) = latched_qos 5" "producer_type_id (fqn_topic_hash [1]) (mf_registry f1) = None"
    "offers_source_identity (fqn_topic_hash [1]) (mf_registry f1) = False"
    unfolding reg using top by (auto simp: qos_for_def producer_type_id_def offers_source_identity_def add_subscriber_def add_topic_subscriber_def
      entry_or_new_def latched_entry_fields Let_def)
  have "compatible_subscription [1] None replay_two f1"
    using replay_two_compatible unfolding compatible_subscription_def type_id_mismatch_def q gd latched_offer by (simp add: latched_forwarder_fields)
  from mutual_subscription_unanswered [OF att this, of 2] show ?thesis using att by blast
qed

end
