(* ===== verification/Forwarder_Safety.thy ===== *)
theory Forwarder_Safety
  imports Message_Forwarder
begin

text \<open>
  The well-formedness of the message forwarder and that everything a peer or the application can ask
  of it, publishing apart, returns and keeps it. The session relies on these facts: what arrives on the
  wire can only reach these operations.
\<close>

section \<open>Well-formed forwarders\<close>

text \<open>The topic name memo is right and every retained ring has a slot to read.\<close>

definition mf_ok :: "'c message_forwarder \<Rightarrow> bool" where
  "mf_ok f \<longleftrightarrow> registry_ok (mf_registry f) \<and> (\<forall>h r. mf_retained f h = Some r \<longrightarrow> hr_slots r \<noteq> [])"

lemma mf_ok_cong:
  "mf_registry f' = mf_registry f \<Longrightarrow> mf_retained f' = mf_retained f \<Longrightarrow> mf_ok f' \<longleftrightarrow> mf_ok f"
  by (simp add: mf_ok_def)

lemma mf_init_ok [simp]: "mf_ok (message_forwarder_init g cs)"
  by (simp add: mf_ok_def message_forwarder_init_def subscription_endpoint_init_def)

lemma on_registry_ok: "mf_ok f \<Longrightarrow> (registry_ok (mf_registry f) \<Longrightarrow> registry_ok (g (mf_registry f))) \<Longrightarrow> mf_ok (on_registry g f)"
  by (auto simp: mf_ok_def on_registry_def)

lemma mf_ok_channels [simp]: "mf_ok (f\<lparr>mf_channels := cs\<rparr>) \<longleftrightarrow> mf_ok f" "mf_ok (f\<lparr>mf_egress := m\<rparr>) \<longleftrightarrow> mf_ok f"
  "mf_ok (f\<lparr>mf_remote_topics := t\<rparr>) \<longleftrightarrow> mf_ok f"
  by (simp_all add: mf_ok_def)

lemma mf_ok_send [simp]: "mf_ok (mf_send env ch frame f) \<longleftrightarrow> mf_ok f"
  by (simp add: mf_send_def)

lemma mf_ok_demand [simp]: "mf_ok (record_remote_topic n fqn q t f) \<longleftrightarrow> mf_ok f" "mf_ok (forget_remote_topic n fqn f) \<longleftrightarrow> mf_ok f"
  by (simp_all add: record_remote_topic_def forget_remote_topic_def Let_def split: option.splits)

lemma mf_ok_drop_egress [simp]: "mf_ok (drop_channel_egress env ch f) \<longleftrightarrow> mf_ok f"
  by (simp add: drop_channel_egress_def)

text \<open>What sending a control frame does to the forwarder.\<close>

lemma mf_send_control_safe: "mf_ok f \<Longrightarrow> safely mf_ok (mf_send_control env now ch type inner f)"
  by (simp add: mf_send_control_def send_control_eq safely_def mf_ok_def)

lemma send_subscribe_safe: "mf_ok f \<Longrightarrow> safely mf_ok (send_subscribe env now ch fqn h t q f)"
  by (simp add: send_subscribe_def endpoint_send_subscribe_def wire_layout send_control_eq safely_def mf_ok_def Let_def)

lemma response_safe: "mf_ok f \<Longrightarrow> safely mf_ok (send_subscribe_response env now p resp f)"
  using mf_send_control_safe [of f env now "pr_channel p" msg_subscribe_response] by (auto simp: send_subscribe_response_def wire_layout)

section \<open>Replays\<close>

lemma replay_from_safe: "mf_ok f \<Longrightarrow> hr_slots ring \<noteq> [] \<Longrightarrow> safely mf_ok (replay_from env ch ring is f)"
  by (induction "is" arbitrary: f) (simp_all add: hr_oldest_to_newest_def safely_def)

lemma replay_safe:
  assumes "mf_ok f"
  shows "safely mf_ok (replay_if_latched env p h f)" "safely mf_ok (fetch_latched env p h n f)"
proof -
  have ring: "hr_slots r \<noteq> []" if "mf_retained f h = Some r" for r using that assms by (simp add: mf_ok_def)
  show "safely mf_ok (replay_if_latched env p h f)"
    using assms ring replay_from_safe [OF assms] by (auto simp: replay_if_latched_def replay_window_def hr_newest_def safely_def Let_def split: option.splits)
  show "safely mf_ok (fetch_latched env p h n f)"
    using assms ring replay_from_safe [OF assms] by (auto simp: fetch_latched_def replay_window_def safely_def split: option.splits)
qed

section \<open>Attach, detach, deliver\<close>

lemma gate_ok:
  assumes "mf_ok f"
  shows "mf_ok (f\<lparr>mf_endpoint := fst (attach_gate n fqn (mf_endpoint f))\<rparr>)" "mf_ok (f\<lparr>mf_endpoint := fst (detach_gate n fqn (mf_endpoint f))\<rparr>)"
  using assms refcount_ok [of "mf_registry f" n fqn] by (auto simp: mf_ok_def attach_gate_def detach_gate_def split: prod.splits)

lemma mf_attach_safe:
  assumes "mf_ok f"
  shows "safely (\<lambda>(f', _). mf_ok f') (mf_attach env now p fqn q t f)"
proof -
  let ?g = "f\<lparr>mf_endpoint := fst (attach_gate (pr_node_name p) fqn (mf_endpoint f))\<rparr>"
  let ?h = "record_remote_topic (pr_node_name p) fqn q t
     (on_registry (add_subscriber (ev_scheme env) (fqn_topic_hash fqn) fqn (pr_channel p) (pr_node_name p) q t) ?g)"
  have "mf_ok ?g" by (rule gate_ok [OF assms])
  moreover from this have "mf_ok ?h" unfolding mf_ok_demand by (rule on_registry_ok) (rule registry_keeps)
  ultimately show ?thesis using send_subscribe_safe [of ?h env now "pr_channel p" fqn "fqn_topic_hash fqn" t q]
    by (auto simp: mf_attach_def safely_def split_beta Let_def)
qed

lemma safely_cases: "(c \<Longrightarrow> safely P a) \<Longrightarrow> (\<not> c \<Longrightarrow> safely P b) \<Longrightarrow> safely P (if c then a else b)"
  by simp

lemma attach_for_fanout_safe:
  assumes "mf_ok f"
  shows "safely (\<lambda>(f', _). mf_ok f') (attach_for_fanout env now p fqn t q f)"
proof -
  let ?h = "fqn_topic_hash fqn" and ?r = "bump_refcount (pr_node_name p) fqn (mf_registry f)"
  have g: "mf_ok (on_registry (\<lambda>_. fst ?r) f)" using assms by (rule on_registry_ok) (rule registry_keeps)
  then have a: "mf_ok (on_registry (add_subscriber (ev_scheme env) ?h fqn (pr_channel p) (pr_node_name p) q t) (on_registry (\<lambda>_. fst ?r) f))"
    by (rule on_registry_ok) (rule registry_keeps)
  have refuse: "safely (\<lambda>(f', _). mf_ok f') (map_option (\<lambda>f. (f, False, outs)) (send_subscribe_response env now p resp f))" for resp outs
    using response_safe [OF assms, of env now p resp] by (auto simp: safely_def)
  have admit: "safely (\<lambda>(f', _). mf_ok f') (do { f \<leftarrow> send_subscribe_response env now p resp f'; f \<leftarrow> replay_if_latched env p ?h f; Some (f, True, outs) })"
    if f': "mf_ok f'" for resp outs f'
  proof -
    obtain f1 where "send_subscribe_response env now p resp f' = Some f1" "mf_ok f1" using response_safe [OF f', of env now p resp] by (auto simp: safely_def)
    then show ?thesis using replay_safe(1) [of f1 env p ?h] by (auto simp: safely_def)
  qed
  have again: "safely (\<lambda>(f', _). mf_ok f') (Some (on_registry (\<lambda>_. fst ?r) f, False, []))" using g by (simp add: safely_def)
  show ?thesis unfolding attach_for_fanout_def Let_def split_beta
    by (intro safely_cases refuse [unfolded split_beta] admit [OF a, unfolded split_beta] again [unfolded split_beta])
qed

lemma mf_detach_safe:
  assumes "mf_ok f"
  shows "safely (\<lambda>(f', _). mf_ok f') (mf_detach env now p fqn f)" "mf_ok (mf_detach_all env p f)"
proof -
  let ?g = "f\<lparr>mf_endpoint := fst (detach_gate (pr_node_name p) fqn (mf_endpoint f))\<rparr>"
  let ?h = "forget_remote_topic (pr_node_name p) fqn (drop_channel_egress env (pr_channel p) (on_registry (remove_subscriber (fqn_topic_hash fqn) (pr_channel p)) ?g))"
  have "mf_ok ?g" by (rule gate_ok [OF assms])
  moreover from this have "mf_ok ?h" unfolding mf_ok_demand mf_ok_drop_egress by (rule on_registry_ok) (rule registry_keeps)
  then obtain f1 where "mf_send_control env now (pr_channel p) msg_unsubscribe (be_bytes 8 (fqn_topic_hash fqn)) ?h = Some f1" "mf_ok f1"
    using mf_send_control_safe [of ?h env now "pr_channel p" msg_unsubscribe "be_bytes 8 (fqn_topic_hash fqn)"] by (auto simp: safely_def)
  ultimately show "safely (\<lambda>(f', _). mf_ok f') (mf_detach env now p fqn f)"
    by (auto simp: mf_detach_def safely_def split_beta Let_def wire_layout)
  show "mf_ok (mf_detach_all env p f)" unfolding mf_detach_all_def mf_ok_drop_egress
    using assms remove_peer_ok by (auto simp: endpoint_remove_peer_def mf_ok_def)
qed

lemma mf_fqn_for_safe: "mf_ok f \<Longrightarrow> safely (\<lambda>(f', _). mf_ok f' \<and> mf_channels f' = mf_channels f) (mf_fqn_for h f)"
  using fqn_for_eq [of "mf_registry f" h] by (auto simp: mf_fqn_for_def safely_def mf_ok_def on_registry_def)

lemma deliver_safe:
  assumes "mf_ok f"
  shows "safely (\<lambda>(f', _). mf_ok f' \<and> mf_channels f' = mf_channels f) (deliver inner source sid f)"
    and "safely (\<lambda>(f', _). mf_ok f' \<and> mf_channels f' = mf_channels f) (deliver_with_info inner info source sid f)"
proof -
  obtain d where d: "decode_unidirectional inner sid = Some d" using decode_unidirectional_total [of inner sid] by (auto simp: safely_def)
  have fqn: "\<exists>f' fqn. mf_fqn_for h f = Some (f', fqn) \<and> mf_ok f' \<and> mf_channels f' = mf_channels f" for h
    using mf_fqn_for_safe [OF assms, of h] by (auto simp: safely_def)
  show "safely (\<lambda>(f', _). mf_ok f' \<and> mf_channels f' = mf_channels f) (deliver inner source sid f)"
  proof (cases d)
    case (Some u)
    then show ?thesis using d fqn [of "uh_topic_hash (ud_header u)"] by (auto simp: deliver_def safely_def)
  qed (use d assms in \<open>simp add: deliver_def safely_def\<close>)
  show "safely (\<lambda>(f', _). mf_ok f' \<and> mf_channels f' = mf_channels f) (deliver_with_info inner info source sid f)"
  proof (cases d)
    case (Some u)
    then show ?thesis using d fqn [of "uh_topic_hash (ud_header u)"] by (auto simp: deliver_with_info_def safely_def Let_def)
  qed (use d assms in \<open>simp add: deliver_with_info_def safely_def\<close>)
qed

lemma local_ops_ok:
  assumes "mf_ok f"
  shows "safely mf_ok (attach_local env fqn ch nm q t f)" "mf_ok (detach_local env fqn ch f)" "mf_ok (mf_declare fqn tq ty em tn sh f)" "mf_ok (mf_latch fqn f)"
proof -
  have "mf_ok (on_registry (add_subscriber (ev_scheme env) (fqn_topic_hash fqn) fqn ch nm q t) f)" using assms by (rule on_registry_ok) (rule registry_keeps)
  then show "safely mf_ok (attach_local env fqn ch nm q t f)" by (simp add: attach_local_def replay_safe Let_def)
  show "mf_ok (detach_local env fqn ch f)" unfolding detach_local_def mf_ok_drop_egress using assms by (rule on_registry_ok) (rule registry_keeps)
  show decl: "mf_ok (mf_declare fqn tq ty em tn sh f)" for tq ty em tn sh unfolding mf_declare_def using assms by (rule on_registry_ok) (rule registry_keeps)
  show "mf_ok (mf_latch fqn f)" unfolding mf_latch_def by (rule decl)
qed

section \<open>Runs\<close>

datatype forwarder_op =
  Fo_attach u64 peer_ref bytes subscriber_qos "u64 option" | Fo_attach_for_fanout u64 peer_ref bytes "u64 option" subscriber_qos
  | Fo_attach_local bytes nat bytes subscriber_qos "u64 option" | Fo_detach_local bytes nat
  | Fo_declare bytes topic_qos "u64 option" bool bytes u64 | Fo_latch bytes | Fo_detach u64 peer_ref bytes | Fo_detach_all peer_ref
  | Fo_fetch peer_ref u64 u32 | Fo_deliver bytes node_id bool | Fo_deliver_with_info bytes message_info node_id bool | Fo_fqn_for u64

fun forwarder_step :: "('c, 'x) forwarder_env_scheme \<Rightarrow> 'c message_forwarder \<Rightarrow> forwarder_op \<Rightarrow> ('c message_forwarder \<times> forwarder_output list) option" where
  "forwarder_step env f (Fo_attach now p fqn q t) = map_option (\<lambda>(f, _, outs). (f, outs)) (mf_attach env now p fqn q t f)"
| "forwarder_step env f (Fo_attach_for_fanout now p fqn t q) = map_option (\<lambda>(f, _, outs). (f, outs)) (attach_for_fanout env now p fqn t q f)"
| "forwarder_step env f (Fo_attach_local fqn ch nm q t) = map_option (\<lambda>f. (f, [])) (attach_local env fqn ch nm q t f)"
| "forwarder_step env f (Fo_detach_local fqn ch) = Some (detach_local env fqn ch f, [])"
| "forwarder_step env f (Fo_declare fqn q t em tn sh) = Some (mf_declare fqn q t em tn sh f, [])"
| "forwarder_step env f (Fo_latch fqn) = Some (mf_latch fqn f, [])"
| "forwarder_step env f (Fo_detach now p fqn) = map_option (\<lambda>(f, _, outs). (f, outs)) (mf_detach env now p fqn f)"
| "forwarder_step env f (Fo_detach_all p) = Some (mf_detach_all env p f, [])"
| "forwarder_step env f (Fo_fetch p h n) = map_option (\<lambda>f. (f, [])) (fetch_latched env p h n f)"
| "forwarder_step env f (Fo_deliver inner source sid) = deliver inner source sid f"
| "forwarder_step env f (Fo_deliver_with_info inner info source sid) = deliver_with_info inner info source sid f"
| "forwarder_step env f (Fo_fqn_for h) = map_option (\<lambda>(f, _). (f, [])) (mf_fqn_for h f)"

lemma safely_mapped: "safely P m \<Longrightarrow> (\<And>x. P x \<Longrightarrow> Q (g x)) \<Longrightarrow> safely Q (map_option g m)"
  by (auto simp: safely_def)

lemma forwarder_step_safe:
  assumes "mf_ok f"
  shows "safely (\<lambda>(f', _). mf_ok f') (forwarder_step env f e)"
proof (cases e)
  case (Fo_deliver inner source sid)
  then show ?thesis using deliver_safe(1) [OF assms, of inner source sid] by (auto simp: safely_def)
next
  case (Fo_deliver_with_info inner info source sid)
  then show ?thesis using deliver_safe(2) [OF assms, of inner info source sid] by (auto simp: safely_def)
next
  case (Fo_fqn_for h)
  then show ?thesis using mf_fqn_for_safe [OF assms, of h] by (auto simp: safely_def)
qed (use local_ops_ok [OF assms] mf_detach_safe(2) [OF assms] in \<open>auto simp: safely_def [of _ "Some _"] intro: safely_mapped [OF mf_attach_safe [OF assms]]
    safely_mapped [OF attach_for_fanout_safe [OF assms]] safely_mapped [OF local_ops_ok(1) [OF assms]] safely_mapped [OF mf_detach_safe(1) [OF assms]]
    safely_mapped [OF replay_safe(2) [OF assms]]\<close>)

interpretation forwarder: safe_machine "forwarder_step env" mf_ok for env
  by unfold_locales (rule forwarder_step_safe)


end
