(* ===== verification/Procedure_Forwarder.thy ===== *)
theory Procedure_Forwarder
  imports Subscription_Endpoint
begin

text \<open>
  The request and response forwarder (\<open>io/procedure_forwarder.h\<close>, \<open>io/detail/procedure_fanout.h\<close>): calls
  correlated to responses through a bounded table per peer, deadlines, and the dispatch of requests to
  local providers. A callback or a provider is a number; its invocation is an output. The reply functor
  handed to a provider is the operation \<open>rpc_reply\<close>, which a provider may invoke at once, later, or
  never. A deadline timer that fires is the operation \<open>fire_timeout\<close>.
\<close>

section \<open>State\<close>

record pending_rpc =
  pd_fqn :: bytes
  pd_on_response :: nat

record 'c procedure_forwarder =
  pf_endpoint :: subscription_endpoint
  pf_max_outstanding :: nat
  pf_active_channel :: "nat option"
  pf_active_session_id :: u64
  pf_next_correlation_id :: u64
  pf_req_scratch :: bytes
  pf_resp_scratch :: bytes
  pf_frame_scratch :: bytes
  pf_default_deadline :: int
  pf_active_req_hdr :: bidirectional_header
  pf_providers :: "bytes \<rightharpoonup> nat"
  pf_hash_to_fqn :: "u64 \<rightharpoonup> bytes"
  pf_outstanding :: "bytes \<rightharpoonup> (u64 \<times> pending_rpc) list"
  pf_channels :: "'c channel_store"

definition k_default_max_outstanding :: nat where "k_default_max_outstanding = 1024"

definition source_caller :: endpoint_source_type where "source_caller = 0x06"
definition source_procedure :: endpoint_source_type where "source_procedure = 0x07"

definition zero_bidirectional :: bidirectional_header where
  "zero_bidirectional = \<lparr>bh_source = 0, bh_sequence = 0, bh_topic_hash = 0, bh_type_hash_1 = 0, bh_type_hash_2 = 0, bh_correlation_id = 0\<rparr>"

definition procedure_forwarder_init :: "int \<Rightarrow> nat \<Rightarrow> 'c channel_store \<Rightarrow> 'c procedure_forwarder" where
  "procedure_forwarder_init default_deadline max_outstanding cs =
     \<lparr>pf_endpoint = subscription_endpoint_init, pf_max_outstanding = max_outstanding, pf_active_channel = None, pf_active_session_id = 0,
      pf_next_correlation_id = 1, pf_req_scratch = [], pf_resp_scratch = [], pf_frame_scratch = [], pf_default_deadline = default_deadline, pf_active_req_hdr = zero_bidirectional,
      pf_providers = Map.empty, pf_hash_to_fqn = Map.empty, pf_outstanding = Map.empty, pf_channels = cs\<rparr>"

datatype rpc_output =
  Rpc_response nat rpc_status bytes | Rpc_dispatch nat bytes | Rpc_call_seen bytes u64 | Rpc_serve_seen bytes u64 | Rpc_reply_seen bytes u64 rpc_status
  | Rpc_arm bytes u64 int | Rpc_cancel bytes u64 | Rpc_warn string

section \<open>Sending\<close>

definition rpc_send_data :: "'c transport_env \<Rightarrow> u64 \<Rightarrow> nat \<Rightarrow> msg_type \<Rightarrow> bytes \<Rightarrow> u64 \<Rightarrow> 'c procedure_forwarder \<Rightarrow> 'c procedure_forwarder option" where
  "rpc_send_data env now ch type inner session_id f =
     (let fhdr = \<lparr>fh_type = type, fh_flags = 0, fh_session_id = session_id, fh_timestamp_ns = now, fh_payload_len = of_nat (length inner)\<rparr> in do {
        frame \<leftarrow> encode_frame_into (pf_frame_scratch f) fhdr inner;
        Some (f\<lparr>pf_frame_scratch := frame, pf_channels := store_send env ch frame (pf_channels f)\<rparr>)
      })"

definition pf_next_sequence :: "'c procedure_forwarder \<Rightarrow> 'c procedure_forwarder \<times> u64" where
  "pf_next_sequence f = (let (ep, n) = next_sequence (pf_endpoint f) in (f\<lparr>pf_endpoint := ep\<rparr>, n))"

definition reply_status :: "'c transport_env \<Rightarrow> u64 \<Rightarrow> nat \<Rightarrow> bidirectional_header \<Rightarrow> rpc_status \<Rightarrow> bytes \<Rightarrow> u64 \<Rightarrow> 'c procedure_forwarder
    \<Rightarrow> 'c procedure_forwarder option" where
  "reply_status env now ch req_hdr status return_data session_id f =
     (let (f, seqno) = pf_next_sequence f;
          resp_hdr = \<lparr>bh_source = source_procedure, bh_sequence = seqno, bh_topic_hash = bh_topic_hash req_hdr, bh_type_hash_1 = 0,
                      bh_type_hash_2 = 0, bh_correlation_id = bh_correlation_id req_hdr\<rparr> in do {
        body \<leftarrow> encode_rpc_response_into (pf_resp_scratch f) resp_hdr status return_data;
        rpc_send_data env now ch msg_rpc_response body session_id (f\<lparr>pf_resp_scratch := body\<rparr>)
      })"

definition pf_send_control :: "'c transport_env \<Rightarrow> u64 \<Rightarrow> nat \<Rightarrow> msg_type \<Rightarrow> bytes \<Rightarrow> 'c procedure_forwarder \<Rightarrow> 'c procedure_forwarder option" where
  "pf_send_control env now ch type inner f =
     map_option (\<lambda>(ep, cs). f\<lparr>pf_endpoint := ep, pf_channels := cs\<rparr>) (endpoint_send_control env now ch type inner (pf_endpoint f, pf_channels f))"

definition pf_send_subscribe :: "'c transport_env \<Rightarrow> u64 \<Rightarrow> nat \<Rightarrow> bytes \<Rightarrow> u64 \<Rightarrow> 'c procedure_forwarder \<Rightarrow> 'c procedure_forwarder option" where
  "pf_send_subscribe env now ch fqn h f =
     (let req = \<lparr>sr_fqn = fqn, sr_type_name = [], sr_topic_hash = h, sr_type_hash = 0, sr_source = source_caller, sr_has_qos = False,
                 sr_qos = default_qos_region\<rparr>
      in map_option (\<lambda>(ep, cs). f\<lparr>pf_endpoint := ep, pf_channels := cs\<rparr>) (endpoint_send_subscribe env now ch req (pf_endpoint f, pf_channels f)))"

section \<open>Operations\<close>

definition rpc_serve :: "bytes \<Rightarrow> nat \<Rightarrow> 'c procedure_forwarder \<Rightarrow> 'c procedure_forwarder" where
  "rpc_serve fqn handler f = f\<lparr>pf_hash_to_fqn := (pf_hash_to_fqn f)(fqn_topic_hash fqn \<mapsto> fqn), pf_providers := (pf_providers f)(fqn \<mapsto> handler)\<rparr>"

definition rpc_retire :: "bytes \<Rightarrow> 'c procedure_forwarder \<Rightarrow> 'c procedure_forwarder" where
  "rpc_retire fqn f = f\<lparr>pf_hash_to_fqn := (pf_hash_to_fqn f)(fqn_topic_hash fqn := None), pf_providers := (pf_providers f)(fqn := None)\<rparr>"

definition per_peer :: "bytes \<Rightarrow> 'c procedure_forwarder \<Rightarrow> (u64 \<times> pending_rpc) list" where
  "per_peer node_name f = (case pf_outstanding f node_name of None \<Rightarrow> [] | Some t \<Rightarrow> t)"

definition set_peer :: "bytes \<Rightarrow> (u64 \<times> pending_rpc) list \<Rightarrow> 'c procedure_forwarder \<Rightarrow> 'c procedure_forwarder" where
  "set_peer node_name t f = f\<lparr>pf_outstanding := (pf_outstanding f)(node_name \<mapsto> t)\<rparr>"

text \<open>The deadline is in nanoseconds; the timer is armed in whole milliseconds, cut towards zero.\<close>

definition whole_milliseconds :: "int \<Rightarrow> int" where
  "whole_milliseconds ns = (if ns \<ge> 0 then ns div 1000000 else - (- ns div 1000000))"

definition value_or :: "'a \<Rightarrow> 'a option \<Rightarrow> 'a" where
  "value_or d v = (case v of None \<Rightarrow> d | Some x \<Rightarrow> x)"

definition rpc_call :: "'c transport_env \<Rightarrow> u64 \<Rightarrow> peer_ref \<Rightarrow> bytes \<Rightarrow> bytes \<Rightarrow> nat \<Rightarrow> int option \<Rightarrow> u64 \<Rightarrow> 'c procedure_forwarder
    \<Rightarrow> ('c procedure_forwarder \<times> rpc_output list) option" where
  "rpc_call env now p fqn param on_response deadline session_id f =
     (let f = set_peer (pr_node_name p) (per_peer (pr_node_name p) f) f in
      if length (per_peer (pr_node_name p) f) \<ge> pf_max_outstanding f then Some (f, [Rpc_response on_response rpc_error []])
      else
        let corr_id = pf_next_correlation_id f;
            f = f\<lparr>pf_next_correlation_id := corr_id + 1\<rparr>;
            (f, seqno) = pf_next_sequence f;
            hdr = \<lparr>bh_source = source_caller, bh_sequence = seqno, bh_topic_hash = fqn_topic_hash fqn, bh_type_hash_1 = 0,
                   bh_type_hash_2 = 0, bh_correlation_id = corr_id\<rparr> in do {
          body \<leftarrow> encode_rpc_request_into (pf_req_scratch f) hdr param;
          f \<leftarrow> rpc_send_data env now (pr_channel p) msg_rpc_request body session_id (f\<lparr>pf_req_scratch := body\<rparr>);
          let t = per_peer (pr_node_name p) f;
              t = (if corr_id \<in> fst ` set t then t else t @ [(corr_id, \<lparr>pd_fqn = fqn, pd_on_response = on_response\<rparr>)]) in
          Some (set_peer (pr_node_name p) t f, [Rpc_call_seen fqn corr_id, Rpc_arm (pr_node_name p) corr_id (whole_milliseconds (value_or (pf_default_deadline f) deadline))])
        })"

definition rpc_attach :: "'c transport_env \<Rightarrow> u64 \<Rightarrow> peer_ref \<Rightarrow> bytes \<Rightarrow> 'c procedure_forwarder \<Rightarrow> ('c procedure_forwarder \<times> bool) option" where
  "rpc_attach env now p fqn f =
     (let (ep, gate) = attach_gate (pr_node_name p) fqn (pf_endpoint f); f = f\<lparr>pf_endpoint := ep\<rparr> in
      if \<not> gate then Some (f, False)
      else let h = fqn_topic_hash fqn;
               f = f\<lparr>pf_endpoint := (pf_endpoint f)\<lparr>ep_registry := add_subscriber (ev_scheme env) h fqn (pr_channel p) (pr_node_name p)
                     default_subscriber_qos None (ep_registry (pf_endpoint f))\<rparr>\<rparr>
           in map_option (\<lambda>f. (f, True)) (pf_send_subscribe env now (pr_channel p) fqn h f))"

definition rpc_attach_for_fanout :: "'c transport_env \<Rightarrow> u64 \<Rightarrow> peer_ref \<Rightarrow> bytes \<Rightarrow> 'c procedure_forwarder \<Rightarrow> ('c procedure_forwarder \<times> bool) option" where
  "rpc_attach_for_fanout env now p fqn f =
     (let (ep, gate) = attach_gate (pr_node_name p) fqn (pf_endpoint f); f = f\<lparr>pf_endpoint := ep\<rparr> in
      if \<not> gate then Some (f, False)
      else let h = fqn_topic_hash fqn;
               f = f\<lparr>pf_endpoint := (pf_endpoint f)\<lparr>ep_registry := add_subscriber (ev_scheme env) h fqn (pr_channel p) (pr_node_name p)
                     default_subscriber_qos None (ep_registry (pf_endpoint f))\<rparr>\<rparr> in do {
        resp \<leftarrow> encode_subscribe_response \<lparr>sp_topic_hash = h, sp_status = ss_subscribed, sp_has_degraded = False, sp_degraded_flags = 0\<rparr>;
        f \<leftarrow> pf_send_control env now (pr_channel p) msg_subscribe_response resp f;
        Some (f, True)
      })"

definition rpc_detach :: "'c transport_env \<Rightarrow> u64 \<Rightarrow> peer_ref \<Rightarrow> bytes \<Rightarrow> 'c procedure_forwarder \<Rightarrow> ('c procedure_forwarder \<times> bool) option" where
  "rpc_detach env now p fqn f =
     (let (ep, gate) = detach_gate (pr_node_name p) fqn (pf_endpoint f); f = f\<lparr>pf_endpoint := ep\<rparr> in
      if \<not> gate then Some (f, False)
      else let h = fqn_topic_hash fqn;
               f = f\<lparr>pf_endpoint := (pf_endpoint f)\<lparr>ep_registry := remove_subscriber h (pr_channel p) (ep_registry (pf_endpoint f))\<rparr>\<rparr> in do {
        req \<leftarrow> encode_unsubscribe_request h;
        f \<leftarrow> pf_send_control env now (pr_channel p) msg_unsubscribe req f;
        Some (f, True)
      })"

definition rpc_detach_all :: "peer_ref \<Rightarrow> 'c procedure_forwarder \<Rightarrow> 'c procedure_forwarder \<times> rpc_output list" where
  "rpc_detach_all p f =
     (let f = f\<lparr>pf_endpoint := endpoint_remove_peer p (pf_endpoint f)\<rparr> in
      case pf_outstanding f (pr_node_name p) of
        None \<Rightarrow> (f, [])
      | Some detached \<Rightarrow> (f\<lparr>pf_outstanding := (pf_outstanding f)(pr_node_name p := None)\<rparr>,
          concat (map (\<lambda>(corr_id, pending). [Rpc_cancel (pr_node_name p) corr_id, Rpc_response (pd_on_response pending) rpc_peer_disconnected []]) detached)))"

definition deliver_request :: "'c transport_env \<Rightarrow> u64 \<Rightarrow> peer_ref \<Rightarrow> bytes \<Rightarrow> u64 \<Rightarrow> 'c procedure_forwarder \<Rightarrow> ('c procedure_forwarder \<times> rpc_output list) option" where
  "deliver_request env now p inner session_id f = do {
     decoded \<leftarrow> decode_rpc_request inner;
     (case decoded of
        None \<Rightarrow> Some (f, [Rpc_warn ''plexus: forwarder rpc_request decode_failed''])
      | Some d \<Rightarrow>
          let req_hdr = rq_header d in
          (case pf_hash_to_fqn f (bh_topic_hash req_hdr) of
             None \<Rightarrow> do {
               (r, fqn) \<leftarrow> fqn_for (bh_topic_hash req_hdr) (ep_registry (pf_endpoint f));
               let f = f\<lparr>pf_endpoint := (pf_endpoint f)\<lparr>ep_registry := r\<rparr>\<rparr> in
               map_option (\<lambda>f. (f, [])) (reply_status env now (pr_channel p) req_hdr (if fqn = [] then rpc_no_handler else rpc_topic_not_found) [] session_id f)
             }
           | Some fqn \<Rightarrow>
               let f = f\<lparr>pf_active_channel := Some (pr_channel p), pf_active_req_hdr := req_hdr, pf_active_session_id := session_id\<rparr> in
               map_option (\<lambda>handler. (f, [Rpc_serve_seen fqn (bh_correlation_id req_hdr), Rpc_dispatch handler (rq_param_data d)])) (pf_providers f fqn)))
   }"

text \<open>The reused reply reads the staged request; invoking it before any dispatch dereferences null.\<close>

definition rpc_reply :: "'c transport_env \<Rightarrow> u64 \<Rightarrow> rpc_status \<Rightarrow> bytes \<Rightarrow> 'c procedure_forwarder \<Rightarrow> 'c procedure_forwarder option" where
  "rpc_reply env now status return_data f = do {
     ch \<leftarrow> pf_active_channel f;
     reply_status env now ch (pf_active_req_hdr f) status return_data (pf_active_session_id f) f
   }"

definition erase_pending :: "bytes \<Rightarrow> u64 \<Rightarrow> 'c procedure_forwarder \<Rightarrow> 'c procedure_forwarder" where
  "erase_pending node_name corr_id f = set_peer node_name (filter (\<lambda>(c, _). c \<noteq> corr_id) (per_peer node_name f)) f"

definition deliver_response :: "peer_ref \<Rightarrow> bytes \<Rightarrow> 'c procedure_forwarder \<Rightarrow> ('c procedure_forwarder \<times> rpc_output list) option" where
  "deliver_response p inner f = do {
     decoded \<leftarrow> decode_rpc_response inner;
     Some (case decoded of
        None \<Rightarrow> (f, [Rpc_warn ''plexus: forwarder rpc_response decode_failed''])
      | Some d \<Rightarrow>
          (case pf_outstanding f (pr_node_name p) of
             None \<Rightarrow> (f, [Rpc_warn ''plexus: forwarder rpc_response_orphan''])
           | Some t \<Rightarrow>
               (case map_of t (bh_correlation_id (rs_header d)) of
                  None \<Rightarrow> (f, [Rpc_warn ''plexus: forwarder rpc_response_orphan''])
                | Some pending \<Rightarrow>
                    (erase_pending (pr_node_name p) (bh_correlation_id (rs_header d)) f,
                     [Rpc_cancel (pr_node_name p) (bh_correlation_id (rs_header d)), Rpc_reply_seen (pd_fqn pending) (bh_correlation_id (rs_header d)) (rs_status d),
                      Rpc_response (pd_on_response pending) (rs_status d) (rs_return_data d)]))))
   }"

definition fire_timeout :: "bytes \<Rightarrow> u64 \<Rightarrow> 'c procedure_forwarder \<Rightarrow> 'c procedure_forwarder \<times> rpc_output list" where
  "fire_timeout node_name corr_id f =
     (case pf_outstanding f node_name of
        None \<Rightarrow> (f, [])
      | Some t \<Rightarrow> (case map_of t corr_id of
          None \<Rightarrow> (f, [])
        | Some pending \<Rightarrow> (erase_pending node_name corr_id f, [Rpc_response (pd_on_response pending) rpc_timeout []])))"

section \<open>Runs\<close>

datatype rpc_op =
  Op_call u64 peer_ref bytes bytes nat "int option" u64 | Op_serve bytes nat | Op_retire bytes | Op_rpc_attach u64 peer_ref bytes
  | Op_rpc_attach_for_fanout u64 peer_ref bytes | Op_rpc_detach u64 peer_ref bytes | Op_detach_all peer_ref | Op_request u64 peer_ref bytes u64
  | Op_response peer_ref bytes | Op_timeout bytes u64 | Op_reply u64 rpc_status bytes

fun rpc_step :: "'c transport_env \<Rightarrow> 'c procedure_forwarder \<Rightarrow> rpc_op \<Rightarrow> ('c procedure_forwarder \<times> rpc_output list) option" where
  "rpc_step env f (Op_call now p fqn param k deadline sid) = rpc_call env now p fqn param k deadline sid f"
| "rpc_step env f (Op_serve fqn handler) = Some (rpc_serve fqn handler f, [])"
| "rpc_step env f (Op_retire fqn) = Some (rpc_retire fqn f, [])"
| "rpc_step env f (Op_rpc_attach now p fqn) = map_option (\<lambda>(f, _). (f, [])) (rpc_attach env now p fqn f)"
| "rpc_step env f (Op_rpc_attach_for_fanout now p fqn) = map_option (\<lambda>(f, _). (f, [])) (rpc_attach_for_fanout env now p fqn f)"
| "rpc_step env f (Op_rpc_detach now p fqn) = map_option (\<lambda>(f, _). (f, [])) (rpc_detach env now p fqn f)"
| "rpc_step env f (Op_detach_all p) = Some (rpc_detach_all p f)"
| "rpc_step env f (Op_request now p inner sid) = deliver_request env now p inner sid f"
| "rpc_step env f (Op_response p inner) = deliver_response p inner f"
| "rpc_step env f (Op_timeout node_name corr_id) = Some (fire_timeout node_name corr_id f)"
| "rpc_step env f (Op_reply now status data) =
     (if pf_active_channel f = None then Some (f, []) else map_option (\<lambda>f. (f, [])) (rpc_reply env now status data f))"

text \<open>A provider gets the reply functor only with a request, so no reply comes before the first dispatch.\<close>

fun call_token :: "rpc_op \<Rightarrow> nat option" where
  "call_token (Op_call _ _ _ _ k _ _) = Some k"
| "call_token _ = None"

fun call_peer :: "rpc_op \<Rightarrow> bytes option" where
  "call_peer (Op_call _ p _ _ _ _ _) = Some (pr_node_name p)"
| "call_peer _ = None"

fun answer_token :: "rpc_output \<Rightarrow> nat option" where
  "answer_token (Rpc_response k _ _) = Some k"
| "answer_token _ = None"

definition calls_of :: "nat \<Rightarrow> rpc_op list \<Rightarrow> nat" where
  "calls_of k es = count_list (map call_token es) (Some k)"

definition answers_of :: "nat \<Rightarrow> rpc_output list \<Rightarrow> nat" where
  "answers_of k out = count_list (map answer_token out) (Some k)"

definition pending_of :: "nat \<Rightarrow> bytes \<Rightarrow> 'c procedure_forwarder \<Rightarrow> nat" where
  "pending_of k n f = count_list (map (\<lambda>(_, pd). pd_on_response pd) (per_peer n f)) k"

definition callees :: "rpc_op list \<Rightarrow> bytes set" where
  "callees es = {n. Some n \<in> set (map call_peer es)}"

definition rpc_ok :: "'c procedure_forwarder \<Rightarrow> bool" where
  "rpc_ok f \<longleftrightarrow> registry_ok (ep_registry (pf_endpoint f))
     \<and> (\<forall>h fqn. pf_hash_to_fqn f h = Some fqn \<longrightarrow> pf_providers f fqn \<noteq> None \<and> fqn_topic_hash fqn = h)
     \<and> (\<forall>n. length (per_peer n f) \<le> pf_max_outstanding f \<and> distinct (map fst (per_peer n f)))"

definition rpc_tracked :: "bytes set \<Rightarrow> 'c procedure_forwarder \<Rightarrow> bool" where
  "rpc_tracked N f \<longleftrightarrow> (\<forall>n. n \<notin> N \<longrightarrow> per_peer n f = []) \<and> (\<forall>n. \<forall>c\<in>fst ` set (per_peer n f). unat c < unat (pf_next_correlation_id f))"

definition rpc_frame :: "u64 \<Rightarrow> msg_type \<Rightarrow> u64 \<Rightarrow> bytes \<Rightarrow> bytes" where
  "rpc_frame now type session_id inner =
     frame_layout \<lparr>fh_type = type, fh_flags = 0, fh_session_id = session_id, fh_timestamp_ns = now, fh_payload_len = of_nat (length inner)\<rparr> inner"

definition reply_body :: "bidirectional_header \<Rightarrow> u64 \<Rightarrow> rpc_status \<Rightarrow> bytes \<Rightarrow> bytes" where
  "reply_body req_hdr seqno status rd = bidirectional_layout \<lparr>bh_source = source_procedure, bh_sequence = seqno, bh_topic_hash = bh_topic_hash req_hdr,
     bh_type_hash_1 = 0, bh_type_hash_2 = 0, bh_correlation_id = bh_correlation_id req_hdr\<rparr> @ rpc_status_byte status # rd"

lemma send_data_eq:
  "rpc_send_data env now ch type inner sid f = Some (f\<lparr>pf_frame_scratch := rpc_frame now type sid inner,
     pf_channels := store_send env ch (rpc_frame now type sid inner) (pf_channels f)\<rparr>)"
  by (simp add: rpc_send_data_def rpc_frame_def encode_frame_into_layout Let_def)

lemma reply_status_eq:
  "reply_status env now ch hdr status rd sid f =
     (let body = reply_body hdr (ep_next_sequence (pf_endpoint f)) status rd in
      Some (f\<lparr>pf_endpoint := (pf_endpoint f)\<lparr>ep_next_sequence := ep_next_sequence (pf_endpoint f) + 1\<rparr>, pf_resp_scratch := body,
        pf_frame_scratch := rpc_frame now msg_rpc_response sid body,
        pf_channels := store_send env ch (rpc_frame now msg_rpc_response sid body) (pf_channels f)\<rparr>))"
  by (simp add: reply_status_def pf_next_sequence_def next_sequence_def encode_rpc_response_into_layout send_data_eq reply_body_def Let_def)

lemma per_peer_simps [simp]:
  "per_peer n (set_peer m t f) = (if n = m then t else per_peer n f)"
  "per_peer n (f\<lparr>pf_endpoint := ep\<rparr>) = per_peer n f" "per_peer n (f\<lparr>pf_channels := cs\<rparr>) = per_peer n f"
  by (simp_all add: per_peer_def set_peer_def)

text \<open>The accounting of one step: every call is answered or pending, at the peer it went to.\<close>

definition rpc_accounts :: "bytes set \<Rightarrow> 'c procedure_forwarder \<Rightarrow> rpc_op \<Rightarrow> 'c procedure_forwarder \<Rightarrow> rpc_output list \<Rightarrow> bool" where
  "rpc_accounts N f e f' out \<longleftrightarrow> rpc_ok f' \<and> rpc_tracked N f' \<and> pf_max_outstanding f' = pf_max_outstanding f
     \<and> unat (pf_next_correlation_id f') \<le> unat (pf_next_correlation_id f) + of_bool (call_token e \<noteq> None)
     \<and> (\<forall>k. answers_of k out + (\<Sum>n\<in>N. pending_of k n f') = (\<Sum>n\<in>N. pending_of k n f) + calls_of k [e])"

lemma answers_of_simps [simp]:
  "answers_of k [] = 0" "answers_of k (x # out) = of_bool (answer_token x = Some k) + answers_of k out" "answers_of k (out @ out') = answers_of k out + answers_of k out'"
  by (auto simp: answers_of_def count_list_append)

lemma calls_of_simps [simp]: "calls_of k [] = 0" "calls_of k (e # es) = of_bool (call_token e = Some k) + calls_of k es"
  by (auto simp: calls_of_def)

lemma quiet_accounts:
  assumes "rpc_ok f" "rpc_tracked N f" "pf_outstanding f' = pf_outstanding f" "pf_max_outstanding f' = pf_max_outstanding f"
    "pf_next_correlation_id f' = pf_next_correlation_id f" "registry_ok (ep_registry (pf_endpoint f'))"
    "\<And>h fqn. pf_hash_to_fqn f' h = Some fqn \<Longrightarrow> pf_providers f' fqn \<noteq> None \<and> fqn_topic_hash fqn = h"
    "call_token e = None" "\<And>k. answers_of k out = 0"
  shows "rpc_accounts N f e f' out"
proof -
  have "per_peer n f' = per_peer n f" for n by (simp add: per_peer_def assms)
  then show ?thesis using assms by (simp add: rpc_accounts_def rpc_ok_def rpc_tracked_def pending_of_def)
qed

lemma sum_change_one:
  assumes "finite N" and "n \<in> N" and "\<And>m. m \<noteq> n \<Longrightarrow> g' m = (g m :: nat)"
  shows "sum g' N + g n = sum g N + g' n"
proof -
  have "sum g' (N - {n}) = sum g (N - {n})" by (rule sum.cong) (use assms(3) in auto)
  then show ?thesis by (simp add: sum.remove [OF assms(1, 2)])
qed

lemma count_filter_key:
  "distinct (map fst t) \<Longrightarrow> map_of t c = Some pd \<Longrightarrow>
   count_list (map (\<lambda>(_, pd). pd_on_response pd) (filter (\<lambda>(c', _). c' \<noteq> c) t)) k + of_bool (pd_on_response pd = k)
   = count_list (map (\<lambda>(_, pd). pd_on_response pd) t) k"
proof (induction t)
  case (Cons x t)
  obtain c' pd' where x: "x = (c', pd')" by fastforce
  show ?case
  proof (cases "c' = c")
    case True
    then have "filter (\<lambda>(c', _). c' \<noteq> c) t = t" using Cons.prems(1) x by (force simp: filter_id_conv)
    then show ?thesis using True Cons.prems(2) x by simp
  qed (use Cons x in auto)
qed simp

lemma erase_accounts:
  assumes inv: "rpc_ok f" "rpc_tracked N f" "finite N" and t: "map_of (per_peer n f) c = Some pd" and "call_token e = None"
    and out: "\<And>k. answers_of k out = of_bool (pd_on_response pd = k)"
  shows "rpc_accounts N f e (erase_pending n c f) out"
proof -
  let ?f = "erase_pending n c f"
  have n: "n \<in> N" using t inv(2) by (auto simp: rpc_tracked_def)
  have dist: "distinct (map fst (per_peer n f))" using inv(1) by (simp add: rpc_ok_def)
  have pp: "per_peer m ?f = (if m = n then filter (\<lambda>(c', _). c' \<noteq> c) (per_peer n f) else per_peer m f)" for m
    by (simp add: erase_pending_def)
  have here: "pending_of k n ?f + of_bool (pd_on_response pd = k) = pending_of k n f" for k
    using count_filter_key [OF dist t, of k] by (simp add: pending_of_def pp)
  have all: "(\<Sum>m\<in>N. pending_of k m ?f) + pending_of k n f = (\<Sum>m\<in>N. pending_of k m f) + pending_of k n ?f" for k
    by (rule sum_change_one [OF inv(3) n]) (simp add: pending_of_def pp)
  have "answers_of k out + (\<Sum>m\<in>N. pending_of k m ?f) = (\<Sum>m\<in>N. pending_of k m f)" for k
    using here [of k] all [of k] out [of k] by linarith
  moreover have "rpc_ok ?f" using inv(1) unfolding rpc_ok_def pp
    by (auto simp: erase_pending_def set_peer_def distinct_map_filter intro: order_trans [OF length_filter_le])
  moreover have "rpc_tracked N ?f" using inv(2) unfolding rpc_tracked_def pp by (force simp: erase_pending_def set_peer_def)
  ultimately show ?thesis using assms(5) by (simp add: rpc_accounts_def erase_pending_def set_peer_def)
qed

lemma detach_all_accounts:
  assumes inv: "rpc_ok f" "rpc_tracked N f" "finite N"
  shows "rpc_accounts N f (Op_detach_all p) (fst (rpc_detach_all p f)) (snd (rpc_detach_all p f))"
proof -
  let ?n = "pr_node_name p" and ?f = "fst (rpc_detach_all p f)" and ?out = "snd (rpc_detach_all p f)"
  have pp: "per_peer m ?f = (if m = ?n then [] else per_peer m f)" for m
    by (auto simp: rpc_detach_all_def per_peer_def Let_def split: option.splits)
  have out: "answers_of k ?out = pending_of k ?n f" for k
  proof -
    have "count_list (map answer_token (concat (map (\<lambda>(c, pd). [Rpc_cancel ?n c, Rpc_response (pd_on_response pd) rpc_peer_disconnected []]) t))) (Some k)
        = count_list (map (\<lambda>(_, pd). pd_on_response pd) t) k" for t :: "(u64 \<times> pending_rpc) list" by (induction t) auto
    then show ?thesis by (simp add: rpc_detach_all_def pending_of_def answers_of_def per_peer_def Let_def split: option.splits)
  qed
  have gone: "pending_of k ?n ?f = 0" for k by (simp add: pending_of_def pp)
  have "answers_of k ?out + (\<Sum>m\<in>N. pending_of k m ?f) = (\<Sum>m\<in>N. pending_of k m f)" for k
  proof (cases "?n \<in> N")
    case True
    have "(\<Sum>m\<in>N. pending_of k m ?f) + pending_of k ?n f = (\<Sum>m\<in>N. pending_of k m f) + pending_of k ?n ?f"
      by (rule sum_change_one [OF inv(3) True]) (simp add: pending_of_def pp)
    then show ?thesis using out [of k] gone [of k] by simp
  next
    case False
    then have "per_peer ?n f = []" using inv(2) by (simp add: rpc_tracked_def)
    then have "per_peer m ?f = per_peer m f" for m by (simp add: pp)
    then show ?thesis using out [of k] \<open>per_peer ?n f = []\<close> by (simp add: pending_of_def)
  qed
  moreover have "rpc_ok ?f" using inv(1) remove_peer_ok unfolding rpc_ok_def pp
    by (auto simp: rpc_detach_all_def endpoint_remove_peer_def Let_def split: option.splits)
  moreover have "rpc_tracked N ?f" using inv(2) unfolding rpc_tracked_def pp by (auto simp: rpc_detach_all_def Let_def split: option.splits)
  ultimately show ?thesis by (simp add: rpc_accounts_def rpc_detach_all_def Let_def split: option.splits)
qed

lemma encode_request_eq: "encode_rpc_request_into out hdr param = Some (bidirectional_layout hdr @ param)"
  by (simp add: encode_rpc_request_into_def wire_layout)

lemma full_call_refused:
  assumes "rpc_ok f" "rpc_tracked N f" "length (per_peer (pr_node_name p) f) \<ge> pf_max_outstanding f"
  shows "\<exists>f' out. rpc_call env now p fqn param k deadline sid f = Some (f', out) \<and> rpc_accounts N f (Op_call now p fqn param k deadline sid) f' out"
proof -
  let ?f = "set_peer (pr_node_name p) (per_peer (pr_node_name p) f) f"
  have pp: "per_peer m ?f = per_peer m f" for m by simp
  have "rpc_call env now p fqn param k deadline sid f = Some (?f, [Rpc_response k rpc_error []])"
    using assms(3) by (simp add: rpc_call_def set_peer_def per_peer_def)
  moreover have "rpc_ok ?f" "rpc_tracked N ?f" using assms(1, 2) unfolding rpc_ok_def rpc_tracked_def pp by (simp_all add: set_peer_def)
  moreover have "pending_of k' m ?f = pending_of k' m f" for k' m unfolding pending_of_def pp ..
  ultimately show ?thesis by (simp add: rpc_accounts_def) (simp add: set_peer_def)
qed

lemma open_call_pends:
  assumes inv: "rpc_ok f" "rpc_tracked N f" "finite N" and n: "pr_node_name p \<in> N" and room: "length (per_peer (pr_node_name p) f) < pf_max_outstanding f"
    and ids: "unat (pf_next_correlation_id f) < 2 ^ 64 - 1"
  shows "\<exists>f' out. rpc_call env now p fqn param k deadline sid f = Some (f', out) \<and> rpc_accounts N f (Op_call now p fqn param k deadline sid) f' out"
proof -
  let ?n = "pr_node_name p" and ?c = "pf_next_correlation_id f"
  let ?t = "per_peer ?n f @ [(?c, \<lparr>pd_fqn = fqn, pd_on_response = k\<rparr>)]"
  have fresh: "?c \<notin> fst ` set (per_peer m f)" for m using inv(2) by (force simp: rpc_tracked_def)
  have succ: "unat (?c + 1) = unat ?c + 1" using ids by (simp add: unat_word_ariths)
  obtain f' where call: "rpc_call env now p fqn param k deadline sid f = Some (f', [Rpc_call_seen fqn ?c, Rpc_arm ?n ?c (whole_milliseconds (value_or (pf_default_deadline f) deadline))])"
    and f': "pf_outstanding f' = (pf_outstanding f)(?n \<mapsto> ?t)" "pf_max_outstanding f' = pf_max_outstanding f" "pf_next_correlation_id f' = ?c + 1"
      "pf_hash_to_fqn f' = pf_hash_to_fqn f" "pf_providers f' = pf_providers f" "ep_registry (pf_endpoint f') = ep_registry (pf_endpoint f)"
    using room fresh [of ?n]
    by (simp add: rpc_call_def encode_request_eq send_data_eq pf_next_sequence_def next_sequence_def Let_def set_peer_def per_peer_def not_le)
  have pp: "per_peer m f' = (if m = ?n then ?t else per_peer m f)" for m by (simp add: per_peer_def f')
  have here: "pending_of k' ?n f' = pending_of k' ?n f + of_bool (k = k')" for k' by (simp add: pending_of_def pp)
  have all: "(\<Sum>m\<in>N. pending_of k' m f') + pending_of k' ?n f = (\<Sum>m\<in>N. pending_of k' m f) + pending_of k' ?n f'" for k'
    by (rule sum_change_one [OF inv(3) n]) (simp add: pending_of_def pp)
  have "(\<Sum>m\<in>N. pending_of k' m f') = (\<Sum>m\<in>N. pending_of k' m f) + of_bool (k = k')" for k'
    using here [of k'] all [of k'] by linarith
  moreover have "rpc_ok f'" using inv(1) room fresh [of ?n] by (simp add: rpc_ok_def pp f')
  moreover have "rpc_tracked N f'" using inv(2) n unfolding rpc_tracked_def pp f'(3) succ by (force intro: less_SucI)
  ultimately show ?thesis using call succ by (simp add: rpc_accounts_def f')
qed

text \<open>Every other operation leaves the call tables alone.\<close>

definition keeps_calls :: "'c procedure_forwarder \<Rightarrow> 'c procedure_forwarder \<Rightarrow> bool" where
  "keeps_calls f f' \<longleftrightarrow> pf_outstanding f' = pf_outstanding f \<and> pf_max_outstanding f' = pf_max_outstanding f
     \<and> pf_next_correlation_id f' = pf_next_correlation_id f \<and> pf_hash_to_fqn f' = pf_hash_to_fqn f \<and> pf_providers f' = pf_providers f
     \<and> registry_ok (ep_registry (pf_endpoint f'))"

lemma keeps_accounts:
  assumes "rpc_ok f" "rpc_tracked N f" "keeps_calls f f'" "call_token e = None" "\<And>k. answers_of k out = 0"
  shows "rpc_accounts N f e f' out"
  using assms by (intro quiet_accounts) (auto simp: keeps_calls_def rpc_ok_def)

lemma subscriptions_keep_calls:
  assumes "rpc_ok f"
  shows "\<exists>f' b. rpc_attach env now p fqn f = Some (f', b) \<and> keeps_calls f f'"
    and "\<exists>f' b. rpc_attach_for_fanout env now p fqn f = Some (f', b) \<and> keeps_calls f f'"
    and "\<exists>f' b. rpc_detach env now p fqn f = Some (f', b) \<and> keeps_calls f f'"
proof -
  have r: "registry_ok (ep_registry (pf_endpoint f))" using assms by (simp add: rpc_ok_def)
  obtain r' n where b: "bump_refcount (pr_node_name p) fqn (ep_registry (pf_endpoint f)) = (r', n)" by fastforce
  obtain d m where d: "drop_refcount (pr_node_name p) fqn (ep_registry (pf_endpoint f)) = (d, m)" by fastforce
  have ok: "registry_ok r'" "registry_ok d" using refcount_ok [OF r] b d by (metis fst_conv)+
  note sends = send_control_eq endpoint_send_subscribe_def pf_send_subscribe_def pf_send_control_def wire_layout keeps_calls_def registry_keeps Let_def
  show "\<exists>f' b. rpc_attach env now p fqn f = Some (f', b) \<and> keeps_calls f f'"
    using ok by (auto simp: rpc_attach_def attach_gate_def b sends)
  show "\<exists>f' b. rpc_attach_for_fanout env now p fqn f = Some (f', b) \<and> keeps_calls f f'"
    using ok by (auto simp: rpc_attach_for_fanout_def attach_gate_def b sends)
  show "\<exists>f' b. rpc_detach env now p fqn f = Some (f', b) \<and> keeps_calls f f'"
    using ok by (auto simp: rpc_detach_def detach_gate_def d sends)
qed

lemma decode_rpc_request_total: "\<exists>r. decode_rpc_request payload = Some r"
  using decode_bidirectional_total [of payload] by (auto simp: decode_rpc_request_def safely_ex split: option.splits)

lemma request_keeps_calls:
  assumes "rpc_ok f"
  shows "\<exists>f' out. deliver_request env now p inner sid f = Some (f', out) \<and> keeps_calls f f' \<and> (\<forall>k. answers_of k out = 0)"
proof -
  have r: "registry_ok (ep_registry (pf_endpoint f))" using assms by (simp add: rpc_ok_def)
  obtain d where d: "decode_rpc_request inner = Some d" using decode_rpc_request_total by blast
  show ?thesis
  proof (cases d)
    case None
    then show ?thesis using d r by (simp add: deliver_request_def keeps_calls_def)
  next
    case (Some rq)
    show ?thesis
    proof (cases "pf_hash_to_fqn f (bh_topic_hash (rq_header rq))")
      case None
      obtain r' where "fqn_for (bh_topic_hash (rq_header rq)) (ep_registry (pf_endpoint f)) = Some r'" "registry_ok (fst r')"
        using fqn_for_eq [OF r] by fastforce
      then show ?thesis using d Some None by (cases r') (simp add: deliver_request_def keeps_calls_def reply_status_eq Let_def)
    next
      case fqn: (Some fqn)
      then obtain handler where "pf_providers f fqn = Some handler" using assms unfolding rpc_ok_def by blast
      then show ?thesis using d Some fqn r by (simp add: deliver_request_def keeps_calls_def Let_def)
    qed
  qed
qed

lemma reply_keeps_calls:
  assumes "rpc_ok f" shows "\<exists>f' out. rpc_step env f (Op_reply now status rd) = Some (f', out) \<and> keeps_calls f f' \<and> (\<forall>k. answers_of k out = 0)"
  using assms by (auto simp: rpc_reply_def reply_status_eq keeps_calls_def rpc_ok_def Let_def)

lemma serve_retire_account:
  assumes "rpc_ok f" "rpc_tracked N f"
  shows "rpc_accounts N f (Op_serve fqn handler) (rpc_serve fqn handler f) []" "rpc_accounts N f (Op_retire fqn) (rpc_retire fqn f) []"
  using assms by (auto intro!: quiet_accounts simp: rpc_serve_def rpc_retire_def rpc_ok_def split: if_splits)

lemma response_accounts:
  assumes inv: "rpc_ok f" "rpc_tracked N f" "finite N"
  shows "\<exists>f' out. deliver_response p inner f = Some (f', out) \<and> rpc_accounts N f (Op_response p inner) f' out"
proof -
  have same: "rpc_accounts N f (Op_response p inner) f out" if "\<And>k. answers_of k out = 0" for out
    using that inv by (intro keeps_accounts) (auto simp: keeps_calls_def rpc_ok_def)
  obtain d where d: "decode_rpc_response inner = Some d" using decode_rpc_response_total [of inner] by (auto simp: safely_def)
  show ?thesis
  proof (cases d)
    case None
    then show ?thesis using d same by (simp add: deliver_response_def)
  next
    case (Some rs)
    let ?c = "bh_correlation_id (rs_header rs)"
    show ?thesis
    proof (cases "map_of (per_peer (pr_node_name p) f) ?c")
      case None
      then show ?thesis using d Some same by (auto simp: deliver_response_def per_peer_def split: option.splits)
    next
      case pd: (Some pd)
      have "deliver_response p inner f = Some (erase_pending (pr_node_name p) ?c f,
          [Rpc_cancel (pr_node_name p) ?c, Rpc_reply_seen (pd_fqn pd) ?c (rs_status rs), Rpc_response (pd_on_response pd) (rs_status rs) (rs_return_data rs)])"
        using pd d Some by (auto simp: deliver_response_def per_peer_def split: option.splits)
      then show ?thesis using erase_accounts [OF inv pd, of "Op_response p inner"] by simp
    qed
  qed
qed

lemma timeout_accounts:
  assumes inv: "rpc_ok f" "rpc_tracked N f" "finite N"
  shows "rpc_accounts N f (Op_timeout n c) (fst (fire_timeout n c f)) (snd (fire_timeout n c f))"
proof (cases "map_of (per_peer n f) c")
  case None
  then have "fire_timeout n c f = (f, [])" by (auto simp: fire_timeout_def per_peer_def split: option.splits)
  then show ?thesis using inv by (auto intro!: keeps_accounts simp: keeps_calls_def rpc_ok_def)
next
  case (Some pd)
  then have "fire_timeout n c f = (erase_pending n c f, [Rpc_response (pd_on_response pd) rpc_timeout []])"
    by (auto simp: fire_timeout_def per_peer_def split: option.splits)
  then show ?thesis using erase_accounts [OF inv Some, of "Op_timeout n c"] by simp
qed

lemma rpc_step_accounts:
  assumes inv: "rpc_ok f" "rpc_tracked N f" "finite N" and n: "\<And>m. call_peer e = Some m \<Longrightarrow> m \<in> N"
    and ids: "call_token e \<noteq> None \<Longrightarrow> unat (pf_next_correlation_id f) < 2 ^ 64 - 1"
  shows "\<exists>f' out. rpc_step env f e = Some (f', out) \<and> rpc_accounts N f e f' out"
proof -
  note keeps = keeps_accounts [OF inv(1, 2)]
  show ?thesis
  proof (cases e)
    case (Op_call now p fqn param k deadline sid)
    then show ?thesis
      using full_call_refused [OF inv(1, 2), of p env now fqn param k deadline sid] open_call_pends [OF inv, of p env now fqn param k deadline sid] n ids
      by (cases "length (per_peer (pr_node_name p) f) \<ge> pf_max_outstanding f") auto
  next
    case (Op_rpc_attach now p fqn)
    then show ?thesis using subscriptions_keep_calls(1) [OF inv(1), of env now p fqn] keeps by fastforce
  next
    case (Op_rpc_attach_for_fanout now p fqn)
    then show ?thesis using subscriptions_keep_calls(2) [OF inv(1), of env now p fqn] keeps by fastforce
  next
    case (Op_rpc_detach now p fqn)
    then show ?thesis using subscriptions_keep_calls(3) [OF inv(1), of env now p fqn] keeps by fastforce
  next
    case (Op_request now p inner sid)
    then show ?thesis using request_keeps_calls [OF inv(1), of env now p inner sid] keeps by fastforce
  next
    case (Op_reply now status rd)
    then show ?thesis using reply_keeps_calls [OF inv(1), of env now status rd] keeps by fastforce
  next
    case (Op_response p inner)
    then show ?thesis using response_accounts [OF inv, of p inner] by simp
  next
    case (Op_timeout n c)
    then show ?thesis using timeout_accounts [OF inv, of n c] by (metis prod.collapse rpc_step.simps(10))
  next
    case (Op_detach_all p)
    then show ?thesis using detach_all_accounts [OF inv, of p] by (metis prod.collapse rpc_step.simps(7))
  qed (use serve_retire_account [OF inv(1, 2)] in auto)
qed

lemma rpc_init_ok: "rpc_ok (procedure_forwarder_init dd m cs)" "rpc_tracked N (procedure_forwarder_init dd m cs)"
  "pf_next_correlation_id (procedure_forwarder_init dd m cs) = 1" "pf_max_outstanding (procedure_forwarder_init dd m cs) = m" "pending_of k n (procedure_forwarder_init dd m cs) = 0"
  by (simp_all add: rpc_ok_def rpc_tracked_def procedure_forwarder_init_def subscription_endpoint_init_def per_peer_def pending_of_def)

lemma rpc_run_accounts:
  assumes "rpc_ok f" "rpc_tracked N f" "finite N" "callees es \<subseteq> N"
    "unat (pf_next_correlation_id f) + length (filter (\<lambda>e. call_token e \<noteq> None) es) < 2 ^ 64"
  shows "\<exists>f' out. run_safe (rpc_step env) f es = Some (f', out) \<and> rpc_ok f' \<and> rpc_tracked N f' \<and> pf_max_outstanding f' = pf_max_outstanding f
     \<and> (\<forall>k. answers_of k out + (\<Sum>n\<in>N. pending_of k n f') = (\<Sum>n\<in>N. pending_of k n f) + calls_of k es)"
  using assms
proof (induction es arbitrary: f)
  case (Cons e es)
  have "m \<in> N" if "call_peer e = Some m" for m using Cons.prems(4) that by (auto simp: callees_def)
  moreover have "unat (pf_next_correlation_id f) < 2 ^ 64 - 1" if "call_token e \<noteq> None" using Cons.prems(5) that by simp
  ultimately obtain g out where g: "rpc_step env f e = Some (g, out)" "rpc_accounts N f e g out"
    using rpc_step_accounts [OF Cons.prems(1-3)] by blast
  then have "\<exists>f' out'. run_safe (rpc_step env) g es = Some (f', out') \<and> rpc_ok f' \<and> rpc_tracked N f' \<and> pf_max_outstanding f' = pf_max_outstanding g
     \<and> (\<forall>k. answers_of k out' + (\<Sum>n\<in>N. pending_of k n f') = (\<Sum>n\<in>N. pending_of k n g) + calls_of k es)"
    using Cons.prems(3-5) by (intro Cons.IH) (auto simp: rpc_accounts_def callees_def split: if_splits)
  then obtain f' out' where run: "run_safe (rpc_step env) g es = Some (f', out')" "rpc_ok f'" "rpc_tracked N f'" "pf_max_outstanding f' = pf_max_outstanding g"
     and acc: "\<And>k. answers_of k out' + (\<Sum>n\<in>N. pending_of k n f') = (\<Sum>n\<in>N. pending_of k n g) + calls_of k es" by blast
  have "answers_of k (out @ out') + (\<Sum>n\<in>N. pending_of k n f') = (\<Sum>n\<in>N. pending_of k n f) + calls_of k (e # es)" for k
  proof -
    have "answers_of k out + (\<Sum>n\<in>N. pending_of k n g) = (\<Sum>n\<in>N. pending_of k n f) + of_bool (call_token e = Some k)"
      using g(2) by (simp add: rpc_accounts_def)
    then show ?thesis using acc [of k] by simp
  qed
  moreover have "pf_max_outstanding g = pf_max_outstanding f" using g(2) by (simp add: rpc_accounts_def)
  ultimately show ?case using run g(1) by simp
qed simp

text \<open>
  C31. Every call gets exactly one answer. Over every sequence of calls, requests, arriving frames (any
  bytes), deadlines, attachments, replies and detachments, short of exhausting the correlation ids, the
  forwarder never faults; for every callback, the number of times it has been invoked plus the number of
  its calls still in the tables is the number of calls it was given with; no peer's table exceeds the
  bound; and once a peer has been detached none of its calls is left pending.
\<close>

theorem rpc_exactly_once:
  assumes "length (filter (\<lambda>e. call_token e \<noteq> None) es) < 2 ^ 64 - 1"
  shows "\<exists>f' out. run_safe (rpc_step env) (procedure_forwarder_init default_deadline max_outstanding cs) es = Some (f', out)
     \<and> (\<forall>k. answers_of k out + (\<Sum>n\<in>callees es. pending_of k n f') = calls_of k es)
     \<and> (\<forall>n. length (per_peer n f') \<le> max_outstanding \<and> distinct (map fst (per_peer n f')))
     \<and> (\<forall>p k. pending_of k (pr_node_name p) (fst (rpc_detach_all p f')) = 0)"
proof -
  have fin: "finite (callees es)" using finite_vimageI [of "set (map call_peer es)" Some] by (simp add: callees_def vimage_def)
  obtain f' out where "run_safe (rpc_step env) (procedure_forwarder_init default_deadline max_outstanding cs) es = Some (f', out)" "rpc_ok f'"
    "pf_max_outstanding f' = max_outstanding" "\<forall>k. answers_of k out + (\<Sum>n\<in>callees es. pending_of k n f') = calls_of k es"
    using rpc_run_accounts [OF rpc_init_ok(1, 2) fin subset_refl, of default_deadline max_outstanding cs env] assms by (auto simp: rpc_init_ok)
  moreover have "pending_of k (pr_node_name p) (fst (rpc_detach_all p g)) = 0" for k p and g :: "'a procedure_forwarder"
    by (auto simp: pending_of_def per_peer_def rpc_detach_all_def Let_def split: option.splits)
  ultimately show ?thesis by (auto simp: rpc_ok_def)
qed

definition logged_transport :: "bytes list transport_env" where
  "logged_transport = \<lparr>ev_ops = \<lparr>co_can_poll = False, co_key = (\<lambda>_. 0), co_backpressured = (\<lambda>_. 0), co_capacity = None,
     co_send = (\<lambda>frame log. log @ [frame])\<rparr>, ev_scheme = (\<lambda>_. ''tcp'')\<rparr>"

definition demo_callee :: peer_ref where "demo_callee = \<lparr>pr_channel = 0, pr_node_name = [2]\<rparr>"

theorem rpc_exactly_once_witness:
  "\<exists>f' out. run_safe (rpc_step logged_transport) (procedure_forwarder_init 9000000 1 (\<lambda>_. []))
       [Op_call 1 demo_callee [1] [] 7 (Some 5000000) 0, Op_call 2 demo_callee [1] [] 8 None 0, Op_timeout [2] 1] = Some (f', out)
     \<and> answers_of 7 out + pending_of 7 [2] f' = 1 \<and> answers_of 8 out + pending_of 8 [2] f' = 1"
proof -
  let ?es = "[Op_call 1 demo_callee [1] [] 7 (Some 5000000) 0, Op_call 2 demo_callee [1] [] 8 None 0, Op_timeout [2] 1]"
  have c: "callees ?es = {[2]}" by (auto simp: callees_def demo_callee_def)
  have "length (filter (\<lambda>e. call_token e \<noteq> None) ?es) < 2 ^ 64 - 1" by simp
  from rpc_exactly_once [OF this, of logged_transport 9000000 1 "\<lambda>_. []"] obtain f' out where
    run: "run_safe (rpc_step logged_transport) (procedure_forwarder_init 9000000 1 (\<lambda>_. [])) ?es = Some (f', out)"
    and k: "\<And>k. answers_of k out + (\<Sum>n\<in>callees ?es. pending_of k n f') = calls_of k ?es" by blast
  show ?thesis using run k [of 7] k [of 8] unfolding c by simp
qed

lemma request_dispatch:
  assumes "decode_rpc_request inner = Some (Some d)" "pf_hash_to_fqn f (bh_topic_hash (rq_header d)) = Some fqn" "pf_providers f fqn = Some handler"
  shows "deliver_request env now p inner sid f =
     Some (f\<lparr>pf_active_channel := Some (pr_channel p), pf_active_req_hdr := rq_header d, pf_active_session_id := sid\<rparr>,
           [Rpc_serve_seen fqn (bh_correlation_id (rq_header d)), Rpc_dispatch handler (rq_param_data d)])"
  using assms by (simp add: deliver_request_def Let_def)

lemma reply_body_decodes:
  "\<exists>hdr. decode_rpc_response (reply_body req seqno status rd) = Some (Some \<lparr>rs_header = hdr, rs_status = status, rs_return_data = rd\<rparr>)
     \<and> bh_correlation_id hdr = bh_correlation_id req \<and> bh_topic_hash hdr = bh_topic_hash req"
  by (simp add: reply_body_def decode_rpc_response_def decode_bidirectional_layout is_defined_rpc_status_def Let_def)

text \<open>
  C32. A provider that replies before the next request is dispatched answers the request it was given: one
  frame, to the requester's channel, carrying the request's correlation id and session, the status and the
  data. The reply functor is shared, though: the same invocation made after a second request has been
  dispatched sends that frame, with the second request's correlation id, to the second requester, and the
  first requester's channel gets nothing.
\<close>

theorem reply_answers_latest:
  assumes d1: "decode_rpc_request i1 = Some (Some d1)" "pf_hash_to_fqn f (bh_topic_hash (rq_header d1)) = Some fqn1" "pf_providers f fqn1 = Some h1"
    and d2: "decode_rpc_request i2 = Some (Some d2)" "pf_hash_to_fqn f (bh_topic_hash (rq_header d2)) = Some fqn2" "pf_providers f fqn2 = Some h2"
  shows "\<exists>f1 o1 r1 b1 hd1 f2 o2 r2 b2 hd2. deliver_request env now p1 i1 sid1 f = Some (f1, o1) \<and> Rpc_dispatch h1 (rq_param_data d1) \<in> set o1
     \<and> rpc_reply env now status rd f1 = Some r1 \<and> pf_channels r1 = store_send env (pr_channel p1) (rpc_frame now msg_rpc_response sid1 b1) (pf_channels f)
     \<and> decode_rpc_response b1 = Some (Some \<lparr>rs_header = hd1, rs_status = status, rs_return_data = rd\<rparr>)
     \<and> bh_correlation_id hd1 = bh_correlation_id (rq_header d1)
     \<and> deliver_request env now p2 i2 sid2 f1 = Some (f2, o2) \<and> rpc_reply env now status rd f2 = Some r2
     \<and> pf_channels r2 = store_send env (pr_channel p2) (rpc_frame now msg_rpc_response sid2 b2) (pf_channels f)
     \<and> decode_rpc_response b2 = Some (Some \<lparr>rs_header = hd2, rs_status = status, rs_return_data = rd\<rparr>)
     \<and> bh_correlation_id hd2 = bh_correlation_id (rq_header d2)"
proof -
  define f1 where "f1 = f\<lparr>pf_active_channel := Some (pr_channel p1), pf_active_req_hdr := rq_header d1, pf_active_session_id := sid1\<rparr>"
  have e1: "deliver_request env now p1 i1 sid1 f = Some (f1, [Rpc_serve_seen fqn1 (bh_correlation_id (rq_header d1)), Rpc_dispatch h1 (rq_param_data d1)])"
    unfolding f1_def by (rule request_dispatch [OF d1])
  define f2 where "f2 = f1\<lparr>pf_active_channel := Some (pr_channel p2), pf_active_req_hdr := rq_header d2, pf_active_session_id := sid2\<rparr>"
  have e2: "deliver_request env now p2 i2 sid2 f1 = Some (f2, [Rpc_serve_seen fqn2 (bh_correlation_id (rq_header d2)), Rpc_dispatch h2 (rq_param_data d2)])"
    unfolding f2_def by (rule request_dispatch) (use d2 in \<open>simp_all add: f1_def\<close>)
  let ?b = "\<lambda>d. reply_body (rq_header d) (ep_next_sequence (pf_endpoint f)) status rd"
  obtain hd1 hd2 where b: "decode_rpc_response (?b d1) = Some (Some \<lparr>rs_header = hd1, rs_status = status, rs_return_data = rd\<rparr>)"
    "bh_correlation_id hd1 = bh_correlation_id (rq_header d1)"
    "decode_rpc_response (?b d2) = Some (Some \<lparr>rs_header = hd2, rs_status = status, rs_return_data = rd\<rparr>)"
    "bh_correlation_id hd2 = bh_correlation_id (rq_header d2)" using reply_body_decodes by metis
  obtain r1 where r1: "rpc_reply env now status rd f1 = Some r1"
    "pf_channels r1 = store_send env (pr_channel p1) (rpc_frame now msg_rpc_response sid1 (?b d1)) (pf_channels f)"
    by (simp add: rpc_reply_def reply_status_eq f1_def Let_def)
  obtain r2 where r2: "rpc_reply env now status rd f2 = Some r2"
    "pf_channels r2 = store_send env (pr_channel p2) (rpc_frame now msg_rpc_response sid2 (?b d2)) (pf_channels f)"
    by (simp add: rpc_reply_def reply_status_eq f1_def f2_def Let_def)
  have m: "Rpc_dispatch h1 (rq_param_data d1) \<in> set [Rpc_serve_seen fqn1 (bh_correlation_id (rq_header d1)), Rpc_dispatch h1 (rq_param_data d1)]" by simp
  show ?thesis by (intro exI conjI) (rule e1 e2 b r1 r2 m)+
qed

definition demo_request_bytes :: "u64 \<Rightarrow> bytes" where
  "demo_request_bytes c = bidirectional_layout \<lparr>bh_source = source_caller, bh_sequence = 0, bh_topic_hash = fqn_topic_hash [1], bh_type_hash_1 = 0,
     bh_type_hash_2 = 0, bh_correlation_id = c\<rparr> @ [9]"

theorem reply_answers_latest_witness:
  "\<exists>f1 o1 f2 o2 r2 b2 hd2. deliver_request logged_transport 1 demo_callee (demo_request_bytes 5) 0 (rpc_serve [1] 3 (procedure_forwarder_init 9000000 1 (\<lambda>_. []))) = Some (f1, o1)
     \<and> deliver_request logged_transport 1 \<lparr>pr_channel = 1, pr_node_name = [3]\<rparr> (demo_request_bytes 6) 0 f1 = Some (f2, o2)
     \<and> rpc_reply logged_transport 1 rpc_success [] f2 = Some r2 \<and> pf_channels r2 0 = [] \<and> pf_channels r2 1 = [rpc_frame 1 msg_rpc_response 0 b2]
     \<and> decode_rpc_response b2 = Some (Some \<lparr>rs_header = hd2, rs_status = rpc_success, rs_return_data = []\<rparr>) \<and> bh_correlation_id hd2 = 6"
proof -
  have d: "decode_rpc_request (demo_request_bytes c) = Some (Some \<lparr>rq_header = \<lparr>bh_source = source_caller, bh_sequence = 0,
      bh_topic_hash = fqn_topic_hash [1], bh_type_hash_1 = 0, bh_type_hash_2 = 0, bh_correlation_id = c\<rparr>, rq_param_data = [9]\<rparr>)" for c
    by (simp add: decode_rpc_request_def demo_request_bytes_def decode_bidirectional_layout)
  define f where "f = rpc_serve [1] 3 (procedure_forwarder_init 9000000 1 (\<lambda>_. [] :: bytes list))"
  have f: "pf_hash_to_fqn f (fqn_topic_hash [1]) = Some [1]" "pf_providers f [1] = Some 3" "pf_channels f = (\<lambda>_. [])"
    by (simp_all add: f_def rpc_serve_def procedure_forwarder_init_def)
  have sent: "store_send logged_transport 1 frame (\<lambda>_. []) 0 = []" "store_send logged_transport 1 frame (\<lambda>_. []) 1 = [frame]" for frame
    by (simp_all add: store_send_def logged_transport_def)
  obtain f1 o1 f2 o2 r2 b2 hd2 where r: "deliver_request logged_transport 1 demo_callee (demo_request_bytes 5) 0 f = Some (f1, o1)"
    "deliver_request logged_transport 1 \<lparr>pr_channel = 1, pr_node_name = [3]\<rparr> (demo_request_bytes 6) 0 f1 = Some (f2, o2)"
    "rpc_reply logged_transport 1 rpc_success [] f2 = Some r2"
    "pf_channels r2 = store_send logged_transport 1 (rpc_frame 1 msg_rpc_response 0 b2) (\<lambda>_. [])"
    "decode_rpc_response b2 = Some (Some \<lparr>rs_header = hd2, rs_status = rpc_success, rs_return_data = []\<rparr>)" "bh_correlation_id hd2 = 6"
    using reply_answers_latest [OF d [of 5] _ _ d [of 6], of f "[1]" 3 "[1]" 3 logged_transport 1 demo_callee 0 rpc_success "[]"
      "\<lparr>pr_channel = 1, pr_node_name = [3]\<rparr>" 0] by (auto simp: f)
  show ?thesis unfolding f_def [symmetric] by (intro exI conjI) (rule r | simp only: r sent)+
qed

end
