(* ===== verification/Peer_Session.thy ===== *)
theory Peer_Session
  imports Handshake_Fsm Forwarder_Safety Procedure_Forwarder
begin

text \<open>
  The session with one peer (\<open>io/peer_session.h\<close>, \<open>io/detail/peer_session_*.h\<close>, \<open>io/frame_router.h\<close>): the
  staleness gate, the routing of frames to their consumers, the handshake with its attach negotiation,
  the counted subscriptions behind the ready edge, and teardown. The session drives the handshake
  machine, the negotiator and the two forwarders, which all sessions of a node share with the channels;
  the store of channels is kept here and lent to a forwarder for the length of a call. Which callbacks
  are installed is part of the state; invoking one is an output.
\<close>

section \<open>Vocabulary\<close>

datatype peer_kind = dialed | accepted

datatype lifecycle_edge = le_connected | le_disconnected | le_reconnected | le_dead | le_ready | le_rejected

record lifecycle_event =
  lv_edge :: lifecycle_edge
  lv_id :: node_id
  lv_node_name :: bytes
  lv_kind :: peer_kind
  lv_reason :: handshake_outcome

datatype security_cause = sc_none | tag_verify_failed | unknown_key_epoch | malformed_frame

record security_event =
  sv_kind :: security_kind
  sv_peer :: node_id
  sv_cause :: security_cause

text \<open>The record that outlives every session built from it.\<close>

record peer_context =
  pc_peer_id :: node_id
  pc_node_name :: bytes
  pc_epochs :: u64
  pc_has_ever_connected :: bool
  pc_same_host :: bool

definition epoch_next :: "u64 \<Rightarrow> u64" where
  "epoch_next c = (let c = c + 1 in if c = 0 then 1 else c)"

section \<open>The frame router\<close>

datatype consumer_id =
  Cn_handshake_req | Cn_handshake_resp | Cn_subscribe | Cn_fetch_latched | Cn_unsubscribe | Cn_subscribe_response
  | Cn_unidirectional | Cn_rpc_request | Cn_rpc_response | Cn_heartbeat

text \<open>A router holds the consumers that have been registered; \<open>dispatch\<close> picks one or warns.\<close>

type_synonym frame_router = "consumer_id \<Rightarrow> bool"

definition dispatch :: "frame_header \<Rightarrow> frame_router \<Rightarrow> string + consumer_id" where
  "dispatch hdr router =
     (let fire = (\<lambda>c. if router c then Inr c else Inl ''plexus: router no_consumer_for_type'') in
      if fh_type hdr = msg_unidirectional then fire Cn_unidirectional
      else if fh_type hdr = msg_subscribe then fire Cn_subscribe
      else if fh_type hdr = msg_fetch_latched then fire Cn_fetch_latched
      else if fh_type hdr = msg_unsubscribe then fire Cn_unsubscribe
      else if fh_type hdr = msg_subscribe_response then fire Cn_subscribe_response
      else if fh_type hdr = msg_rpc_request then fire Cn_rpc_request
      else if fh_type hdr = msg_rpc_response then fire Cn_rpc_response
      else if fh_type hdr = msg_handshake_req then fire Cn_handshake_req
      else if fh_type hdr = msg_handshake_resp then fire Cn_handshake_resp
      else if fh_type hdr = msg_heartbeat then fire Cn_heartbeat
      else Inl ''plexus: router unknown_frame_type'')"

definition route :: "bytes \<Rightarrow> frame_router \<Rightarrow> (string + consumer_id \<times> frame_header \<times> bytes) option" where
  "route frame router = do {
     hdr \<leftarrow> decode_header frame;
     Some (case hdr of
        None \<Rightarrow> Inl ''plexus: router frame_decode_failed''
      | Some hdr \<Rightarrow> (case dispatch hdr router of Inl w \<Rightarrow> Inl w | Inr c \<Rightarrow> Inr (c, hdr, drop header_size frame)))
   }"

section \<open>Session state\<close>

record session_hooks =
  hk_drop :: bool
  hk_stamp_seen :: bool
  hk_security :: bool
  hk_lifecycle :: bool
  hk_subscribe_degraded :: bool
  hk_message :: bool
  hk_object_route :: bool
  hk_subscribe_refused :: bool
  hk_message_route :: bool
  hk_message_with_info :: bool

record 'c session_env = "'c forwarder_env" +
  ev_close :: "'c \<Rightarrow> 'c"
  ev_hmac :: hmac_fn

record 'c peer_session =
  ss_torn_down :: bool
  ss_fsm :: handshake_fsm
  ss_router :: frame_router
  ss_channel :: nat
  ss_from_intra_process :: bool
  ss_session_id :: u64
  ss_forwarders_installed :: bool
  ss_is_inbound_bootstrap :: bool
  ss_ctx :: peer_context
  ss_timer_armed :: bool
  ss_fsm_cfg :: handshake_fsm_config
  ss_ready_latched :: bool
  ss_peer_session_id :: u64
  ss_closed_for_protocol_error :: bool
  ss_messages :: "'c message_forwarder"
  ss_negotiator :: attach_negotiator
  ss_frame_scratch :: bytes
  ss_outstanding_subscribes :: u16
  ss_payload_scratch :: bytes
  ss_procedures :: "'c procedure_forwarder"
  ss_handshake_timeout :: int
  ss_hooks :: session_hooks
  ss_channels :: "'c channel_store"

definition peer_session_init :: "('c, 'x) session_env_scheme \<Rightarrow> peer_context \<Rightarrow> nat \<Rightarrow> handshake_fsm_config \<Rightarrow> int \<Rightarrow> 'c message_forwarder
    \<Rightarrow> 'c procedure_forwarder \<Rightarrow> bool \<Rightarrow> session_hooks \<Rightarrow> attach_negotiator \<Rightarrow> 'c channel_store \<Rightarrow> 'c peer_session" where
  "peer_session_init env ctx ch cfg timeout messages procedures inbound hooks neg cs =
     \<lparr>ss_torn_down = False, ss_fsm = handshake_fsm_init cfg, ss_router = (\<lambda>_. False), ss_channel = ch,
      ss_from_intra_process = (tier_of (ev_scheme env ch) = loc_process), ss_session_id = 0, ss_forwarders_installed = False,
      ss_is_inbound_bootstrap = inbound, ss_ctx = ctx, ss_timer_armed = False, ss_fsm_cfg = cfg, ss_ready_latched = False,
      ss_peer_session_id = 0, ss_closed_for_protocol_error = False, ss_messages = messages, ss_negotiator = neg, ss_frame_scratch = [],
      ss_outstanding_subscribes = 0, ss_payload_scratch = [], ss_procedures = procedures, ss_handshake_timeout = timeout,
      ss_hooks = hooks, ss_channels = cs\<rparr>"

datatype message_receiver = with_info_seam | plain_seam | node_route

datatype session_output =
  So_lifecycle lifecycle_event | So_security security_event | So_install security_negotiation | So_forwarder forwarder_output
  | So_rpc rpc_output | So_message message_receiver bytes bytes "message_info option" | So_arm_timer int | So_cancel_timer | So_drop
  | So_stamp_seen node_id | So_refused u64 subscribe_status | So_degraded u64 u8 | So_object bytes object_carrier | So_release object_carrier
  | So_warn string

definition then_do :: "('s \<times> 'o list) option \<Rightarrow> ('s \<Rightarrow> ('s \<times> 'o list) option) \<Rightarrow> ('s \<times> 'o list) option" where
  "then_do m k = do { (s, out) \<leftarrow> m; (s, out') \<leftarrow> k s; Some (s, out @ out') }"

definition session_peer :: "'c peer_session \<Rightarrow> peer_ref" where
  "session_peer s = \<lparr>pr_channel = ss_channel s, pr_node_name = pc_node_name (ss_ctx s)\<rparr>"

definition messages_call :: "('c message_forwarder \<Rightarrow> ('c message_forwarder \<times> 'r) option) \<Rightarrow> 'c peer_session \<Rightarrow> ('c peer_session \<times> 'r) option" where
  "messages_call g s = map_option (\<lambda>(f, r). (s\<lparr>ss_messages := f, ss_channels := mf_channels f\<rparr>, r)) (g ((ss_messages s)\<lparr>mf_channels := ss_channels s\<rparr>))"

definition procedures_call :: "('c procedure_forwarder \<Rightarrow> ('c procedure_forwarder \<times> rpc_output list) option) \<Rightarrow> 'c peer_session
    \<Rightarrow> ('c peer_session \<times> session_output list) option" where
  "procedures_call g s =
     map_option (\<lambda>(f, outs). (s\<lparr>ss_procedures := f, ss_channels := pf_channels f\<rparr>, map So_rpc outs)) (g ((ss_procedures s)\<lparr>pf_channels := ss_channels s\<rparr>))"

section \<open>Handshake frames\<close>

definition status_for :: "handshake_outcome \<Rightarrow> handshake_status" where
  "status_for outcome =
     (if outcome = reject_version then hs_version_incompatible
      else if outcome = reject_identity then hs_identity_conflict
      else if outcome = reject_unauthorized then hs_unauthorized
      else hs_accepted)"

definition self_request :: "'c peer_session \<Rightarrow> handshake_request" where
  "self_request s =
     (let cfg = ss_fsm_cfg s; n = ss_negotiator s; offer = cipher_offer n in
      \<lparr>hs_id = hc_self_id cfg, hs_version_major = hc_version_major cfg, hs_version_minor = hc_version_minor cfg,
       hs_compatible_version_major = hc_compatible_version_major cfg, hs_compatible_version_minor = hc_compatible_version_minor cfg,
       hs_protocol_version = k_protocol_version, hs_fingerprint = hc_local_fingerprint cfg, hs_key_id = an_key_id n,
       hs_own_nonce = an_own_nonce n, hs_cipher_offer = offer, hs_chosen_cipher = offer, hs_proof = replicate k_handshake_proof_len 0\<rparr>)"

definition session_send_control :: "('c, 'x) session_env_scheme \<Rightarrow> u64 \<Rightarrow> msg_type \<Rightarrow> 'c peer_session \<Rightarrow> ('c peer_session \<times> session_output list) option" where
  "session_send_control env now type s =
     (let fhdr = \<lparr>fh_type = type, fh_flags = 0, fh_session_id = 0, fh_timestamp_ns = now, fh_payload_len = of_nat (length (ss_payload_scratch s))\<rparr> in do {
        frame \<leftarrow> encode_frame_into (ss_frame_scratch s) fhdr (ss_payload_scratch s);
        Some (s\<lparr>ss_frame_scratch := frame,
                ss_channels := store_send (transport_env.truncate env) (ss_channel s) frame (ss_channels s)\<rparr>, [])
      })"

definition send_handshake_request :: "('c, 'x) session_env_scheme \<Rightarrow> u64 \<Rightarrow> 'c peer_session \<Rightarrow> ('c peer_session \<times> session_output list) option" where
  "send_handshake_request env now s = do {
     payload \<leftarrow> encode_handshake_request_into (ss_payload_scratch s) (self_request s);
     session_send_control env now msg_handshake_req (s\<lparr>ss_payload_scratch := payload\<rparr>)
   }"

definition handshake_answer :: "hmac_fn \<Rightarrow> handshake_outcome \<Rightarrow> 'c peer_session \<Rightarrow> handshake_response" where
  "handshake_answer hmac outcome s =
     handshake_request.extend ((self_request s)\<lparr>hs_proof := response_proof hmac (ss_negotiator s)\<rparr>) (handshake_response.fields (status_for outcome))"

definition send_handshake_response :: "('c, 'x) session_env_scheme \<Rightarrow> u64 \<Rightarrow> handshake_outcome \<Rightarrow> 'c peer_session \<Rightarrow> ('c peer_session \<times> session_output list) option" where
  "send_handshake_response env now outcome s = do {
     payload \<leftarrow> encode_handshake_response_into (ss_payload_scratch s) (handshake_answer (ev_hmac env) outcome s);
     session_send_control env now msg_handshake_resp (s\<lparr>ss_payload_scratch := payload\<rparr>)
   }"

section \<open>Edges and teardown\<close>

definition session_kind :: "'c peer_session \<Rightarrow> peer_kind" where
  "session_kind s = (if ss_is_inbound_bootstrap s then accepted else dialed)"

definition fire_lifecycle :: "lifecycle_edge \<Rightarrow> handshake_outcome \<Rightarrow> 'c peer_session \<Rightarrow> session_output list" where
  "fire_lifecycle edge reason s =
     (if \<not> hk_lifecycle (ss_hooks s) then []
      else [So_lifecycle \<lparr>lv_edge = edge, lv_id = pc_peer_id (ss_ctx s), lv_node_name = pc_node_name (ss_ctx s), lv_kind = session_kind s, lv_reason = reason\<rparr>])"

definition fire_security :: "security_kind \<Rightarrow> security_cause \<Rightarrow> 'c peer_session \<Rightarrow> session_output list" where
  "fire_security kind cause s =
     (if \<not> hk_security (ss_hooks s) then [] else [So_security \<lparr>sv_kind = kind, sv_peer = pc_peer_id (ss_ctx s), sv_cause = cause\<rparr>])"

definition fire_connect_edge :: "'c peer_session \<Rightarrow> 'c peer_session \<times> session_output list" where
  "fire_connect_edge s =
     (let first = \<not> pc_has_ever_connected (ss_ctx s);
          s = s\<lparr>ss_ctx := (ss_ctx s)\<lparr>pc_has_ever_connected := True\<rparr>\<rparr>
      in (s, fire_lifecycle (if first then le_connected else le_reconnected) ho_none s))"

definition channel_is_self_securing :: "('c, 'x) session_env_scheme \<Rightarrow> 'c peer_session \<Rightarrow> bool" where
  "channel_is_self_securing env s \<longleftrightarrow> ev_scheme env (ss_channel s) = ''tls'' \<or> ev_scheme env (ss_channel s) = ''dtls''"

definition tear_down :: "('c, 'x) session_env_scheme \<Rightarrow> 'c peer_session \<Rightarrow> 'c peer_session \<times> session_output list" where
  "tear_down env s =
     (let was_complete = ss_forwarders_installed s;
          s = s\<lparr>ss_torn_down := True, ss_timer_armed := False\<rparr>;
          f = mf_detach_all env (session_peer s) ((ss_messages s)\<lparr>mf_channels := ss_channels s\<rparr>);
          (g, outs) = rpc_detach_all (session_peer s) ((ss_procedures s)\<lparr>pf_channels := mf_channels f\<rparr>);
          s = s\<lparr>ss_messages := f, ss_procedures := g, ss_channels := pf_channels g, ss_peer_session_id := 0, ss_forwarders_installed := False,
                ss_outstanding_subscribes := 0, ss_ready_latched := False, ss_fsm := fst (on_torn_down (ss_fsm s))\<rparr>;
          s = s\<lparr>ss_channels := (ss_channels s)(ss_channel s := ev_close env (ss_channels s (ss_channel s)))\<rparr>
      in (s, So_cancel_timer # map So_rpc outs @ (if was_complete then fire_lifecycle le_disconnected ho_none s else [])))"

definition close_for_protocol_error :: "('c, 'x) session_env_scheme \<Rightarrow> 'c peer_session \<Rightarrow> 'c peer_session \<times> session_output list" where
  "close_for_protocol_error env s =
     (if ss_torn_down s then (s, [])
      else let (s, outs) = tear_down env (s\<lparr>ss_closed_for_protocol_error := True\<rparr>) in (s, So_warn ''plexus: peer_session protocol_close'' # outs))"

definition on_channel_protocol_close :: "('c, 'x) session_env_scheme \<Rightarrow> 'c peer_session \<Rightarrow> 'c peer_session \<times> session_output list" where
  "on_channel_protocol_close env s =
     (if ss_torn_down s then (s, [])
      else let alarm = (if pa_engaged (an_pending (ss_negotiator s)) \<and> ss_forwarders_installed s
                        then fire_security stream_tamper_teardown tag_verify_failed s else []);
               (s, outs) = close_for_protocol_error env s in (s, alarm @ outs))"

definition refuse_posture :: "('c, 'x) session_env_scheme \<Rightarrow> 'c peer_session \<Rightarrow> 'c peer_session \<times> session_output list" where
  "refuse_posture env s =
     (let s = s\<lparr>ss_negotiator := clear_identity (ss_negotiator s)\<rparr>;
          (s', outs) = close_for_protocol_error env s
      in (s', fire_lifecycle le_rejected reject_unauthorized s @ fire_security posture_mismatch sc_none s @ outs))"

definition on_abort :: "('c, 'x) session_env_scheme \<Rightarrow> handshake_outcome \<Rightarrow> 'c peer_session \<Rightarrow> 'c peer_session \<times> session_output list" where
  "on_abort env reason s =
     (let (s', outs) = close_for_protocol_error env s in
      (s', fire_lifecycle le_rejected reason s
        @ (if reason = reject_unauthorized then fire_security (classify_unauthorized (ss_negotiator s)) sc_none s else []) @ outs))"

section \<open>Subscriptions and completion\<close>

definition maybe_fire_ready :: "'c peer_session \<Rightarrow> 'c peer_session \<times> session_output list" where
  "maybe_fire_ready s =
     (if ss_outstanding_subscribes s = 0 \<and> \<not> ss_ready_latched s then (s\<lparr>ss_ready_latched := True\<rparr>, fire_lifecycle le_ready ho_none s) else (s, []))"

definition session_subscribe :: "('c, 'x) session_env_scheme \<Rightarrow> u64 \<Rightarrow> bytes \<Rightarrow> subscriber_qos \<Rightarrow> u64 option \<Rightarrow> 'c peer_session
    \<Rightarrow> ('c peer_session \<times> session_output list) option" where
  "session_subscribe env now fqn qos type_id s = do {
     (s, attached, outs) \<leftarrow> messages_call (mf_attach env now (session_peer s) fqn qos type_id) s;
     Some (if attached then s\<lparr>ss_outstanding_subscribes := ss_outstanding_subscribes s + 1\<rparr> else s, map So_forwarder outs)
   }"

definition session_unsubscribe :: "('c, 'x) session_env_scheme \<Rightarrow> u64 \<Rightarrow> bytes \<Rightarrow> 'c peer_session \<Rightarrow> ('c peer_session \<times> session_output list) option" where
  "session_unsubscribe env now fqn s =
     map_option (\<lambda>(s, _, outs). (s, map So_forwarder outs)) (messages_call (mf_detach env now (session_peer s) fqn) s)"

fun subscribe_each :: "('c, 'x) session_env_scheme \<Rightarrow> u64 \<Rightarrow> remembered_demand list \<Rightarrow> 'c peer_session \<Rightarrow> ('c peer_session \<times> session_output list) option" where
  "subscribe_each env now [] s = Some (s, [])"
| "subscribe_each env now (d # ds) s = then_do (session_subscribe env now (rd_fqn d) (rd_qos d) (rd_type_id d) s) (subscribe_each env now ds)"

definition resubscribe_all :: "('c, 'x) session_env_scheme \<Rightarrow> u64 \<Rightarrow> 'c peer_session \<Rightarrow> ('c peer_session \<times> session_output list) option" where
  "resubscribe_all env now s = subscribe_each env now (remembered_topics (pc_node_name (ss_ctx s)) (ss_messages s)) s"

definition record_same_host :: "'c peer_session \<Rightarrow> 'c peer_session" where
  "record_same_host s = s\<lparr>ss_ctx := (ss_ctx s)\<lparr>pc_same_host := is_same_host (hf_peer_fingerprint (ss_fsm s)) (hc_local_fingerprint (hf_cfg (ss_fsm s)))\<rparr>\<rparr>"

definition install_or_refuse :: "('c, 'x) session_env_scheme \<Rightarrow> u64 \<Rightarrow> 'c peer_session \<Rightarrow> ('c peer_session \<times> session_output list) option" where
  "install_or_refuse env now s =
     (let epoch = epoch_next (pc_epochs (ss_ctx s));
          s = s\<lparr>ss_timer_armed := False, ss_session_id := epoch, ss_ctx := (ss_ctx s)\<lparr>pc_epochs := epoch\<rparr>\<rparr>;
          s = record_same_host s;
          (n, installed, key) = install_on_accept (channel_is_self_securing env s) (ss_negotiator s);
          s = s\<lparr>ss_negotiator := n\<rparr>;
          outs = So_cancel_timer # (case key of Some neg \<Rightarrow> [So_install neg] | None \<Rightarrow> [])
      in if \<not> installed then then_do (Some (s, outs)) (\<lambda>s. Some (refuse_posture env s))
         else then_do (then_do (Some (s\<lparr>ss_forwarders_installed := True\<rparr>, outs)) (\<lambda>s. Some (fire_connect_edge s)))
                (\<lambda>s. then_do (resubscribe_all env now s) (\<lambda>s. Some (maybe_fire_ready s))))"

definition on_complete :: "('c, 'x) session_env_scheme \<Rightarrow> u64 \<Rightarrow> 'c peer_session \<Rightarrow> ('c peer_session \<times> session_output list) option" where
  "on_complete env now s =
     (if ss_forwarders_installed s then Some (s, [])
      else then_do (if ss_is_inbound_bootstrap s then send_handshake_response env now accept_inbound s else Some (s, [])) (install_or_refuse env now))"

definition execute :: "('c, 'x) session_env_scheme \<Rightarrow> u64 \<Rightarrow> fsm_step_result \<Rightarrow> 'c peer_session \<Rightarrow> ('c peer_session \<times> session_output list) option" where
  "execute env now step s =
     (case fr_action step of
        act_send_request \<Rightarrow> send_handshake_request env now s
      | act_send_response \<Rightarrow> send_handshake_response env now (fr_outcome step) s
      | act_complete \<Rightarrow> on_complete env now s
      | act_retry \<Rightarrow> Some (s, [So_warn ''plexus: peer_session retry_no_dialer''])
      | act_abort \<Rightarrow> Some (on_abort env (fr_outcome step) s)
      | act_none \<Rightarrow> Some (s, []))"

definition is_refusal :: "subscribe_status \<Rightarrow> bool" where
  "is_refusal status \<longleftrightarrow> status = ss_type_mismatch \<or> status = ss_incompatible_qos \<or> status = ss_source_identity_incompatible"

definition surface_subscribe_outcome :: "subscribe_response \<Rightarrow> 'c peer_session \<Rightarrow> session_output list" where
  "surface_subscribe_outcome resp s =
     (if is_refusal (sp_status resp) then if hk_subscribe_refused (ss_hooks s) then [So_refused (sp_topic_hash resp) (sp_status resp)] else []
      else if sp_status resp = ss_subscribed_degraded
           then if hk_subscribe_degraded (ss_hooks s) then [So_degraded (sp_topic_hash resp) (sp_degraded_flags resp)] else []
      else [])"

definition on_subscribe_response_received :: "bytes \<Rightarrow> 'c peer_session \<Rightarrow> ('c peer_session \<times> session_output list) option" where
  "on_subscribe_response_received inner s = do {
     decoded \<leftarrow> decode_subscribe_response inner;
     Some (case decoded of
        None \<Rightarrow> (s, [])
      | Some resp \<Rightarrow>
          if ss_outstanding_subscribes s = 0 then (s, [So_warn ''plexus: subscribe_response with no outstanding match''])
          else let (s', outs) = maybe_fire_ready (s\<lparr>ss_outstanding_subscribes := ss_outstanding_subscribes s - 1\<rparr>)
               in (s', surface_subscribe_outcome resp s @ outs))
   }"

section \<open>Delivery\<close>

definition assemble_message_info :: "u64 \<Rightarrow> frame_header \<Rightarrow> 'c peer_session \<Rightarrow> message_info" where
  "assemble_message_info now hdr s = default_message_info\<lparr>mi_source_timestamp := fh_timestamp_ns hdr, mi_reception_timestamp := now,
     mi_from_intra_process := ss_from_intra_process s\<rparr>"

fun received_by :: "message_receiver option \<Rightarrow> forwarder_output \<Rightarrow> session_output list" where
  "received_by (Some r) (Out_message fqn data info) = [So_message r fqn data info]"
| "received_by None (Out_message fqn data info) = []"
| "received_by r o' = [So_forwarder o']"

definition deliver_session_data :: "u64 \<Rightarrow> frame_header \<Rightarrow> bytes \<Rightarrow> 'c peer_session \<Rightarrow> ('c peer_session \<times> session_output list) option" where
  "deliver_session_data now hdr inner s =
     (let has_source_identity = (fh_flags hdr AND k_flag_source_identity \<noteq> 0);
          hooks = ss_hooks s; source = pc_peer_id (ss_ctx s);
          (receiver, g) =
            (if hk_message_with_info hooks
             then (Some with_info_seam, deliver_with_info inner (assemble_message_info now hdr s) source has_source_identity)
             else if hk_message hooks then (Some plain_seam, deliver inner source has_source_identity)
             else if hk_message_route hooks
             then (Some node_route, deliver_with_info inner (assemble_message_info now hdr s) source has_source_identity)
             else (None, deliver inner source has_source_identity))
      in map_option (\<lambda>(s, outs). (s, concat (map (received_by receiver) outs))) (messages_call g s))"

definition deliver_session_object :: "object_carrier \<Rightarrow> 'c peer_session \<Rightarrow> ('c peer_session \<times> session_output list) option" where
  "deliver_session_object c s = do {
     (s, fqn) \<leftarrow> messages_call (mf_fqn_for (oc_topic_hash c)) s;
     Some (s, if fqn = [] then [So_warn ''plexus: peer_session object_topic_unknown'', So_release c]
              else (if hk_object_route (ss_hooks s) then [So_object fqn c] else []) @ [So_release c])
   }"

section \<open>Consumers\<close>

text \<open>What \<open>register_session_consumers\<close> registers: every consumer except the one for unsubscribe.\<close>

definition register_session_consumers :: frame_router where
  "register_session_consumers c \<longleftrightarrow> c \<noteq> Cn_unsubscribe"

definition consume_handshake_req :: "('c, 'x) session_env_scheme \<Rightarrow> u64 \<Rightarrow> bytes \<Rightarrow> 'c peer_session \<Rightarrow> ('c peer_session \<times> session_output list) option" where
  "consume_handshake_req env now inner s = do {
     decoded \<leftarrow> decode_handshake_request inner;
     (case decoded of
        None \<Rightarrow> Some (s, [])
      | Some req \<Rightarrow>
          let n = assemble req responder (hs_id req) (hc_self_id (ss_fsm_cfg s)) (hc_attach_policy (hf_cfg (ss_fsm s)) \<noteq> None) (ss_negotiator s);
              n = latch_peer_proof req n;
              s = s\<lparr>ss_negotiator := n\<rparr> in
          if posture_mismatched req n then Some (refuse_posture env s)
          else let (m, step) = on_request req (ss_is_inbound_bootstrap s) (pa_facts (an_pending n)) (ss_fsm s)
               in execute env now step (s\<lparr>ss_fsm := m\<rparr>))
   }"

definition consume_handshake_resp :: "('c, 'x) session_env_scheme \<Rightarrow> u64 \<Rightarrow> bytes \<Rightarrow> 'c peer_session \<Rightarrow> ('c peer_session \<times> session_output list) option" where
  "consume_handshake_resp env now inner s = do {
     decoded \<leftarrow> decode_handshake_response inner;
     (case decoded of
        None \<Rightarrow> Some (s, [])
      | Some resp \<Rightarrow>
          let n = assemble resp initiator (hs_id resp) (hc_self_id (ss_fsm_cfg s)) (hc_attach_policy (hf_cfg (ss_fsm s)) \<noteq> None) (ss_negotiator s);
              n = latch_peer_proof resp n;
              s = s\<lparr>ss_negotiator := n\<rparr> in
          if posture_mismatched resp n then Some (refuse_posture env s)
          else let (m, step) = on_response resp (pa_facts (an_pending n)) (ss_fsm s)
               in execute env now step (s\<lparr>ss_fsm := m\<rparr>))
   }"

definition consume_subscribe :: "('c, 'x) session_env_scheme \<Rightarrow> u64 \<Rightarrow> bytes \<Rightarrow> 'c peer_session \<Rightarrow> ('c peer_session \<times> session_output list) option" where
  "consume_subscribe env now inner s = do {
     decoded \<leftarrow> decode_subscribe_request inner;
     (case decoded of
        None \<Rightarrow> Some (s, [])
      | Some req \<Rightarrow>
          let subscriber_type_id = (if sr_type_hash req \<noteq> 0 then Some (sr_type_hash req) else None);
              sub_qos = (if sr_has_qos req then from_wire_region (sr_qos req) else default_subscriber_qos) in
          map_option (\<lambda>(s, _, outs). (s, map So_forwarder outs))
            (messages_call (attach_for_fanout env now (session_peer s) (sr_fqn req) subscriber_type_id sub_qos) s))
   }"

definition consume_fetch_latched :: "('c, 'x) session_env_scheme \<Rightarrow> bytes \<Rightarrow> 'c peer_session \<Rightarrow> ('c peer_session \<times> session_output list) option" where
  "consume_fetch_latched env inner s = do {
     decoded \<leftarrow> decode_fetch_latched_request inner;
     (case decoded of
        None \<Rightarrow> Some (s, [])
      | Some req \<Rightarrow> map_option (\<lambda>(s, _). (s, []))
          (messages_call (\<lambda>f. map_option (\<lambda>f. (f, ())) (fetch_latched env (session_peer s) (fl_topic_hash req) (fl_max_samples req) f)) s))
   }"

definition consume_heartbeat :: "bytes \<Rightarrow> 'c peer_session \<Rightarrow> ('c peer_session \<times> session_output list) option" where
  "consume_heartbeat inner s = do {
     decoded \<leftarrow> decode_heartbeat inner;
     Some (s, if decoded \<noteq> None \<and> hk_stamp_seen (ss_hooks s) then [So_stamp_seen (pc_peer_id (ss_ctx s))] else [])
   }"

fun consume :: "('c, 'x) session_env_scheme \<Rightarrow> u64 \<Rightarrow> consumer_id \<Rightarrow> frame_header \<Rightarrow> bytes \<Rightarrow> 'c peer_session \<Rightarrow> ('c peer_session \<times> session_output list) option" where
  "consume env now Cn_handshake_req hdr inner s = consume_handshake_req env now inner s"
| "consume env now Cn_handshake_resp hdr inner s = consume_handshake_resp env now inner s"
| "consume env now Cn_subscribe hdr inner s = consume_subscribe env now inner s"
| "consume env now Cn_fetch_latched hdr inner s = consume_fetch_latched env inner s"
| "consume env now Cn_unsubscribe hdr inner s = Some (s, [])"
| "consume env now Cn_subscribe_response hdr inner s = on_subscribe_response_received inner s"
| "consume env now Cn_unidirectional hdr inner s = deliver_session_data now hdr inner s"
| "consume env now Cn_rpc_request hdr inner s =
     procedures_call (deliver_request (transport_env.truncate env) now (session_peer s) inner (ss_session_id s)) s"
| "consume env now Cn_rpc_response hdr inner s = procedures_call (deliver_response (session_peer s) inner) s"
| "consume env now Cn_heartbeat hdr inner s = consume_heartbeat inner s"

section \<open>Operations\<close>

definition on_receive :: "('c, 'x) session_env_scheme \<Rightarrow> u64 \<Rightarrow> bytes \<Rightarrow> 'c peer_session \<Rightarrow> ('c peer_session \<times> session_output list) option" where
  "on_receive env now frame s =
     (if ss_torn_down s then Some (s, [])
      else do {
        hdr \<leftarrow> decode_header frame;
        (case hdr of
           None \<Rightarrow> Some (close_for_protocol_error env s)
         | Some hdr \<Rightarrow>
             if fh_session_id hdr \<noteq> 0 \<and> ss_peer_session_id s \<noteq> 0 \<and> fh_session_id hdr \<noteq> ss_peer_session_id s then Some (s, [])
             else
               let s = (if fh_session_id hdr \<noteq> 0 \<and> ss_peer_session_id s = 0 then s\<lparr>ss_peer_session_id := fh_session_id hdr\<rparr> else s) in do {
                 routed \<leftarrow> route frame (ss_router s);
                 (case routed of Inl w \<Rightarrow> Some (s, [So_warn w]) | Inr (c, hdr, inner) \<Rightarrow> consume env now c hdr inner s)
               })
      })"

definition on_channel_error :: "io_error \<Rightarrow> 'c peer_session \<Rightarrow> session_output list" where
  "on_channel_error e s =
     (if e = would_block then []
      else if hk_drop (ss_hooks s) \<and> \<not> ss_torn_down s \<and> \<not> ss_closed_for_protocol_error s then [So_drop] else [])"

definition arm_handshake_timer :: "'c peer_session \<Rightarrow> 'c peer_session \<times> session_output list" where
  "arm_handshake_timer s = (s\<lparr>ss_timer_armed := True\<rparr>, [So_arm_timer (whole_milliseconds (ss_handshake_timeout s))])"

definition handshake_timer_fired :: "('c, 'x) session_env_scheme \<Rightarrow> u64 \<Rightarrow> 'c peer_session \<Rightarrow> ('c peer_session \<times> session_output list) option" where
  "handshake_timer_fired env now s =
     (if \<not> ss_timer_armed s then Some (s, [])
      else let (m, step) = on_timeout (ss_fsm s) in
        then_do (execute env now step (s\<lparr>ss_timer_armed := False, ss_fsm := m\<rparr>))
          (\<lambda>s. Some (if fr_action step = act_send_request then arm_handshake_timer s else (s, []))))"

definition fsm_drive :: "(handshake_fsm \<Rightarrow> handshake_fsm \<times> fsm_step_result) \<Rightarrow> ('c, 'x) session_env_scheme \<Rightarrow> u64 \<Rightarrow> 'c peer_session
    \<Rightarrow> ('c peer_session \<times> session_output list) option" where
  "fsm_drive g env now s = (let (m, step) = g (ss_fsm s) in execute env now step (s\<lparr>ss_fsm := m\<rparr>))"

definition session_start :: "('c, 'x) session_env_scheme \<Rightarrow> u64 \<Rightarrow> bytes option \<Rightarrow> 'c peer_session \<Rightarrow> ('c peer_session \<times> session_output list) option" where
  "session_start env now rand s =
     (let s = s\<lparr>ss_torn_down := False, ss_closed_for_protocol_error := False, ss_negotiator := prime_negotiator rand (ss_negotiator s),
                ss_router := register_session_consumers\<rparr> in
      then_do (Some (arm_handshake_timer s))
        (\<lambda>s. if ss_is_inbound_bootstrap s then Some (s, [])
             else then_do (fsm_drive on_dial_started env now s) (fsm_drive on_outbound_connected env now)))"

definition emit_heartbeat :: "('c, 'x) session_env_scheme \<Rightarrow> u64 \<Rightarrow> 'c peer_session \<Rightarrow> ('c peer_session \<times> session_output list) option" where
  "emit_heartbeat env now s = do {
     payload \<leftarrow> encode_heartbeat_into (ss_payload_scratch s) \<lparr>hb_version = 1, hb_reserved = 0\<rparr>;
     session_send_control env now msg_heartbeat (s\<lparr>ss_payload_scratch := payload\<rparr>)
   }"

end
