(* ===== verification/Session_Lifecycle.thy ===== *)
theory Session_Lifecycle
  imports Peer_Session
begin

text \<open>
  What a session promises: it survives anything its peer sends, its lifecycle edges alternate, and the
  subscription answers gate the ready edge.
\<close>

section \<open>Runs\<close>

text \<open>
  \<open>Op_shared\<close> is what the other sessions of the node do in between: it replaces the forwarders and the
  channels. Frames are whatever bytes arrive; \<open>Op_start\<close> carries the random draw.
\<close>

datatype 'c session_op =
  Op_start u64 "bytes option" | Op_receive u64 bytes | Op_timer u64 | Op_channel_error io_error | Op_protocol_close
  | Op_subscribe u64 bytes subscriber_qos "u64 option" | Op_unsubscribe u64 bytes | Op_heartbeat u64 | Op_tear_down | Op_object object_carrier
  | Op_shared "'c message_forwarder" "'c procedure_forwarder" "'c channel_store"

fun session_step :: "('c, 'x) session_env_scheme \<Rightarrow> 'c peer_session \<Rightarrow> 'c session_op \<Rightarrow> ('c peer_session \<times> session_output list) option" where
  "session_step env s (Op_start now rand) = session_start env now rand s"
| "session_step env s (Op_receive now frame) = on_receive env now frame s"
| "session_step env s (Op_timer now) = handshake_timer_fired env now s"
| "session_step env s (Op_channel_error e) = Some (s, on_channel_error e s)"
| "session_step env s Op_protocol_close = Some (on_channel_protocol_close env s)"
| "session_step env s (Op_subscribe now fqn q t) = session_subscribe env now fqn q t s"
| "session_step env s (Op_unsubscribe now fqn) = session_unsubscribe env now fqn s"
| "session_step env s (Op_heartbeat now) = emit_heartbeat env now s"
| "session_step env s Op_tear_down = Some (tear_down env s)"
| "session_step env s (Op_object c) = deliver_session_object c s"
| "session_step env s (Op_shared f g cs) = Some (s\<lparr>ss_messages := f, ss_procedures := g, ss_channels := cs\<rparr>, [])"

section \<open>Well-formed sessions\<close>

definition negotiator_ok :: "attach_negotiator \<Rightarrow> bool" where
  "negotiator_ok n \<longleftrightarrow> length (an_own_nonce n) = 16 \<and> length (an_key_id n) = 8 \<and> (\<forall>key. an_prover n = Some key \<longrightarrow> length (kp_key_id key) = 8)"

definition session_ok :: "'c peer_session \<Rightarrow> bool" where
  "session_ok s \<longleftrightarrow> mf_ok (ss_messages s) \<and> rpc_ok (ss_procedures s) \<and> length (hc_self_id (ss_fsm_cfg s)) = 16
     \<and> negotiator_ok (ss_negotiator s) \<and> hk_lifecycle (ss_hooks s)"

definition op_ok :: "'c session_op \<Rightarrow> bool" where
  "op_ok e = (case e of Op_start now rand \<Rightarrow> (\<forall>nonce. rand = Some nonce \<longrightarrow> length nonce = 16)
     | Op_receive now frame \<Rightarrow> length frame \<le> size_max | Op_shared f g cs \<Rightarrow> mf_ok f \<and> rpc_ok g | _ \<Rightarrow> True)"

definition mac_size :: "('c, 'x) session_env_scheme \<Rightarrow> bool" where
  "mac_size env \<longleftrightarrow> (\<forall>k m t. ev_hmac env k m = Some t \<longrightarrow> length t = 32)"

section \<open>The grammar of edges\<close>

fun lifecycle_edges :: "session_output list \<Rightarrow> lifecycle_edge list" where
  "lifecycle_edges [] = []"
| "lifecycle_edges (So_lifecycle ev # outs) = lv_edge ev # lifecycle_edges outs"
| "lifecycle_edges (_ # outs) = lifecycle_edges outs"

text \<open>The state is whether the peer is up and whether it ever was.\<close>

fun follow :: "bool \<times> bool \<Rightarrow> lifecycle_edge list \<Rightarrow> (bool \<times> bool) option" where
  "follow st [] = Some st"
| "follow (up, ever) (le_connected # es) = (if up \<or> ever then None else follow (True, True) es)"
| "follow (up, ever) (le_reconnected # es) = (if up \<or> \<not> ever then None else follow (True, True) es)"
| "follow (up, ever) (le_disconnected # es) = (if up then follow (False, ever) es else None)"
| "follow st (le_ready # es) = follow st es"
| "follow st (le_rejected # es) = follow st es"
| "follow st (le_dead # es) = None"

definition status :: "'c peer_session \<Rightarrow> bool \<times> bool" where
  "status s = (ss_forwarders_installed s, pc_has_ever_connected (ss_ctx s))"

lemma lifecycle_edges_append [simp]: "lifecycle_edges (a @ b) = lifecycle_edges a @ lifecycle_edges b"
  by (induction a rule: lifecycle_edges.induct) auto

lemma lifecycle_edges_rpc [simp]: "lifecycle_edges (map So_rpc rs) = []"
  by (induction rs) simp_all

lemma lifecycle_edges_forwarder [simp]: "lifecycle_edges (map So_forwarder fs) = []"
  by (induction fs) simp_all

lemma follow_append: "follow st (a @ b) = Option.bind (follow st a) (\<lambda>st. follow st b)"
  by (induction st a rule: follow.induct) auto

text \<open>A session that is not torn down keeps the epoch it latched.\<close>

definition epoch_kept :: "'c peer_session \<Rightarrow> 'c peer_session \<Rightarrow> bool" where
  "epoch_kept s s' \<longleftrightarrow> ss_torn_down s' \<or> \<not> ss_torn_down s \<and> (ss_peer_session_id s = 0 \<or> ss_peer_session_id s' = ss_peer_session_id s)"

definition outlook :: "'c peer_session \<Rightarrow> (bool \<times> bool) \<times> bool \<times> u64" where
  "outlook s = (status s, ss_torn_down s, ss_peer_session_id s)"

lemmas outlook_defs = outlook_def status_def

definition sound :: "'c peer_session \<Rightarrow> ('c peer_session \<times> session_output list) option \<Rightarrow> bool" where
  "sound s r = safely (\<lambda>(s', out). session_ok s' \<and> follow (status s) (lifecycle_edges out) = Some (status s') \<and> epoch_kept s s') r"

lemma sound_Some: "sound s (Some (s', out)) \<longleftrightarrow> session_ok s' \<and> follow (status s) (lifecycle_edges out) = Some (status s') \<and> epoch_kept s s'"
  by (simp add: sound_def safely_def)

lemma epoch_kept_same [simp]: "epoch_kept s s"
  by (simp add: epoch_kept_def)

lemma epoch_kept_trans: "epoch_kept s s' \<Longrightarrow> epoch_kept s' s'' \<Longrightarrow> epoch_kept s s''"
  by (auto simp: epoch_kept_def)

lemma sound_then:
  assumes "sound s m" and "\<And>s' out. m = Some (s', out) \<Longrightarrow> session_ok s' \<Longrightarrow> sound s' (k s')"
  shows "sound s (then_do m k)"
proof -
  obtain s' out where m: "m = Some (s', out)" "session_ok s'" "follow (status s) (lifecycle_edges out) = Some (status s')" "epoch_kept s s'"
    using assms(1) by (auto simp: sound_def safely_def)
  moreover obtain s'' out' where "k s' = Some (s'', out')" "session_ok s''" "follow (status s') (lifecycle_edges out') = Some (status s'')"
      "epoch_kept s' s''" using assms(2) [OF m(1, 2)] by (auto simp: sound_def safely_def)
  ultimately show ?thesis using epoch_kept_trans by (auto simp: sound_def safely_def then_do_def follow_append)
qed

lemma sound_quiet: "session_ok s' \<Longrightarrow> outlook s' = outlook s \<Longrightarrow> lifecycle_edges out = [] \<Longrightarrow> sound s (Some (s', out))"
  by (simp add: sound_Some outlook_def epoch_kept_def)

section \<open>Calls into the forwarders\<close>

lemma mf_lent [simp]: "mf_ok (f\<lparr>mf_channels := cs\<rparr>) \<longleftrightarrow> mf_ok f"
  by simp

lemma rpc_lent [simp]: "rpc_ok (f\<lparr>pf_channels := cs\<rparr>) \<longleftrightarrow> rpc_ok f"
  by (simp add: rpc_ok_def)

text \<open>A call into the message forwarder that cannot fault changes only the forwarder and the channels.\<close>

definition never_faults :: "('c message_forwarder \<Rightarrow> ('c message_forwarder \<times> 'r) option) \<Rightarrow> bool" where
  "never_faults g \<longleftrightarrow> (\<forall>f. mf_ok f \<longrightarrow> safely (\<lambda>(f', _). mf_ok f') (g f))"

lemma messages_call_sound:
  assumes "session_ok s" and "never_faults g"
  obtains s' r where "messages_call g s = Some (s', r)" "session_ok s'" "outlook s' = outlook s"
proof -
  have "mf_ok ((ss_messages s)\<lparr>mf_channels := ss_channels s\<rparr>)" using assms(1) by (simp add: session_ok_def)
  then have "safely (\<lambda>(f', _). mf_ok f') (g ((ss_messages s)\<lparr>mf_channels := ss_channels s\<rparr>))" using assms(2) unfolding never_faults_def by blast
  then obtain f r where "g ((ss_messages s)\<lparr>mf_channels := ss_channels s\<rparr>) = Some (f, r)" "mf_ok f" by (auto simp: safely_def)
  then show ?thesis using that assms(1) by (simp add: messages_call_def session_ok_def outlook_defs)
qed

lemma never_faults_forwarder:
  "never_faults (mf_attach env now p fqn q t)" "never_faults (mf_detach env now p fqn)" "never_faults (attach_for_fanout env now p fqn t q)"
  "never_faults (deliver inner src sid)" "never_faults (deliver_with_info inner info src sid)" "never_faults (mf_fqn_for h)"
  "never_faults (\<lambda>f. map_option (\<lambda>f. (f, ())) (fetch_latched env p h n f))"
proof -
  show "never_faults (mf_attach env now p fqn q t)" "never_faults (mf_detach env now p fqn)" "never_faults (attach_for_fanout env now p fqn t q)"
    unfolding never_faults_def by (blast intro: mf_attach_safe mf_detach_safe attach_for_fanout_safe)+
  have weaken: "safely P m \<Longrightarrow> (\<And>x. P x \<Longrightarrow> Q x) \<Longrightarrow> safely Q m" for P Q and m :: "'z option" by (auto simp: safely_def)
  show "never_faults (deliver inner src sid)" "never_faults (deliver_with_info inner info src sid)" "never_faults (mf_fqn_for h)"
    unfolding never_faults_def by (auto intro!: weaken [OF deliver_safe(1)] weaken [OF deliver_safe(2)] weaken [OF mf_fqn_for_safe])
  show "never_faults (\<lambda>f. map_option (\<lambda>f. (f, ())) (fetch_latched env p h n f))"
    unfolding never_faults_def by (auto intro!: safely_mapped [OF replay_safe(2)])
qed

lemma erase_pending_ok: "rpc_ok f \<Longrightarrow> rpc_ok (erase_pending n c f)"
proof -
  have pp: "per_peer m (erase_pending n c f) = (if m = n then filter (\<lambda>(c', _). c' \<noteq> c) (per_peer n f) else per_peer m f)" for m
    by (simp add: erase_pending_def)
  assume "rpc_ok f"
  then show ?thesis unfolding rpc_ok_def pp
    by (auto simp: erase_pending_def set_peer_def distinct_map_filter intro: order_trans [OF length_filter_le])
qed

lemma rpc_frames_ok:
  assumes "rpc_ok f"
  shows "\<exists>f' out. deliver_request env now p inner sid f = Some (f', out) \<and> rpc_ok f'" "\<exists>f' out. deliver_response p inner f = Some (f', out) \<and> rpc_ok f'"
    "rpc_ok (fst (rpc_detach_all p f))"
proof -
  show "\<exists>f' out. deliver_request env now p inner sid f = Some (f', out) \<and> rpc_ok f'"
    using request_keeps_calls [OF assms, of env now p inner sid] assms by (fastforce simp: keeps_calls_def rpc_ok_def per_peer_def)
  obtain d where "decode_rpc_response inner = Some d" using decode_rpc_response_total [of inner] by (auto simp: safely_def)
  then show "\<exists>f' out. deliver_response p inner f = Some (f', out) \<and> rpc_ok f'"
    using assms erase_pending_ok by (auto simp: deliver_response_def split: option.splits)
  show "rpc_ok (fst (rpc_detach_all p f))"
    using assms remove_peer_ok by (auto simp: rpc_ok_def rpc_detach_all_def endpoint_remove_peer_def per_peer_def Let_def split: option.splits if_splits)
qed

section \<open>Each part is sound\<close>

lemma control_sent:
  "\<exists>cs fs. session_send_control env now type s = Some (s\<lparr>ss_frame_scratch := fs, ss_channels := cs\<rparr>, [])"
  by (simp add: session_send_control_def encode_frame_into_layout Let_def) blast

lemma self_request_wf: "session_ok s \<Longrightarrow> handshake_wf (self_request s)"
  by (simp add: session_ok_def negotiator_ok_def handshake_wf_def self_request_def handshake_sizes Let_def)

lemma handshake_answer_wf: "mac_size env \<Longrightarrow> session_ok s \<Longrightarrow> handshake_wf (handshake_answer (ev_hmac env) o' s)"
  using self_request_wf [of s] by (auto simp: handshake_answer_def handshake_wf_def handshake_request.defs handshake_response.defs mac_size_def
    response_proof_def prove_def handshake_sizes Let_def split: option.splits)

lemma handshake_sent:
  assumes "session_ok s"
  shows "\<exists>cs fs ps. send_handshake_request env now s = Some (s\<lparr>ss_payload_scratch := ps, ss_frame_scratch := fs, ss_channels := cs\<rparr>, [])"
    and "mac_size env \<Longrightarrow> \<exists>cs fs ps. send_handshake_response env now o' s = Some (s\<lparr>ss_payload_scratch := ps, ss_frame_scratch := fs, ss_channels := cs\<rparr>, [])"
  using self_request_wf [OF assms] handshake_answer_wf [OF _ assms, of env o'] control_sent
  by (force simp: send_handshake_request_def send_handshake_response_def wire_layout)+

lemma scratch_ok [simp]:
  "session_ok (s\<lparr>ss_payload_scratch := ps\<rparr>) \<longleftrightarrow> session_ok s" "session_ok (s\<lparr>ss_frame_scratch := fs\<rparr>) \<longleftrightarrow> session_ok s"
  "session_ok (s\<lparr>ss_channels := cs\<rparr>) \<longleftrightarrow> session_ok s" "session_ok (s\<lparr>ss_fsm := m\<rparr>) \<longleftrightarrow> session_ok s" "session_ok (s\<lparr>ss_timer_armed := b\<rparr>) \<longleftrightarrow> session_ok s"
  "session_ok (s\<lparr>ss_closed_for_protocol_error := b\<rparr>) \<longleftrightarrow> session_ok s" "session_ok (s\<lparr>ss_ready_latched := b\<rparr>) \<longleftrightarrow> session_ok s"
  "session_ok (s\<lparr>ss_outstanding_subscribes := n\<rparr>) \<longleftrightarrow> session_ok s" "session_ok (s\<lparr>ss_ctx := ctx\<rparr>) \<longleftrightarrow> session_ok s"
  "session_ok (s\<lparr>ss_session_id := e\<rparr>) \<longleftrightarrow> session_ok s" "session_ok (s\<lparr>ss_peer_session_id := e\<rparr>) \<longleftrightarrow> session_ok s" "session_ok (s\<lparr>ss_router := rt\<rparr>) \<longleftrightarrow> session_ok s"
  "session_ok (s\<lparr>ss_torn_down := b\<rparr>) \<longleftrightarrow> session_ok s" "session_ok (s\<lparr>ss_forwarders_installed := b\<rparr>) \<longleftrightarrow> session_ok s"
  by (simp_all add: session_ok_def)

lemma fire_lifecycle_edges: "session_ok s \<Longrightarrow> lifecycle_edges (fire_lifecycle e r s) = [e]"
  by (simp add: fire_lifecycle_def session_ok_def)

lemma fire_security_edges [simp]: "lifecycle_edges (fire_security k c s) = []"
  by (simp add: fire_security_def)

lemma tear_down_sound:
  assumes "session_ok s"
  shows "sound s (Some (tear_down env s))" "\<not> ss_forwarders_installed (fst (tear_down env s))"
proof -
  define f where "f = mf_detach_all env (session_peer s) ((ss_messages s)\<lparr>mf_channels := ss_channels s\<rparr>)"
  define g where "g = rpc_detach_all (session_peer s) ((ss_procedures s)\<lparr>pf_channels := mf_channels f\<rparr>)"
  have ok: "mf_ok f" "rpc_ok (fst g)" using assms by (auto simp: session_ok_def f_def g_def intro!: mf_detach_safe(2) rpc_frames_ok(3))
  have peer: "session_peer (s\<lparr>ss_torn_down := True, ss_timer_armed := False\<rparr>) = session_peer s" by (simp add: session_peer_def)
  obtain s' where td: "tear_down env s = (s', So_cancel_timer # map So_rpc (snd g) @ (if ss_forwarders_installed s then fire_lifecycle le_disconnected ho_none s' else []))"
    and s': "ss_messages s' = f" "ss_procedures s' = fst g" "ss_fsm_cfg s' = ss_fsm_cfg s" "ss_negotiator s' = ss_negotiator s" "ss_hooks s' = ss_hooks s"
      "\<not> ss_forwarders_installed s'" "ss_ctx s' = ss_ctx s" "ss_torn_down s'"
    by (simp add: tear_down_def peer f_def [symmetric] g_def [symmetric] split_beta Let_def)
  have "session_ok s'" using assms ok by (simp add: session_ok_def s')
  then show "sound s (Some (tear_down env s))" unfolding td sound_Some
    by (cases "ss_forwarders_installed s") (simp_all add: fire_lifecycle_edges status_def epoch_kept_def s')
  show "\<not> ss_forwarders_installed (fst (tear_down env s))" by (simp add: td s')
qed

lemma sound_prefix:
  assumes "sound s (Some r)" and "follow (status s) (lifecycle_edges pre) = Some (status s)"
  shows "sound s (Some (fst r, pre @ snd r))"
  using assms by (cases r) (simp add: sound_Some follow_append)

lemma sound_status: "sound s r \<Longrightarrow> outlook s = outlook s' \<Longrightarrow> sound s' r"
  by (simp add: sound_def outlook_def epoch_kept_def)

lemma close_sound:
  assumes "session_ok s"
  shows "sound s (Some (close_for_protocol_error env s))"
proof (cases "ss_torn_down s")
  case False
  have "sound s (Some (tear_down env (s\<lparr>ss_closed_for_protocol_error := True\<rparr>)))"
    by (rule sound_status [OF tear_down_sound(1)]) (use assms in \<open>simp_all add: outlook_defs\<close>)
  from sound_prefix [OF this, of "[So_warn _]"] show ?thesis using False by (simp add: close_for_protocol_error_def split_beta)
qed (use assms in \<open>simp add: close_for_protocol_error_def sound_Some\<close>)

lemma refusals_sound:
  assumes "session_ok s"
  shows "sound s (Some (refuse_posture env s))" "sound s (Some (on_abort env o' s))" "sound s (Some (on_channel_protocol_close env s))"
proof -
  let ?s = "s\<lparr>ss_negotiator := clear_identity (ss_negotiator s)\<rparr>"
  have ok: "session_ok ?s" using assms by (simp add: session_ok_def negotiator_ok_def clear_identity_def)
  have "sound s (Some (close_for_protocol_error env ?s))" by (rule sound_status [OF close_sound [OF ok]]) (simp add: outlook_defs)
  from sound_prefix [OF this, of "fire_lifecycle le_rejected reject_unauthorized ?s @ fire_security posture_mismatch sc_none ?s"]
  show "sound s (Some (refuse_posture env s))" using ok by (simp add: refuse_posture_def fire_lifecycle_edges split_beta Let_def outlook_defs)
  from sound_prefix [OF close_sound [OF assms, of env], of "fire_lifecycle le_rejected o' s
      @ (if o' = reject_unauthorized then fire_security (classify_unauthorized (ss_negotiator s)) sc_none s else [])"]
  show "sound s (Some (on_abort env o' s))" using assms by (cases "o' = reject_unauthorized") (simp_all add: on_abort_def fire_lifecycle_edges split_beta Let_def outlook_defs)
  from sound_prefix [OF close_sound [OF assms, of env], of "if pa_engaged (an_pending (ss_negotiator s)) \<and> ss_forwarders_installed s
      then fire_security stream_tamper_teardown tag_verify_failed s else []"]
  show "sound s (Some (on_channel_protocol_close env s))"
    using assms by (auto simp: on_channel_protocol_close_def split_beta Let_def sound_Some)
qed

lemma subscribe_sound:
  assumes "session_ok s"
  shows "sound s (session_subscribe env now fqn q t s)" "sound s (session_unsubscribe env now fqn s)"
proof -
  obtain s' r where "messages_call (mf_attach env now (session_peer s) fqn q t) s = Some (s', r)" "session_ok s'" "outlook s' = outlook s"
    by (rule messages_call_sound [OF assms never_faults_forwarder(1)])
  then show "sound s (session_subscribe env now fqn q t s)" by (cases r) (auto simp: session_subscribe_def outlook_defs intro!: sound_quiet)
  obtain s' r where "messages_call (mf_detach env now (session_peer s) fqn) s = Some (s', r)" "session_ok s'" "outlook s' = outlook s"
    by (rule messages_call_sound [OF assms never_faults_forwarder(2)])
  then show "sound s (session_unsubscribe env now fqn s)" by (cases r) (auto simp: session_unsubscribe_def intro!: sound_quiet)
qed

lemma subscribe_each_sound: "session_ok s \<Longrightarrow> sound s (subscribe_each env now ds s)"
  by (induction ds arbitrary: s) (auto intro!: sound_then subscribe_sound sound_quiet)

lemma maybe_fire_ready_sound: "session_ok s \<Longrightarrow> sound s (Some (maybe_fire_ready s))"
  by (auto simp: maybe_fire_ready_def sound_Some fire_lifecycle_edges status_def epoch_kept_def)

lemma install_sound:
  assumes "session_ok s" and "\<not> ss_forwarders_installed s"
  shows "sound s (install_or_refuse env now s)"
proof -
  define s1 where "s1 = record_same_host (s\<lparr>ss_timer_armed := False, ss_session_id := epoch_next (pc_epochs (ss_ctx s)),
     ss_ctx := (ss_ctx s)\<lparr>pc_epochs := epoch_next (pc_epochs (ss_ctx s))\<rparr>\<rparr>)"
  obtain n inst key where i: "install_on_accept (channel_is_self_securing env s1) (ss_negotiator s1) = (n, inst, key)" by (metis prod_cases3)
  define s2 where "s2 = s1\<lparr>ss_negotiator := n\<rparr>"
  define outs where "outs = So_cancel_timer # (case key of Some neg \<Rightarrow> [So_install neg] | None \<Rightarrow> [])"
  have "negotiator_ok n" using i assms(1) by (auto simp: install_on_accept_def session_ok_def negotiator_ok_def s1_def record_same_host_def Let_def split: if_splits)
  then have s2: "session_ok s2" "outlook s2 = outlook s" "\<not> ss_forwarders_installed s2"
    using assms by (auto simp: session_ok_def s2_def s1_def record_same_host_def outlook_defs)
  have quiet: "lifecycle_edges outs = []" by (simp add: outs_def split: option.splits)
  have up: "sound s (then_do (Some (s2\<lparr>ss_forwarders_installed := True\<rparr>, outs)) (\<lambda>s. Some (fire_connect_edge s)))"
    using s2 quiet by (auto simp: then_do_def fire_connect_edge_def sound_Some fire_lifecycle_edges outlook_defs epoch_kept_def Let_def)
  show ?thesis
  proof (cases inst)
    case True
    then have "install_or_refuse env now s = then_do (then_do (Some (s2\<lparr>ss_forwarders_installed := True\<rparr>, outs)) (\<lambda>s. Some (fire_connect_edge s)))
                (\<lambda>s. then_do (resubscribe_all env now s) (\<lambda>s. Some (maybe_fire_ready s)))"
      by (simp add: install_or_refuse_def s1_def [symmetric] i s2_def outs_def Let_def)
    then show ?thesis by (simp add: sound_then up subscribe_each_sound maybe_fire_ready_sound resubscribe_all_def)
  next
    case False
    then have "install_or_refuse env now s = then_do (Some (s2, outs)) (\<lambda>s. Some (refuse_posture env s))"
      by (simp add: install_or_refuse_def s1_def [symmetric] i s2_def outs_def Let_def)
    then show ?thesis by (simp add: sound_then sound_quiet s2 quiet refusals_sound)
  qed
qed

lemma execute_sound:
  assumes mac: "mac_size env" and ok: "session_ok s"
  shows "sound s (execute env now step s)"
proof -
  have resp: "\<exists>s'. send_handshake_response env now o' s = Some (s', []) \<and> session_ok s' \<and> outlook s' = outlook s \<and> ss_forwarders_installed s' = ss_forwarders_installed s" for o'
    using handshake_sent(2) [OF ok mac, of now o'] ok by (auto simp: outlook_defs)
  have req: "sound s (send_handshake_request env now s)" using handshake_sent(1) [OF ok, of env now] ok by (auto simp: outlook_defs intro!: sound_quiet)
  have "sound s (send_handshake_response env now o' s)" for o' using resp [of o'] by (auto intro!: sound_quiet)
  moreover have "sound s (on_complete env now s)"
  proof (cases "ss_forwarders_installed s")
    case False
    then show ?thesis using resp [of accept_inbound] install_sound [of _ env now] ok by (auto simp: on_complete_def intro!: sound_then sound_quiet)
  qed (use ok in \<open>simp add: on_complete_def sound_quiet\<close>)
  ultimately show ?thesis using req ok refusals_sound(2) [OF ok] by (cases "fr_action step") (simp_all add: execute_def sound_quiet)
qed

lemma decoders_total:
  "\<exists>r. decode_subscribe_response payload = Some r" "\<exists>r. decode_fetch_latched_request payload = Some r" "\<exists>r. decode_heartbeat payload = Some r"
  by (auto simp: decode_subscribe_response_def decode_fetch_latched_request_def decode_heartbeat_def subscribe_sizes fetch_latched_request_size_def
    heartbeat_payload_size_def Let_def safely_ex [symmetric] intro!: safe_intro)

lemma negotiated_ok:
  "session_ok s \<Longrightarrow> session_ok (s\<lparr>ss_negotiator := latch_peer_proof frame (assemble frame role peer self pol (ss_negotiator s))\<rparr>)"
  by (simp add: session_ok_def negotiator_ok_def latch_peer_proof_def assemble_def)

lemma handshake_consumers_sound:
  assumes mac: "mac_size env" and ok: "session_ok s"
  shows "sound s (consume_handshake_req env now inner s)" "sound s (consume_handshake_resp env now inner s)"
proof -
  obtain rq rs where d: "decode_handshake_request inner = Some rq" "decode_handshake_response inner = Some rs"
    using decode_handshake_total [of inner] by (auto simp: safely_def)
  note ex = sound_status [OF execute_sound [OF mac]] sound_status [OF refusals_sound(1)]
  show "sound s (consume_handshake_req env now inner s)"
    using d(1) ok negotiated_ok [OF ok] by (cases rq) (auto simp: consume_handshake_req_def Let_def split_beta outlook_defs intro!: ex sound_quiet)
  show "sound s (consume_handshake_resp env now inner s)"
    using d(2) ok negotiated_ok [OF ok] by (cases rs) (auto simp: consume_handshake_resp_def Let_def split_beta outlook_defs intro!: ex sound_quiet)
qed

lemma received_by_edges [simp]: "lifecycle_edges (concat (map (received_by r) outs)) = []"
proof -
  have "lifecycle_edges (received_by r out) = []" for out by (cases r; cases out) simp_all
  then show ?thesis by (induction outs) simp_all
qed

lemma subscription_consumers_sound:
  assumes ok: "session_ok s"
  shows "length inner \<le> size_max \<Longrightarrow> sound s (consume_subscribe env now inner s)" "sound s (consume_fetch_latched env inner s)"
proof -
  show "sound s (consume_subscribe env now inner s)" if len: "length inner \<le> size_max"
  proof -
    obtain d where d: "decode_subscribe_request inner = Some d" using decode_subscribe_request_safe [OF len] by (auto simp: safely_def)
    show ?thesis
    proof (cases d)
      case (Some req)
      obtain s' r where "messages_call (attach_for_fanout env now (session_peer s) (sr_fqn req) (if sr_type_hash req \<noteq> 0 then Some (sr_type_hash req) else None)
        (if sr_has_qos req then from_wire_region (sr_qos req) else default_subscriber_qos)) s = Some (s', r)" "session_ok s'" "outlook s' = outlook s"
        by (rule messages_call_sound [OF ok never_faults_forwarder(3)])
      then show ?thesis using d Some by (cases r) (auto simp: consume_subscribe_def Let_def intro!: sound_quiet)
    qed (use d ok in \<open>simp add: consume_subscribe_def sound_quiet\<close>)
  qed
  obtain d where d: "decode_fetch_latched_request inner = Some d" using decoders_total by blast
  show "sound s (consume_fetch_latched env inner s)"
  proof (cases d)
    case (Some req)
    obtain s' r where "messages_call (\<lambda>f. map_option (\<lambda>f. (f, ())) (fetch_latched env (session_peer s) (fl_topic_hash req) (fl_max_samples req) f)) s = Some (s', r)"
      "session_ok s'" "outlook s' = outlook s" by (rule messages_call_sound [OF ok never_faults_forwarder(7)])
    then show ?thesis using d Some by (auto simp: consume_fetch_latched_def intro!: sound_quiet)
  qed (use d ok in \<open>simp add: consume_fetch_latched_def sound_quiet\<close>)
qed

lemma delivery_sound:
  assumes ok: "session_ok s"
  shows "sound s (deliver_session_data now hdr inner s)" "sound s (deliver_session_object c s)"
proof -
  have data: "sound s (map_option (\<lambda>(s, outs). (s, concat (map (received_by r) outs))) (messages_call g s))" if g: "never_faults g" for r g
  proof -
    obtain s' outs where "messages_call g s = Some (s', outs)" "session_ok s'" "outlook s' = outlook s" by (rule messages_call_sound [OF ok g])
    then show ?thesis by (auto intro!: sound_quiet)
  qed
  show "sound s (deliver_session_data now hdr inner s)" by (simp add: deliver_session_data_def data never_faults_forwarder Let_def)
  obtain s' r where "messages_call (mf_fqn_for (oc_topic_hash c)) s = Some (s', r)" "session_ok s'" "outlook s' = outlook s"
    by (rule messages_call_sound [OF ok never_faults_forwarder(6)])
  then show "sound s (deliver_session_object c s)" by (auto simp: deliver_session_object_def intro!: sound_quiet)
qed

lemma rpc_consumers_sound:
  assumes ok: "session_ok s"
  shows "sound s (procedures_call (deliver_request env now p inner sid) s)" "sound s (procedures_call (deliver_response p inner) s)"
proof -
  have "rpc_ok ((ss_procedures s)\<lparr>pf_channels := ss_channels s\<rparr>)" using ok by (simp add: session_ok_def)
  note rpc = rpc_frames_ok(1) [OF this, of env now p inner sid] rpc_frames_ok(2) [OF this, of p inner]
  show "sound s (procedures_call (deliver_request env now p inner sid) s)"
    using rpc(1) ok by (auto simp: procedures_call_def session_ok_def outlook_defs intro!: sound_quiet)
  show "sound s (procedures_call (deliver_response p inner) s)"
    using rpc(2) ok by (auto simp: procedures_call_def session_ok_def outlook_defs intro!: sound_quiet)
qed

lemma answers_sound:
  assumes ok: "session_ok s"
  shows "sound s (on_subscribe_response_received inner s)" "sound s (consume_heartbeat inner s)"
proof -
  obtain d where d: "decode_subscribe_response inner = Some d" using decoders_total by blast
  have ready: "sound s (Some (maybe_fire_ready (s\<lparr>ss_outstanding_subscribes := n\<rparr>)))" for n
    by (rule sound_status [OF maybe_fire_ready_sound]) (use ok in \<open>simp_all add: outlook_defs\<close>)
  have "lifecycle_edges (surface_subscribe_outcome resp s) = []" for resp by (simp add: surface_subscribe_outcome_def)
  then show "sound s (on_subscribe_response_received inner s)"
    using d ok sound_prefix [OF ready, of "surface_subscribe_outcome _ s"] by (cases d) (auto simp: on_subscribe_response_received_def split_beta Let_def intro!: sound_quiet)
  obtain h where "decode_heartbeat inner = Some h" using decoders_total by blast
  then show "sound s (consume_heartbeat inner s)" using ok by (auto simp: consume_heartbeat_def intro!: sound_quiet)
qed

lemma receive_sound:
  assumes mac: "mac_size env" and ok: "session_ok s" and len: "length frame \<le> size_max"
  shows "sound s (on_receive env now frame s)"
proof -
  have consume: "sound s' (consume env now c hdr inner s')" if "session_ok s'" "length inner \<le> size_max" for s' :: "'a peer_session" and c hdr inner
    using that handshake_consumers_sound [OF mac that(1)] subscription_consumers_sound [OF that(1)] delivery_sound [OF that(1)] rpc_consumers_sound [OF that(1)]
      answers_sound [OF that(1)] by (cases c) (simp_all add: sound_quiet)
  have "sound s' (do { routed \<leftarrow> route frame (ss_router s');
      (case routed of Inl w \<Rightarrow> Some (s', [So_warn w]) | Inr (c, hdr, inner) \<Rightarrow> consume env now c hdr inner s') })" if "session_ok s'" for s'
    using that len consume [OF that] by (auto simp: route_def intro!: sound_quiet split: option.splits sum.splits)
  note routed = this [OF ok] this [of "s\<lparr>ss_peer_session_id := e\<rparr>" for e]
  have latch: "sound (s\<lparr>ss_peer_session_id := e\<rparr>) r \<Longrightarrow> ss_peer_session_id s = 0 \<Longrightarrow> sound s r" for e r
    by (auto simp: sound_def safely_def epoch_kept_def status_def)
  show ?thesis using ok close_sound [OF ok, of env] routed(1) latch [OF routed(2)]
    by (auto simp: on_receive_def Let_def intro!: sound_quiet split: option.splits)
qed

lemma timer_sound:
  assumes mac: "mac_size env" and ok: "session_ok s"
  shows "sound s (handshake_timer_fired env now s)"
  using ok by (auto simp: handshake_timer_fired_def split_beta arm_handshake_timer_def outlook_defs
    intro!: sound_quiet sound_then sound_status [OF execute_sound [OF mac]])

lemma start_sound:
  assumes mac: "mac_size env" and ok: "session_ok s" and rand: "\<forall>nonce. rand = Some nonce \<longrightarrow> length nonce = 16"
  shows "sound (s\<lparr>ss_torn_down := False\<rparr>) (session_start env now rand s)"
proof -
  have "negotiator_ok (prime_negotiator rand (ss_negotiator s))"
    using ok rand by (auto simp: session_ok_def negotiator_ok_def prime_negotiator_def Let_def split: option.splits)
  then have s1: "session_ok (s\<lparr>ss_torn_down := False, ss_closed_for_protocol_error := False, ss_negotiator := prime_negotiator rand (ss_negotiator s),
      ss_router := register_session_consumers\<rparr>)" using ok by (simp add: session_ok_def)
  have drive: "sound s' (fsm_drive g env now s')" if "session_ok s'" for s' :: "'a peer_session" and g
    using that unfolding fsm_drive_def split_beta Let_def by (intro sound_status [OF execute_sound [OF mac]]) (simp_all add: outlook_defs)
  show ?thesis using s1 drive unfolding session_start_def Let_def
    by (intro sound_then) (auto simp: arm_handshake_timer_def outlook_defs intro!: sound_quiet sound_then)
qed

lemma session_step_sound:
  assumes mac: "mac_size env" and ok: "session_ok s" and e: "op_ok e"
  shows "sound (if (\<exists>now rand. e = Op_start now rand) then s\<lparr>ss_torn_down := False\<rparr> else s) (session_step env s e)"
proof (cases e)
  case (Op_heartbeat now)
  obtain ps where ps: "encode_heartbeat_into (ss_payload_scratch s) \<lparr>hb_version = 1, hb_reserved = 0\<rparr> = Some ps" by (simp add: wire_layout)
  then show ?thesis using Op_heartbeat ok control_sent [of env now msg_heartbeat "s\<lparr>ss_payload_scratch := ps\<rparr>"]
    by (auto simp: emit_heartbeat_def outlook_defs intro!: sound_quiet)
qed (use ok e start_sound [OF mac ok] receive_sound [OF mac ok] timer_sound [OF mac ok] refusals_sound [OF ok] subscribe_sound [OF ok] tear_down_sound(1) [OF ok]
    delivery_sound [OF ok] in \<open>auto simp: op_ok_def session_ok_def on_channel_error_def outlook_defs intro!: sound_quiet\<close>)

lemma session_run_sound:
  assumes mac: "mac_size env"
  shows "session_ok s \<Longrightarrow> list_all op_ok es \<Longrightarrow>
    \<exists>s' out. run_safe (session_step env) s es = Some (s', out) \<and> session_ok s' \<and> follow (status s) (lifecycle_edges out) = Some (status s')"
proof (induction es arbitrary: s)
  case (Cons e es)
  then obtain s1 out where s1: "session_step env s e = Some (s1, out)" "session_ok s1" "follow (status s) (lifecycle_edges out) = Some (status s1)"
    using session_step_sound [OF mac, of s e] by (auto simp: sound_def safely_def status_def split: if_splits)
  with Cons obtain s' out' where "run_safe (session_step env) s1 es = Some (s', out')" "session_ok s'" "follow (status s1) (lifecycle_edges out') = Some (status s')"
    by force
  with s1 show ?case by (simp add: follow_append)
qed simp

text \<open>
  C34. A session survives anything. Over every sequence of starts, arriving frames (any bytes), timer
  expiries, channel errors, subscriptions, heartbeats, teardowns and whatever the node's other sessions
  do to the shared forwarders in between, no step faults, and the lifecycle edges are well formed: a
  connect edge comes only while the peer is down and is \<open>connected\<close> exactly the first time ever,
  \<open>disconnected\<close> comes only while it is up, \<open>dead\<close> never, and the last of them agrees with whether the
  session counts as complete.
\<close>

theorem session_lifecycle:
  assumes "mac_size env" and "mf_ok messages" and "rpc_ok procedures" and "negotiator_ok neg" and "length (hc_self_id cfg) = 16" and "hk_lifecycle hooks"
    and "list_all op_ok es"
  shows "\<exists>s out. run_safe (session_step env) (peer_session_init env ctx ch cfg timeout messages procedures inbound hooks neg cs) es = Some (s, out)
     \<and> follow (False, pc_has_ever_connected ctx) (lifecycle_edges out) = Some (ss_forwarders_installed s, pc_has_ever_connected (ss_ctx s))"
proof -
  let ?s = "peer_session_init env ctx ch cfg timeout messages procedures inbound hooks neg cs"
  have "session_ok ?s" "status ?s = (False, pc_has_ever_connected ctx)" using assms by (simp_all add: session_ok_def peer_session_init_def status_def)
  with session_run_sound [OF assms(1), of ?s es] assms(7) show ?thesis by (auto simp: status_def [of "s :: 'a peer_session" for s])
qed

text \<open>A concrete session: an accepting one without security whose channels log what is sent.\<close>

definition logged_session_env :: "bytes list session_env" where
  "logged_session_env = \<lparr>ev_ops = \<lparr>co_can_poll = False, co_key = (\<lambda>_. 0), co_backpressured = (\<lambda>_. 0), co_capacity = None, co_send = (\<lambda>f c. c @ [f])\<rparr>,
     ev_scheme = (\<lambda>_. ''tcp''), ev_companion = (\<lambda>_ _ _. None), ev_wants_payload = (\<lambda>_. False), ev_send_object = None,
     ev_close = (\<lambda>c. c), ev_hmac = toy_hmac\<rparr>"

definition all_hooks :: session_hooks where
  "all_hooks = \<lparr>hk_drop = True, hk_stamp_seen = True, hk_security = True, hk_lifecycle = True, hk_subscribe_degraded = True, hk_message = False,
     hk_object_route = True, hk_subscribe_refused = True, hk_message_route = True, hk_message_with_info = False\<rparr>"

definition demo_context :: peer_context where
  "demo_context = \<lparr>pc_peer_id = replicate 16 2, pc_node_name = [2], pc_epochs = 0, pc_has_ever_connected = False, pc_same_host = False\<rparr>"

definition demo_config :: "u8 \<Rightarrow> handshake_fsm_config" where
  "demo_config i = \<lparr>hc_self_id = replicate 16 i, hc_version_major = 1, hc_version_minor = 0, hc_compatible_version_major = 1,
     hc_compatible_version_minor = 0, hc_local_fingerprint = 0, hc_attach_policy = None, hc_handshake_retry = 2\<rparr>"

definition demo_session :: "u8 \<Rightarrow> bool \<Rightarrow> bytes list peer_session" where
  "demo_session i inbound = peer_session_init logged_session_env demo_context 0 (demo_config i) 5000000000 (message_forwarder_init 0 (\<lambda>_. []))
     (procedure_forwarder_init 9000000 4 (\<lambda>_. [])) inbound all_hooks attach_negotiator_init (\<lambda>_. [])"

lemma logged_mac_size: "mac_size logged_session_env"
  using toy_hmac_length by (auto simp: mac_size_def logged_session_env_def)

lemma init_negotiator_ok: "negotiator_ok attach_negotiator_init"
  by (simp add: negotiator_ok_def attach_negotiator_init_def)

lemma demo_session_ok: "session_ok (demo_session i inbound)"
  by (simp add: session_ok_def demo_session_def peer_session_init_def rpc_init_ok demo_config_def init_negotiator_ok all_hooks_def)

theorem session_lifecycle_witness:
  "\<exists>s out. run_safe (session_step logged_session_env) (demo_session 1 True) [Op_start 1 None, Op_receive 2 [1, 2, 3], Op_start 3 None, Op_timer 4, Op_tear_down] = Some (s, out)
     \<and> follow (False, False) (lifecycle_edges out) = Some (ss_forwarders_installed s, pc_has_ever_connected (ss_ctx s))"
  using session_lifecycle [OF logged_mac_size mf_init_ok rpc_init_ok(1) init_negotiator_ok, of "demo_config 1" all_hooks
      "[Op_start 1 None, Op_receive 2 [1, 2, 3], Op_start 3 None, Op_timer 4, Op_tear_down]" demo_context 0 5000000000 0 "\<lambda>_. []" 9000000 4 "\<lambda>_. []" True "\<lambda>_. []"]
  by (simp add: demo_session_def demo_config_def all_hooks_def demo_context_def op_ok_def size_max_def)

section \<open>Stale frames\<close>

lemma epoch_run:
  assumes mac: "mac_size env"
  shows "session_ok s \<Longrightarrow> list_all op_ok es \<Longrightarrow> \<forall>now rand. Op_start now rand \<notin> set es \<Longrightarrow>
    \<exists>s' out. run_safe (session_step env) s es = Some (s', out) \<and> epoch_kept s s'"
proof (induction es arbitrary: s)
  case (Cons e es)
  then obtain s1 out where s1: "session_step env s e = Some (s1, out)" "session_ok s1" "epoch_kept s s1"
    using session_step_sound [OF mac, of s e] by (auto simp: sound_def safely_def split: if_splits)
  with Cons obtain s' out' where "run_safe (session_step env) s1 es = Some (s', out')" "epoch_kept s1 s'" by force
  with s1 show ?case using epoch_kept_trans by auto
qed simp

text \<open>
  C37. Once a session has latched its peer's epoch, and whatever happens to it afterwards short of being
  started again, a frame of another established epoch has no effect: nothing is delivered, answered,
  sent or changed.
\<close>

theorem stale_frames_ignored:
  assumes "mac_size env" and "session_ok s" and "ss_peer_session_id s = e" and "e \<noteq> 0" and "list_all op_ok es"
    and "\<forall>now rand. Op_start now rand \<notin> set es" and "header_view frame = Some hdr" and "fh_session_id hdr \<noteq> 0" and "fh_session_id hdr \<noteq> e"
  shows "\<exists>s' out. run_safe (session_step env) s es = Some (s', out) \<and> on_receive env now frame s' = Some (s', [])"
  using epoch_run [OF assms(1,2,5,6)] assms(3,4,7-9) by (auto simp: on_receive_def epoch_kept_def)

theorem stale_frames_ignored_witness:
  "\<exists>s' out. run_safe (session_step logged_session_env) ((demo_session 1 True)\<lparr>ss_peer_session_id := 7\<rparr>) [Op_heartbeat 1, Op_receive 2 []] = Some (s', out)
     \<and> on_receive logged_session_env 3 (rpc_frame 1 msg_rpc_request 6 [9]) s' = Some (s', [])"
  by (rule stale_frames_ignored [OF logged_mac_size, of _ 7 _ _ "\<lparr>fh_type = msg_rpc_request, fh_flags = 0, fh_session_id = 6, fh_timestamp_ns = 1, fh_payload_len = 1\<rparr>"])
    (simp_all add: demo_session_ok op_ok_def size_max_def rpc_frame_def frame_layout_def)

end
