(* ===== verification/Session_Handshake.thy ===== *)
theory Session_Handshake
  imports Session_Lifecycle
begin

text \<open>
  The handshake between two sessions from end to end, what restores a peer's subscriptions afterwards,
  and what the session does with frames the handshake did not vouch for.
\<close>

section \<open>Exact steps\<close>

lemma send_control_exact:
  "session_send_control env now type s = Some (s\<lparr>ss_frame_scratch := control_frame now type (ss_payload_scratch s),
     ss_channels := store_send (transport_env.truncate env) (ss_channel s) (control_frame now type (ss_payload_scratch s)) (ss_channels s)\<rparr>, [])"
  by (simp add: session_send_control_def control_frame_def encode_frame_into_layout Let_def)

definition listening :: "'c peer_session \<Rightarrow> bool" where
  "listening s \<longleftrightarrow> \<not> ss_torn_down s \<and> ss_router s = register_session_consumers"

lemmas msg_values = msg_unidirectional_def msg_handshake_req_def msg_handshake_resp_def msg_subscribe_def msg_unsubscribe_def msg_fetch_latched_def
  msg_rpc_request_def msg_rpc_response_def msg_subscribe_response_def msg_heartbeat_def

lemma receive_control:
  assumes "listening s"
  shows "on_receive env now (control_frame t msg_handshake_req inner) s = consume_handshake_req env now inner s"
    "on_receive env now (control_frame t msg_handshake_resp inner) s = consume_handshake_resp env now inner s"
    "on_receive env now (control_frame t msg_subscribe_response inner) s = on_subscribe_response_received inner s"
  using assms by (simp_all add: listening_def on_receive_def route_def dispatch_def control_frame_header msg_values register_session_consumers_def Let_def)

text \<open>The negotiator as it stands when a handshake frame is judged.\<close>

definition judged :: "attach_role \<Rightarrow> 'a handshake_request_scheme \<Rightarrow> 'c peer_session \<Rightarrow> attach_negotiator" where
  "judged role frame s = latch_peer_proof frame (assemble frame role (hs_id frame) (hc_self_id (ss_fsm_cfg s)) (hc_attach_policy (hf_cfg (ss_fsm s)) \<noteq> None) (ss_negotiator s))"

lemma judged_fields [simp]:
  "an_own_nonce (judged role frame s) = an_own_nonce (ss_negotiator s)" "an_key_id (judged role frame s) = an_key_id (ss_negotiator s)"
  "an_prover (judged role frame s) = an_prover (ss_negotiator s)" "an_install_hook (judged role frame s) = an_install_hook (ss_negotiator s)"
  "an_seam (judged role frame s) = an_seam (ss_negotiator s)" "seam_engaged (judged role frame s) = seam_engaged (ss_negotiator s)"
  by (simp_all add: judged_def latch_peer_proof_def assemble_def seam_engaged_def)

lemma judged_ok: "session_ok s \<Longrightarrow> session_ok (s\<lparr>ss_negotiator := judged role frame s\<rparr>)"
  by (simp add: session_ok_def negotiator_ok_def)

lemma consume_req_exact:
  assumes "handshake_wf req"
  shows "consume_handshake_req env now (handshake_layout req) s =
     (let n = judged responder req s in
      if posture_mismatched req n then Some (refuse_posture env (s\<lparr>ss_negotiator := n\<rparr>))
      else let (m, step) = on_request req (ss_is_inbound_bootstrap s) (pa_facts (an_pending n)) (ss_fsm s) in execute env now step (s\<lparr>ss_negotiator := n, ss_fsm := m\<rparr>))"
  using decode_handshake_request_layout [OF assms, of "[]"] by (simp add: consume_handshake_req_def judged_def Let_def)

lemma consume_resp_exact:
  assumes "handshake_wf resp"
  shows "consume_handshake_resp env now (handshake_layout resp @ [handshake_status_byte (hs_status resp)]) s =
     (let n = judged initiator resp s in
      if posture_mismatched resp n then Some (refuse_posture env (s\<lparr>ss_negotiator := n\<rparr>))
      else let (m, step) = on_response resp (pa_facts (an_pending n)) (ss_fsm s) in execute env now step (s\<lparr>ss_negotiator := n, ss_fsm := m\<rparr>))"
  using decode_handshake_response_layout [OF assms, of "[]"] by (simp add: consume_handshake_resp_def judged_def Let_def)

lemma admissible_completes:
  assumes "admissible (hf_cfg m) req facts" and "hf_state m = not_connected"
  shows "\<exists>m'. on_request req True facts m = (m', \<lparr>fr_action = act_complete, fr_outcome = accept_inbound, fr_dedup = dd_none\<rparr>)"
  using assms by (auto simp: fsm_defs admissible_def is_version_compatible_def split: option.splits)

lemma admissible_response_completes:
  assumes "admissible (hf_cfg m) resp facts" and "hs_status resp = hs_accepted" and "hf_state m = handshaking" and "\<not> hf_complete_emitted m" "\<not> hf_inbound_pending m"
  shows "\<exists>m'. on_response resp facts m = (m', \<lparr>fr_action = act_complete, fr_outcome = accept_outbound, fr_dedup = dd_none\<rparr>)"
  using assms by (auto simp: fsm_defs admissible_def is_version_compatible_def split: option.splits)

section \<open>Completion\<close>

text \<open>The accept can stand: nothing to protect, or a channel or a decorator that protects it.\<close>

definition can_protect :: "('c, 'x) session_env_scheme \<Rightarrow> 'c peer_session \<Rightarrow> bool" where
  "can_protect env s \<longleftrightarrow> \<not> seam_engaged (ss_negotiator s) \<or> an_install_hook (ss_negotiator s) \<or> channel_is_self_securing env s"

definition first_edge :: "'c peer_session \<Rightarrow> lifecycle_edge" where
  "first_edge s = (if pc_has_ever_connected (ss_ctx s) then le_reconnected else le_connected)"

lemma engaged_needs_seam: "pa_engaged (an_pending (judged role frame s)) \<Longrightarrow> seam_engaged (ss_negotiator s)"
  by (auto simp: judged_def latch_peer_proof_def assemble_def assemble_pending_def seam_engaged_def Let_def split: option.splits if_splits)

lemma install_reaches_resubscribe:
  assumes ok: "session_ok s" and down: "\<not> ss_forwarders_installed s" and prot: "pa_engaged (an_pending (ss_negotiator s)) \<longrightarrow> can_protect env s \<and> seam_engaged (ss_negotiator s)"
  shows "\<exists>s1 out1. install_or_refuse env now s = then_do (Some (s1, out1)) (\<lambda>s. then_do (resubscribe_all env now s) (\<lambda>s. Some (maybe_fire_ready s)))
     \<and> lifecycle_edges out1 = [first_edge s] \<and> session_ok s1 \<and> ss_forwarders_installed s1 \<and> ss_session_id s1 = epoch_next (pc_epochs (ss_ctx s))
     \<and> ss_channels s1 = ss_channels s \<and> ss_messages s1 = ss_messages s \<and> ss_outstanding_subscribes s1 = ss_outstanding_subscribes s
     \<and> ss_ready_latched s1 = ss_ready_latched s \<and> pc_node_name (ss_ctx s1) = pc_node_name (ss_ctx s) \<and> ss_channel s1 = ss_channel s
     \<and> ss_router s1 = ss_router s \<and> ss_torn_down s1 = ss_torn_down s \<and> ss_hooks s1 = ss_hooks s"
proof -
  define s0 where "s0 = record_same_host (s\<lparr>ss_timer_armed := False, ss_session_id := epoch_next (pc_epochs (ss_ctx s)),
     ss_ctx := (ss_ctx s)\<lparr>pc_epochs := epoch_next (pc_epochs (ss_ctx s))\<rparr>\<rparr>)"
  have scheme: "channel_is_self_securing env s0 = channel_is_self_securing env s" "ss_negotiator s0 = ss_negotiator s"
    by (simp_all add: s0_def record_same_host_def channel_is_self_securing_def)
  have "fst (snd (install_on_accept (channel_is_self_securing env s0) (ss_negotiator s0)))"
    using prot by (auto simp: install_on_accept_def can_protect_def scheme Let_def)
  then obtain n key where i: "install_on_accept (channel_is_self_securing env s0) (ss_negotiator s0) = (n, True, key)"
    by (cases "install_on_accept (channel_is_self_securing env s0) (ss_negotiator s0)") auto
  define outs where "outs = So_cancel_timer # (case key of Some neg \<Rightarrow> [So_install neg] | None \<Rightarrow> [])"
  define s2 where "s2 = s0\<lparr>ss_negotiator := n, ss_forwarders_installed := True\<rparr>"
  define s1 where "s1 = s2\<lparr>ss_ctx := (ss_ctx s2)\<lparr>pc_has_ever_connected := True\<rparr>\<rparr>"
  have n: "negotiator_ok n" using i ok by (auto simp: install_on_accept_def session_ok_def negotiator_ok_def scheme Let_def split: if_splits)
  have ok1: "session_ok s1" using ok n by (simp add: session_ok_def s1_def s2_def s0_def record_same_host_def)
  have edge: "fire_connect_edge s2 = (s1, fire_lifecycle (first_edge s) ho_none s1)"
    by (simp add: fire_connect_edge_def s1_def s2_def s0_def record_same_host_def first_edge_def Let_def)
  have "install_or_refuse env now s = then_do (Some (s1, outs @ fire_lifecycle (first_edge s) ho_none s1)) (\<lambda>s. then_do (resubscribe_all env now s) (\<lambda>s. Some (maybe_fire_ready s)))"
    by (simp add: install_or_refuse_def s0_def [symmetric] i s2_def [symmetric] edge then_do_def outs_def Let_def)
  moreover have "lifecycle_edges (outs @ fire_lifecycle (first_edge s) ho_none s1) = [first_edge s]"
    using ok1 by (simp add: fire_lifecycle_edges outs_def split: option.splits)
  ultimately show ?thesis using ok1
    by (intro exI [of _ s1] exI [of _ "outs @ fire_lifecycle (first_edge s) ho_none s1"]) (simp add: s1_def s2_def s0_def record_same_host_def)
qed

lemma install_without_demand:
  assumes "session_ok s" and "\<not> ss_forwarders_installed s" and "pa_engaged (an_pending (ss_negotiator s)) \<longrightarrow> can_protect env s \<and> seam_engaged (ss_negotiator s)"
    and none: "remembered_topics (pc_node_name (ss_ctx s)) (ss_messages s) = []" and fresh: "ss_outstanding_subscribes s = 0" "\<not> ss_ready_latched s"
  shows "\<exists>s' out. install_or_refuse env now s = Some (s', out) \<and> lifecycle_edges out = [first_edge s, le_ready] \<and> ss_forwarders_installed s'
     \<and> ss_session_id s' = epoch_next (pc_epochs (ss_ctx s)) \<and> ss_channels s' = ss_channels s"
proof -
  obtain s1 out1 where i: "install_or_refuse env now s = then_do (Some (s1, out1)) (\<lambda>s. then_do (resubscribe_all env now s) (\<lambda>s. Some (maybe_fire_ready s)))"
    "lifecycle_edges out1 = [first_edge s]" "session_ok s1" "ss_forwarders_installed s1" "ss_session_id s1 = epoch_next (pc_epochs (ss_ctx s))"
    "ss_channels s1 = ss_channels s" "ss_messages s1 = ss_messages s" "ss_outstanding_subscribes s1 = ss_outstanding_subscribes s"
    "ss_ready_latched s1 = ss_ready_latched s" "pc_node_name (ss_ctx s1) = pc_node_name (ss_ctx s)"
    using install_reaches_resubscribe [OF assms(1-3), of now] by auto
  have "resubscribe_all env now s1 = Some (s1, [])" using none by (simp add: resubscribe_all_def i)
  then show ?thesis using i fresh by (simp add: then_do_def maybe_fire_ready_def fire_lifecycle_edges)
qed

section \<open>Both ends\<close>

definition request_frame :: "u64 \<Rightarrow> 'c peer_session \<Rightarrow> bytes" where
  "request_frame now s = control_frame now msg_handshake_req (handshake_layout (self_request s))"

definition answer_frame :: "u64 \<Rightarrow> handshake_response \<Rightarrow> bytes" where
  "answer_frame now resp = control_frame now msg_handshake_resp (handshake_layout resp @ [handshake_status_byte (hs_status resp)])"

text \<open>A session as it is built for a first contact or a redial: nothing outstanding, the handshake not begun.\<close>

definition fresh_session :: "'c peer_session \<Rightarrow> bool" where
  "fresh_session s \<longleftrightarrow> session_ok s \<and> \<not> ss_forwarders_installed s \<and> ss_fsm s = handshake_fsm_init (ss_fsm_cfg s)
     \<and> ss_outstanding_subscribes s = 0 \<and> \<not> ss_ready_latched s \<and> remembered_topics (pc_node_name (ss_ctx s)) (ss_messages s) = []"

lemma self_request_cong:
  "ss_fsm_cfg s' = ss_fsm_cfg s \<Longrightarrow> ss_negotiator s' = ss_negotiator s \<Longrightarrow> self_request s' = self_request s"
  by (simp add: self_request_def)

text \<open>The dialer's start sends its request and leaves it listening for the answer.\<close>

lemma dialer_starts:
  assumes "fresh_session s" and "\<not> ss_is_inbound_bootstrap s" and "\<forall>nonce. rand = Some nonce \<longrightarrow> length nonce = 16"
  shows "\<exists>s' out. session_start env now rand s = Some (s', out) \<and> listening s' \<and> session_ok s' \<and> lifecycle_edges out = []
     \<and> ss_channels s' = store_send (transport_env.truncate env) (ss_channel s) (request_frame now s') (ss_channels s)
     \<and> ss_negotiator s' = prime_negotiator rand (ss_negotiator s) \<and> ss_fsm s' = (handshake_fsm_init (ss_fsm_cfg s))\<lparr>hf_state := handshaking\<rparr>
     \<and> ss_fsm_cfg s' = ss_fsm_cfg s \<and> ss_ctx s' = ss_ctx s \<and> ss_messages s' = ss_messages s \<and> \<not> ss_forwarders_installed s'
     \<and> ss_outstanding_subscribes s' = 0 \<and> \<not> ss_ready_latched s' \<and> \<not> ss_is_inbound_bootstrap s' \<and> ss_channel s' = ss_channel s"
proof -
  define s1 where "s1 = s\<lparr>ss_torn_down := False, ss_closed_for_protocol_error := False, ss_negotiator := prime_negotiator rand (ss_negotiator s),
     ss_router := register_session_consumers, ss_timer_armed := True, ss_fsm := (handshake_fsm_init (ss_fsm_cfg s))\<lparr>hf_state := handshaking\<rparr>\<rparr>"
  have "negotiator_ok (prime_negotiator rand (ss_negotiator s))"
    using assms(1,3) by (auto simp: fresh_session_def session_ok_def negotiator_ok_def prime_negotiator_def Let_def split: option.splits)
  then have ok: "session_ok s1" using assms(1) by (simp add: fresh_session_def session_ok_def s1_def)
  define s' where "s' = s1\<lparr>ss_payload_scratch := handshake_layout (self_request s1), ss_frame_scratch := request_frame now s1,
     ss_channels := store_send (transport_env.truncate env) (ss_channel s) (request_frame now s1) (ss_channels s)\<rparr>"
  have sent: "send_handshake_request env now s1 = Some (s', [])"
    using self_request_wf [OF ok] by (simp add: send_handshake_request_def wire_layout send_control_exact s'_def request_frame_def s1_def)
  have "session_start env now rand s = Some (s', [So_arm_timer (whole_milliseconds (ss_handshake_timeout s))])"
    using assms(1,2) sent by (simp add: session_start_def arm_handshake_timer_def fsm_drive_def execute_def fresh_session_def on_dial_started_def on_outbound_connected_def
      handshake_fsm_init_def step_none_def then_do_def s1_def Let_def)
  moreover have "self_request s' = self_request s1" by (rule self_request_cong) (simp_all add: s'_def)
  then have "request_frame now s1 = request_frame now s'" by (simp add: request_frame_def)
  ultimately show ?thesis using assms ok by (simp add: s'_def [symmetric]) (simp add: s'_def s1_def listening_def fresh_session_def)
qed

lemma acceptor_starts:
  assumes "fresh_session s" and "ss_is_inbound_bootstrap s" and "\<forall>nonce. rand = Some nonce \<longrightarrow> length nonce = 16"
  shows "\<exists>s' out. session_start env now rand s = Some (s', out) \<and> listening s' \<and> fresh_session s' \<and> ss_is_inbound_bootstrap s' \<and> ss_channels s' = ss_channels s
     \<and> ss_negotiator s' = prime_negotiator rand (ss_negotiator s) \<and> ss_fsm_cfg s' = ss_fsm_cfg s \<and> ss_ctx s' = ss_ctx s \<and> ss_channel s' = ss_channel s"
proof -
  have "negotiator_ok (prime_negotiator rand (ss_negotiator s))"
    using assms(1,3) by (auto simp: fresh_session_def session_ok_def negotiator_ok_def prime_negotiator_def Let_def split: option.splits)
  with assms show ?thesis by (simp add: session_start_def arm_handshake_timer_def then_do_def Let_def) (simp add: listening_def fresh_session_def session_ok_def)
qed

lemma completion_exact:
  assumes ok: "session_ok s" and down: "\<not> ss_forwarders_installed s" "ss_outstanding_subscribes s = 0" "\<not> ss_ready_latched s"
    and none: "remembered_topics (pc_node_name (ss_ctx s)) (ss_messages s) = []"
    and prot: "pa_engaged (an_pending (ss_negotiator s)) \<longrightarrow> can_protect env s \<and> seam_engaged (ss_negotiator s)" and mac: "mac_size env"
  shows "\<exists>s' out. on_complete env now s = Some (s', out) \<and> lifecycle_edges out = [first_edge s, le_ready] \<and> ss_forwarders_installed s'
     \<and> ss_session_id s' = epoch_next (pc_epochs (ss_ctx s))
     \<and> ss_channels s' = (if ss_is_inbound_bootstrap s
          then store_send (transport_env.truncate env) (ss_channel s) (answer_frame now (handshake_answer (ev_hmac env) accept_inbound s)) (ss_channels s)
          else ss_channels s)"
proof -
  let ?a = "handshake_answer (ev_hmac env) accept_inbound s"
  define s1 where "s1 = (if ss_is_inbound_bootstrap s then s\<lparr>ss_payload_scratch := handshake_layout ?a @ [handshake_status_byte (hs_status ?a)],
     ss_frame_scratch := answer_frame now ?a, ss_channels := store_send (transport_env.truncate env) (ss_channel s) (answer_frame now ?a) (ss_channels s)\<rparr> else s)"
  have "(if ss_is_inbound_bootstrap s then send_handshake_response env now accept_inbound s else Some (s, [])) = Some (s1, [])"
    using handshake_answer_wf [OF mac ok, of accept_inbound] by (simp add: send_handshake_response_def wire_layout send_control_exact s1_def answer_frame_def)
  then have "on_complete env now s = then_do (Some (s1, [])) (install_or_refuse env now)" using down by (simp add: on_complete_def)
  moreover have "\<exists>s' out. install_or_refuse env now s1 = Some (s', out) \<and> lifecycle_edges out = [first_edge s1, le_ready] \<and> ss_forwarders_installed s'
     \<and> ss_session_id s' = epoch_next (pc_epochs (ss_ctx s1)) \<and> ss_channels s' = ss_channels s1"
    by (rule install_without_demand) (use assms in \<open>simp_all add: s1_def can_protect_def channel_is_self_securing_def\<close>)
  ultimately show ?thesis by (auto simp: then_do_def s1_def first_edge_def)
qed

lemma acceptor_answers:
  fixes req :: handshake_request
  assumes fresh: "fresh_session s" "listening s" "ss_is_inbound_bootstrap s" and req: "handshake_wf req" "(hs_cipher_offer req \<noteq> 0) = seam_engaged (ss_negotiator s)"
    and adm: "admissible (ss_fsm_cfg s) req (pa_facts (an_pending (judged responder req s)))" and prot: "can_protect env s" and mac: "mac_size env"
  shows "\<exists>s' out. on_receive env now (control_frame t msg_handshake_req (handshake_layout req)) s = Some (s', out) \<and> lifecycle_edges out = [first_edge s, le_ready]
     \<and> ss_forwarders_installed s' \<and> ss_session_id s' = epoch_next (pc_epochs (ss_ctx s))
     \<and> ss_channels s' = store_send (transport_env.truncate env) (ss_channel s)
          (answer_frame now (handshake_answer (ev_hmac env) accept_inbound (s\<lparr>ss_negotiator := judged responder req s\<rparr>))) (ss_channels s)"
proof -
  let ?n = "judged responder req s"
  obtain m where m: "on_request req True (pa_facts (an_pending ?n)) (ss_fsm s) = (m, \<lparr>fr_action = act_complete, fr_outcome = accept_inbound, fr_dedup = dd_none\<rparr>)"
    using admissible_completes [of "ss_fsm s" req] adm fresh(1) by (auto simp: fresh_session_def handshake_fsm_init_def)
  let ?s = "s\<lparr>ss_negotiator := ?n, ss_fsm := m\<rparr>"
  have same: "\<not> posture_mismatched req ?n" using req(2) by (simp add: posture_mismatched_def)
  have "on_receive env now (control_frame t msg_handshake_req (handshake_layout req)) s = on_complete env now ?s"
    using m same fresh(3) by (simp add: receive_control [OF fresh(2)] consume_req_exact [OF req(1)] execute_def Let_def)
  moreover have "session_ok ?s" using fresh(1) by (simp add: fresh_session_def judged_ok)
  moreover have "handshake_answer (ev_hmac env) accept_inbound ?s = handshake_answer (ev_hmac env) accept_inbound (s\<lparr>ss_negotiator := ?n\<rparr>)"
    by (simp add: handshake_answer_def self_request_def)
  ultimately show ?thesis using completion_exact [of ?s env now] fresh prot mac engaged_needs_seam [of responder req s]
    by (simp add: fresh_session_def can_protect_def channel_is_self_securing_def first_edge_def)
qed

lemma dialer_completes:
  fixes resp :: handshake_response
  assumes s: "session_ok s" "listening s" "\<not> ss_is_inbound_bootstrap s" "ss_fsm s = (handshake_fsm_init (ss_fsm_cfg s))\<lparr>hf_state := handshaking\<rparr>"
      "\<not> ss_forwarders_installed s" "ss_outstanding_subscribes s = 0" "\<not> ss_ready_latched s" "remembered_topics (pc_node_name (ss_ctx s)) (ss_messages s) = []"
    and resp: "handshake_wf resp" "hs_status resp = hs_accepted" "(hs_cipher_offer resp \<noteq> 0) = seam_engaged (ss_negotiator s)"
    and adm: "admissible (ss_fsm_cfg s) resp (pa_facts (an_pending (judged initiator resp s)))" and prot: "can_protect env s" and mac: "mac_size env"
  shows "\<exists>s' out. on_receive env now (answer_frame t resp) s = Some (s', out) \<and> lifecycle_edges out = [first_edge s, le_ready]
     \<and> ss_forwarders_installed s' \<and> ss_session_id s' = epoch_next (pc_epochs (ss_ctx s))"
proof -
  let ?n = "judged initiator resp s"
  obtain m where m: "on_response resp (pa_facts (an_pending ?n)) (ss_fsm s) = (m, \<lparr>fr_action = act_complete, fr_outcome = accept_outbound, fr_dedup = dd_none\<rparr>)"
    using admissible_response_completes [of "ss_fsm s" resp "pa_facts (an_pending ?n)"] adm resp(2) by (auto simp: s(4) handshake_fsm_init_def)
  let ?s = "s\<lparr>ss_negotiator := ?n, ss_fsm := m\<rparr>"
  have same: "\<not> posture_mismatched resp ?n" using resp(3) by (simp add: posture_mismatched_def)
  have "on_receive env now (answer_frame t resp) s = on_complete env now ?s"
    using m same by (simp add: answer_frame_def receive_control [OF s(2)] consume_resp_exact [OF resp(1)] execute_def Let_def)
  moreover have "session_ok ?s" using s(1) by (simp add: judged_ok)
  ultimately show ?thesis using completion_exact [of ?s env now] s prot mac engaged_needs_seam [of initiator resp s]
    by (fastforce simp: can_protect_def channel_is_self_securing_def first_edge_def)
qed

lemma epoch_next_nonzero: "epoch_next e \<noteq> 0"
  by (simp add: epoch_next_def Let_def)

lemma answer_fields:
  "hs_status (handshake_answer hmac accept_inbound s) = hs_accepted" "hs_cipher_offer (handshake_answer hmac o' s) = cipher_offer (ss_negotiator s)"
  by (simp_all add: handshake_answer_def handshake_request.defs handshake_response.defs status_for_def self_request_def Let_def)

lemma offer_posture: "(cipher_offer n \<noteq> 0) = seam_engaged n"
  by (simp add: cipher_offer_def cipher_chacha20_poly1305_def)

lemma prime_seam [simp]: "an_seam (prime_negotiator rand n) = an_seam n" "seam_engaged (prime_negotiator rand n) = seam_engaged n"
  "an_install_hook (prime_negotiator rand n) = an_install_hook n"
  by (simp_all add: prime_negotiator_def seam_engaged_def Let_def split: option.splits)

text \<open>
  C35. The handshake from end to end. A dialing and an accepting session start; each one's policy admits
  what the other sends, both sides are secured or neither is, and a secured side has a channel or a
  decorator to protect. Then the request the dialer sends makes the acceptor answer with exactly one
  frame and complete, that frame makes the dialer complete, and on both sides the session carries a new
  non-zero epoch and exactly the connect edge and the ready edge have fired, in this order.
\<close>

theorem handshake_end_to_end:
  fixes a :: "'c peer_session" and b :: "'d peer_session"
  assumes a: "fresh_session a" "\<not> ss_is_inbound_bootstrap a" and b: "fresh_session b" "ss_is_inbound_bootstrap b"
    and rand: "length nonce_a = 16" "length nonce_b = 16" and mac: "mac_size env_a" "mac_size env_b"
    and start: "session_start env_a t0 (Some nonce_a) a = Some (a1, out_a)" "session_start env_b t1 (Some nonce_b) b = Some (b1, out_b)"
    and posture: "seam_engaged (ss_negotiator a) = seam_engaged (ss_negotiator b)" and prot: "can_protect env_a a" "can_protect env_b b"
    and answer: "answer = handshake_answer (ev_hmac env_b) accept_inbound (b1\<lparr>ss_negotiator := judged responder (self_request a1) b1\<rparr>)"
    and admits: "admissible (ss_fsm_cfg b) (self_request a1) (pa_facts (an_pending (judged responder (self_request a1) b1)))"
      "admissible (ss_fsm_cfg a) answer (pa_facts (an_pending (judged initiator answer a1)))"
  shows "\<exists>b2 out_b' a2 out_a'. ss_channels a1 = store_send (transport_env.truncate env_a) (ss_channel a) (request_frame t0 a1) (ss_channels a)
     \<and> on_receive env_b t2 (request_frame t0 a1) b1 = Some (b2, out_b')
     \<and> ss_channels b2 = store_send (transport_env.truncate env_b) (ss_channel b) (answer_frame t2 answer) (ss_channels b)
     \<and> on_receive env_a t3 (answer_frame t2 answer) a1 = Some (a2, out_a')
     \<and> ss_forwarders_installed a2 \<and> ss_session_id a2 \<noteq> 0 \<and> lifecycle_edges (out_a @ out_a') = [first_edge a, le_ready]
     \<and> ss_forwarders_installed b2 \<and> ss_session_id b2 \<noteq> 0 \<and> lifecycle_edges out_b' = [first_edge b, le_ready]"
proof -
  have sa: "listening a1" "session_ok a1" "lifecycle_edges out_a = []"
     "ss_channels a1 = store_send (transport_env.truncate env_a) (ss_channel a) (request_frame t0 a1) (ss_channels a)"
     "ss_negotiator a1 = prime_negotiator (Some nonce_a) (ss_negotiator a)" "ss_fsm a1 = (handshake_fsm_init (ss_fsm_cfg a))\<lparr>hf_state := handshaking\<rparr>"
     "ss_fsm_cfg a1 = ss_fsm_cfg a" "ss_ctx a1 = ss_ctx a" "ss_messages a1 = ss_messages a" "\<not> ss_forwarders_installed a1"
     "ss_outstanding_subscribes a1 = 0" "\<not> ss_ready_latched a1" "\<not> ss_is_inbound_bootstrap a1" "ss_channel a1 = ss_channel a"
    using dialer_starts [OF a, of "Some nonce_a" env_a t0] rand start(1) by auto
  have sb: "listening b1" "fresh_session b1" "ss_is_inbound_bootstrap b1" "ss_channels b1 = ss_channels b"
     "ss_negotiator b1 = prime_negotiator (Some nonce_b) (ss_negotiator b)" "ss_fsm_cfg b1 = ss_fsm_cfg b" "ss_ctx b1 = ss_ctx b" "ss_channel b1 = ss_channel b"
    using acceptor_starts [OF b, of "Some nonce_b" env_b t1] rand start(2) by auto
  have req: "handshake_wf (self_request a1)" "(hs_cipher_offer (self_request a1) \<noteq> 0) = seam_engaged (ss_negotiator b1)"
    using self_request_wf [OF sa(2)] offer_posture [of "ss_negotiator a1"] posture by (simp_all add: self_request_def sa sb Let_def)
  have protb: "can_protect env_b b1" using prot(2) by (simp add: can_protect_def channel_is_self_securing_def sb)
  obtain b2 out_b' where b2: "on_receive env_b t2 (request_frame t0 a1) b1 = Some (b2, out_b')" "lifecycle_edges out_b' = [first_edge b, le_ready]" "ss_forwarders_installed b2"
    "ss_session_id b2 = epoch_next (pc_epochs (ss_ctx b))" "ss_channels b2 = store_send (transport_env.truncate env_b) (ss_channel b) (answer_frame t2 answer) (ss_channels b)"
    using acceptor_answers [OF sb(2,1,3) req _ protb mac(2), of t2 t0] admits(1) unfolding request_frame_def answer
    by (auto simp: sb first_edge_def)
  have okb: "session_ok (b1\<lparr>ss_negotiator := judged responder (self_request a1) b1\<rparr>)"
    using sb(2) by (simp add: fresh_session_def judged_ok)
  have ans: "handshake_wf answer" "hs_status answer = hs_accepted" "(hs_cipher_offer answer \<noteq> 0) = seam_engaged (ss_negotiator a1)"
    using handshake_answer_wf [OF mac(2) okb] offer_posture [of "judged responder (self_request a1) b1"] posture by (simp_all add: answer answer_fields sa sb)
  have prota: "can_protect env_a a1" using prot(1) by (simp add: can_protect_def channel_is_self_securing_def sa)
  have quiet: "remembered_topics (pc_node_name (ss_ctx a1)) (ss_messages a1) = []" using a(1) by (simp add: fresh_session_def sa)
  obtain a2 out_a' where a2: "on_receive env_a t3 (answer_frame t2 answer) a1 = Some (a2, out_a')" "lifecycle_edges out_a' = [first_edge a, le_ready]" "ss_forwarders_installed a2"
    "ss_session_id a2 = epoch_next (pc_epochs (ss_ctx a))"
    using dialer_completes [OF sa(2,1,13) _ sa(10-12) quiet ans _ prota mac(1), of t3 t2] admits(2) by (auto simp: sa first_edge_def)
  show ?thesis using sa(3,4) a2 b2 epoch_next_nonzero by auto
qed

lemma demo_fresh: "fresh_session (demo_session i inbound)" "ss_is_inbound_bootstrap (demo_session i inbound) = inbound"
  "ss_fsm_cfg (demo_session i inbound) = demo_config i" "can_protect env (demo_session i inbound)" "\<not> seam_engaged (ss_negotiator (demo_session i inbound))"
  "ss_channels (demo_session i inbound) = (\<lambda>_. [])" "ss_channel (demo_session i inbound) = 0" "first_edge (demo_session i inbound) = le_connected"
  using demo_session_ok [of i inbound]
  by (simp_all add: fresh_session_def demo_session_def peer_session_init_def remembered_topics_def message_forwarder_init_def can_protect_def
    attach_negotiator_init_def seam_engaged_def first_edge_def demo_context_def)

lemma demo_admits:
  assumes "hs_id frame = replicate 16 j" "i \<noteq> j" "hs_protocol_version frame = k_protocol_version" "hs_version_major frame = 1" "hs_version_minor frame = 0"
  shows "admissible (demo_config i) frame facts"
  using assms by (simp add: admissible_def demo_config_def)

theorem handshake_end_to_end_witness:
  "\<exists>a1 out_a b1 out_b b2 out_b' a2 out_a' req answer.
     session_start logged_session_env 1 (Some (replicate 16 4)) (demo_session 1 False) = Some (a1, out_a) \<and> ss_channels a1 0 = [req]
     \<and> session_start logged_session_env 1 (Some (replicate 16 5)) (demo_session 2 True) = Some (b1, out_b)
     \<and> on_receive logged_session_env 2 req b1 = Some (b2, out_b') \<and> ss_channels b2 0 = [answer]
     \<and> on_receive logged_session_env 3 answer a1 = Some (a2, out_a') \<and> ss_forwarders_installed a2 \<and> ss_forwarders_installed b2
     \<and> lifecycle_edges (out_a @ out_a') = [le_connected, le_ready] \<and> lifecycle_edges out_b' = [le_connected, le_ready]"
proof -
  let ?e = logged_session_env and ?a = "demo_session 1 False" and ?b = "demo_session 2 True"
  obtain a1 out_a where a1: "session_start ?e 1 (Some (replicate 16 4)) ?a = Some (a1, out_a)" "ss_fsm_cfg a1 = demo_config 1"
    using dialer_starts [OF demo_fresh(1) [of 1 False], of "Some (replicate 16 4)" ?e 1] by (auto simp: demo_fresh)
  obtain b1 out_b where b1: "session_start ?e 1 (Some (replicate 16 5)) ?b = Some (b1, out_b)" "ss_fsm_cfg b1 = demo_config 2"
    using acceptor_starts [OF demo_fresh(1) [of 2 True], of "Some (replicate 16 5)" ?e 1] by (auto simp: demo_fresh)
  define answer where "answer = handshake_answer (ev_hmac ?e) accept_inbound (b1\<lparr>ss_negotiator := judged responder (self_request a1) b1\<rparr>)"
  have req: "admissible (ss_fsm_cfg ?b) (self_request a1) f" for f unfolding demo_fresh(3)
    by (rule demo_admits [of _ 1]) (simp_all add: self_request_def a1 demo_config_def Let_def)
  have resp: "admissible (ss_fsm_cfg ?a) answer f" for f unfolding demo_fresh(3)
    by (rule demo_admits [of _ 2]) (simp_all add: answer_def handshake_answer_def handshake_request.defs handshake_response.defs self_request_def b1 demo_config_def Let_def)
  have sent: "store_send (transport_env.truncate ?e) 0 frame (\<lambda>_. []) 0 = [frame]" for frame
    by (simp add: store_send_def logged_session_env_def transport_env.defs)
  obtain b2 out_b' a2 out_a' where r: "ss_channels a1 0 = [request_frame 1 a1]" "on_receive ?e 2 (request_frame 1 a1) b1 = Some (b2, out_b')"
    "ss_channels b2 0 = [answer_frame 2 answer]" "on_receive ?e 3 (answer_frame 2 answer) a1 = Some (a2, out_a')" "ss_forwarders_installed a2" "ss_forwarders_installed b2"
    "lifecycle_edges (out_a @ out_a') = [le_connected, le_ready]" "lifecycle_edges out_b' = [le_connected, le_ready]"
    using handshake_end_to_end [OF demo_fresh(1) _ demo_fresh(1) _ _ _ logged_mac_size logged_mac_size a1(1) b1(1) _ demo_fresh(4) demo_fresh(4) answer_def req resp,
      of 2 3] sent by (auto simp: demo_fresh simp del: lifecycle_edges_append)
  show ?thesis using a1 b1 r by blast
qed

section \<open>Restoring the subscriptions\<close>

abbreviation peer_refs :: "'c peer_session \<Rightarrow> bytes \<Rightarrow> u32" where
  "peer_refs s fqn \<equiv> rc_count (rg_refcount (mf_registry (ss_messages s))) (pc_node_name (ss_ctx s)) fqn"

lemma attach_fresh:
  assumes "rc_count (rg_refcount (mf_registry f)) (pr_node_name p) fqn = 0"
  shows "\<exists>f' outs. mf_attach env now p fqn q t f = Some (f', True, outs)
     \<and> (\<forall>fqn'. rc_count (rg_refcount (mf_registry f')) (pr_node_name p) fqn' = (if fqn' = fqn then 1 else rc_count (rg_refcount (mf_registry f)) (pr_node_name p) fqn'))"
proof -
  define b where "b = rc_bump (pr_node_name p) fqn (rg_refcount (mf_registry f))"
  have "snd b = 1" using assms by (simp add: b_def)
  then show ?thesis
    by (simp add: mf_attach_def attach_gate_def bump_refcount_def b_def [symmetric] split_beta Let_def send_subscribe_def endpoint_send_subscribe_def wire_layout
        send_control_eq on_registry_def record_remote_topic_def add_subscriber_def) (simp add: b_def assms)
qed

lemma subscribe_fresh:
  assumes "session_ok s" and "peer_refs s fqn = 0"
  shows "\<exists>f cs out. session_subscribe env now fqn q t s = Some (s\<lparr>ss_messages := f, ss_channels := cs, ss_outstanding_subscribes := ss_outstanding_subscribes s + 1\<rparr>, out)
     \<and> lifecycle_edges out = [] \<and> mf_ok f
     \<and> (\<forall>fqn'. rc_count (rg_refcount (mf_registry f)) (pc_node_name (ss_ctx s)) fqn' = (if fqn' = fqn then 1 else peer_refs s fqn'))"
proof -
  let ?f = "(ss_messages s)\<lparr>mf_channels := ss_channels s\<rparr>"
  obtain f outs where f: "mf_attach env now (session_peer s) fqn q t ?f = Some (f, True, outs)"
    "\<forall>fqn'. rc_count (rg_refcount (mf_registry f)) (pc_node_name (ss_ctx s)) fqn' = (if fqn' = fqn then 1 else peer_refs s fqn')"
    using attach_fresh [of ?f "session_peer s" fqn env now q t] assms(2) by (auto simp: session_peer_def)
  have "mf_ok ?f" using assms(1) by (simp add: session_ok_def)
  from mf_attach_safe [OF this, of env now "session_peer s" fqn q t] have "mf_ok f" using f(1) by (simp add: safely_def)
  then show ?thesis using f by (auto simp: session_subscribe_def messages_call_def)
qed

lemma subscribe_each_fresh:
  assumes "session_ok s" and "distinct (map rd_fqn ds)" and "\<forall>d\<in>set ds. peer_refs s (rd_fqn d) = 0"
  shows "\<exists>f cs out. subscribe_each env now ds s = Some (s\<lparr>ss_messages := f, ss_channels := cs,
       ss_outstanding_subscribes := ss_outstanding_subscribes s + of_nat (length ds)\<rparr>, out) \<and> lifecycle_edges out = [] \<and> mf_ok f"
  using assms
proof (induction ds arbitrary: s)
  case Nil
  then show ?case by (intro exI [of _ "ss_messages s"] exI [of _ "ss_channels s"] exI [of _ "[]"]) (simp add: session_ok_def)
next
  case (Cons d ds)
  obtain f cs out where sub: "session_subscribe env now (rd_fqn d) (rd_qos d) (rd_type_id d) s
      = Some (s\<lparr>ss_messages := f, ss_channels := cs, ss_outstanding_subscribes := ss_outstanding_subscribes s + 1\<rparr>, out)" "lifecycle_edges out = []" "mf_ok f"
    and refs: "\<forall>fqn'. rc_count (rg_refcount (mf_registry f)) (pc_node_name (ss_ctx s)) fqn' = (if fqn' = rd_fqn d then 1 else peer_refs s fqn')"
    using subscribe_fresh [of s "rd_fqn d" env now "rd_qos d" "rd_type_id d"] Cons.prems by auto
  let ?s = "s\<lparr>ss_messages := f, ss_channels := cs, ss_outstanding_subscribes := ss_outstanding_subscribes s + 1\<rparr>"
  have "session_ok ?s" using Cons.prems(1) sub(3) by (simp add: session_ok_def)
  moreover have "\<forall>d'\<in>set ds. peer_refs ?s (rd_fqn d') = 0"   proof
    fix d' assume "d' \<in> set ds"
    then have "rd_fqn d' \<noteq> rd_fqn d" "peer_refs s (rd_fqn d') = 0" using Cons.prems(2,3) by (auto simp: image_iff)
    then show "peer_refs ?s (rd_fqn d') = 0" using refs by simp
  qed
  ultimately obtain f' cs' out' where "subscribe_each env now ds ?s = Some (?s\<lparr>ss_messages := f', ss_channels := cs',
       ss_outstanding_subscribes := ss_outstanding_subscribes ?s + of_nat (length ds)\<rparr>, out')" "lifecycle_edges out' = []" "mf_ok f'"
    using Cons.IH [of ?s] Cons.prems(2) by auto
  then show ?case using sub by (intro exI [of _ f'] exI [of _ cs'] exI [of _ "out @ out'"]) (simp add: then_do_def add.assoc)
qed

fun refusals :: "session_output list \<Rightarrow> (u64 \<times> subscribe_status) list" where
  "refusals [] = []"
| "refusals (So_refused h st # outs) = (h, st) # refusals outs"
| "refusals (_ # outs) = refusals outs"

lemma refusals_append [simp]: "refusals (a @ b) = refusals a @ refusals b"
  by (induction a rule: refusals.induct) auto

definition refusing :: "subscribe_response list \<Rightarrow> (u64 \<times> subscribe_status) list" where
  "refusing rs = map (\<lambda>r. (sp_topic_hash r, sp_status r)) (filter (\<lambda>r. is_refusal (sp_status r)) rs)"

definition answer_op :: "u64 \<Rightarrow> bytes \<Rightarrow> 'c session_op" where
  "answer_op now inner = Op_receive now (control_frame now msg_subscribe_response inner)"

lemma refusals_ready [simp]: "refusals (fire_lifecycle e r s) = []"
  by (simp add: fire_lifecycle_def)

lemma surfaced:
  assumes "hk_subscribe_refused (ss_hooks s)"
  shows "refusals (surface_subscribe_outcome r s) = refusing [r]" "lifecycle_edges (surface_subscribe_outcome r s) = []"
  using assms by (auto simp: surface_subscribe_outcome_def refusing_def)

lemma u16_nonzero: "0 < n \<Longrightarrow> n < 2 ^ 16 \<Longrightarrow> (of_nat n :: u16) \<noteq> 0"
  by (simp add: word_of_nat_eq_0_iff nat_dvd_not_less)

lemma late_answers:
  assumes "listening s" and "list_all2 (\<lambda>i r. decode_subscribe_response i = Some (Some r)) is rs" and "ss_outstanding_subscribes s = 0"
  shows "\<exists>out. run_safe (session_step env) s (map (answer_op now) is) = Some (s, out) \<and> lifecycle_edges out = [] \<and> refusals out = []"
  using assms(2)
proof (induction rule: list_all2_induct)
  case (Cons i "is" r rs)
  then show ?case using assms(1,3) by (auto simp: answer_op_def receive_control on_subscribe_response_received_def)
qed simp

lemma answers_count_down:
  assumes "list_all2 (\<lambda>i r. decode_subscribe_response i = Some (Some r)) is rs"
    and "session_ok s" "listening s" "\<not> ss_ready_latched s" "hk_subscribe_refused (ss_hooks s)" "ss_outstanding_subscribes s = of_nat n" "0 < n" "n < 2 ^ 16"
  shows "\<exists>s' out. run_safe (session_step env) s (map (answer_op now) is) = Some (s', out)
     \<and> lifecycle_edges out = (if n \<le> length is then [le_ready] else []) \<and> refusals out = refusing (take n rs)"
  using assms
proof (induction arbitrary: s n rule: list_all2_induct)
  case Nil
  then show ?case by (simp add: refusing_def)
next
  case (Cons i "is" r rs)
  let ?s = "s\<lparr>ss_outstanding_subscribes := of_nat (n - 1)\<rparr>"
  have nz: "ss_outstanding_subscribes s \<noteq> 0" using Cons.prems u16_nonzero [of n] by simp
  have sub: "ss_outstanding_subscribes s - 1 = of_nat (n - 1)" using Cons.prems by (cases n) simp_all
  have out: "refusals (surface_subscribe_outcome r s) = refusing [r]" "lifecycle_edges (surface_subscribe_outcome r s) = []"
    using surfaced Cons.prems(4) by auto
  have step: "session_step env s (answer_op now i) = Some (fst (maybe_fire_ready ?s), surface_subscribe_outcome r s @ snd (maybe_fire_ready ?s))"
    using Cons.hyps(1) nz sub Cons.prems(2) by (simp add: answer_op_def receive_control on_subscribe_response_received_def split_beta Let_def)
  show ?case
  proof (cases "n = 1")
    case True
    have ready: "maybe_fire_ready ?s = (?s\<lparr>ss_ready_latched := True\<rparr>, fire_lifecycle le_ready ho_none ?s)"
      using True Cons.prems(3) by (simp add: maybe_fire_ready_def)
    have "listening (?s\<lparr>ss_ready_latched := True\<rparr>)" using Cons.prems(2) by (simp add: listening_def)
    from late_answers [OF this Cons.hyps(2), of env now] obtain out' where
      "run_safe (session_step env) (?s\<lparr>ss_ready_latched := True\<rparr>) (map (answer_op now) is) = Some (?s\<lparr>ss_ready_latched := True\<rparr>, out')"
      "lifecycle_edges out' = []" "refusals out' = []" using True by auto
    then show ?thesis using step [unfolded ready] out Cons.prems(1) True by (simp add: fire_lifecycle_edges)
  next
    case False
    have "(of_nat (n - 1) :: u16) \<noteq> 0" using False Cons.prems(6,7) by (intro u16_nonzero) simp_all
    then have ready: "maybe_fire_ready ?s = (?s, [])" by (simp add: maybe_fire_ready_def)
    have "\<exists>s' out. run_safe (session_step env) ?s (map (answer_op now) is) = Some (s', out)
       \<and> lifecycle_edges out = (if n - 1 \<le> length is then [le_ready] else []) \<and> refusals out = refusing (take (n - 1) rs)"
      by (rule Cons.IH) (use Cons.prems False in \<open>auto simp: listening_def\<close>)
    then show ?thesis using step [unfolded ready] out False Cons.prems(6) by (cases n) (auto simp: refusing_def)
  qed
qed


definition reconnecting_session :: "bytes list peer_session" where
  "reconnecting_session = (demo_session 1 False)\<lparr>ss_router := register_session_consumers,
     ss_messages := record_remote_topic [2] [1] default_subscriber_qos None (message_forwarder_init 0 (\<lambda>_. []))\<rparr>"


section \<open>Frames the handshake did not vouch for\<close>

lemma inadmissible_aborts:
  assumes "\<not> admissible (hf_cfg m) req facts"
  shows "\<exists>m' o'. on_request req boot facts m = (m', step_none\<lparr>fr_action := act_abort, fr_outcome := o'\<rparr>)"
  using assms by (auto simp: fsm_defs admissible_def is_version_compatible_def split: option.splits)

text \<open>Closing a session that is not torn down: the edges it fires and the state it leaves.\<close>

lemma close_exact:
  assumes "session_ok s" and "\<not> ss_torn_down s"
  shows "\<exists>s' out. close_for_protocol_error env s = (s', out) \<and> lifecycle_edges out = (if ss_forwarders_installed s then [le_disconnected] else [])
     \<and> ss_torn_down s' \<and> \<not> ss_forwarders_installed s'"
proof -
  let ?s = "s\<lparr>ss_closed_for_protocol_error := True\<rparr>"
  have ok: "session_ok ?s" using assms(1) by simp
  obtain s' out where td: "tear_down env ?s = (s', out)" by fastforce
  have "ss_torn_down s'" using td by (auto simp: tear_down_def split_beta Let_def)
  moreover have "\<not> ss_forwarders_installed s'" using tear_down_sound(2) [OF ok, of env] td by simp
  moreover have "lifecycle_edges out = (if ss_forwarders_installed s then [le_disconnected] else [])"
    using td assms(1) by (auto simp: tear_down_def split_beta Let_def fire_lifecycle_def session_ok_def)
  ultimately show ?thesis using td assms(2) by (simp add: close_for_protocol_error_def)
qed

lemma refused_request:
  fixes req :: handshake_request
  assumes s: "session_ok s" "listening s" and req: "handshake_wf req"
    and bad: "posture_mismatched req (judged responder req s) \<or> \<not> admissible (hf_cfg (ss_fsm s)) req (pa_facts (an_pending (judged responder req s)))"
  shows "\<exists>s' out. on_receive env now (control_frame t msg_handshake_req (handshake_layout req)) s = Some (s', out)
     \<and> lifecycle_edges out = le_rejected # (if ss_forwarders_installed s then [le_disconnected] else []) \<and> ss_torn_down s' \<and> \<not> ss_forwarders_installed s'"
proof -
  let ?n = "judged responder req s"
  have ok: "session_ok (s\<lparr>ss_negotiator := ?n\<rparr>)" using s(1) by (rule judged_ok)
  show ?thesis
  proof (cases "posture_mismatched req ?n")
    case True
    let ?c = "s\<lparr>ss_negotiator := clear_identity ?n\<rparr>"
    have okc: "session_ok ?c" using ok by (simp add: session_ok_def negotiator_ok_def clear_identity_def)
    from close_exact [OF this, of env] s(2) True show ?thesis using okc
      by (auto simp: receive_control [OF s(2)] consume_req_exact [OF req] refuse_posture_def fire_lifecycle_edges listening_def Let_def)
  next
    case False
    then obtain m o' where m: "on_request req (ss_is_inbound_bootstrap s) (pa_facts (an_pending ?n)) (ss_fsm s) = (m, step_none\<lparr>fr_action := act_abort, fr_outcome := o'\<rparr>)"
      using bad inadmissible_aborts by blast
    have okm: "session_ok (s\<lparr>ss_negotiator := ?n, ss_fsm := m\<rparr>)" using ok by simp
    from close_exact [OF this, of env] s(2) show ?thesis using okm m False
      by (auto simp: receive_control [OF s(2)] consume_req_exact [OF req] execute_def on_abort_def fire_lifecycle_edges listening_def Let_def)
  qed
qed

text \<open>
  C38. A handshake request is judged again on a session that is already complete: one the gate does not
  admit, say of another protocol version, tears the established session down, and both edges fire,
  \<open>rejected\<close> and then \<open>disconnected\<close>.
\<close>

theorem late_request_closes:
  assumes "session_ok s" "listening s" "ss_forwarders_installed s" "handshake_wf (req :: handshake_request)"
    and "posture_mismatched req (judged responder req s) \<or> \<not> admissible (hf_cfg (ss_fsm s)) req (pa_facts (an_pending (judged responder req s)))"
  shows "\<exists>s' out. on_receive env now (control_frame t msg_handshake_req (handshake_layout req)) s = Some (s', out)
     \<and> lifecycle_edges out = [le_rejected, le_disconnected] \<and> ss_torn_down s' \<and> \<not> ss_forwarders_installed s'"
  using refused_request [OF assms(1,2,4,5), of env now t] assms(3) by simp

definition stray_request :: handshake_request where
  "stray_request = (self_request (demo_session 2 False))\<lparr>hs_protocol_version := k_protocol_version + 1\<rparr>"

theorem late_request_closes_witness:
  "\<exists>s' out. on_receive logged_session_env 1 (control_frame 0 msg_handshake_req (handshake_layout stray_request))
       ((demo_session 1 True)\<lparr>ss_router := register_session_consumers, ss_forwarders_installed := True\<rparr>) = Some (s', out)
     \<and> lifecycle_edges out = [le_rejected, le_disconnected] \<and> ss_torn_down s' \<and> \<not> ss_forwarders_installed s'"
proof (rule late_request_closes)
  let ?s = "(demo_session 1 True)\<lparr>ss_router := register_session_consumers, ss_forwarders_installed := True\<rparr>"
  show "session_ok ?s" by (simp add: demo_session_ok)
  show "listening ?s" "ss_forwarders_installed ?s" by (simp_all add: listening_def demo_session_def peer_session_init_def)
  show "handshake_wf stray_request" using self_request_wf [OF demo_session_ok, of 2 False] by (simp add: stray_request_def handshake_wf_def)
  have "hs_protocol_version stray_request \<noteq> k_protocol_version" by (simp add: stray_request_def)
  then show "posture_mismatched stray_request (judged responder stray_request ?s)
     \<or> \<not> admissible (hf_cfg (ss_fsm ?s)) stray_request (pa_facts (an_pending (judged responder stray_request ?s)))" by (simp add: admissible_def)
qed


definition guarded_session :: "(attach_facts \<Rightarrow> bool) \<Rightarrow> bytes list peer_session" where
  "guarded_session policy = (demo_session 1 True)\<lparr>ss_router := register_session_consumers,
     ss_fsm := handshake_fsm_init ((demo_config 1)\<lparr>hc_attach_policy := Some policy\<rparr>)\<rparr>"

lemma guarded_session_ok: "session_ok (guarded_session policy)" "listening (guarded_session policy)" "\<not> ss_forwarders_installed (guarded_session policy)"
  "hc_attach_policy (hf_cfg (ss_fsm (guarded_session policy))) = Some policy"
  by (simp_all add: guarded_session_def demo_session_ok listening_def handshake_fsm_init_def) (simp_all add: demo_session_def peer_session_init_def)


text \<open>
  C40. The session routes frames before the handshake has completed. On a listening session that is not
  complete, whatever its attach policy decides, even one that admits nobody, a request frame for a served
  procedure is dispatched to the provider.
\<close>

theorem request_served_before_handshake:
  assumes s: "session_ok s" "listening s" "\<not> ss_forwarders_installed s" "hc_attach_policy (hf_cfg (ss_fsm s)) = Some policy"
    and req: "decode_rpc_request inner = Some (Some d)" and served: "pf_hash_to_fqn (ss_procedures s) (bh_topic_hash (rq_header d)) = Some fqn"
      "pf_providers (ss_procedures s) fqn = Some handler"
  shows "\<exists>s' out. on_receive env now (rpc_frame t msg_rpc_request 0 inner) s = Some (s', out) \<and> So_rpc (Rpc_dispatch handler (rq_param_data d)) \<in> set out
     \<and> \<not> ss_forwarders_installed s'"
proof -
  have "deliver_request (transport_env.truncate env) now (session_peer s) inner (ss_session_id s) ((ss_procedures s)\<lparr>pf_channels := ss_channels s\<rparr>)
      = Some (((ss_procedures s)\<lparr>pf_channels := ss_channels s\<rparr>)\<lparr>pf_active_channel := Some (pr_channel (session_peer s)), pf_active_req_hdr := rq_header d,
          pf_active_session_id := ss_session_id s\<rparr>, [Rpc_serve_seen fqn (bh_correlation_id (rq_header d)), Rpc_dispatch handler (rq_param_data d)])"
    by (rule request_dispatch) (use req served in simp_all)
  then show ?thesis using s(2,3)
    by (simp add: listening_def on_receive_def route_def dispatch_def rpc_frame_def frame_layout_def msg_values register_session_consumers_def procedures_call_def Let_def)
qed

theorem request_served_before_handshake_witness:
  "\<exists>s' out. on_receive logged_session_env 1 (rpc_frame 0 msg_rpc_request 0 (demo_request_bytes 5))
       ((guarded_session (\<lambda>_. False))\<lparr>ss_procedures := rpc_serve [1] 3 (procedure_forwarder_init 9000000 4 (\<lambda>_. []))\<rparr>) = Some (s', out)
     \<and> So_rpc (Rpc_dispatch 3 [9]) \<in> set out \<and> \<not> ss_forwarders_installed s'"
proof -
  let ?s = "(guarded_session (\<lambda>_. False))\<lparr>ss_procedures := rpc_serve [1] 3 (procedure_forwarder_init 9000000 4 (\<lambda>_. []))\<rparr>"
  let ?d = "\<lparr>rq_header = \<lparr>bh_source = source_caller, bh_sequence = 0, bh_topic_hash = fqn_topic_hash [1], bh_type_hash_1 = 0, bh_type_hash_2 = 0, bh_correlation_id = 5\<rparr>,
    rq_param_data = [9]\<rparr>"
  have d: "decode_rpc_request (demo_request_bytes 5) = Some (Some ?d)" by (simp add: decode_rpc_request_def demo_request_bytes_def decode_bidirectional_layout)
  have "rpc_ok (rpc_serve [1] 3 (procedure_forwarder_init 9000000 4 (\<lambda>_. [])))"
    using serve_retire_account(1) [OF rpc_init_ok(1,2)] by (fastforce simp: rpc_accounts_def)
  then have "session_ok ?s" using guarded_session_ok(1) [of "\<lambda>_. False"] by (simp add: session_ok_def)
  moreover have "listening ?s" "\<not> ss_forwarders_installed ?s" "hc_attach_policy (hf_cfg (ss_fsm ?s)) = Some (\<lambda>_. False)"
    using guarded_session_ok [of "\<lambda>_. False"] by (simp_all add: listening_def)
  ultimately show ?thesis using request_served_before_handshake [OF _ _ _ _ d, of ?s "\<lambda>_. False" "[1]" 3 logged_session_env 1 0] by (simp add: rpc_serve_def)
qed

end
