(* ===== verification/Spec2Isabelle.thy ===== *)
theory Spec2Isabelle
  imports Data_Frame Handshake_Codec Subscribe_Codec Announcement Crc_Serial Stream_Inbound Dedup_Window Reliable_Arq
    Udp_Channel_Order Serial_Channel Handshake_Fsm Message_Fanout Session_Handshake
begin

text \<open>
  A verification development of Plexus, a C++ middleware for typed publish/subscribe and remote calls
  over streams, datagrams and serial links.
\<close>

end
